(* ===== verification/Ray_Prelude.thy ===== *)
theory Ray_Prelude
  imports
    Complex_Main
    "HOL-Library.Multiset"
    "HOL-Library.AList"
    "HOL-Library.Char_ord"
    "HOL-Library.List_Lexorder"
    "HOL-Library.Product_Lexorder"
begin

text \<open>
  The vocabulary every component of the development shares.

  \<^item> Python exceptions are values of \<open>py_error\<close>; a fallible operation returns
    \<open>'a result\<close>, \<open>Inl\<close> being the exception. \<open>bindE\<close> sequences such
    operations and \<open>foldE\<close> is a \<open>for\<close> loop whose body may raise.
  \<^item> A Python dict is an association list in insertion order (\<open>dict\<close>): iteration order is
    observable in the modelled code. \<open>dset\<close> overwrites in place or appends, \<open>ddel\<close>
    deletes, \<open>dget_or\<close> is \<open>d.get(k, default)\<close>, \<open>dindex\<close> is \<open>d[k]\<close>
    with its KeyError. \<open>wf_dict\<close> says that no key occurs twice.
  \<^item> \<open>sorted_reverse\<close> is Python's \<open>sorted(xs, key=..., reverse=True)\<close>, which keeps
    elements with equal keys in their original order.
  \<^item> \<open>invariant_system\<close> is the interface of a state machine: an initial state, a
    step relation and an invariant both respect; the lemma that lifts the invariant to every
    reachable state is proved once, inside the locale.
\<close>

section \<open>Collections of rewrite rules\<close>

named_theorems result_simps \<open>evaluation of the error monad\<close>
named_theorems dict_simps \<open>lookups and keys of updated dictionaries\<close>
named_theorems count_simps \<open>sums of counters stored in dictionaries\<close>

section \<open>Exceptions as values\<close>

datatype py_error =
    AssertionError
  | KeyError
  | IndexError
  | ValueError
  | TypeError
  | StopIteration
  | TimeoutError
  | RuntimeError
  | AttributeError
  | ZeroDivisionError
  | TuneError
  | QueueFull
  | QueueEmpty
  | Full
  | Empty

type_synonym 'a result = "py_error + 'a"

definition bindE :: "'a result \<Rightarrow> ('a \<Rightarrow> 'b result) \<Rightarrow> 'b result" where
  "bindE m f = (case m of Inl e \<Rightarrow> Inl e | Inr x \<Rightarrow> f x)"

definition assertE :: "bool \<Rightarrow> unit result" where
  "assertE b = (if b then Inr () else Inl AssertionError)"

fun foldE :: "('s \<Rightarrow> 'x \<Rightarrow> 's result) \<Rightarrow> 's \<Rightarrow> 'x list \<Rightarrow> 's result" where
  "foldE f s [] = Inr s"
| "foldE f s (x # xs) = bindE (f s x) (\<lambda>s'. foldE f s' xs)"

fun mapE :: "('x \<Rightarrow> 'y result) \<Rightarrow> 'x list \<Rightarrow> 'y list result" where
  "mapE f [] = Inr []"
| "mapE f (x # xs) = bindE (f x) (\<lambda>y. bindE (mapE f xs) (\<lambda>ys. Inr (y # ys)))"

lemma bindE_Inl [simp]: "bindE (Inl e) f = Inl e"
  by (simp add: bindE_def)

lemma bindE_Inr [simp]: "bindE (Inr x) f = f x"
  by (simp add: bindE_def)

lemma bindE_eq_Inr_iff [result_simps]:
  "bindE m f = Inr y \<longleftrightarrow> (\<exists>x. m = Inr x \<and> f x = Inr y)"
  by (cases m) auto

lemma bindE_eq_Inl_iff [result_simps]:
  "bindE m f = Inl e \<longleftrightarrow> m = Inl e \<or> (\<exists>x. m = Inr x \<and> f x = Inl e)"
  by (cases m) auto

lemma bindE_cong [fundef_cong]:
  "m = m' \<Longrightarrow> (\<And>x. m' = Inr x \<Longrightarrow> f x = g x) \<Longrightarrow> bindE m f = bindE m' g"
  by (cases m') auto

lemma assertE_eq_Inr [simp]: "assertE b = Inr u \<longleftrightarrow> b"
  by (simp add: assertE_def)

lemma assertE_True [simp]: "assertE True = Inr ()"
  by (simp add: assertE_def)

lemma foldE_append:
  "foldE f s (xs @ ys) = bindE (foldE f s xs) (\<lambda>s'. foldE f s' ys)"
proof (induction xs arbitrary: s)
  case Nil
  then show ?case by simp
next
  case (Cons x xs)
  then show ?case by (cases "f s x") simp_all
qed

lemma foldE_invariant:
  assumes "P s" and "foldE f s xs = Inr s'"
    and "\<And>s x t. P s \<Longrightarrow> x \<in> set xs \<Longrightarrow> f s x = Inr t \<Longrightarrow> P t"
  shows "P s'"
  using assms
proof (induction xs arbitrary: s)
  case Nil
  then show ?case by simp
next
  case (Cons x xs)
  obtain t where t: "f s x = Inr t" "foldE f t xs = Inr s'"
    using Cons.prems(2) by (auto simp: result_simps)
  have "P t" using Cons.prems(3) [OF Cons.prems(1) _ t(1)] by simp
  then show ?case
    by (rule Cons.IH [OF _ t(2)]) (rule Cons.prems(3), simp_all)
qed

lemma foldE_history:
  assumes "P zs s" and "foldE f s xs = Inr s'"
    and "\<And>ys s x t. P ys s \<Longrightarrow> x \<in> set xs \<Longrightarrow> f s x = Inr t \<Longrightarrow> P (ys @ [x]) t"
  shows "P (zs @ xs) s'"
  using assms
proof (induction xs arbitrary: zs s)
  case Nil
  then show ?case by simp
next
  case (Cons x xs)
  obtain t where t: "f s x = Inr t" "foldE f t xs = Inr s'"
    using Cons.prems(2) by (auto simp: result_simps)
  have "P (zs @ [x]) t" using Cons.prems(3) [OF Cons.prems(1) _ t(1)] by simp
  then have "P ((zs @ [x]) @ xs) s'"
    by (rule Cons.IH [OF _ t(2)]) (rule Cons.prems(3), simp_all)
  then show ?case by simp
qed

lemma foldE_total:
  assumes "P s"
    and "\<And>s x. P s \<Longrightarrow> x \<in> set xs \<Longrightarrow> \<exists>t. f s x = Inr t \<and> P t"
  shows "\<exists>s'. foldE f s xs = Inr s' \<and> P s'"
  using assms
proof (induction xs arbitrary: s)
  case Nil
  then show ?case by simp
next
  case (Cons x xs)
  obtain t where t: "f s x = Inr t" "P t"
    using Cons.prems(2) [OF Cons.prems(1), of x] by auto
  have "\<exists>s'. foldE f t xs = Inr s' \<and> P s'"
    by (rule Cons.IH [OF t(2)]) (rule Cons.prems(2), simp_all)
  then show ?case using t(1) by simp
qed

lemma mapE_Inr_iff:
  "mapE f xs = Inr ys \<longleftrightarrow> list_all2 (\<lambda>x y. f x = Inr y) xs ys"
  by (induction xs arbitrary: ys) (auto simp: result_simps list_all2_Cons1)

section \<open>Dictionaries in insertion order\<close>

type_synonym ('k, 'v) dict = "('k \<times> 'v) list"

abbreviation dset :: "('k, 'v) dict \<Rightarrow> 'k \<Rightarrow> 'v \<Rightarrow> ('k, 'v) dict" where
  "dset d k v \<equiv> AList.update k v d"

abbreviation ddel :: "('k, 'v) dict \<Rightarrow> 'k \<Rightarrow> ('k, 'v) dict" where
  "ddel d k \<equiv> AList.delete k d"

abbreviation dkeys :: "('k, 'v) dict \<Rightarrow> 'k list" where
  "dkeys d \<equiv> map fst d"

abbreviation dvalues :: "('k, 'v) dict \<Rightarrow> 'v list" where
  "dvalues d \<equiv> map snd d"

definition wf_dict :: "('k, 'v) dict \<Rightarrow> bool" where
  "wf_dict d \<longleftrightarrow> distinct (dkeys d)"

definition dget_or :: "('k, 'v) dict \<Rightarrow> 'k \<Rightarrow> 'v \<Rightarrow> 'v" where
  "dget_or d k v = (case map_of d k of None \<Rightarrow> v | Some x \<Rightarrow> x)"

definition dindex :: "('k, 'v) dict \<Rightarrow> 'k \<Rightarrow> 'v result" where
  "dindex d k = (case map_of d k of None \<Rightarrow> Inl KeyError | Some x \<Rightarrow> Inr x)"

definition dmem :: "'k \<Rightarrow> ('k, 'v) dict \<Rightarrow> bool" where
  "dmem k d \<longleftrightarrow> map_of d k \<noteq> None"

lemma wf_dict_Nil [simp]: "wf_dict []"
  by (simp add: wf_dict_def)

lemma wf_dict_Cons [simp]: "wf_dict (p # d) \<longleftrightarrow> fst p \<notin> set (dkeys d) \<and> wf_dict d"
  by (simp add: wf_dict_def)

lemma wf_dict_dset [simp, intro]: "wf_dict d \<Longrightarrow> wf_dict (dset d k v)"
  by (simp add: wf_dict_def distinct_update)

lemma wf_dict_ddel [simp, intro]: "wf_dict d \<Longrightarrow> wf_dict (ddel d k)"
  by (simp add: wf_dict_def distinct_delete)

lemma map_of_dset [simp]: "map_of (dset d k v) = (map_of d)(k \<mapsto> v)"
  by (simp add: update_conv')

lemma map_of_ddel [simp]: "map_of (ddel d k) = (map_of d)(k := None)"
  by (simp add: delete_conv')

lemma dmem_iff [dict_simps]: "dmem k d \<longleftrightarrow> k \<in> set (dkeys d)"
  by (auto simp: dmem_def map_of_eq_None_iff)

lemma dkeys_dset [dict_simps]: "set (dkeys (dset d k v)) = insert k (set (dkeys d))"
  by (simp add: dom_update)

lemma dkeys_ddel [dict_simps]: "set (dkeys (ddel d k)) = set (dkeys d) - {k}"
  by (induction d) auto

lemma dset_same_keys: "k \<in> set (dkeys d) \<Longrightarrow> dkeys (dset d k v) = dkeys d"
  by (simp add: update_keys)

lemma dset_fresh: "k \<notin> set (dkeys d) \<Longrightarrow> dset d k v = d @ [(k, v)]"
  by (induction d) auto

lemma length_dset: "length (dset d k v) \<le> Suc (length d)"
  by (induction d) auto

lemma set_dset_subset: "set (dset d k v) \<subseteq> insert (k, v) (set d)"
  by (induction d) auto

lemma dget_or_Nil [simp]: "dget_or [] k v = v"
  by (simp add: dget_or_def)

lemma dget_or_dset [simp]:
  "dget_or (dset d k v) k' w = (if k' = k then v else dget_or d k' w)"
  by (simp add: dget_or_def)

lemma dget_or_notin: "k \<notin> set (dkeys d) \<Longrightarrow> dget_or d k v = v"
  by (simp add: dget_or_def map_of_eq_None_iff [THEN iffD2])

lemma dget_or_in: "wf_dict d \<Longrightarrow> (k, x) \<in> set d \<Longrightarrow> dget_or d k v = x"
  by (simp add: dget_or_def wf_dict_def)

lemma dindex_Inr_iff [result_simps]: "dindex d k = Inr v \<longleftrightarrow> map_of d k = Some v"
  by (auto simp: dindex_def split: option.splits)

lemma dindex_Some [simp]: "map_of d k = Some v \<Longrightarrow> dindex d k = Inr v"
  by (simp add: dindex_def)

section \<open>Counters in dictionaries\<close>

definition dtotal :: "('k, 'v::comm_monoid_add) dict \<Rightarrow> 'v" where
  "dtotal d = sum_list (dvalues d)"

lemma dtotal_Nil [simp]: "dtotal [] = 0"
  by (simp add: dtotal_def)

lemma dtotal_Cons [simp]: "dtotal (p # d) = snd p + dtotal d"
  by (simp add: dtotal_def)

lemma dtotal_dset [count_simps]:
  fixes d :: "('k, 'v::ab_group_add) dict"
  assumes "wf_dict d"
  shows "dtotal (dset d k v) = dtotal d - dget_or d k 0 + v"
  using assms
proof (induction d)
  case Nil
  then show ?case by simp
next
  case (Cons p d)
  then show ?case
    by (cases p) (simp add: dget_or_def algebra_simps)
qed

lemma dtotal_eq_sum:
  assumes "wf_dict d"
  shows "dtotal d = (\<Sum>k\<in>set (dkeys d). dget_or d k 0)"
  using assms
proof (induction d)
  case Nil
  then show ?case by simp
next
  case (Cons p d)
  have notin: "fst p \<notin> set (dkeys d)" and wf: "wf_dict d" using Cons.prems by simp_all
  have "(\<Sum>k\<in>set (dkeys d). dget_or (p # d) k 0) = (\<Sum>k\<in>set (dkeys d). dget_or d k 0)"
  proof (rule sum.cong [OF refl])
    fix k assume "k \<in> set (dkeys d)"
    then have "k \<noteq> fst p" using notin by blast
    then show "dget_or (p # d) k 0 = dget_or d k 0" by (cases p) (simp add: dget_or_def)
  qed
  moreover have "dget_or (p # d) (fst p) 0 = snd p"
    by (cases p) (simp add: dget_or_def)
  ultimately show ?case using Cons.IH notin wf by simp
qed

section \<open>Sorting in descending order of a key\<close>

definition sorted_reverse :: "('a \<Rightarrow> 'k::linorder) \<Rightarrow> 'a list \<Rightarrow> 'a list" where
  "sorted_reverse key xs = rev (sort_key key (rev xs))"

lemma mset_sorted_reverse [simp]: "mset (sorted_reverse key xs) = mset xs"
  by (simp add: sorted_reverse_def)

lemma set_sorted_reverse [simp]: "set (sorted_reverse key xs) = set xs"
  by (simp add: sorted_reverse_def)

lemma length_sorted_reverse [simp]: "length (sorted_reverse key xs) = length xs"
  by (simp add: sorted_reverse_def)

lemma sorted_reverse_Nil [simp]: "sorted_reverse key [] = []"
  by (simp add: sorted_reverse_def)

lemma sorted_reverse_ordered:
  "sorted_wrt (\<lambda>x y. key y \<le> key x) (sorted_reverse key xs)"
proof -
  have "sorted_wrt (\<lambda>x y. key x \<le> key y) (sort_key key (rev xs))"
    using sorted_sort_key [of key "rev xs"] by (simp add: sorted_map)
  then show ?thesis by (simp add: sorted_reverse_def sorted_wrt_rev)
qed

lemma sorted_reverse_hd_max:
  assumes "x \<in> set xs"
  shows "key x \<le> key (hd (sorted_reverse key xs))"
proof (cases "sorted_reverse key xs")
  case Nil
  then show ?thesis using assms by (metis empty_iff list.set(1) set_sorted_reverse)
next
  case (Cons y ys)
  then have "x = y \<or> x \<in> set ys"
    using assms set_sorted_reverse [of key xs] by auto
  then show ?thesis
    using sorted_reverse_ordered [of key xs] Cons by auto
qed

section \<open>State machines\<close>

inductive reaches :: "('s \<Rightarrow> 's \<Rightarrow> bool) \<Rightarrow> 's \<Rightarrow> 's \<Rightarrow> bool" for step where
  reaches_refl: "reaches step s s"
| reaches_step: "reaches step s t \<Longrightarrow> step t u \<Longrightarrow> reaches step s u"

lemma reaches_one: "step s t \<Longrightarrow> reaches step s t"
  using reaches_step [of step s s t] reaches_refl [of step s] by blast

lemma reaches_trans: "reaches step t u \<Longrightarrow> reaches step s t \<Longrightarrow> reaches step s u"
  by (induction rule: reaches.induct) (auto intro: reaches_step)

locale invariant_system =
  fixes initial :: "'s \<Rightarrow> bool"
    and step :: "'s \<Rightarrow> 's \<Rightarrow> bool"
    and invar :: "'s \<Rightarrow> bool"
  assumes initial_invar: "initial s \<Longrightarrow> invar s"
    and step_invar: "invar s \<Longrightarrow> step s t \<Longrightarrow> invar t"
begin

lemma reaches_invar:
  assumes "reaches step s t" and "initial s"
  shows "invar t"
  using assms by (induction rule: reaches.induct) (auto intro: initial_invar step_invar)

lemma reaches_keeps:
  assumes "reaches step s t" and "invar s"
  shows "invar t"
  using assms by (induction rule: reaches.induct) (auto intro: step_invar)

end

section \<open>Numbers\<close>

text \<open>\<open>int(x)\<close> of a float truncates towards zero.\<close>

definition py_int :: "rat \<Rightarrow> int" where
  "py_int x = (if x < 0 then \<lceil>x\<rceil> else \<lfloor>x\<rfloor>)"

text \<open>\<open>str(n)\<close> of a Python int.\<close>

fun str_nat :: "nat \<Rightarrow> string" where
  "str_nat n =
     (if n < 10 then [char_of (48 + n)] else str_nat (n div 10) @ [char_of (48 + n mod 10)])"

declare str_nat.simps [simp del]

definition str_int :: "int \<Rightarrow> string" where
  "str_int i = (if i < 0 then CHR ''-'' # str_nat (nat (- i)) else str_nat (nat i))"

end
