(* ===== verification/Resources.thy ===== *)
theory Resources
  imports Ray_Prelude
begin

text \<open>
  Resource dictionaries of the autoscaler and the three loops over them at the end of
  \<open>resource_demand_scheduler.py\<close>: \<open>_fits\<close>, \<open>_inplace_subtract\<close> and
  \<open>_inplace_add\<close>; the preprocessing of placement groups into demand vectors
  (\<open>placement_groups_to_resource_demands\<close>); and the memory-unit conversion of
  \<open>ray_constants.py\<close>. Quantities are exact rationals: the code's floats are used
  without their rounding.
\<close>

section \<open>Resource dictionaries\<close>

type_synonym resource_dict = "(string, rat) dict"

text \<open>\<open>d.get(k, 0)\<close>: an absent resource counts as none.\<close>

definition amount :: "resource_dict \<Rightarrow> string \<Rightarrow> rat" where
  "amount d k = dget_or d k 0"

fun fits :: "resource_dict \<Rightarrow> resource_dict \<Rightarrow> bool" where
  "fits node [] = True"
| "fits node ((k, v) # rs) = (if v > dget_or node k 0 then False else fits node rs)"

fun inplace_subtract :: "resource_dict \<Rightarrow> resource_dict \<Rightarrow> resource_dict result" where
  "inplace_subtract node [] = Inr node"
| "inplace_subtract node ((k, v) # rs) =
     (case map_of node k of
        None \<Rightarrow> Inl AssertionError
      | Some a \<Rightarrow>
          if a - v \<ge> 0 then inplace_subtract (dset node k (a - v)) rs
          else Inl AssertionError)"

text \<open>
  \<open>a\<close> is a \<open>defaultdict\<close> at every call of \<open>_inplace_add\<close>, so a missing key
  starts from zero.
\<close>

fun inplace_add :: "('k, 'v::{zero,plus}) dict \<Rightarrow> ('k, 'v) dict \<Rightarrow> ('k, 'v) dict" where
  "inplace_add a [] = a"
| "inplace_add a ((k, v) # b) = inplace_add (dset a k (dget_or a k 0 + v)) b"

definition nonneg :: "resource_dict \<Rightarrow> bool" where
  "nonneg d \<longleftrightarrow> (\<forall>(k, v) \<in> set d. 0 \<le> v)"

definition positive :: "resource_dict \<Rightarrow> bool" where
  "positive d \<longleftrightarrow> (\<forall>(k, v) \<in> set d. 0 < v)"

section \<open>Placement groups\<close>

datatype placement_strategy = PACK | SPREAD | STRICT_PACK | STRICT_SPREAD | UNKNOWN_STRATEGY int

record placement_group =
  pg_strategy :: placement_strategy
  pg_bundles :: "resource_dict list"

fun combine_shapes :: "resource_dict \<Rightarrow> resource_dict list \<Rightarrow> resource_dict" where
  "combine_shapes combined [] = combined"
| "combine_shapes combined (shape # shapes) = combine_shapes (inplace_add combined shape) shapes"

fun placement_groups_to_resource_demands ::
  "placement_group list \<Rightarrow> resource_dict list \<times> resource_dict list list" where
  "placement_groups_to_resource_demands [] = ([], [])"
| "placement_groups_to_resource_demands (pg # pgs) =
     (let (demands, unconverted) = placement_groups_to_resource_demands pgs;
          shapes = pg_bundles pg
      in case pg_strategy pg of
           PACK \<Rightarrow> (shapes @ demands, unconverted)
         | SPREAD \<Rightarrow> (shapes @ demands, unconverted)
         | STRICT_PACK \<Rightarrow> (combine_shapes [] shapes # demands, unconverted)
         | STRICT_SPREAD \<Rightarrow> (demands, shapes # unconverted)
         | UNKNOWN_STRATEGY _ \<Rightarrow> (demands, unconverted))"

section \<open>Memory units\<close>

definition MEMORY_RESOURCE_UNIT_BYTES :: rat where
  "MEMORY_RESOURCE_UNIT_BYTES = 1"

definition to_memory_units :: "rat \<Rightarrow> bool \<Rightarrow> int result" where
  "to_memory_units memory_bytes round_up =
     (let value = memory_bytes / MEMORY_RESOURCE_UNIT_BYTES
      in if value < 1 then Inl ValueError
         else if value \<notin> \<int> then Inr (if round_up then \<lceil>value\<rceil> else \<lfloor>value\<rfloor>)
         else Inr \<lfloor>value\<rfloor>)"

definition from_memory_units :: "int \<Rightarrow> rat" where
  "from_memory_units memory_units = of_int memory_units * MEMORY_RESOURCE_UNIT_BYTES"

definition round_to_memory_units :: "rat \<Rightarrow> bool \<Rightarrow> rat result" where
  "round_to_memory_units memory_bytes round_up =
     bindE (to_memory_units memory_bytes round_up) (\<lambda>u. Inr (from_memory_units u))"

section \<open>Lemmas on amounts\<close>

lemma amount_Nil [simp]: "amount [] k = 0"
  by (simp add: amount_def)

lemma amount_Cons: "amount ((k', v) # d) k = (if k = k' then v else amount d k)"
  by (simp add: amount_def dget_or_def)

lemma amount_dset [simp]: "amount (dset d k v) k' = (if k' = k then v else amount d k')"
  by (simp add: amount_def)

lemma amount_notin: "k \<notin> set (dkeys d) \<Longrightarrow> amount d k = 0"
  by (simp add: amount_def dget_or_notin)

lemma amount_in: "wf_dict d \<Longrightarrow> (k, v) \<in> set d \<Longrightarrow> amount d k = v"
  by (simp add: amount_def dget_or_in)

lemma positive_nonneg: "positive d \<Longrightarrow> nonneg d"
  by (auto simp: positive_def nonneg_def)

lemma nonneg_amount: "nonneg d \<Longrightarrow> 0 \<le> amount d k"
  by (auto simp: nonneg_def amount_def dget_or_def split: option.splits dest!: map_of_SomeD)

lemma amount_nonneg_iff:
  "wf_dict d \<Longrightarrow> (\<forall>k. 0 \<le> amount d k) \<longleftrightarrow> nonneg d"
  by (auto simp: nonneg_amount) (fastforce simp: nonneg_def dest: amount_in)

lemma nonneg_dset: "nonneg d \<Longrightarrow> 0 \<le> v \<Longrightarrow> nonneg (dset d k v)"
  unfolding nonneg_def using set_dset_subset [where d = d and k = k and v = v] by auto

lemma fits_iff: "fits node r \<longleftrightarrow> (\<forall>(k, v) \<in> set r. v \<le> amount node k)"
  by (induction r) (auto simp: amount_def not_less split: if_splits)

lemma fits_mono:
  assumes "fits n' d" and "\<And>k. amount n' k \<le> amount n k"
  shows "fits n d"
  using assms by (fastforce simp: fits_iff intro: order_trans)

lemma inplace_subtract_keys:
  "inplace_subtract node r = Inr node' \<Longrightarrow> dkeys node' = dkeys node"
proof (induction node r rule: inplace_subtract.induct)
  case (1 node)
  then show ?case by simp
next
  case (2 node k v rs)
  then obtain a where a: "map_of node k = Some a" "inplace_subtract (dset node k (a - v)) rs = Inr node'"
    and ge: "a - v \<ge> 0"
    by (auto split: option.splits if_splits)
  have "dkeys (dset node k (a - v)) = dkeys node"
    using a(1) by (induction node) (auto split: if_splits)
  then show ?case using "2.IH" [OF a(1) ge a(2)] by simp
qed

lemma inplace_subtract_amount:
  assumes "inplace_subtract node r = Inr node'" and "wf_dict r"
  shows "amount node' k = amount node k - amount r k"
  using assms
proof (induction node r rule: inplace_subtract.induct)
  case (1 node)
  then show ?case by simp
next
  case (2 node k' v rs)
  from "2.prems" obtain a where a: "map_of node k' = Some a"
    "inplace_subtract (dset node k' (a - v)) rs = Inr node'" and ge: "a - v \<ge> 0"
    by (auto split: option.splits if_splits)
  have "amount node' k = amount (dset node k' (a - v)) k - amount rs k"
    using "2.IH" [OF a(1) ge a(2)] "2.prems"(2) by simp
  moreover have "amount node k' = a" using a(1) by (simp add: amount_def dget_or_def)
  moreover have "amount rs k' = 0" using "2.prems"(2) by (simp add: amount_notin)
  ultimately show ?case by (simp add: amount_Cons)
qed

lemma inplace_subtract_nonneg:
  "inplace_subtract node r = Inr node' \<Longrightarrow> nonneg node \<Longrightarrow> nonneg node'"
proof (induction node r rule: inplace_subtract.induct)
  case (1 node)
  then show ?case by simp
next
  case (2 node k v rs)
  then obtain a where a: "map_of node k = Some a" "inplace_subtract (dset node k (a - v)) rs = Inr node'"
    and ge: "a - v \<ge> 0"
    by (auto split: option.splits if_splits)
  have "nonneg (dset node k (a - v))"
    using "2.prems"(2) ge by (rule nonneg_dset)
  then show ?case using "2.IH" [OF a(1) ge a(2)] by simp
qed

lemma inplace_subtract_ok:
  assumes "fits node r" and "positive r" and "wf_dict r" and "nonneg node"
  shows "\<exists>node'. inplace_subtract node r = Inr node'"
  using assms
proof (induction node r rule: inplace_subtract.induct)
  case (1 node)
  then show ?case by simp
next
  case (2 node k v rs)
  have pos: "0 < v" and fit: "v \<le> amount node k" "fits node rs"
    and rs: "positive rs" "wf_dict rs" "k \<notin> set (dkeys rs)"
    using "2.prems" by (auto simp: positive_def amount_def split: if_splits)
  then obtain a where a: "map_of node k = Some a" "amount node k = a"
    by (fastforce simp: amount_def dget_or_def split: option.splits)
  have ge: "a - v \<ge> 0" using fit a by simp
  have "fits (dset node k (a - v)) rs"
    using fit(2) rs(3) by (force simp: fits_iff)
  moreover have "nonneg (dset node k (a - v))"
    using "2.prems"(4) ge by (rule nonneg_dset)
  ultimately show ?case using "2.IH" [OF a(1) ge] rs a(1) ge by simp
qed

lemma inplace_add_amount:
  fixes a :: "('k, 'v::comm_monoid_add) dict"
  assumes "wf_dict b"
  shows "dget_or (inplace_add a b) k 0 = dget_or a k 0 + dget_or b k 0"
  using assms
proof (induction a b rule: inplace_add.induct)
  case (1 a)
  then show ?case by simp
next
  case (2 a k' v b)
  then have "dget_or b k' 0 = 0" by (simp add: dget_or_notin)
  then show ?case using 2 by (simp add: dget_or_def [of "(k', v) # b"] dget_or_def [of b])
qed

lemma inplace_add_keys:
  "set (dkeys (inplace_add a b)) = set (dkeys a) \<union> set (dkeys b)"
  by (induction a b rule: inplace_add.induct) (auto simp: dkeys_dset simp del: set_map)

lemma inplace_add_wf: "wf_dict a \<Longrightarrow> wf_dict (inplace_add a b)"
  by (induction a b rule: inplace_add.induct) auto

lemma inplace_add_total:
  fixes a :: "('k, 'v::ab_group_add) dict"
  assumes "wf_dict a"
  shows "dtotal (inplace_add a b) = dtotal a + dtotal b"
  using assms
  by (induction a b rule: inplace_add.induct) (simp_all add: dtotal_dset)

end
