(* ===== verification/Bin_Packing.thy ===== *)
theory Bin_Packing
  imports Resources
begin

text \<open>
  \<open>get_bin_pack_residual\<close> of \<open>resource_demand_scheduler.py\<close>: first-fit packing of
  resource demands onto nodes, demands taken in descending order of complexity, weight and
  contents. The abstract specification \<open>packing\<close> says what the caller relies on: the
  demands that are not reported back can all be placed at once, each on one node, within the
  capacity of that node, and at most one per node under strict spread.
\<close>

section \<open>The algorithm\<close>

text \<open>The sort key: number of entries, total quantity, then the sorted items.\<close>

definition demand_key :: "resource_dict \<Rightarrow> nat \<times> rat \<times> (string \<times> rat) list" where
  "demand_key demand = (length demand, sum_list (dvalues demand), sort demand)"

text \<open>Index of the first node the demand fits on.\<close>

fun first_fit :: "resource_dict list \<Rightarrow> resource_dict \<Rightarrow> nat option" where
  "first_fit [] demand = None"
| "first_fit (node # nodes) demand =
     (if fits node demand then Some 0 else map_option Suc (first_fit nodes demand))"

text \<open>
  One iteration of the outer loop over the state \<open>(nodes, used, unfulfilled)\<close>. A node
  that is an empty dict is falsy in Python, so \<open>if found and node\<close> fails for it; under
  strict spread it has been moved to \<open>used\<close> by then.
\<close>

type_synonym pack_state = "resource_dict list \<times> resource_dict list \<times> resource_dict list"

fun pack_step :: "bool \<Rightarrow> pack_state \<Rightarrow> resource_dict \<Rightarrow> pack_state result" where
  "pack_step strict_spread (nodes, used, unfulfilled) demand =
     (case first_fit nodes demand of
        None \<Rightarrow> Inr (nodes, used, unfulfilled @ [demand])
      | Some i \<Rightarrow>
          let node = nodes ! i;
              rest = take i nodes @ drop (Suc i) nodes
          in if node = [] then
               Inr (if strict_spread then (rest, used @ [node], unfulfilled @ [demand])
                    else (nodes, used, unfulfilled @ [demand]))
             else
               bindE (inplace_subtract node demand) (\<lambda>node'.
                 Inr (if strict_spread then (rest, used @ [node'], unfulfilled)
                      else (nodes[i := node'], used, unfulfilled))))"

definition get_bin_pack_residual ::
  "resource_dict list \<Rightarrow> resource_dict list \<Rightarrow> bool
    \<Rightarrow> (resource_dict list \<times> resource_dict list) result" where
  "get_bin_pack_residual node_resources resource_demands strict_spread =
     bindE
       (foldE (pack_step strict_spread) (node_resources, [], [])
          (sorted_reverse demand_key resource_demands))
       (\<lambda>(nodes, used, unfulfilled). Inr (unfulfilled, nodes @ used))"

section \<open>The specification\<close>

text \<open>
  \<open>loaded n ds n'\<close>: node \<open>n'\<close> is node \<open>n\<close> after the demands \<open>ds\<close> were
  placed on it.
\<close>

definition loaded :: "resource_dict \<Rightarrow> resource_dict list \<Rightarrow> resource_dict \<Rightarrow> bool" where
  "loaded n ds n' \<longleftrightarrow>
     dkeys n' = dkeys n \<and> nonneg n' \<and>
     (\<forall>k. amount n' k = amount n k - (\<Sum>d\<leftarrow>ds. amount d k))"

text \<open>
  \<open>packing strict nodes demands unfulfilled nodes'\<close>: there are bins, one per node of the
  cluster, such that the bins' loads and the unfulfilled demands together are the demands, and
  \<open>nodes'\<close> are the nodes with their bins' loads taken off.
\<close>

definition packing ::
  "bool \<Rightarrow> resource_dict list \<Rightarrow> resource_dict list \<Rightarrow> resource_dict list
    \<Rightarrow> resource_dict list \<Rightarrow> bool" where
  "packing strict nodes demands unfulfilled nodes' \<longleftrightarrow>
     (\<exists>bins. mset (map fst bins) = mset nodes \<and>
        mset (concat (map snd bins)) + mset unfulfilled = mset demands \<and>
        list_all2 (\<lambda>b n'. loaded (fst b) (snd b) n') bins nodes' \<and>
        (strict \<longrightarrow> (\<forall>b \<in> set bins. length (snd b) \<le> 1)))"

text \<open>Demands the scheduler sends: no resource twice, every quantity positive.\<close>

definition valid_demand :: "resource_dict \<Rightarrow> bool" where
  "valid_demand d \<longleftrightarrow> wf_dict d \<and> positive d"

section \<open>Lemmas\<close>

lemma first_fit_Some:
  "first_fit nodes d = Some i \<Longrightarrow> i < length nodes \<and> fits (nodes ! i) d"
  by (induction nodes arbitrary: i) (auto split: if_splits)

lemma first_fit_None: "first_fit nodes d = None \<longleftrightarrow> (\<forall>n \<in> set nodes. \<not> fits n d)"
  by (induction nodes) auto

lemma first_fit_least:
  "first_fit nodes d = Some i \<Longrightarrow> j < i \<Longrightarrow> \<not> fits (nodes ! j) d"
proof (induction nodes arbitrary: i j)
  case Nil
  then show ?case by simp
next
  case (Cons n nodes)
  then show ?case by (cases j) (auto split: if_splits)
qed

lemma loaded_Nil [simp]: "nonneg n \<Longrightarrow> loaded n [] n"
  by (simp add: loaded_def)

lemma loaded_nonneg: "loaded n ds n' \<Longrightarrow> nonneg n'"
  by (simp add: loaded_def)

lemma loaded_snoc:
  assumes "loaded n ds m" and "inplace_subtract m d = Inr m'" and "wf_dict d"
  shows "loaded n (ds @ [d]) m'"
  using assms inplace_subtract_keys [OF assms(2)] inplace_subtract_amount [OF assms(2,3)]
    inplace_subtract_nonneg [OF assms(2)]
  by (simp add: loaded_def)

lemma loaded_within_capacity:
  assumes "loaded n ds n'"
  shows "(\<Sum>d\<leftarrow>ds. amount d k) \<le> amount n k"
proof -
  have "0 \<le> amount n' k" by (rule nonneg_amount [OF loaded_nonneg [OF assms]])
  moreover have "amount n' k = amount n k - (\<Sum>d\<leftarrow>ds. amount d k)"
    using assms by (simp add: loaded_def)
  ultimately show ?thesis by linarith
qed

lemma mset_take_drop_nth:
  assumes "i < length xs"
  shows "mset xs = {#xs ! i#} + mset (take i xs @ drop (Suc i) xs)"
proof -
  have "mset xs = mset (take i xs @ xs ! i # drop (Suc i) xs)"
    using id_take_nth_drop [OF assms] by metis
  then show ?thesis by simp
qed

text \<open>
  The loop invariant: bins for the nodes still open and for the used ones, and the demands
  processed so far.
\<close>

definition pack_inv ::
  "bool \<Rightarrow> resource_dict list \<Rightarrow> resource_dict list \<Rightarrow> pack_state \<Rightarrow> bool" where
  "pack_inv strict nodes0 ds s \<longleftrightarrow>
     (case s of (nodes, used, unfulfilled) \<Rightarrow>
       \<exists>bins ubins.
         mset (map fst bins) + mset (map fst ubins) = mset nodes0 \<and>
         mset (concat (map snd bins)) + mset (concat (map snd ubins)) + mset unfulfilled = mset ds \<and>
         list_all2 (\<lambda>b n'. loaded (fst b) (snd b) n') bins nodes \<and>
         list_all2 (\<lambda>b n'. loaded (fst b) (snd b) n') ubins used \<and>
         (strict \<longrightarrow> (\<forall>b \<in> set bins. snd b = []) \<and> (\<forall>b \<in> set ubins. length (snd b) \<le> 1)))"

abbreviation bins_loaded ::
  "(resource_dict \<times> resource_dict list) list \<Rightarrow> resource_dict list \<Rightarrow> bool" where
  "bins_loaded \<equiv> list_all2 (\<lambda>b n'. loaded (fst b) (snd b) n')"

lemma pack_invI:
  assumes "mset (map fst bins) + mset (map fst ubins) = mset nodes0"
    and "mset (concat (map snd bins)) + mset (concat (map snd ubins)) + mset unfulfilled = mset ds"
    and "bins_loaded bins nodes" and "bins_loaded ubins used"
    and "strict \<longrightarrow> (\<forall>b \<in> set bins. snd b = [])"
    and "strict \<longrightarrow> (\<forall>b \<in> set ubins. length (snd b) \<le> 1)"
  shows "pack_inv strict nodes0 ds (nodes, used, unfulfilled)"
  unfolding pack_inv_def using assms by blast

lemma pack_invE:
  assumes "pack_inv strict nodes0 ds (nodes, used, unfulfilled)"
  obtains bins ubins where
    "mset (map fst bins) + mset (map fst ubins) = mset nodes0"
    "mset (concat (map snd bins)) + mset (concat (map snd ubins)) + mset unfulfilled = mset ds"
    "bins_loaded bins nodes" "bins_loaded ubins used"
    "strict \<longrightarrow> (\<forall>b \<in> set bins. snd b = [])"
    "strict \<longrightarrow> (\<forall>b \<in> set ubins. length (snd b) \<le> 1)"
  using assms unfolding pack_inv_def by blast

lemma pack_inv_init:
  assumes "\<forall>n \<in> set nodes. nonneg n"
  shows "pack_inv strict nodes [] (nodes, [], [])"
proof (rule pack_invI [where bins = "map (\<lambda>n. (n, [])) nodes" and ubins = "[]"])
  show "bins_loaded (map (\<lambda>n. (n, [])) nodes) nodes"
    using assms by (auto simp: list_all2_conv_all_nth)
  have "concat (map snd (map (\<lambda>n. (n, [])) nodes)) = []" by (induction nodes) auto
  then show "mset (concat (map snd (map (\<lambda>n. (n, [])) nodes)))
      + mset (concat (map snd [])) + mset [] = mset []"
    by simp
qed (simp_all add: comp_def)

text \<open>Taking a bin out, and putting one more demand into a bin.\<close>

lemma bins_remove:
  assumes "i < length bins"
  shows "mset (map fst bins) = {#fst (bins ! i)#} + mset (map fst (take i bins @ drop (Suc i) bins))"
    and "mset (concat (map snd bins)) =
      mset (snd (bins ! i)) + mset (concat (map snd (take i bins @ drop (Suc i) bins)))"
proof -
  have eq: "bins = take i bins @ bins ! i # drop (Suc i) bins"
    by (rule id_take_nth_drop [OF assms])
  show "mset (map fst bins) = {#fst (bins ! i)#} + mset (map fst (take i bins @ drop (Suc i) bins))"
    using arg_cong [OF eq, of "\<lambda>x. mset (map fst x)"] by simp
  show "mset (concat (map snd bins)) =
      mset (snd (bins ! i)) + mset (concat (map snd (take i bins @ drop (Suc i) bins)))"
    using arg_cong [OF eq, of "\<lambda>x. mset (concat (map snd x))"] by simp
qed

lemma bins_add:
  fixes bins :: "(resource_dict \<times> resource_dict list) list" and d :: resource_dict
  assumes "i < length bins"
  defines "bins' \<equiv> bins[i := (fst (bins ! i), snd (bins ! i) @ [d])]"
  shows "mset (map fst bins') = mset (map fst bins)"
    and "mset (concat (map snd bins')) = mset (concat (map snd bins)) + {#d#}"
proof -
  let ?l = "take i bins" and ?r = "drop (Suc i) bins"
  have eq: "bins = ?l @ bins ! i # ?r" by (rule id_take_nth_drop [OF assms(1)])
  have eq': "bins' = ?l @ (fst (bins ! i), snd (bins ! i) @ [d]) # ?r"
    unfolding bins'_def by (rule upd_conv_take_nth_drop [OF assms(1)])
  show "mset (map fst bins') = mset (map fst bins)"
    using arg_cong [OF eq, of "\<lambda>x. mset (map fst x)"] eq' by simp
  show "mset (concat (map snd bins')) = mset (concat (map snd bins)) + {#d#}"
    using arg_cong [OF eq, of "\<lambda>x. mset (concat (map snd x))"] eq' by simp
qed

lemma bins_loaded_remove:
  assumes "bins_loaded bins nodes"
  shows "bins_loaded (take i bins @ drop (Suc i) bins) (take i nodes @ drop (Suc i) nodes)"
  using assms by (intro list_all2_appendI list_all2_takeI list_all2_dropI)

lemma pack_step_inv:
  assumes inv: "pack_inv strict nodes0 ds (nodes, used, unf)"
    and step: "pack_step strict (nodes, used, unf) d = Inr s'" and wf: "wf_dict d"
  shows "pack_inv strict nodes0 (ds @ [d]) s'"
proof -
  obtain bins ubins where b:
    "mset (map fst bins) + mset (map fst ubins) = mset nodes0"
    "mset (concat (map snd bins)) + mset (concat (map snd ubins)) + mset unf = mset ds"
    "bins_loaded bins nodes" "bins_loaded ubins used"
    "strict \<longrightarrow> (\<forall>b \<in> set bins. snd b = [])"
    "strict \<longrightarrow> (\<forall>b \<in> set ubins. length (snd b) \<le> 1)"
    by (rule pack_invE [OF inv])
  have kept: "pack_inv strict nodes0 (ds @ [d]) (nodes, used, unf @ [d])"
    using b by (intro pack_invI [where bins = bins and ubins = ubins]) auto
  show ?thesis
  proof (cases "first_fit nodes d")
    case None
    then show ?thesis using step kept by simp
  next
    case (Some i)
    let ?b = "bins ! i" and ?rest = "take i bins @ drop (Suc i) bins"
    have i: "i < length nodes" "i < length bins"
      using first_fit_Some [OF Some] list_all2_lengthD [OF b(3)] by simp_all
    have lb: "loaded (fst ?b) (snd ?b) (nodes ! i)"
      using list_all2_nthD2 [OF b(3) i(1)] .
    have rest: "strict \<longrightarrow> (\<forall>b \<in> set ?rest. snd b = [])"
      using b(5) by (auto dest: in_set_takeD in_set_dropD)
    have sb: "strict \<Longrightarrow> snd ?b = []" using b(5) i(2) by simp
    have moved: "pack_inv strict nodes0 (ds @ [d])
        (take i nodes @ drop (Suc i) nodes, used @ [n'], unf @ ys)"
      if "loaded (fst ?b) (snd ?b @ xs) n'" "mset xs + mset ys = {#d#}" "strict" for n' xs ys
    proof (rule pack_invI [where bins = ?rest and ubins = "ubins @ [(fst ?b, snd ?b @ xs)]"])
      show "mset (map fst ?rest) + mset (map fst (ubins @ [(fst ?b, snd ?b @ xs)])) = mset nodes0"
        using b(1) bins_remove(1) [OF i(2)] by simp
      show "mset (concat (map snd ?rest)) + mset (concat (map snd (ubins @ [(fst ?b, snd ?b @ xs)])))
          + mset (unf @ ys) = mset (ds @ [d])"
      proof -
        have "mset (ds @ [d]) = mset ds + (mset xs + mset ys)" using that(2) by simp
        then show ?thesis
          unfolding b(2) [symmetric] bins_remove(2) [OF i(2)] by (simp add: ac_simps)
      qed
      show "bins_loaded ?rest (take i nodes @ drop (Suc i) nodes)"
        by (rule bins_loaded_remove [OF b(3)])
      show "bins_loaded (ubins @ [(fst ?b, snd ?b @ xs)]) (used @ [n'])"
        using b(4) that(1) by (simp add: list_all2_appendI)
      have "length xs \<le> 1" using that(2) size_mset [of xs] by (auto simp: union_is_single)
      then show "strict \<longrightarrow> (\<forall>b \<in> set (ubins @ [(fst ?b, snd ?b @ xs)]). length (snd b) \<le> 1)"
        using b(6) sb that(3) by simp
    qed (rule rest)
    show ?thesis
    proof (cases "nodes ! i = []")
      case True
      then show ?thesis
        using step Some kept moved [where xs = "[]" and ys = "[d]"] lb by (auto split: if_splits)
    next
      case False
      then obtain n' where n': "inplace_subtract (nodes ! i) d = Inr n'"
        using step Some by (auto simp: Let_def result_simps)
      have ln: "loaded (fst ?b) (snd ?b @ [d]) n'" by (rule loaded_snoc [OF lb n' wf])
      have "pack_inv strict nodes0 (ds @ [d]) (nodes[i := n'], used, unf)" if "\<not> strict"
        using that b bins_add [OF i(2), of d] ln i
        by (intro pack_invI [where bins = "bins[i := (fst ?b, snd ?b @ [d])]" and ubins = ubins])
           (auto intro!: list_all2_update_cong)
      then show ?thesis
        using step Some False n' moved [where xs = "[d]" and ys = "[]"] ln by (auto simp: Let_def split: if_splits)
    qed
  qed
qed

lemma bin_pack_packing:
  assumes "\<forall>n \<in> set nodes. nonneg n" and "\<forall>d \<in> set demands. wf_dict d"
    and "get_bin_pack_residual nodes demands strict = Inr (unf, nodes')"
  shows "packing strict nodes demands unf nodes'"
proof -
  obtain ns us where f: "foldE (pack_step strict) (nodes, [], []) (sorted_reverse demand_key demands)
      = Inr (ns, us, unf)" and n': "nodes' = ns @ us"
    using assms(3) by (auto simp: get_bin_pack_residual_def result_simps)
  have step: "pack_inv strict nodes (ys @ [x]) t"
    if "pack_inv strict nodes ys s" "x \<in> set (sorted_reverse demand_key demands)"
      "pack_step strict s x = Inr t" for ys s x t
    using that assms(2) by (cases s) (simp add: pack_step_inv del: pack_step.simps)
  have "pack_inv strict nodes ([] @ sorted_reverse demand_key demands) (ns, us, unf)"
    by (rule foldE_history [where P = "pack_inv strict nodes", OF pack_inv_init [OF assms(1)] f step])
  then have "pack_inv strict nodes (sorted_reverse demand_key demands) (ns, us, unf)" by simp
  then obtain bins ubins where
    "mset (map fst bins) + mset (map fst ubins) = mset nodes"
    "mset (concat (map snd bins)) + mset (concat (map snd ubins)) + mset unf
      = mset (sorted_reverse demand_key demands)"
    "bins_loaded bins ns" "bins_loaded ubins us"
    "strict \<longrightarrow> (\<forall>b \<in> set bins. snd b = [])"
    "strict \<longrightarrow> (\<forall>b \<in> set ubins. length (snd b) \<le> 1)"
    by (rule pack_invE)
  then show ?thesis
    unfolding packing_def n'
    by (intro exI [of _ "bins @ ubins"]) (auto intro: list_all2_appendI)
qed

lemma pack_step_nonneg:
  assumes "pack_step strict (nodes, used, unf) d = Inr (nodes', used', unf')"
    and "\<forall>n \<in> set nodes. nonneg n"
  shows "\<forall>n \<in> set nodes'. nonneg n"
proof (cases "first_fit nodes d")
  case None
  then show ?thesis using assms by simp
next
  case (Some i)
  have i: "i < length nodes" using first_fit_Some [OF Some] by simp
  have rest: "\<forall>n \<in> set (take i nodes @ drop (Suc i) nodes). nonneg n"
    using assms(2) by (auto dest: in_set_takeD in_set_dropD)
  have upd: "\<forall>n \<in> set (nodes[i := n']). nonneg n" if "inplace_subtract (nodes ! i) d = Inr n'" for n'
    using inplace_subtract_nonneg [OF that] assms(2) i set_update_subset_insert [of nodes i n'] by auto
  show ?thesis
    using assms Some rest upd by (auto simp: Let_def result_simps split: if_splits)
qed

lemma pack_step_total:
  assumes "valid_demand d" and "\<forall>n \<in> set nodes. nonneg n"
  shows "\<exists>s. pack_step strict (nodes, used, unf) d = Inr s"
proof (cases "first_fit nodes d")
  case None
  then show ?thesis by simp
next
  case (Some i)
  then have "\<exists>n'. inplace_subtract (nodes ! i) d = Inr n'"
    using assms first_fit_Some [OF Some] by (auto simp: valid_demand_def intro: inplace_subtract_ok)
  then show ?thesis using Some by (auto simp: Let_def)
qed

lemma bin_pack_total:
  assumes "\<forall>n \<in> set nodes. nonneg n" and "\<forall>d \<in> set demands. valid_demand d"
  shows "\<exists>unf nodes'. get_bin_pack_residual nodes demands strict = Inr (unf, nodes')"
proof -
  have "\<exists>s'. foldE (pack_step strict) (nodes, [], []) (sorted_reverse demand_key demands) = Inr s'
      \<and> (\<forall>n \<in> set (fst s'). nonneg n)"
  proof (rule foldE_total)
    fix s :: pack_state and d
    assume nn: "\<forall>n \<in> set (fst s). nonneg n" and d: "d \<in> set (sorted_reverse demand_key demands)"
    obtain ns us unf where s: "s = (ns, us, unf)" by (cases s)
    have "\<exists>t. pack_step strict (ns, us, unf) d = Inr t"
      by (rule pack_step_total) (use assms(2) d nn s in auto)
    then obtain ns' us' unf' where t: "pack_step strict (ns, us, unf) d = Inr (ns', us', unf')"
      by (metis prod_cases3)
    then have "\<forall>n \<in> set ns'. nonneg n" by (rule pack_step_nonneg) (use nn s in simp)
    with t s show "\<exists>t. pack_step strict s d = Inr t \<and> (\<forall>n \<in> set (fst t). nonneg n)"
      by (metis fst_conv)
  qed (use assms(1) in simp)
  then show ?thesis by (auto simp: get_bin_pack_residual_def)
qed

text \<open>
  Unfulfilled demands stay unfulfilled: nodes only lose resources while the loop runs.
\<close>

definition rejected :: "pack_state \<Rightarrow> bool" where
  "rejected s \<longleftrightarrow> (case s of (nodes, used, unf) \<Rightarrow>
     used = [] \<and>
     (\<forall>d \<in> set unf. d \<noteq> [] \<or> [] \<notin> set nodes \<longrightarrow> (\<forall>n \<in> set nodes. \<not> fits n d)))"

lemma valid_not_fits_empty: "valid_demand d \<Longrightarrow> d \<noteq> [] \<Longrightarrow> \<not> fits [] d"
  by (cases d) (auto simp: valid_demand_def positive_def fits_iff)

lemma pack_step_rejected:
  assumes rej: "rejected (nodes, used, unf)" and step: "pack_step False (nodes, used, unf) d = Inr s'"
    and valid: "valid_demand d"
  shows "rejected s'"
proof (cases "first_fit nodes d")
  case None
  then have "s' = (nodes, used, unf @ [d])" using step by simp
  then show ?thesis using rej None [unfolded first_fit_None] by (auto simp: rejected_def)
next
  case (Some i)
  have i: "i < length nodes" "fits (nodes ! i) d" using first_fit_Some [OF Some] by simp_all
  show ?thesis
  proof (cases "nodes ! i = []")
    case True
    then have "d = []" using valid_not_fits_empty [OF valid] i(2) by auto
    moreover have "[] \<in> set nodes" using True i(1) by (metis nth_mem)
    ultimately show ?thesis using rej step Some True by (auto simp: rejected_def)
  next
    case False
    then obtain n' where n': "inplace_subtract (nodes ! i) d = Inr n'"
      and s': "s' = (nodes[i := n'], used, unf)"
      using step Some by (auto simp: Let_def result_simps)
    have "amount n' k \<le> amount (nodes ! i) k" for k
      using inplace_subtract_amount [OF n'] valid nonneg_amount [OF positive_nonneg]
      by (auto simp: valid_demand_def)
    then have mono: "fits n' e \<Longrightarrow> fits (nodes ! i) e" for e
      by (blast intro: fits_mono)
    have "n' \<noteq> []" using inplace_subtract_keys [OF n'] False by auto
    then have empty: "[] \<in> set (nodes[i := n'])" if "[] \<in> set nodes"
      using that False i(1) by (metis in_set_conv_nth length_list_update nth_list_update_neq)
    have "\<not> fits n e"
      if "e \<in> set unf" "e \<noteq> [] \<or> [] \<notin> set (nodes[i := n'])" "n \<in> set (nodes[i := n'])" for e n
    proof -
      have old: "\<forall>m \<in> set nodes. \<not> fits m e"
        using rej that(1,2) empty unfolding rejected_def by blast
      have "n = n' \<or> n \<in> set nodes"
        using that(3) set_update_subset_insert [of nodes i n'] by blast
      then show ?thesis using old mono [of e] nth_mem [OF i(1)] by blast
    qed
    then show ?thesis using rej s' by (auto simp: rejected_def)
  qed
qed

lemma bin_pack_rejected:
  assumes "\<forall>d \<in> set demands. valid_demand d"
    and "get_bin_pack_residual nodes demands False = Inr (unf, nodes')"
    and "d \<in> set unf" and "d \<noteq> [] \<or> [] \<notin> set nodes'" and "n \<in> set nodes'"
  shows "\<not> fits n d"
proof -
  obtain ns us where f: "foldE (pack_step False) (nodes, [], []) (sorted_reverse demand_key demands)
      = Inr (ns, us, unf)" and n': "nodes' = ns @ us"
    using assms(2) by (auto simp: get_bin_pack_residual_def result_simps)
  have "rejected (ns, us, unf)"
  proof (rule foldE_invariant [OF _ f])
    show "rejected (nodes, [], [])" by (simp add: rejected_def)
    fix s x t assume "rejected s" "x \<in> set (sorted_reverse demand_key demands)"
      "pack_step False s x = Inr t"
    then show "rejected t"
      using assms(1) by (cases s) (simp add: pack_step_rejected del: pack_step.simps)
  qed
  then show ?thesis using assms(3-5) n' by (auto simp: rejected_def)
qed

text \<open>A demand for a resource the node has no entry for trips the assertion.\<close>

lemma inplace_subtract_missing:
  assumes "k \<in> set (dkeys r)" and "k \<notin> set (dkeys node)"
  shows "inplace_subtract node r = Inl AssertionError"
  using assms
proof (induction node r rule: inplace_subtract.induct)
  case (1 node)
  then show ?case by simp
next
  case (2 node k' v rs)
  show ?case
  proof (cases "map_of node k'")
    case None
    then show ?thesis by simp
  next
    case (Some a)
    then have "k' \<in> set (dkeys node)" by (force dest: map_of_SomeD)
    then have "k \<in> set (dkeys rs)" and "k \<notin> set (dkeys (dset node k' (a - v)))"
      using "2.prems" by (auto simp: dkeys_dset simp del: set_map)
    then show ?thesis using "2.IH" [OF Some] Some by auto
  qed
qed

section \<open>Packing onto one node\<close>

lemma fits_amount: "fits n d \<Longrightarrow> nonneg n \<Longrightarrow> amount d k \<le> amount n k"
  by (cases "map_of d k")
     (auto simp: amount_def [of d] dget_or_def nonneg_amount fits_iff dest!: map_of_SomeD)

lemma pack_step_unfulfilled:
  assumes "pack_step strict (ns, us, unf) d = Inr (ns', us', unf')"
  shows "set unf' \<subseteq> insert d (set unf)"
  using assms by (auto simp: result_simps Let_def split: option.splits if_splits)

lemma bin_pack_subset:
  assumes "get_bin_pack_residual nodes demands strict = Inr (unf, nodes')"
  shows "set unf \<subseteq> set demands"
proof -
  obtain ns us where f: "foldE (pack_step strict) (nodes, [], []) (sorted_reverse demand_key demands)
      = Inr (ns, us, unf)"
    using assms by (auto simp: get_bin_pack_residual_def result_simps)
  have "set (snd (snd (ns, us, unf))) \<subseteq> set demands"
  proof (rule foldE_invariant [OF _ f])
    fix s t :: pack_state and d
    assume "set (snd (snd s)) \<subseteq> set demands" "d \<in> set (sorted_reverse demand_key demands)"
      "pack_step strict s d = Inr t"
    then show "set (snd (snd t)) \<subseteq> set demands"
      using pack_step_unfulfilled [of strict "fst s" "fst (snd s)" "snd (snd s)" d
          "fst t" "fst (snd t)" "snd (snd t)"] by (auto simp del: pack_step.simps)
  qed simp
  then show ?thesis by simp
qed

lemma packing_subset: "packing strict nodes ds unf nodes' \<Longrightarrow> set unf \<subseteq> set ds"
  unfolding packing_def by (metis UnCI set_mset_mset set_mset_union subsetI)

lemma packing_singleE:
  assumes "packing strict [r] ds unf nodes'"
  obtains taken n' where "nodes' = [n']" "mset taken + mset unf = mset ds" "loaded r taken n'"
    "strict \<longrightarrow> length taken \<le> 1"
proof -
  obtain bins where b: "mset (map fst bins) = mset [r]"
    "mset (concat (map snd bins)) + mset unf = mset ds"
    "list_all2 (\<lambda>b n'. loaded (fst b) (snd b) n') bins nodes'"
    "strict \<longrightarrow> (\<forall>b \<in> set bins. length (snd b) \<le> 1)"
    using assms unfolding packing_def by auto
  have "length bins = 1" using arg_cong [OF b(1), of size] by simp
  then obtain taken where bins: "bins = [(r, taken)]"
    using b(1) by (cases bins) auto
  then obtain n' where "nodes' = [n']" "loaded r taken n'"
    using b(3) by (auto simp: list_all2_Cons1)
  then show thesis using that b(2,4) bins by auto
qed

lemma bin_pack_single:
  assumes "get_bin_pack_residual [r] ds False = Inr (unf, ns)" and "nonneg r"
    and "\<forall>d \<in> set ds. wf_dict d"
  obtains taken n' where "ns = [n']" "mset taken + mset unf = mset ds" "loaded r taken n'"
  using bin_pack_packing [OF _ assms(3,1)] assms(2) by (auto elim: packing_singleE)

lemma bin_pack_progress:
  assumes pack: "get_bin_pack_residual [r] ds False = Inr (unf, ns)" and "nonneg r" and "r \<noteq> []"
    and valid: "\<forall>d \<in> set ds. valid_demand d" and d: "d \<in> set ds" "fits r d"
  shows "length unf < length ds"
proof -
  have wf: "\<forall>d \<in> set ds. wf_dict d" using valid by (simp add: valid_demand_def)
  obtain taken n' where t: "ns = [n']" "mset taken + mset unf = mset ds" "loaded r taken n'"
    by (rule bin_pack_single [OF pack \<open>nonneg r\<close> wf])
  have "taken \<noteq> []"
  proof
    assume "taken = []"
    then have eq: "mset unf = mset ds" and n': "amount n' k = amount r k" "dkeys n' = dkeys r" for k
      using t by (simp_all add: loaded_def)
    have "d \<in> set unf" using eq d(1) by (metis set_mset_mset)
    moreover have "[] \<notin> set ns" using t(1) n'(2) \<open>r \<noteq> []\<close> by auto
    ultimately have "\<not> fits n' d" using bin_pack_rejected [OF valid pack, of d n'] t(1) by simp
    then show False using d(2) n'(1) by (simp add: fits_iff)
  qed
  then show ?thesis using arg_cong [OF t(2), of size] by (cases taken) auto
qed

end
