(* ===== verification/Node_Selection.thy ===== *)
theory Node_Selection
  imports Bin_Packing
begin

text \<open>
  The pure functions of \<open>resource_demand_scheduler.py\<close> that choose node types:
  \<open>_utilization_score\<close>, \<open>get_nodes_for\<close>,
  \<open>_node_type_counts_to_node_resources\<close> and \<open>_add_min_workers_nodes\<close>.
  \<open>AUTOSCALER_CONSERVE_GPU_NODES\<close> is read from the environment when the module is
  loaded; it is the parameter \<open>conserve\<close>.
\<close>

section \<open>Node type configurations\<close>

text \<open>
  An entry of \<open>available_node_types\<close>: the keys this code reads. A missing
  \<open>resources\<close> key raises KeyError where the code indexes it, missing worker bounds
  count as 0. \<open>node_config\<close> is only compared for equality.
\<close>

record node_type_config =
  ntc_resources :: "resource_dict option"
  ntc_min_workers :: "int option"
  ntc_max_workers :: "int option"
  ntc_node_config :: string

type_synonym node_types = "(string, node_type_config) dict"

definition config_resources :: "node_type_config \<Rightarrow> resource_dict result" where
  "config_resources c = (case ntc_resources c of None \<Rightarrow> Inl KeyError | Some r \<Rightarrow> Inr r)"

definition config_min_workers :: "node_type_config \<Rightarrow> int" where
  "config_min_workers c = (case ntc_min_workers c of None \<Rightarrow> 0 | Some n \<Rightarrow> n)"

definition config_max_workers :: "node_type_config \<Rightarrow> int" where
  "config_max_workers c = (case ntc_max_workers c of None \<Rightarrow> 0 | Some n \<Rightarrow> n)"

definition type_resources :: "node_types \<Rightarrow> string \<Rightarrow> resource_dict result" where
  "type_resources nts t = bindE (dindex nts t) config_resources"

section \<open>Scoring a node type\<close>

type_synonym score = "nat \<times> rat \<times> rat"

text \<open>The loop over the demands: what is left of the node, the resource types asked for, what fits.\<close>

fun utilization_fill ::
  "resource_dict \<Rightarrow> string set \<Rightarrow> resource_dict list \<Rightarrow> resource_dict list
    \<Rightarrow> (resource_dict \<times> string set \<times> resource_dict list) result" where
  "utilization_fill remaining types fittable [] = Inr (remaining, types, fittable)"
| "utilization_fill remaining types fittable (r # rs) =
     (let types' = types \<union> set (map fst (filter (\<lambda>(k, v). v > 0) r))
      in if fits remaining r then
           bindE (inplace_subtract remaining r)
             (\<lambda>remaining'. utilization_fill remaining' types' (fittable @ [r]) rs)
         else utilization_fill remaining types' fittable rs)"

text \<open>The loop over the node's resources: matching resource types and weighted cubed utilization.\<close>

fun utilization_rate ::
  "resource_dict \<Rightarrow> string set \<Rightarrow> nat \<Rightarrow> rat list \<Rightarrow> resource_dict \<Rightarrow> (nat \<times> rat list) result" where
  "utilization_rate remaining types matching utils [] = Inr (matching, utils)"
| "utilization_rate remaining types matching utils ((k, v) # rs) =
     (if v < 1 then utilization_rate remaining types matching utils rs
      else bindE (dindex remaining k) (\<lambda>left.
        let matching' = (if k \<in> types then Suc matching else matching);
            util = (v - left) / v
        in utilization_rate remaining types matching' (utils @ [v * util ^ 3]) rs))"

definition utilization_score ::
  "bool \<Rightarrow> resource_dict \<Rightarrow> resource_dict list \<Rightarrow> score option result" where
  "utilization_score conserve node_resources resources =
     (let is_gpu_node = dmem ''GPU'' node_resources \<and> amount node_resources ''GPU'' > 0;
          any_gpu_task = (\<exists>r \<in> set resources. dmem ''GPU'' r)
      in if conserve \<and> is_gpu_node \<and> \<not> any_gpu_task then Inr None
         else
           bindE (utilization_fill node_resources {} [] resources) (\<lambda>(remaining, types, fittable).
             if fittable = [] then Inr None
             else
               bindE (utilization_rate remaining types 0 [] node_resources) (\<lambda>(matching, utils).
                 if utils = [] then Inr None
                 else Inr (Some (matching, Min (set utils), sum_list utils / of_nat (length utils))))))"

section \<open>Choosing nodes to add\<close>

text \<open>One pass over the node types: those below their worker limit that score, with their score.\<close>

definition worker_limit :: "string \<Rightarrow> string \<Rightarrow> node_type_config \<Rightarrow> int" where
  "worker_limit head_node_type t c =
     (if head_node_type = t then config_max_workers c + 1 else config_max_workers c)"

definition candidate_scores ::
  "bool \<Rightarrow> node_types \<Rightarrow> (string, int) dict \<Rightarrow> string \<Rightarrow> bool \<Rightarrow> (string, int) dict
    \<Rightarrow> resource_dict list \<Rightarrow> (score \<times> string) list result" where
  "candidate_scores conserve nts existing_nodes head_node_type strict_spread nodes_to_add resources =
     foldE (\<lambda>scores (t, c).
         if dget_or existing_nodes t 0 + dget_or nodes_to_add t 0 \<ge> worker_limit head_node_type t c
         then Inr scores
         else
           bindE (config_resources c) (\<lambda>node_resources.
           bindE (utilization_score conserve node_resources
                    (if strict_spread then take 1 resources else resources)) (\<lambda>score.
             Inr (case score of None \<Rightarrow> scores | Some sc \<Rightarrow> scores @ [(sc, t)]))))
       [] nts"

definition best_candidate :: "(score \<times> string) list \<Rightarrow> string" where
  "best_candidate scores = snd (hd (sorted_reverse (\<lambda>x. x) scores))"

text \<open>The \<open>while\<close> loop of \<open>get_nodes_for\<close>.\<close>

function get_nodes_for_loop ::
  "bool \<Rightarrow> node_types \<Rightarrow> (string, int) dict \<Rightarrow> string \<Rightarrow> int \<Rightarrow> bool
    \<Rightarrow> (string, int) dict \<Rightarrow> resource_dict list
    \<Rightarrow> ((string, int) dict \<times> resource_dict list) result" where
  "get_nodes_for_loop conserve nts existing_nodes head_node_type max_to_add strict_spread
       nodes_to_add resources =
     (if resources \<noteq> [] \<and> dtotal nodes_to_add < max_to_add then
        bindE (candidate_scores conserve nts existing_nodes head_node_type strict_spread
                 nodes_to_add resources) (\<lambda>scores.
          if scores = [] then Inr (nodes_to_add, resources)
          else
            let best = best_candidate scores;
                nodes_to_add' = dset nodes_to_add best (dget_or nodes_to_add best 0 + 1)
            in if strict_spread then
                 get_nodes_for_loop conserve nts existing_nodes head_node_type max_to_add
                   strict_spread nodes_to_add' (tl resources)
               else
                 bindE (type_resources nts best) (\<lambda>allocated.
                 bindE (get_bin_pack_residual [allocated] resources False) (\<lambda>(residual, _).
                   if length residual < length resources then
                     get_nodes_for_loop conserve nts existing_nodes head_node_type max_to_add
                       strict_spread nodes_to_add' residual
                   else Inl AssertionError)))
      else Inr (nodes_to_add, resources))"
  by pat_completeness auto
termination
  by (relation "measure (\<lambda>(_, _, _, _, _, _, _, resources). length resources)") auto

declare get_nodes_for_loop.simps [simp del]

definition get_nodes_for ::
  "bool \<Rightarrow> node_types \<Rightarrow> (string, int) dict \<Rightarrow> string \<Rightarrow> int \<Rightarrow> resource_dict list \<Rightarrow> bool
    \<Rightarrow> ((string, int) dict \<times> resource_dict list) result" where
  "get_nodes_for conserve nts existing_nodes head_node_type max_to_add resources strict_spread =
     get_nodes_for_loop conserve nts existing_nodes head_node_type max_to_add strict_spread
       [] resources"

section \<open>Respecting the minimum number of workers\<close>

definition node_type_counts_to_node_resources ::
  "node_types \<Rightarrow> (string, int) dict \<Rightarrow> resource_dict list result" where
  "node_type_counts_to_node_resources nts node_type_counts =
     foldE (\<lambda>resources (t, count).
         if count \<le> 0 then Inr resources
         else bindE (type_resources nts t) (\<lambda>r. Inr (resources @ replicate (nat count) r)))
       [] node_type_counts"

type_synonym min_workers_state =
  "resource_dict list \<times> (string, int) dict \<times> (string, int) dict"

text \<open>The first loop: bring every type up to \<open>min(min_workers, max_workers)\<close>, plus the head node.\<close>

definition min_workers_step ::
  "string \<Rightarrow> min_workers_state \<Rightarrow> string \<times> node_type_config \<Rightarrow> min_workers_state result" where
  "min_workers_step head_node_type s p =
     (case s of (node_resources, counts, to_add) \<Rightarrow>
      case p of (t, c) \<Rightarrow>
        let existing = dget_or counts t 0;
            target0 = min (config_min_workers c) (config_max_workers c);
            target = (if t = head_node_type then target0 + 1 else target0)
        in if existing < target then
             bindE (config_resources c) (\<lambda>r.
               Inr (node_resources @ replicate (nat (target - existing)) r,
                    dset counts t target, dset to_add t (target - existing)))
           else Inr (node_resources, counts, to_add))"

text \<open>The last loop: add the nodes that \<open>request_resources()\<close> needs.\<close>

definition request_step ::
  "node_types \<Rightarrow> min_workers_state \<Rightarrow> string \<times> int \<Rightarrow> min_workers_state result" where
  "request_step nts s p =
     (case s of (node_resources, counts, to_add) \<Rightarrow>
      case p of (t, nodes_to_add) \<Rightarrow>
        if nodes_to_add > 0 then
          bindE (type_resources nts t) (\<lambda>r.
            Inr (node_resources @ replicate (nat nodes_to_add) r,
                 dset counts t (nodes_to_add + dget_or counts t 0),
                 dset to_add t (nodes_to_add + dget_or to_add t 0)))
        else Inr s)"

definition add_min_workers_nodes ::
  "bool \<Rightarrow> resource_dict list \<Rightarrow> (string, int) dict \<Rightarrow> node_types \<Rightarrow> int \<Rightarrow> string
    \<Rightarrow> resource_dict list \<Rightarrow> min_workers_state result" where
  "add_min_workers_nodes conserve node_resources node_type_counts nts max_workers head_node_type
       ensure_min_cluster_size =
     bindE (foldE (min_workers_step head_node_type) (node_resources, node_type_counts, []) nts)
       (\<lambda>(node_resources, counts, to_add).
         if ensure_min_cluster_size \<noteq> [] then
           let max_to_add = max_workers + 1 - dtotal counts
           in bindE (node_type_counts_to_node_resources nts counts) (\<lambda>max_node_resources.
              bindE (get_bin_pack_residual max_node_resources ensure_min_cluster_size False)
                (\<lambda>(unfulfilled, _).
              bindE (get_nodes_for conserve nts counts head_node_type max_to_add unfulfilled False)
                (\<lambda>(request_nodes, _).
              foldE (request_step nts) (node_resources, counts, to_add) request_nodes)))
         else Inr (node_resources, counts, to_add))"

section \<open>The loop as an abstract launch sequence\<close>

text \<open>
  \<open>absorbs strict r demands ds rest\<close>: a node with resources \<open>r\<close> takes the non-empty
  group \<open>ds\<close> out of \<open>demands\<close> and leaves \<open>rest\<close>.
\<close>

definition absorbs ::
  "bool \<Rightarrow> resource_dict \<Rightarrow> resource_dict list \<Rightarrow> resource_dict list \<Rightarrow> resource_dict list \<Rightarrow> bool"
  where
  "absorbs strict r demands ds rest \<longleftrightarrow>
     mset ds + mset rest = mset demands \<and> ds \<noteq> [] \<and>
     (\<forall>k. (\<Sum>d\<leftarrow>ds. amount d k) \<le> amount r k) \<and> (strict \<longrightarrow> length ds = 1)"

inductive launches ::
  "node_types \<Rightarrow> (string, int) dict \<Rightarrow> string \<Rightarrow> int \<Rightarrow> bool
    \<Rightarrow> (string, int) dict \<Rightarrow> resource_dict list \<Rightarrow> (string, int) dict \<Rightarrow> resource_dict list \<Rightarrow> bool"
  for nts existing head max_to_add strict where
  launches_stop: "launches nts existing head max_to_add strict a ds a ds"
| launches_node:
    "ds \<noteq> [] \<Longrightarrow> dtotal a < max_to_add \<Longrightarrow> map_of nts t = Some c
     \<Longrightarrow> dget_or existing t 0 + dget_or a t 0 < worker_limit head t c
     \<Longrightarrow> ntc_resources c = Some r \<Longrightarrow> absorbs strict r ds taken rest
     \<Longrightarrow> launches nts existing head max_to_add strict (dset a t (dget_or a t 0 + 1)) rest a' ds'
     \<Longrightarrow> launches nts existing head max_to_add strict a ds a' ds'"

text \<open>A cluster configuration whose types all carry a resource dictionary.\<close>

definition wf_node_types :: "node_types \<Rightarrow> bool" where
  "wf_node_types nts \<longleftrightarrow> wf_dict nts \<and>
     (\<forall>(t, c) \<in> set nts. \<exists>r. ntc_resources c = Some r \<and> nonneg r \<and> wf_dict r)"

section \<open>Lemmas on the score\<close>

lemma config_resources_Inr [simp, result_simps]:
  "config_resources c = Inr r \<longleftrightarrow> ntc_resources c = Some r"
  by (auto simp: config_resources_def split: option.splits)

lemma type_resources_Inr:
  "type_resources nts t = Inr r \<longleftrightarrow> (\<exists>c. map_of nts t = Some c \<and> ntc_resources c = Some r)"
  by (auto simp: type_resources_def result_simps)

lemma utilization_fill_fittable:
  assumes "utilization_fill rem ty fit rs = Inr (rem', ty', fit')" and "fit' \<noteq> fit"
  shows "\<exists>d \<in> set rs. fits rem d"
  using assms
proof (induction rem ty fit rs rule: utilization_fill.induct)
  case (1 rem ty fit)
  then show ?case by simp
next
  case (2 rem ty fit r rs)
  then show ?case by (auto simp: Let_def split: if_splits)
qed

lemma utilization_fill_total:
  assumes "\<forall>d \<in> set rs. valid_demand d" and "nonneg rem"
  shows "\<exists>rem' ty' fit'. utilization_fill rem ty fit rs = Inr (rem', ty', fit') \<and> dkeys rem' = dkeys rem"
  using assms
proof (induction rem ty fit rs rule: utilization_fill.induct)
  case (1 rem ty fit)
  then show ?case by simp
next
  case (2 rem ty fit r rs)
  show ?case
  proof (cases "fits rem r")
    case True
    then obtain rem1 where r1: "inplace_subtract rem r = Inr rem1"
      using "2.prems" inplace_subtract_ok [of rem r] by (auto simp: valid_demand_def)
    have "\<exists>rem' ty' fit'. utilization_fill rem1
        (ty \<union> set (map fst (filter (\<lambda>(k, v). v > 0) r))) (fit @ [r]) rs = Inr (rem', ty', fit')
        \<and> dkeys rem' = dkeys rem1"
      by (rule "2.IH"(1) [OF refl True r1])
         (use "2.prems" inplace_subtract_nonneg [OF r1] in auto)
    then show ?thesis using True r1 inplace_subtract_keys [OF r1] by (simp add: Let_def)
  next
    case False
    then show ?thesis using "2.IH"(2) [OF refl False] "2.prems" by (simp add: Let_def)
  qed
qed

lemma utilization_rate_total:
  assumes "set (dkeys rs) \<subseteq> set (dkeys rem)"
  shows "\<exists>m u. utilization_rate rem ty m0 u0 rs = Inr (m, u)"
  using assms
proof (induction rem ty m0 u0 rs rule: utilization_rate.induct)
  case (1 rem ty m u)
  then show ?case by simp
next
  case (2 rem ty m u k v rs)
  show ?case
  proof (cases "v < 1")
    case True
    then show ?thesis using 2 by simp
  next
    case False
    from "2.prems" have "k \<in> set (dkeys rem)" by simp
    then obtain l where l: "map_of rem k = Some l"
      by (metis map_of_eq_None_iff not_None_eq set_map)
    show ?thesis
      using False l "2.IH"(2) [OF False, of l] "2.prems" by (simp add: Let_def)
  qed
qed

lemma utilization_score_Some:
  assumes "utilization_score conserve n rs = Inr (Some sc)"
  shows "n \<noteq> []" and "\<exists>d \<in> set rs. fits n d"
proof -
  from assms obtain rem ty fit m u where f: "utilization_fill n {} [] rs = Inr (rem, ty, fit)"
    "fit \<noteq> []" and r: "utilization_rate rem ty 0 [] n = Inr (m, u)" "u \<noteq> []"
    by (auto simp: utilization_score_def Let_def result_simps split: if_splits)
  show "n \<noteq> []" using r by auto
  show "\<exists>d \<in> set rs. fits n d" using utilization_fill_fittable [OF f(1)] f(2) by simp
qed

lemma utilization_score_total:
  assumes "\<forall>d \<in> set rs. valid_demand d" and "nonneg n"
  shows "\<exists>sc. utilization_score conserve n rs = Inr sc"
proof -
  obtain rem ty fit where f: "utilization_fill n {} [] rs = Inr (rem, ty, fit)" "dkeys rem = dkeys n"
    using utilization_fill_total [OF assms, of "{}" "[]"] by auto
  obtain m u where "utilization_rate rem ty 0 [] n = Inr (m, u)"
    using utilization_rate_total [of n rem ty 0 "[]"] f(2) by auto
  then show ?thesis using f(1) by (simp add: utilization_score_def Let_def)
qed

section \<open>Lemmas on the candidates\<close>

text \<open>A type the loop may launch next: below its limit, and some open demand fits it.\<close>

definition viable ::
  "node_types \<Rightarrow> (string, int) dict \<Rightarrow> string \<Rightarrow> (string, int) dict \<Rightarrow> resource_dict list
    \<Rightarrow> string \<Rightarrow> bool" where
  "viable nts existing head a ds t \<longleftrightarrow>
     (\<exists>c r. (t, c) \<in> set nts \<and> ntc_resources c = Some r \<and> r \<noteq> [] \<and>
        dget_or existing t 0 + dget_or a t 0 < worker_limit head t c \<and> (\<exists>d \<in> set ds. fits r d))"

lemma candidate_scores_viable:
  assumes "candidate_scores conserve nts existing head strict a ds = Inr scores"
  shows "\<forall>(sc, t) \<in> set scores. viable nts existing head a (if strict then take 1 ds else ds) t"
proof (rule foldE_invariant [OF _ assms(1) [unfolded candidate_scores_def]])
  fix s x s' assume inv: "\<forall>(sc, t) \<in> set s. viable nts existing head a (if strict then take 1 ds else ds) t"
    and x: "x \<in> set nts" and step:
    "(case x of (t, c) \<Rightarrow>
       if dget_or existing t 0 + dget_or a t 0 \<ge> worker_limit head t c then Inr s
       else bindE (config_resources c) (\<lambda>r. bindE (utilization_score conserve r
           (if strict then take 1 ds else ds)) (\<lambda>score.
           Inr (case score of None \<Rightarrow> s | Some sc \<Rightarrow> s @ [(sc, t)])))) = Inr s'"
  obtain t c where tc: "x = (t, c)" by (cases x)
  show "\<forall>(sc, t) \<in> set s'. viable nts existing head a (if strict then take 1 ds else ds) t"
  proof (cases "s' = s")
    case True
    then show ?thesis using inv by simp
  next
    case False
    then obtain r sc where r: "ntc_resources c = Some r"
      "utilization_score conserve r (if strict then take 1 ds else ds) = Inr (Some sc)"
      "s' = s @ [(sc, t)]" "dget_or existing t 0 + dget_or a t 0 < worker_limit head t c"
      using step tc by (auto simp: result_simps split: if_splits option.splits)
    then have "viable nts existing head a (if strict then take 1 ds else ds) t"
      using utilization_score_Some [OF r(2)] x tc unfolding viable_def by blast
    then show ?thesis using inv r(3) by simp
  qed
qed simp

lemma candidate_scores_total:
  assumes "wf_node_types nts" and "\<forall>d \<in> set ds. valid_demand d"
  shows "\<exists>scores. candidate_scores conserve nts existing head strict a ds = Inr scores"
proof -
  let ?f = "\<lambda>s (t, c). if dget_or existing t 0 + dget_or a t 0 \<ge> worker_limit head t c then Inr s
       else bindE (config_resources c) (\<lambda>r. bindE (utilization_score conserve r
           (if strict then take 1 ds else ds)) (\<lambda>score.
           Inr (case score of None \<Rightarrow> s | Some sc \<Rightarrow> s @ [(sc, t)])))"
  have "\<exists>s'. foldE ?f [] nts = Inr s' \<and> True"
  proof (rule foldE_total)
    fix s :: "(score \<times> string) list" and x assume "x \<in> set nts"
    obtain t c where x: "x = (t, c)" by (cases x)
    obtain r where r: "ntc_resources c = Some r" "nonneg r"
      using assms(1) \<open>x \<in> set nts\<close> x by (auto simp: wf_node_types_def)
    have "\<forall>d \<in> set (if strict then take 1 ds else ds). valid_demand d"
      using assms(2) by (auto dest: in_set_takeD)
    then obtain sc where
      "utilization_score conserve r (if strict then take 1 ds else ds) = Inr sc"
      using utilization_score_total [OF _ r(2)] by blast
    then show "\<exists>t. ?f s x = Inr t \<and> True"
      using x r(1) by (auto simp: config_resources_def)
  qed simp
  then show ?thesis by (simp add: candidate_scores_def)
qed

lemma best_candidate_in: "scores \<noteq> [] \<Longrightarrow> best_candidate scores \<in> snd ` set scores"
  unfolding best_candidate_def
  by (metis imageI length_0_conv length_sorted_reverse list.set_sel(1) set_sorted_reverse)

lemma best_candidate_viable:
  assumes "candidate_scores conserve nts existing head strict a ds = Inr scores" and "scores \<noteq> []"
  shows "viable nts existing head a (if strict then take 1 ds else ds) (best_candidate scores)"
  using candidate_scores_viable [OF assms(1)] best_candidate_in [OF assms(2)] by fastforce

section \<open>The loop refines the launch sequence\<close>

lemma absorbs_first:
  assumes "ds \<noteq> []" and "fits r (hd ds)" and "nonneg r"
  shows "absorbs strict r ds [hd ds] (tl ds)"
proof -
  have "mset [hd ds] + mset (tl ds) = mset (hd ds # tl ds)" by simp
  also have "hd ds # tl ds = ds" using assms(1) by simp
  finally show ?thesis using fits_amount [OF assms(2,3)] by (simp add: absorbs_def)
qed

lemma absorbs_pack:
  assumes "get_bin_pack_residual [r] ds False = Inr (rest, ns)" and "nonneg r"
    and "\<forall>d \<in> set ds. wf_dict d" and "length rest < length ds"
  obtains taken where "absorbs False r ds taken rest"
proof -
  obtain taken n' where t: "mset taken + mset rest = mset ds" "loaded r taken n'"
    by (rule bin_pack_single [OF assms(1-3)])
  have "taken \<noteq> []" using arg_cong [OF t(1), of size] assms(4) by auto
  then have "absorbs False r ds taken rest"
    using t loaded_within_capacity [OF t(2)] by (simp add: absorbs_def)
  then show thesis by (rule that)
qed

lemma absorbs_subset: "absorbs strict r ds taken rest \<Longrightarrow> set rest \<subseteq> set ds"
  unfolding absorbs_def by (metis UnCI set_mset_mset set_mset_union subsetI)

lemma wf_node_typesD:
  assumes "wf_node_types nts" and "(t, c) \<in> set nts"
  shows "map_of nts t = Some c" and "\<exists>r. ntc_resources c = Some r \<and> nonneg r \<and> wf_dict r"
  using assms by (auto simp: wf_node_types_def wf_dict_def)

text \<open>What one iteration that launches a node does.\<close>

lemma get_nodes_for_loop_step:
  assumes nts: "wf_node_types nts" and wf: "\<forall>d \<in> set ds. wf_dict d"
    and loop: "get_nodes_for_loop conserve nts existing head max_to_add strict a ds = Inr (a', ds')"
    and neq: "(a', ds') \<noteq> (a, ds)"
  obtains t c r taken rest where
    "ds \<noteq> []" "dtotal a < max_to_add" "map_of nts t = Some c" "ntc_resources c = Some r"
    "dget_or existing t 0 + dget_or a t 0 < worker_limit head t c"
    "absorbs strict r ds taken rest" "length rest < length ds"
    "get_nodes_for_loop conserve nts existing head max_to_add strict
       (dset a t (dget_or a t 0 + 1)) rest = Inr (a', ds')"
proof -
  have guard: "ds \<noteq> []" "dtotal a < max_to_add"
    using loop neq by (auto simp: get_nodes_for_loop.simps [of _ _ _ _ _ _ a ds] split: if_splits)
  obtain scores where sc: "candidate_scores conserve nts existing head strict a ds = Inr scores"
    "scores \<noteq> []"
    using loop neq by (auto simp: get_nodes_for_loop.simps [of _ _ _ _ _ _ a ds] guard result_simps
        split: if_splits)
  let ?t = "best_candidate scores"
  obtain c r where c: "(?t, c) \<in> set nts" "ntc_resources c = Some r"
    "dget_or existing ?t 0 + dget_or a ?t 0 < worker_limit head ?t c"
    and fit: "\<exists>d \<in> set (if strict then take 1 ds else ds). fits r d"
    using best_candidate_viable [OF sc] by (auto simp: viable_def)
  have mc: "map_of nts ?t = Some c" and nn: "nonneg r"
    using wf_node_typesD [OF nts c(1)] c(2) by auto
  show thesis
  proof (cases strict)
    case True
    have "fits r (hd ds)" using fit True guard(1) by (cases ds) auto
    then have "absorbs strict r ds [hd ds] (tl ds)" by (rule absorbs_first [OF guard(1) _ nn])
    moreover have "get_nodes_for_loop conserve nts existing head max_to_add strict
       (dset a ?t (dget_or a ?t 0 + 1)) (tl ds) = Inr (a', ds')"
      using loop guard sc True
      by (simp add: get_nodes_for_loop.simps [of _ _ _ _ _ _ a ds] Let_def)
    ultimately show thesis using that guard mc c by simp
  next
    case False
    obtain rest ns where p: "get_bin_pack_residual [r] ds False = Inr (rest, ns)"
      "length rest < length ds"
      and l: "get_nodes_for_loop conserve nts existing head max_to_add strict
       (dset a ?t (dget_or a ?t 0 + 1)) rest = Inr (a', ds')"
      using loop guard sc False mc c(2)
      by (auto simp: get_nodes_for_loop.simps [of _ _ _ _ _ _ a ds] Let_def result_simps
          type_resources_def split: if_splits)
    obtain taken where "absorbs False r ds taken rest"
      by (rule absorbs_pack [OF p(1) nn wf p(2)])
    then show thesis using that guard mc c p(2) l False by simp
  qed
qed

lemma get_nodes_for_loop_launches:
  assumes nts: "wf_node_types nts" and "\<forall>d \<in> set ds. wf_dict d"
    and "get_nodes_for_loop conserve nts existing head max_to_add strict a ds = Inr (a', ds')"
  shows "launches nts existing head max_to_add strict a ds a' ds'"
  using assms(2,3)
proof (induction "length ds" arbitrary: a ds rule: less_induct)
  case less
  show ?case
  proof (cases "(a', ds') = (a, ds)")
    case True
    then show ?thesis by (simp add: launches_stop)
  next
    case False
    obtain t c r taken rest where s: "ds \<noteq> []" "dtotal a < max_to_add" "map_of nts t = Some c"
      "ntc_resources c = Some r" "dget_or existing t 0 + dget_or a t 0 < worker_limit head t c"
      "absorbs strict r ds taken rest" "length rest < length ds"
      "get_nodes_for_loop conserve nts existing head max_to_add strict
         (dset a t (dget_or a t 0 + 1)) rest = Inr (a', ds')"
      by (rule get_nodes_for_loop_step [OF nts less.prems False])
    have "\<forall>d \<in> set rest. wf_dict d" using less.prems(1) absorbs_subset [OF s(6)] by auto
    then have "launches nts existing head max_to_add strict (dset a t (dget_or a t 0 + 1)) rest a' ds'"
      by (rule less.hyps [OF s(7) _ s(8)])
    then show ?thesis by (rule launches_node [OF s(1,2,3,5,4,6)])
  qed
qed

lemma get_nodes_for_loop_total:
  assumes nts: "wf_node_types nts" and "\<forall>d \<in> set ds. valid_demand d"
  shows "\<exists>a' ds'. get_nodes_for_loop conserve nts existing head max_to_add strict a ds = Inr (a', ds')"
  using assms(2)
proof (induction "length ds" arbitrary: a ds rule: less_induct)
  case less
  have wf: "\<forall>d \<in> set ds. wf_dict d" using less.prems by (simp add: valid_demand_def)
  obtain scores where sc: "candidate_scores conserve nts existing head strict a ds = Inr scores"
    using candidate_scores_total [OF nts less.prems] by blast
  note unfold = get_nodes_for_loop.simps [of _ _ _ _ _ _ a ds]
  show ?case
  proof (cases "ds \<noteq> [] \<and> dtotal a < max_to_add \<and> scores \<noteq> []")
    case False
    then show ?thesis using sc by (auto simp: unfold)
  next
    case True
    let ?t = "best_candidate scores"
    let ?a = "dset a ?t (dget_or a ?t 0 + 1)"
    obtain c r where c: "(?t, c) \<in> set nts" "ntc_resources c = Some r" "r \<noteq> []"
      and fit: "\<exists>d \<in> set (if strict then take 1 ds else ds). fits r d"
      using best_candidate_viable [OF sc] True by (auto simp: viable_def)
    have mc: "map_of nts ?t = Some c" and nn: "nonneg r"
      using wf_node_typesD [OF nts c(1)] c(2) by auto
    show ?thesis
    proof (cases strict)
      case strict: True
      have "length (tl ds) < length ds" "\<forall>d \<in> set (tl ds). valid_demand d"
        using True less.prems by (auto simp: list.set_sel(2))
      then show ?thesis
        using less.hyps [of "tl ds" ?a] True sc strict by (auto simp: unfold Let_def)
    next
      case nstrict: False
      obtain d where d: "d \<in> set ds" "fits r d" using fit nstrict by auto
      obtain rest ns where p: "get_bin_pack_residual [r] ds False = Inr (rest, ns)"
        using bin_pack_total [of "[r]" ds False] nn less.prems by auto
      have lt: "length rest < length ds"
        by (rule bin_pack_progress [OF p nn c(3) less.prems d])
      have "set rest \<subseteq> set ds"
        using bin_pack_packing [OF _ wf p] nn by (auto dest: packing_subset)
      then have "\<forall>d \<in> set rest. valid_demand d" using less.prems by auto
      then show ?thesis
        using less.hyps [OF lt, of ?a] True sc nstrict p lt mc c(2)
        by (auto simp: unfold Let_def type_resources_def config_resources_def)
    qed
  qed
qed

section \<open>What a launch sequence guarantees\<close>

lemma launches_wf: "launches nts ex h m st a ds a' ds' \<Longrightarrow> wf_dict a \<Longrightarrow> wf_dict a'"
  by (induction rule: launches.induct) auto

lemma launches_mono:
  "launches nts ex h m st a ds a' ds' \<Longrightarrow> dget_or a t 0 \<le> dget_or a' t 0"
  by (induction rule: launches.induct) (auto split: if_splits)

lemma launches_total:
  assumes "launches nts ex h m st a ds a' ds'" and "wf_dict a"
  shows "dtotal a' \<le> max m (dtotal a)" and "dtotal a \<le> dtotal a'"
  using assms
  by (induction rule: launches.induct) (auto simp: dtotal_dset)

lemma launches_limit:
  assumes "launches nts ex h m st a ds a' ds'" and "dget_or a' t 0 \<noteq> dget_or a t 0"
  shows "\<exists>c. map_of nts t = Some c \<and> dget_or ex t 0 + dget_or a' t 0 \<le> worker_limit h t c"
  using assms
proof (induction rule: launches.induct)
  case (launches_stop a ds)
  then show ?case by simp
next
  case (launches_node ds a t' c r taken rest a' ds')
  then show ?case
    by (cases "dget_or a' t 0 = dget_or (dset a t' (dget_or a t' 0 + 1)) t 0")
       (auto split: if_splits)
qed

lemma launches_keys:
  "launches nts ex h m st a ds a' ds' \<Longrightarrow> set (dkeys a') \<subseteq> set (dkeys a) \<union> set (dkeys nts)"
proof (induction rule: launches.induct)
  case (launches_stop a ds)
  then show ?case by simp
next
  case (launches_node ds a t c r taken rest a' ds')
  from launches_node.hyps(3) have "t \<in> set (dkeys nts)" by (force dest: map_of_SomeD)
  then show ?case using launches_node.IH by (auto simp: dkeys_dset simp del: set_map)
qed

lemma launches_subset: "launches nts ex h m st a ds a' ds' \<Longrightarrow> set ds' \<subseteq> set ds"
  by (induction rule: launches.induct) (auto dest: absorbs_subset)

text \<open>
  \<open>hosted nts strict demands new rest\<close>: one bin per launched node, \<open>new t\<close> of them of
  type \<open>t\<close>; the bins' loads are the demands that are no longer in \<open>rest\<close> and each load
  is within the resources of its node type.
\<close>

definition hosted ::
  "node_types \<Rightarrow> bool \<Rightarrow> resource_dict list \<Rightarrow> (string \<Rightarrow> int) \<Rightarrow> resource_dict list \<Rightarrow> bool" where
  "hosted nts strict demands new rest \<longleftrightarrow>
     (\<exists>bins. mset (concat (map snd bins)) + mset rest = mset demands \<and>
        (\<forall>t. new t = int (length (filter (\<lambda>b. fst b = t) bins))) \<and>
        (\<forall>(t, ds) \<in> set bins. ds \<noteq> [] \<and> (strict \<longrightarrow> length ds = 1) \<and>
           (\<exists>r. type_resources nts t = Inr r \<and>
              (\<forall>k. (\<Sum>d\<leftarrow>ds. amount d k) \<le> amount r k))))"

lemma launches_hosted:
  assumes "launches nts ex h m st a ds a' ds'"
  shows "hosted nts st ds (\<lambda>t. dget_or a' t 0 - dget_or a t 0) ds'"
  using assms
proof (induction rule: launches.induct)
  case (launches_stop a ds)
  show ?case unfolding hosted_def by (intro exI [of _ "[]"]) simp
next
  case (launches_node ds a t c r taken rest a' ds')
  let ?a = "dset a t (dget_or a t 0 + 1)"
  from launches_node.IH obtain bins where b:
    "mset (concat (map snd bins)) + mset ds' = mset rest"
    "\<And>u. dget_or a' u 0 - dget_or ?a u 0 = int (length (filter (\<lambda>b. fst b = u) bins))"
    "\<forall>(t, ds) \<in> set bins. ds \<noteq> [] \<and> (st \<longrightarrow> length ds = 1) \<and>
       (\<exists>r. type_resources nts t = Inr r \<and> (\<forall>k. (\<Sum>d\<leftarrow>ds. amount d k) \<le> amount r k))"
    unfolding hosted_def by auto
  have abs: "mset taken + mset rest = mset ds" "taken \<noteq> []" "st \<longrightarrow> length taken = 1"
    "\<forall>k. (\<Sum>d\<leftarrow>taken. amount d k) \<le> amount r k"
    using launches_node.hyps(6) by (simp_all add: absorbs_def)
  have tr: "type_resources nts t = Inr r"
    using launches_node.hyps(3,5) by (simp add: type_resources_def config_resources_def)
  have "mset (concat (map snd ((t, taken) # bins))) + mset ds' = mset ds"
    using abs(1) b(1) by (simp add: union_assoc)
  moreover have "dget_or a' u 0 - dget_or a u 0
      = int (length (filter (\<lambda>b. fst b = u) ((t, taken) # bins)))" for u
    using b(2) [of u] by (simp split: if_splits)
  ultimately show ?case
    unfolding hosted_def using b(3) abs tr by (intro exI [of _ "(t, taken) # bins"]) auto
qed

end
