(* ===== verification/Demand_Scheduler.thy ===== *)
theory Demand_Scheduler
  imports Node_Selection
begin

text \<open>
  The class \<open>ResourceDemandScheduler\<close>. The cloud's \<open>NodeProvider\<close> is a parameter, a
  record of the three queries the class makes. The methods that change the object take its
  state and return the new one.
\<close>

section \<open>State\<close>

record node_provider =
  np_node_tags :: "string \<Rightarrow> (string, string) dict"
  np_internal_ip :: "string \<Rightarrow> string"
  np_non_terminated_nodes :: "(string, string) dict \<Rightarrow> string list"

record demand_scheduler =
  ds_node_types :: node_types
  ds_node_resource_updated :: "string set"
  ds_max_workers :: int
  ds_head_node_type :: string
  ds_upscaling_speed :: rat

definition UPSCALING_INITIAL_NUM_NODES :: int where
  "UPSCALING_INITIAL_NUM_NODES = 5"

definition TAG_RAY_NODE_KIND :: string where "TAG_RAY_NODE_KIND = ''ray-node-type''"
definition NODE_KIND_HEAD :: string where "NODE_KIND_HEAD = ''head''"
definition NODE_KIND_WORKER :: string where "NODE_KIND_WORKER = ''worker''"
definition TAG_RAY_USER_NODE_TYPE :: string where "TAG_RAY_USER_NODE_TYPE = ''ray-user-node-type''"
definition NODE_TYPE_LEGACY_HEAD :: string where
  "NODE_TYPE_LEGACY_HEAD = ''ray-legacy-head-node-type''"
definition NODE_TYPE_LEGACY_WORKER :: string where
  "NODE_TYPE_LEGACY_WORKER = ''ray-legacy-worker-node-type''"

section \<open>Configuration\<close>

definition convert_memory_entry :: "string \<Rightarrow> resource_dict \<Rightarrow> resource_dict result" where
  "convert_memory_entry k res =
     (case map_of res k of
        None \<Rightarrow> Inr res
      | Some sz \<Rightarrow> bindE (to_memory_units sz False) (\<lambda>u. Inr (dset res k (of_int u))))"

definition convert_memory_unit :: "node_types \<Rightarrow> node_types result" where
  "convert_memory_unit nts =
     mapE (\<lambda>(t, c).
         bindE (convert_memory_entry ''memory'' (case ntc_resources c of None \<Rightarrow> [] | Some r \<Rightarrow> r)) (\<lambda>res.
         bindE (convert_memory_entry ''object_store_memory'' res) (\<lambda>res'.
           Inr (t, if res' \<noteq> [] then c\<lparr>ntc_resources := Some res'\<rparr> else c))))
       nts"

definition init_scheduler ::
  "node_types \<Rightarrow> int \<Rightarrow> string \<Rightarrow> rat \<Rightarrow> demand_scheduler result" where
  "init_scheduler nts max_workers head_node_type upscaling_speed =
     bindE (convert_memory_unit nts) (\<lambda>nts'.
       Inr \<lparr>ds_node_types = nts', ds_node_resource_updated = {}, ds_max_workers = max_workers,
            ds_head_node_type = head_node_type, ds_upscaling_speed = upscaling_speed\<rparr>)"

text \<open>\<open>node_types or self.node_types\<close>: an empty argument falls back to the object's own types.\<close>

definition is_legacy_yaml :: "demand_scheduler \<Rightarrow> node_types \<Rightarrow> bool" where
  "is_legacy_yaml s nts =
     (let nts' = (if nts = [] then ds_node_types s else nts)
      in dmem NODE_TYPE_LEGACY_HEAD nts' \<and> dmem NODE_TYPE_LEGACY_WORKER nts')"

text \<open>
  \<open>dict.update\<close> of one node type's configuration: the new entry's keys win;
  \<open>resources\<close> was deleted from the new entry when the old one is known.
\<close>

definition update_config :: "node_type_config \<Rightarrow> node_type_config \<Rightarrow> node_type_config" where
  "update_config old new =
     old\<lparr>ntc_resources := (case ntc_resources new of None \<Rightarrow> ntc_resources old | Some r \<Rightarrow> Some r),
         ntc_min_workers := (case ntc_min_workers new of None \<Rightarrow> ntc_min_workers old | Some n \<Rightarrow> Some n),
         ntc_max_workers := (case ntc_max_workers new of None \<Rightarrow> ntc_max_workers old | Some n \<Rightarrow> Some n),
         ntc_node_config := ntc_node_config new\<rparr>"

definition update_based_on_node_config ::
  "node_types \<Rightarrow> node_types \<Rightarrow> string \<Rightarrow> node_types result" where
  "update_based_on_node_config old_types new_types t =
     bindE (dindex old_types t) (\<lambda>old.
     bindE (dindex new_types t) (\<lambda>new.
       if ntc_node_config old = ntc_node_config new then
         bindE (config_resources old) (\<lambda>known.
           if known \<noteq> [] then
             (case ntc_resources new of
                None \<Rightarrow> Inl KeyError
              | Some _ \<Rightarrow> Inr (dset old_types t (update_config old (new\<lparr>ntc_resources := None\<rparr>))))
           else Inr (dset old_types t (update_config old new)))
       else Inr (dset old_types t new)))"

definition reset_config ::
  "demand_scheduler \<Rightarrow> node_types \<Rightarrow> int \<Rightarrow> string \<Rightarrow> rat \<Rightarrow> demand_scheduler result" where
  "reset_config s nts max_workers head_node_type upscaling_speed =
     bindE (convert_memory_unit nts) (\<lambda>converted.
     bindE (if is_legacy_yaml s nts \<and> is_legacy_yaml s [] then
              bindE (update_based_on_node_config (ds_node_types s) nts NODE_TYPE_LEGACY_HEAD) (\<lambda>nts1.
                update_based_on_node_config nts1 nts NODE_TYPE_LEGACY_WORKER)
            else Inr converted) (\<lambda>final.
       Inr \<lparr>ds_node_types = final, ds_node_resource_updated = {}, ds_max_workers = max_workers,
            ds_head_node_type = head_node_type, ds_upscaling_speed = upscaling_speed\<rparr>))"

fun is_feasible_types :: "string \<Rightarrow> resource_dict \<Rightarrow> node_types \<Rightarrow> bool result" where
  "is_feasible_types head_node_type bundle [] = Inr False"
| "is_feasible_types head_node_type bundle ((t, c) # nts) =
     bindE (config_resources c) (\<lambda>node_resources.
       if (t = head_node_type \<or> config_max_workers c > 0) \<and> fits node_resources bundle
       then Inr True else is_feasible_types head_node_type bundle nts)"

definition is_feasible :: "demand_scheduler \<Rightarrow> resource_dict \<Rightarrow> bool result" where
  "is_feasible s bundle = is_feasible_types (ds_head_node_type s) bundle (ds_node_types s)"

section \<open>Resources of the running cluster\<close>

definition RUNTIME_RESOURCE_KEYS :: "string list" where
  "RUNTIME_RESOURCE_KEYS = [''CPU'', ''GPU'', ''memory'', ''object_store_memory'']"

definition refresh_resources :: "resource_dict \<Rightarrow> resource_dict \<Rightarrow> resource_dict" where
  "refresh_resources runtime resources =
     fold (\<lambda>k res. case map_of runtime k of None \<Rightarrow> res | Some v \<Rightarrow> dset res k v)
       RUNTIME_RESOURCE_KEYS resources"

definition update_node_from_runtime ::
  "node_provider \<Rightarrow> (string, resource_dict) dict \<Rightarrow> demand_scheduler \<Rightarrow> string
    \<Rightarrow> demand_scheduler result" where
  "update_node_from_runtime provider max_resources_by_ip s node_id =
     (let tags = np_node_tags provider node_id
      in case map_of tags TAG_RAY_USER_NODE_TYPE of
           None \<Rightarrow> Inr s
         | Some t \<Rightarrow>
             (case map_of (ds_node_types s) t of
                None \<Rightarrow> Inr s
              | Some c \<Rightarrow>
                  if t \<in> ds_node_resource_updated s then Inr s
                  else
                    let runtime = dget_or max_resources_by_ip (np_internal_ip provider node_id) []
                    in if runtime = [] then Inr s
                       else
                         let resources = refresh_resources runtime
                               (case ntc_resources c of None \<Rightarrow> [] | Some r \<Rightarrow> r);
                             s' = s\<lparr>ds_node_types :=
                               dset (ds_node_types s) t (c\<lparr>ntc_resources := Some resources\<rparr>)\<rparr>
                         in bindE (dindex tags TAG_RAY_NODE_KIND) (\<lambda>kind.
                              Inr (if kind = NODE_KIND_WORKER then
                                     s'\<lparr>ds_node_resource_updated :=
                                        insert t (ds_node_resource_updated s')\<rparr>
                                   else s'))))"

definition update_node_resources_from_runtime ::
  "node_provider \<Rightarrow> demand_scheduler \<Rightarrow> string list \<Rightarrow> (string, resource_dict) dict
    \<Rightarrow> demand_scheduler result" where
  "update_node_resources_from_runtime provider s nodes max_resources_by_ip =
     (if length (ds_node_types s) \<noteq> card (ds_node_resource_updated s) then
        foldE (update_node_from_runtime provider max_resources_by_ip) s nodes
      else Inr s)"

definition set_type_resources :: "demand_scheduler \<Rightarrow> string \<Rightarrow> resource_dict \<Rightarrow> demand_scheduler result" where
  "set_type_resources s t r =
     bindE (dindex (ds_node_types s) t) (\<lambda>c.
       Inr (s\<lparr>ds_node_types := dset (ds_node_types s) t (c\<lparr>ntc_resources := Some r\<rparr>)\<rparr>))"

definition infer_legacy_node_resources_if_needed ::
  "node_provider \<Rightarrow> demand_scheduler \<Rightarrow> (string, resource_dict) dict \<Rightarrow> demand_scheduler result" where
  "infer_legacy_node_resources_if_needed provider s max_resources_by_ip =
     bindE (type_resources (ds_node_types s) NODE_TYPE_LEGACY_HEAD) (\<lambda>head_resources.
     bindE (if head_resources = [] then
              (case np_non_terminated_nodes provider [(TAG_RAY_NODE_KIND, NODE_KIND_HEAD)] of
                 [] \<Rightarrow> Inr s
               | node_id # _ \<Rightarrow>
                   (case map_of max_resources_by_ip (np_internal_ip provider node_id) of
                      None \<Rightarrow> Inr s
                    | Some r \<Rightarrow> set_type_resources s NODE_TYPE_LEGACY_HEAD r))
            else Inr s) (\<lambda>s1.
     bindE (type_resources (ds_node_types s1) NODE_TYPE_LEGACY_WORKER) (\<lambda>worker_resources.
       if worker_resources = [] then
         (let worker_node_ips = map (np_internal_ip provider)
                (np_non_terminated_nodes provider [(TAG_RAY_NODE_KIND, NODE_KIND_WORKER)])
          in case filter (\<lambda>ip. dmem ip max_resources_by_ip) worker_node_ips of
               [] \<Rightarrow> Inr s1
             | ip # _ \<Rightarrow> bindE (dindex max_resources_by_ip ip)
                 (set_type_resources s1 NODE_TYPE_LEGACY_WORKER))
       else Inr s1)))"

definition bump_count :: "(string, int) dict \<Rightarrow> string \<Rightarrow> (string, int) dict" where
  "bump_count d t = dset d t (dget_or d t 0 + 1)"

definition separate_running_and_pending_nodes ::
  "node_provider \<Rightarrow> string list \<Rightarrow> string list \<Rightarrow> (string, int) dict \<times> (string, int) dict" where
  "separate_running_and_pending_nodes provider non_terminated_nodes connected_nodes =
     foldl (\<lambda>(running, pending) node_id.
         case map_of (np_node_tags provider node_id) TAG_RAY_USER_NODE_TYPE of
           None \<Rightarrow> (running, pending)
         | Some t \<Rightarrow>
             if np_internal_ip provider node_id \<in> set connected_nodes
             then (bump_count running t, pending) else (running, bump_count pending t))
       ([], []) non_terminated_nodes"

type_synonym cluster_resources = "resource_dict list \<times> (string, int) dict"

definition add_node ::
  "node_types \<Rightarrow> string \<Rightarrow> resource_dict option \<Rightarrow> cluster_resources \<Rightarrow> cluster_resources result" where
  "add_node nts t available_resources s =
     (case s of (node_resources, counts) \<Rightarrow>
        (case map_of nts t of
           None \<Rightarrow> Inr s
         | Some c \<Rightarrow>
             bindE (config_resources c) (\<lambda>static.
               let available = (case available_resources of None \<Rightarrow> static | Some r \<Rightarrow> r)
               in Inr (node_resources @ [available], bump_count counts t))))"

definition calculate_node_resources ::
  "node_provider \<Rightarrow> demand_scheduler \<Rightarrow> string list \<Rightarrow> (string, int) dict
    \<Rightarrow> (string, resource_dict) dict \<Rightarrow> cluster_resources result" where
  "calculate_node_resources provider s nodes pending_nodes unused_resources_by_ip =
     bindE (foldE (\<lambda>acc node_id.
              case map_of (np_node_tags provider node_id) TAG_RAY_USER_NODE_TYPE of
                None \<Rightarrow> Inr acc
              | Some t \<Rightarrow>
                  add_node (ds_node_types s) t
                    (map_of unused_resources_by_ip (np_internal_ip provider node_id)) acc)
            ([], []) nodes) (\<lambda>acc.
       foldE (\<lambda>acc (t, count). foldE (\<lambda>acc _. add_node (ds_node_types s) t None acc) acc
                [0..<nat count])
         acc pending_nodes)"

section \<open>Deciding what to launch\<close>

definition reserve_step ::
  "bool \<Rightarrow> demand_scheduler \<Rightarrow> (string, int) dict \<times> resource_dict list \<times> (string, int) dict
    \<Rightarrow> resource_dict list
    \<Rightarrow> ((string, int) dict \<times> resource_dict list \<times> (string, int) dict) result" where
  "reserve_step conserve s acc bundles =
     (case acc of (to_add, node_resources, node_type_counts) \<Rightarrow>
        bindE (get_bin_pack_residual node_resources bundles True) (\<lambda>(unfulfilled, node_resources').
        let max_to_add = ds_max_workers s + 1 - dtotal node_type_counts
        in bindE (get_nodes_for conserve (ds_node_types s) node_type_counts (ds_head_node_type s)
                   max_to_add unfulfilled True) (\<lambda>(to_launch, _).
           let counts' = inplace_add node_type_counts to_launch;
               to_add' = inplace_add to_add to_launch
           in bindE (node_type_counts_to_node_resources (ds_node_types s) to_launch)
                (\<lambda>new_node_resources.
              bindE (get_bin_pack_residual new_node_resources unfulfilled True)
                (\<lambda>(unfulfilled', including_reserved).
              bindE (assertE (unfulfilled' = [])) (\<lambda>_.
                Inr (to_add', node_resources' @ including_reserved, counts')))))))"

definition reserve_and_allocate_spread ::
  "bool \<Rightarrow> demand_scheduler \<Rightarrow> resource_dict list list \<Rightarrow> resource_dict list \<Rightarrow> (string, int) dict
    \<Rightarrow> ((string, int) dict \<times> resource_dict list \<times> (string, int) dict) result" where
  "reserve_and_allocate_spread conserve s strict_spreads node_resources node_type_counts =
     foldE (reserve_step conserve s) ([], node_resources, node_type_counts) strict_spreads"

definition launch_upper_bound ::
  "demand_scheduler \<Rightarrow> (string, int) dict \<Rightarrow> (string, int) dict \<Rightarrow> (string, int) dict
    \<Rightarrow> (string, int) dict \<Rightarrow> (string, int) dict \<Rightarrow> string \<Rightarrow> int" where
  "launch_upper_bound s running_nodes pending_nodes pending_launches_nodes adjusted_min_workers
       placement_group_nodes t =
     (let max_allowed_pending_nodes = max UPSCALING_INITIAL_NUM_NODES
            (py_int (ds_upscaling_speed s * of_int (dget_or running_nodes t 0)));
          total_pending_nodes = dget_or pending_launches_nodes t 0 + dget_or pending_nodes t 0
      in max (max_allowed_pending_nodes - total_pending_nodes)
             (dget_or adjusted_min_workers t 0 + dget_or placement_group_nodes t 0))"

definition get_concurrent_resource_demand_to_launch ::
  "node_provider \<Rightarrow> demand_scheduler \<Rightarrow> (string, int) dict \<Rightarrow> string list \<Rightarrow> string list
    \<Rightarrow> (string, int) dict \<Rightarrow> (string, int) dict \<Rightarrow> (string, int) dict \<Rightarrow> (string, int) dict" where
  "get_concurrent_resource_demand_to_launch provider s to_launch connected_nodes
       non_terminated_nodes pending_launches_nodes adjusted_min_workers placement_group_nodes =
     (let (running_nodes, pending_nodes) =
            separate_running_and_pending_nodes provider non_terminated_nodes connected_nodes
      in foldl (\<lambda>updated (t, n).
             let upper_bound = launch_upper_bound s running_nodes pending_nodes
                   pending_launches_nodes adjusted_min_workers placement_group_nodes t
             in if upper_bound > 0 then dset updated t (min upper_bound n) else updated)
           [] to_launch)"

definition legacy_worker_node_to_launch ::
  "node_provider \<Rightarrow> demand_scheduler \<Rightarrow> (string, int) dict \<Rightarrow> resource_dict list
    \<Rightarrow> resource_dict list \<Rightarrow> (string, int) dict result" where
  "legacy_worker_node_to_launch provider s launching_nodes node_resources resource_demands =
     (let worker_nodes = np_non_terminated_nodes provider [(TAG_RAY_NODE_KIND, NODE_KIND_WORKER)]
      in if ds_max_workers s = 0 then Inr []
         else if dtotal launching_nodes + int (length worker_nodes) > 0 then Inr []
         else
           bindE (get_bin_pack_residual node_resources resource_demands False) (\<lambda>(unfulfilled, _).
           bindE (dindex (ds_node_types s) NODE_TYPE_LEGACY_WORKER) (\<lambda>c.
             let workers_to_add = min (config_min_workers c) (config_max_workers c)
             in Inr (if workers_to_add > 0 \<or> unfulfilled \<noteq> []
                     then [(NODE_TYPE_LEGACY_WORKER, max 1 workers_to_add)] else []))))"

definition sum_counts :: "(string, int) dict list \<Rightarrow> string \<Rightarrow> int" where
  "sum_counts ds t = sum_list (map (\<lambda>d. dget_or d t 0) ds)"

text \<open>The dict of positive totals over the configured node types, in their order.\<close>

definition total_nodes_to_add :: "node_types \<Rightarrow> (string, int) dict list \<Rightarrow> (string, int) dict" where
  "total_nodes_to_add nts ds =
     map (\<lambda>(t, _). (t, sum_counts ds t)) (filter (\<lambda>(t, _). sum_counts ds t > 0) nts)"

definition launch_for_demands ::
  "bool \<Rightarrow> node_provider \<Rightarrow> demand_scheduler \<Rightarrow> string list \<Rightarrow> (string, int) dict
    \<Rightarrow> (string, resource_dict) dict \<Rightarrow> resource_dict list \<Rightarrow> resource_dict list
    \<Rightarrow> resource_dict list list \<Rightarrow> min_workers_state
    \<Rightarrow> ((string, int) dict \<times> resource_dict list) result" where
  "launch_for_demands conserve provider s nodes launching_nodes unused_resources_by_ip
       placement_group_demand_vector resource_demands strict_spreads mw =
     (case mw of (node_resources, node_type_counts, adjusted_min_workers) \<Rightarrow>
        bindE (reserve_and_allocate_spread conserve s strict_spreads node_resources node_type_counts)
          (\<lambda>(spread_pg_nodes_to_add, node_resources, node_type_counts).
        bindE (get_bin_pack_residual node_resources placement_group_demand_vector False)
          (\<lambda>(unfulfilled_placement_groups_demands, _).
        let max_to_add = ds_max_workers s + 1 - dtotal node_type_counts
        in bindE (get_nodes_for conserve (ds_node_types s) node_type_counts (ds_head_node_type s)
                   max_to_add unfulfilled_placement_groups_demands False)
             (\<lambda>(pg_demands_nodes_max_launch_limit, _).
           let placement_groups_nodes_max_limit =
                 map (\<lambda>(t, _). (t, sum_counts [spread_pg_nodes_to_add,
                                               pg_demands_nodes_max_launch_limit] t))
                   (ds_node_types s)
           in bindE (get_bin_pack_residual node_resources resource_demands False)
                (\<lambda>(unfulfilled, _).
              bindE (get_nodes_for conserve (ds_node_types s) node_type_counts
                       (ds_head_node_type s) max_to_add unfulfilled False)
                (\<lambda>(nodes_to_add_based_on_demand, final_unfulfilled).
                Inr (get_concurrent_resource_demand_to_launch provider s
                       (total_nodes_to_add (ds_node_types s)
                          [adjusted_min_workers, spread_pg_nodes_to_add,
                           nodes_to_add_based_on_demand])
                       (dkeys unused_resources_by_ip) nodes launching_nodes adjusted_min_workers
                       placement_groups_nodes_max_limit,
                     final_unfulfilled)))))))"

definition get_nodes_to_launch ::
  "bool \<Rightarrow> node_provider \<Rightarrow> demand_scheduler \<Rightarrow> string list \<Rightarrow> (string, int) dict
    \<Rightarrow> resource_dict list \<Rightarrow> (string, resource_dict) dict \<Rightarrow> placement_group list
    \<Rightarrow> (string, resource_dict) dict \<Rightarrow> resource_dict list
    \<Rightarrow> (demand_scheduler \<times> (string, int) dict \<times> resource_dict list) result" where
  "get_nodes_to_launch conserve provider s nodes launching_nodes resource_demands
       unused_resources_by_ip pending_placement_groups max_resources_by_ip
       ensure_min_cluster_size =
     bindE (if is_legacy_yaml s [] then
              infer_legacy_node_resources_if_needed provider s max_resources_by_ip
            else Inr s) (\<lambda>s.
     bindE (update_node_resources_from_runtime provider s nodes max_resources_by_ip) (\<lambda>s.
     bindE (calculate_node_resources provider s nodes launching_nodes unused_resources_by_ip)
       (\<lambda>(node_resources, node_type_counts).
     bindE (add_min_workers_nodes conserve node_resources node_type_counts (ds_node_types s)
              (ds_max_workers s) (ds_head_node_type s) ensure_min_cluster_size) (\<lambda>mw.
     let (placement_group_demand_vector, strict_spreads) =
           placement_groups_to_resource_demands pending_placement_groups;
         resource_demands = placement_group_demand_vector @ resource_demands
     in bindE (if is_legacy_yaml s [] then
                 bindE (type_resources (ds_node_types s) NODE_TYPE_LEGACY_WORKER)
                   (\<lambda>r. Inr (r = []))
               else Inr False) (\<lambda>legacy_unknown.
        if legacy_unknown then
          bindE (legacy_worker_node_to_launch provider s launching_nodes (fst mw)
                   (resource_demands @ ensure_min_cluster_size)) (\<lambda>launch.
            Inr (s, launch, []))
        else
          bindE (launch_for_demands conserve provider s nodes launching_nodes
                   unused_resources_by_ip placement_group_demand_vector resource_demands
                   strict_spreads mw) (\<lambda>(launch, final_unfulfilled).
            Inr (s, launch, final_unfulfilled)))))))"

definition debug_string ::
  "node_provider \<Rightarrow> demand_scheduler \<Rightarrow> string list \<Rightarrow> (string, int) dict
    \<Rightarrow> (string, resource_dict) dict \<Rightarrow> string result" where
  "debug_string provider s nodes pending_nodes unused_resources_by_ip =
     bindE (calculate_node_resources provider s nodes pending_nodes unused_resources_by_ip)
       (\<lambda>(_, counts).
         Inr (foldl (\<lambda>out (t, n).
               let out = out @ [CHR 0x0A] @ '' - '' @ t @ '': '' @ str_int n
               in if dget_or pending_nodes t 0 \<noteq> 0
                  then out @ '' ('' @ str_int (dget_or pending_nodes t 0) @ '' pending)'' else out)
             ''Worker node types:'' counts))"

end
