(* ===== verification/Launch_Limits.thy ===== *)
theory Launch_Limits
  imports Demand_Scheduler
begin

text \<open>
  What \<open>ResourceDemandScheduler\<close> guarantees about the nodes it asks for: the cluster it
  plans for stays within the global and the per-type worker limits, the minimum numbers of
  workers are reached, and the concurrency limit is respected.
\<close>

section \<open>Growing a cluster within its limits\<close>

text \<open>
  \<open>grown nts head c0 c a\<close>: the node counts \<open>c\<close> are \<open>c0\<close> plus the additions
  \<open>a\<close>, and a type that was added to is configured and within its limit.
\<close>

definition grown ::
  "node_types \<Rightarrow> string \<Rightarrow> (string, int) dict \<Rightarrow> (string, int) dict \<Rightarrow> (string, int) dict \<Rightarrow> bool" where
  "grown nts head c0 c a \<longleftrightarrow> wf_dict c \<and> wf_dict a \<and>
     (\<forall>t. dget_or c t 0 = dget_or c0 t 0 + dget_or a t 0 \<and> 0 \<le> dget_or a t 0 \<and>
        (0 < dget_or a t 0 \<longrightarrow>
           (\<exists>cfg. map_of nts t = Some cfg \<and> dget_or c t 0 \<le> worker_limit head t cfg)))"

lemma grownD:
  assumes "grown nts head c0 c a"
  shows "wf_dict c" and "wf_dict a" and "dget_or c t 0 = dget_or c0 t 0 + dget_or a t 0"
    and "0 \<le> dget_or a t 0"
    and "0 < dget_or a t 0 \<Longrightarrow> \<exists>cfg. map_of nts t = Some cfg \<and> dget_or c t 0 \<le> worker_limit head t cfg"
  using assms by (auto simp: grown_def)

lemma grown_init: "wf_dict c0 \<Longrightarrow> grown nts head c0 c0 []"
  by (simp add: grown_def)

lemma dtotal_superset:
  fixes d :: "('k, int) dict"
  assumes "wf_dict d" and "finite K" and "set (dkeys d) \<subseteq> K"
  shows "dtotal d = (\<Sum>k\<in>K. dget_or d k 0)"
proof -
  have "(\<Sum>k\<in>K. dget_or d k 0) = (\<Sum>k\<in>set (dkeys d). dget_or d k 0)"
    using assms(2,3) by (intro sum.mono_neutral_right) (auto simp del: set_map simp: dget_or_notin)
  then show ?thesis by (simp add: dtotal_eq_sum [OF assms(1)])
qed

lemma dtotal_pointwise:
  fixes c :: "('k, int) dict"
  assumes "wf_dict c" "wf_dict c0" "wf_dict a"
    and "\<And>t. dget_or c t 0 = dget_or c0 t 0 + dget_or a t 0"
  shows "dtotal c = dtotal c0 + dtotal a"
proof -
  let ?K = "set (dkeys c) \<union> set (dkeys c0) \<union> set (dkeys a)"
  have "dtotal c = (\<Sum>k\<in>?K. dget_or c k 0)" "dtotal c0 = (\<Sum>k\<in>?K. dget_or c0 k 0)"
    "dtotal a = (\<Sum>k\<in>?K. dget_or a k 0)"
    using assms(1-3) by (intro dtotal_superset; auto)+
  then show ?thesis by (simp add: assms(4) sum.distrib)
qed

lemma grown_total:
  assumes "grown nts head c0 c a" and "wf_dict c0"
  shows "dtotal c = dtotal c0 + dtotal a"
  using assms by (intro dtotal_pointwise) (auto dest: grownD)

lemma dtotal_mono:
  fixes a b :: "('k, int) dict"
  assumes "wf_dict a" "wf_dict b" and "\<And>t. dget_or a t 0 \<le> dget_or b t 0"
  shows "dtotal a \<le> dtotal b"
proof -
  let ?K = "set (dkeys a) \<union> set (dkeys b)"
  have "dtotal a = (\<Sum>k\<in>?K. dget_or a k 0)" "dtotal b = (\<Sum>k\<in>?K. dget_or b k 0)"
    using assms(1,2) by (intro dtotal_superset; auto)+
  then show ?thesis by (simp add: assms(3) sum_mono)
qed

text \<open>Counts that grow by a launch sequence that started from them.\<close>

lemma grown_launches:
  assumes g: "grown nts head c0 c a" and l: "launches nts c head m strict [] ds n ds'"
    and wf: "wf_dict c'" "wf_dict a'"
    and c': "\<And>t. dget_or c' t 0 = dget_or c t 0 + dget_or n t 0"
    and a': "\<And>t. dget_or a' t 0 = dget_or a t 0 + dget_or n t 0"
  shows "grown nts head c0 c' a'"
  unfolding grown_def
proof (intro conjI wf allI impI)
  fix t
  note gt = grownD [OF g]
  have n0: "0 \<le> dget_or n t 0" using launches_mono [OF l, of t] by simp
  show "dget_or c' t 0 = dget_or c0 t 0 + dget_or a' t 0" using gt(3) c' a' by simp
  show "0 \<le> dget_or a' t 0" using gt(4) a' n0 by simp
  assume pos: "0 < dget_or a' t 0"
  show "\<exists>cfg. map_of nts t = Some cfg \<and> dget_or c' t 0 \<le> worker_limit head t cfg"
  proof (cases "dget_or n t 0 = 0")
    case True
    then show ?thesis using gt(5) pos a' c' by simp
  next
    case False
    then show ?thesis using launches_limit [OF l, of t] c' by simp
  qed
qed

lemma get_nodes_for_launches:
  assumes "wf_node_types nts" and "\<forall>d \<in> set ds. wf_dict d"
    and "get_nodes_for conserve nts ex head m ds strict = Inr (n, ds')"
  shows "launches nts ex head m strict [] ds n ds'"
  using get_nodes_for_loop_launches [OF assms(1,2)] assms(3) by (simp add: get_nodes_for_def)

section \<open>Minimum workers\<close>

definition min_target :: "string \<Rightarrow> string \<Rightarrow> node_type_config \<Rightarrow> int" where
  "min_target head t c =
     min (config_min_workers c) (config_max_workers c) + (if t = head then 1 else 0)"

text \<open>How many nodes are missing to the minimum of every type.\<close>

definition min_shortfall :: "node_types \<Rightarrow> string \<Rightarrow> (string, int) dict \<Rightarrow> int" where
  "min_shortfall nts head counts =
     (\<Sum>(t, c)\<leftarrow>nts. max 0 (min_target head t c - dget_or counts t 0))"

lemma min_target_limit: "min_target head t c \<le> worker_limit head t c"
  by (simp add: min_target_def worker_limit_def)

lemma min_shortfall_nonneg: "0 \<le> min_shortfall nts head c"
  unfolding min_shortfall_def by (rule sum_list_nonneg) auto

lemma min_shortfall_zero:
  assumes "\<forall>(t, cfg) \<in> set nts. min_target head t cfg \<le> dget_or c t 0"
  shows "min_shortfall nts head c = 0"
  using assms unfolding min_shortfall_def by (induction nts) auto

lemma min_workers_step_grown:
  assumes "grown nts head c0 c a" and "map_of nts t = Some cfg" and "dget_or a t 0 = 0"
    and "min_workers_step head (nr, c, a) (t, cfg) = Inr (nr', c', a')"
  shows "grown nts head c0 c' a'"
    and "min_target head t cfg \<le> dget_or c' t 0"
    and "dtotal a' = dtotal a + max 0 (min_target head t cfg - dget_or c0 t 0)"
    and "u \<noteq> t \<Longrightarrow> dget_or c' u 0 = dget_or c u 0" and "u \<noteq> t \<Longrightarrow> dget_or a' u 0 = dget_or a u 0"
proof -
  note g = grownD [OF assms(1)]
  note lim = min_target_limit [of head t cfg]
  have st: "(c' = dset c t (min_target head t cfg)
      \<and> a' = dset a t (min_target head t cfg - dget_or c t 0) \<and> dget_or c t 0 < min_target head t cfg)
      \<or> (c' = c \<and> a' = a \<and> min_target head t cfg \<le> dget_or c t 0)"
    using assms(4) by (auto simp: min_workers_step_def Let_def min_target_def result_simps
        split: if_splits)
  then show "grown nts head c0 c' a'"
  proof
    assume s: "c' = dset c t (min_target head t cfg)
      \<and> a' = dset a t (min_target head t cfg - dget_or c t 0) \<and> dget_or c t 0 < min_target head t cfg"
    show ?thesis
      unfolding grown_def using s assms(2,3) g lim by simp
  qed (use assms(1) in simp)
  show "min_target head t cfg \<le> dget_or c' t 0"
    "u \<noteq> t \<Longrightarrow> dget_or c' u 0 = dget_or c u 0" "u \<noteq> t \<Longrightarrow> dget_or a' u 0 = dget_or a u 0"
    using st by auto
  show "dtotal a' = dtotal a + max 0 (min_target head t cfg - dget_or c0 t 0)"
    using st g(2) g(3) [of t] assms(3) by (auto simp: dtotal_dset)
qed

lemma min_workers_fold:
  assumes "foldE (min_workers_step head) (nr, c, a) ps = Inr (nr', c', a')"
    and "grown nts head c0 c a" and "wf_dict ps"
    and "\<forall>(t, cfg) \<in> set ps. map_of nts t = Some cfg \<and> dget_or a t 0 = 0"
  shows "grown nts head c0 c' a' \<and> (\<forall>(t, cfg) \<in> set ps. min_target head t cfg \<le> dget_or c' t 0)
     \<and> dtotal a' = dtotal a + min_shortfall ps head c0
     \<and> (\<forall>u. u \<notin> set (dkeys ps) \<longrightarrow> dget_or c' u 0 = dget_or c u 0)"
  using assms
proof (induction ps arbitrary: nr c a)
  case Nil
  then show ?case by (simp add: min_shortfall_def)
next
  case (Cons p ps)
  obtain t cfg where p: "p = (t, cfg)" by (cases p)
  obtain nr1 c1 a1 where s: "min_workers_step head (nr, c, a) (t, cfg) = Inr (nr1, c1, a1)"
    and f: "foldE (min_workers_step head) (nr1, c1, a1) ps = Inr (nr', c', a')"
    using Cons.prems(1) p by (auto simp: result_simps)
  have tm: "map_of nts t = Some cfg" "dget_or a t 0 = 0" using Cons.prems(4) p by auto
  note st = min_workers_step_grown [OF Cons.prems(2) tm s]
  have notin: "t \<notin> set (dkeys ps)" "wf_dict ps" using Cons.prems(3) p by auto
  have "\<forall>(u, cfg) \<in> set ps. map_of nts u = Some cfg \<and> dget_or a1 u 0 = 0"
  proof (clarify)
    fix u v assume m: "(u, v) \<in> set ps"
    then have "u \<noteq> t" using notin(1) by force
    then show "map_of nts u = Some v \<and> dget_or a1 u 0 = 0"
      using m Cons.prems(4) st(5) by auto
  qed
  note IH = Cons.IH [OF f st(1) notin(2) this]
  have "dget_or c' t 0 = dget_or c1 t 0" using IH notin(1) by blast
  then show ?case using IH st(2,3) st(4) p by (auto simp: min_shortfall_def)
qed

lemma request_fold:
  assumes "foldE (request_step nts) (nr, c, a) n = Inr (nr', c', a')"
    and "wf_dict n" and "\<forall>(t, v) \<in> set n. 0 \<le> v" and "wf_dict c" and "wf_dict a"
  shows "wf_dict c' \<and> wf_dict a' \<and> dget_or c' t 0 = dget_or c t 0 + dget_or n t 0
     \<and> dget_or a' t 0 = dget_or a t 0 + dget_or n t 0"
  using assms
proof (induction n arbitrary: nr c a)
  case Nil
  then show ?case by simp
next
  case (Cons p n)
  obtain u v where p: "p = (u, v)" by (cases p)
  obtain nr1 c1 a1 where s: "request_step nts (nr, c, a) (u, v) = Inr (nr1, c1, a1)"
    and f: "foldE (request_step nts) (nr1, c1, a1) n = Inr (nr', c', a')"
    using Cons.prems(1) p by (auto simp: result_simps)
  have "u \<notin> set (dkeys n)" "wf_dict n" "0 \<le> v" using Cons.prems(2,3) p by auto
  moreover from this(1) have "dget_or n u 0 = 0" by (rule dget_or_notin)
  moreover have "(v > 0 \<and> c1 = dset c u (v + dget_or c u 0) \<and> a1 = dset a u (v + dget_or a u 0))
      \<or> (v \<le> 0 \<and> c1 = c \<and> a1 = a)"
    using s by (auto simp: request_step_def result_simps split: if_splits)
  ultimately show ?case
    using Cons.IH [OF f] Cons.prems(3-5) p by (auto simp: dget_or_def split: if_splits)
qed

section \<open>The cluster the scheduler plans for\<close>

text \<open>
  The planned cluster grew within the type limits, and its size is within \<open>max_workers\<close>
  plus the head node unless the configured minimums alone exceed that.
\<close>

definition planned ::
  "node_types \<Rightarrow> string \<Rightarrow> int \<Rightarrow> (string, int) dict \<Rightarrow> (string, int) dict \<Rightarrow> (string, int) dict \<Rightarrow> bool"
  where
  "planned nts head max_workers c0 c a \<longleftrightarrow> grown nts head c0 c a \<and>
     dtotal c \<le> max (max_workers + 1) (dtotal c0 + min_shortfall nts head c0)"

lemma planned_launches:
  assumes p: "planned nts head mw c0 c a"
    and l: "launches nts c head (mw + 1 - dtotal c) strict [] ds n ds'"
    and wf: "wf_dict c'" "wf_dict a'"
    and c': "\<And>t. dget_or c' t 0 = dget_or c t 0 + dget_or n t 0"
    and a': "\<And>t. dget_or a' t 0 = dget_or a t 0 + dget_or n t 0"
  shows "planned nts head mw c0 c' a'"
proof -
  have g: "grown nts head c0 c a" using p by (simp add: planned_def)
  have "wf_dict c" by (rule grownD(1) [OF g])
  then have "dtotal c' = dtotal c + dtotal n"
    using wf(1) launches_wf [OF l] c' by (intro dtotal_pointwise) auto
  moreover have "dtotal n \<le> max (mw + 1 - dtotal c) 0" using launches_total(1) [OF l] by simp
  ultimately show ?thesis
    using p grown_launches [OF g l wf c' a'] by (auto simp: planned_def)
qed

lemma planned_add:
  assumes "planned nts head mw c0 c a"
    and l: "launches nts c head (mw + 1 - dtotal c) strict [] ds n ds'"
  shows "planned nts head mw c0 (inplace_add c n) (inplace_add a n)"
proof (rule planned_launches [OF assms])
  have "wf_dict n" using launches_wf [OF l] by simp
  then show "dget_or (inplace_add c n) t 0 = dget_or c t 0 + dget_or n t 0"
    "dget_or (inplace_add a n) t 0 = dget_or a t 0 + dget_or n t 0" for t
    by (simp_all add: inplace_add_amount)
  show "wf_dict (inplace_add c n)" "wf_dict (inplace_add a n)"
    using assms(1) by (auto simp: planned_def intro!: inplace_add_wf dest: grownD)
qed

lemma launches_nonneg:
  assumes "launches nts ex h m st [] ds n ds'"
  shows "\<forall>(t, v) \<in> set n. 0 \<le> v"
proof (clarify)
  fix t v assume "(t, v) \<in> set n"
  then have "dget_or n t 0 = v" using launches_wf [OF assms] by (simp add: dget_or_in)
  then show "0 \<le> v" using launches_mono [OF assms, of t] by simp
qed

lemma add_min_workers_planned:
  assumes nts: "wf_node_types nts" and c0: "wf_dict c0" and ens: "\<forall>d \<in> set ens. wf_dict d"
    and run: "add_min_workers_nodes conserve nr c0 nts mw head ens = Inr (nr', c', a')"
  shows "planned nts head mw c0 c' a'"
    and "\<forall>(t, cfg) \<in> set nts. min_target head t cfg \<le> dget_or c' t 0"
proof -
  obtain nr1 c1 a1 where f: "foldE (min_workers_step head) (nr, c0, []) nts = Inr (nr1, c1, a1)"
    using run by (auto simp: add_min_workers_nodes_def result_simps)
  have mw: "grown nts head c0 c1 a1 \<and> (\<forall>(t, cfg) \<in> set nts. min_target head t cfg \<le> dget_or c1 t 0)
      \<and> dtotal a1 = dtotal ([] :: (string, int) dict) + min_shortfall nts head c0
      \<and> (\<forall>u. u \<notin> set (dkeys nts) \<longrightarrow> dget_or c1 u 0 = dget_or c0 u 0)"
    by (rule min_workers_fold [OF f grown_init [OF c0]])
      (use nts in \<open>auto simp: wf_node_types_def wf_dict_def\<close>)
  then have p1: "planned nts head mw c0 c1 a1"
    using grown_total [of nts head c0 c1 a1] c0 by (simp add: planned_def)
  have "planned nts head mw c0 c' a' \<and> (\<forall>t. dget_or c1 t 0 \<le> dget_or c' t 0)"
  proof (cases "ens = []")
    case True
    then show ?thesis using run f p1 by (simp add: add_min_workers_nodes_def)
  next
    case False
    obtain mr unf ns n ds' where b: "get_bin_pack_residual mr ens False = Inr (unf, ns)"
      and n: "get_nodes_for conserve nts c1 head (mw + 1 - dtotal c1) unf False = Inr (n, ds')"
      and r: "foldE (request_step nts) (nr1, c1, a1) n = Inr (nr', c', a')"
      using run f False by (auto simp: add_min_workers_nodes_def result_simps Let_def)
    have "\<forall>d \<in> set unf. wf_dict d" using bin_pack_subset [OF b] ens by auto
    then have l: "launches nts c1 head (mw + 1 - dtotal c1) False [] unf n ds'"
      by (rule get_nodes_for_launches [OF nts _ n])
    have "wf_dict n" using launches_wf [OF l] by simp
    note rf = request_fold [OF r this launches_nonneg [OF l]]
    have "wf_dict c1" "wf_dict a1" using mw by (auto dest: grownD)
    note rf = rf [OF this]
    have "planned nts head mw c0 c' a'" by (rule planned_launches [OF p1 l]) (use rf in auto)
    then show ?thesis using rf launches_mono [OF l] by simp
  qed
  then show "planned nts head mw c0 c' a'"
    and "\<forall>(t, cfg) \<in> set nts. min_target head t cfg \<le> dget_or c' t 0"
    using mw by (auto intro: order_trans)
qed

lemma reserve_step_planned:
  assumes nts: "wf_node_types (ds_node_types s)" and b: "\<forall>d \<in> set bundles. wf_dict d"
    and p: "planned (ds_node_types s) (ds_head_node_type s) (ds_max_workers s) c0 c a"
    and run: "reserve_step conserve s (a, nr, c) bundles = Inr (a', nr', c')"
  shows "planned (ds_node_types s) (ds_head_node_type s) (ds_max_workers s) c0 c' a'"
proof -
  obtain unf ns n ds' where b': "get_bin_pack_residual nr bundles True = Inr (unf, ns)"
    and n: "get_nodes_for conserve (ds_node_types s) c (ds_head_node_type s)
        (ds_max_workers s + 1 - dtotal c) unf True = Inr (n, ds')"
    and eq: "c' = inplace_add c n" "a' = inplace_add a n"
    using run by (auto simp: reserve_step_def result_simps Let_def)
  have "\<forall>d \<in> set unf. wf_dict d" using bin_pack_subset [OF b'] b by auto
  then have "launches (ds_node_types s) c (ds_head_node_type s)
      (ds_max_workers s + 1 - dtotal c) True [] unf n ds'"
    by (rule get_nodes_for_launches [OF nts _ n])
  then show ?thesis unfolding eq by (rule planned_add [OF p])
qed

lemma reserve_planned:
  assumes nts: "wf_node_types (ds_node_types s)" and c0: "wf_dict c0"
    and b: "\<forall>bundles \<in> set spreads. \<forall>d \<in> set bundles. wf_dict d"
    and run: "reserve_and_allocate_spread conserve s spreads nr c0 = Inr (a', nr', c')"
  shows "planned (ds_node_types s) (ds_head_node_type s) (ds_max_workers s) c0 c' a'"
proof -
  let ?Q = "\<lambda>(a, nr :: resource_dict list, c).
    planned (ds_node_types s) (ds_head_node_type s) (ds_max_workers s) c0 c a"
  have "0 \<le> min_shortfall (ds_node_types s) (ds_head_node_type s) c0"
    by (rule min_shortfall_nonneg)
  then have init: "?Q ([], nr, c0)"
    using grown_init [OF c0] by (simp add: planned_def)
  have "?Q (a', nr', c')"
  proof (rule foldE_invariant [where P = ?Q, OF init run [unfolded reserve_and_allocate_spread_def]])
    fix u bundles v
    assume u: "?Q u" and m: "bundles \<in> set spreads" and r: "reserve_step conserve s u bundles = Inr v"
    obtain a nr1 c a2 nr2 c2 where uv: "u = (a, nr1, c)" "v = (a2, nr2, c2)" by (cases u, cases v)
    show "?Q v"
      using reserve_step_planned [OF nts bspec [OF b m] _ r [unfolded uv]] u
      unfolding uv prod.case .
  qed
  then show ?thesis by simp
qed

lemma grown_trans:
  assumes "grown nts head c0 c1 a1" and "grown nts head c1 c2 a2" and "wf_dict a"
    and a: "\<And>t. dget_or a t 0 = dget_or a1 t 0 + dget_or a2 t 0"
  shows "grown nts head c0 c2 a"
  unfolding grown_def
proof (intro conjI allI impI)
  show "wf_dict c2" "wf_dict a" using assms by (auto dest: grownD)
  fix t
  note g1 = grownD [OF assms(1)] and g2 = grownD [OF assms(2)]
  show "dget_or c2 t 0 = dget_or c0 t 0 + dget_or a t 0" "0 \<le> dget_or a t 0"
    using g1(3,4) [of t] g2(3,4) [of t] a by auto
  assume "0 < dget_or a t 0"
  then consider "0 < dget_or a2 t 0" | "0 < dget_or a1 t 0" "dget_or a2 t 0 = 0"
    using a g1(4) [of t] g2(4) [of t] by fastforce
  then show "\<exists>cfg. map_of nts t = Some cfg \<and> dget_or c2 t 0 \<le> worker_limit head t cfg"
    using g1(5) g2(3,5) by cases auto
qed

text \<open>A plan that starts where the minimums are reached, after one that reached them.\<close>

lemma planned_trans:
  assumes p1: "planned nts head mw c0 c1 a1" and p2: "planned nts head mw c1 c2 a2"
    and reached: "\<forall>(t, cfg) \<in> set nts. min_target head t cfg \<le> dget_or c1 t 0"
    and a: "wf_dict a" "\<And>t. dget_or a t 0 = dget_or a1 t 0 + dget_or a2 t 0"
  shows "planned nts head mw c0 c2 a"
    and "\<forall>(t, cfg) \<in> set nts. min_target head t cfg \<le> dget_or c2 t 0"
proof -
  show "planned nts head mw c0 c2 a"
    using p1 p2 grown_trans [OF _ _ a] min_shortfall_zero [OF reached] by (auto simp: planned_def)
  have "dget_or c1 t 0 \<le> dget_or c2 t 0" for t
    using p2 grownD(3,4) [of nts head c1 c2 a2 t] by (simp add: planned_def)
  then show "\<forall>(t, cfg) \<in> set nts. min_target head t cfg \<le> dget_or c2 t 0"
    using reached by (auto intro: order_trans)
qed

section \<open>The concurrency limit\<close>

lemma foldl_dset_image:
  fixes d :: "('k, 'v) dict" and P :: "'k \<Rightarrow> bool" and f :: "'k \<Rightarrow> 'w \<Rightarrow> 'v"
  assumes "wf_dict xs" and "wf_dict d" and "set (dkeys xs) \<inter> set (dkeys d) = {}"
  defines "g \<equiv> \<lambda>d (t, n). if P t then dset d t (f t n) else d"
  shows "wf_dict (foldl g d xs) \<and> (\<forall>t. map_of (foldl g d xs) t
       = (case map_of xs t of Some n \<Rightarrow> if P t then Some (f t n) else map_of d t | None \<Rightarrow> map_of d t))"
  using assms(1-3)
proof (induction xs arbitrary: d)
  case Nil
  then show ?case by simp
next
  case (Cons p xs)
  obtain u n where p: "p = (u, n)" by (cases p)
  let ?d = "if P u then dset d u (f u n) else d"
  have u: "wf_dict xs" "u \<notin> set (dkeys xs)" "u \<notin> set (dkeys d)"
    "set (dkeys xs) \<inter> set (dkeys d) = {}"
    using Cons.prems(1,3) p by auto
  have "set (dkeys xs) \<inter> set (dkeys ?d) = {}"
    using u(2,4) by (simp add: dkeys_dset del: set_map)
  then have IH: "wf_dict (foldl g ?d xs) \<and> (\<forall>t. map_of (foldl g ?d xs) t
       = (case map_of xs t of Some n \<Rightarrow> if P t then Some (f t n) else map_of ?d t | None \<Rightarrow> map_of ?d t))"
    using Cons.IH [of ?d] u(1) Cons.prems(2) by simp
  have "map_of xs u = None" "map_of d u = None" using u(2,3) by (simp_all add: map_of_eq_None_iff)
  moreover have "foldl g d (p # xs) = foldl g ?d xs" by (simp add: g_def p)
  ultimately show ?case using IH p by (auto split: option.splits)
qed

lemma concurrent_launch:
  assumes "wf_dict to_launch"
    and l: "l = get_concurrent_resource_demand_to_launch provider s to_launch conn_ips nodes
      pending mins pgs"
    and ub: "ub = launch_upper_bound s
      (fst (separate_running_and_pending_nodes provider nodes conn_ips))
      (snd (separate_running_and_pending_nodes provider nodes conn_ips)) pending mins pgs"
  shows "wf_dict l" and "map_of l t =
     (case map_of to_launch t of None \<Rightarrow> None
      | Some n \<Rightarrow> if ub t > 0 then Some (min (ub t) n) else None)"
proof -
  have "l = foldl (\<lambda>d (t, n). if ub t > 0 then dset d t (min (ub t) n) else d) [] to_launch"
    unfolding l ub get_concurrent_resource_demand_to_launch_def case_prod_unfold Let_def ..
  then show "wf_dict l" and "map_of l t =
     (case map_of to_launch t of None \<Rightarrow> None
      | Some n \<Rightarrow> if ub t > 0 then Some (min (ub t) n) else None)"
    using foldl_dset_image [OF assms(1), of "[]" "\<lambda>t. ub t > 0" "\<lambda>t n. min (ub t) n"]
    by (auto split: option.splits)
qed

lemma map_of_map_keys:
  "map_of (map (\<lambda>(t, _). (t, f t)) xs) t = map_option (\<lambda>_. f t) (map_of xs t)"
  by (induction xs) auto

lemma total_nodes_to_add_at:
  assumes "wf_dict nts" and "\<And>t. t \<notin> set (dkeys nts) \<Longrightarrow> sum_counts ds t = 0"
    and "\<And>t. 0 \<le> sum_counts ds t"
  shows "wf_dict (total_nodes_to_add nts ds)"
    and "map_of (total_nodes_to_add nts ds) t
       = (if sum_counts ds t > 0 then Some (sum_counts ds t) else None)"
proof -
  have keys: "dkeys (total_nodes_to_add nts ds) = filter (\<lambda>t. sum_counts ds t > 0) (dkeys nts)"
    by (simp add: total_nodes_to_add_def filter_map comp_def case_prod_unfold)
  then show wf: "wf_dict (total_nodes_to_add nts ds)"
    using assms(1) by (simp add: wf_dict_def del: set_map)
  show "map_of (total_nodes_to_add nts ds) t
       = (if sum_counts ds t > 0 then Some (sum_counts ds t) else None)"
  proof (cases "sum_counts ds t > 0")
    case True
    then have "t \<in> set (dkeys nts)" using assms(2) [of t] by auto
    then have "(t, sum_counts ds t) \<in> set (total_nodes_to_add nts ds)"
      using True by (force simp: total_nodes_to_add_def)
    then show ?thesis using wf True by (simp add: wf_dict_def)
  next
    case False
    then have "t \<notin> set (dkeys (total_nodes_to_add nts ds))" unfolding keys by simp
    then show ?thesis using False by (simp add: map_of_eq_None_iff)
  qed
qed

lemma grown_outside:
  assumes "grown nts head c0 c a" and "t \<notin> set (dkeys nts)"
  shows "dget_or a t 0 = 0"
proof (rule ccontr)
  assume "dget_or a t 0 \<noteq> 0"
  then have "0 < dget_or a t 0" using grownD(4) [OF assms(1), of t] by simp
  then show False using grownD(5) [OF assms(1)] assms(2) by (force dest: map_of_SomeD)
qed

lemma launch_for_demands_planned:
  assumes nts: "wf_node_types (ds_node_types s)"
    and p1: "planned (ds_node_types s) (ds_head_node_type s) (ds_max_workers s) c0 c1 a1"
    and reached: "\<forall>(t, cfg) \<in> set (ds_node_types s).
      min_target (ds_head_node_type s) t cfg \<le> dget_or c1 t 0"
    and wf: "\<forall>d \<in> set demands. wf_dict d" "\<forall>bundles \<in> set spreads. \<forall>d \<in> set bundles. wf_dict d"
      "\<forall>d \<in> set pgdemands. wf_dict d"
    and run: "launch_for_demands conserve provider s nodes launching unused pgdemands demands spreads
      (nr, c1, a1) = Inr (launch, unf)"
  shows "\<exists>c3 a3. planned (ds_node_types s) (ds_head_node_type s) (ds_max_workers s) c0 c3 a3 \<and>
     wf_dict launch \<and> (\<forall>t. dget_or a1 t 0 \<le> dget_or launch t 0 \<and> dget_or launch t 0 \<le> dget_or a3 t 0)"
proof -
  let ?nts = "ds_node_types s" and ?h = "ds_head_node_type s" and ?mw = "ds_max_workers s"
  obtain a2 nr2 c2 unfpg nspg npg dspg unf2 ns2 n where
    r: "reserve_and_allocate_spread conserve s spreads nr c1 = Inr (a2, nr2, c2)"
    and bpg: "get_bin_pack_residual nr2 pgdemands False = Inr (unfpg, nspg)"
    and gpg: "get_nodes_for conserve ?nts c2 ?h (?mw + 1 - dtotal c2) unfpg False = Inr (npg, dspg)"
    and b: "get_bin_pack_residual nr2 demands False = Inr (unf2, ns2)"
    and g: "get_nodes_for conserve ?nts c2 ?h (?mw + 1 - dtotal c2) unf2 False = Inr (n, unf)"
    and launch: "launch = get_concurrent_resource_demand_to_launch provider s
       (total_nodes_to_add ?nts [a1, a2, n]) (dkeys unused) nodes launching a1
       (map (\<lambda>(t, _). (t, sum_counts [a2, npg] t)) ?nts)"
    using run by (auto simp: launch_for_demands_def result_simps Let_def)
  have c1: "wf_dict c1" "wf_dict a1" and g1: "grown ?nts ?h c0 c1 a1"
    using p1 by (auto simp: planned_def dest: grownD)
  have p2: "planned ?nts ?h ?mw c1 c2 a2" by (rule reserve_planned [OF nts c1(1) wf(2) r])
  then have g2: "grown ?nts ?h c1 c2 a2" and c2: "wf_dict c2" "wf_dict a2"
    by (auto simp: planned_def dest: grownD)
  have "\<forall>d \<in> set unf2. wf_dict d" using bin_pack_subset [OF b] wf(1) by auto
  then have l: "launches ?nts c2 ?h (?mw + 1 - dtotal c2) False [] unf2 n unf"
    by (rule get_nodes_for_launches [OF nts _ g])
  then have n: "wf_dict n" by (auto dest: launches_wf)
  have "\<forall>d \<in> set unfpg. wf_dict d" using bin_pack_subset [OF bpg] wf(3) by auto
  then have lpg: "launches ?nts c2 ?h (?mw + 1 - dtotal c2) False [] unfpg npg dspg"
    by (rule get_nodes_for_launches [OF nts _ gpg])
  let ?a12 = "inplace_add a1 a2" and ?a3 = "inplace_add (inplace_add a1 a2) n"
  have a12: "dget_or ?a12 t 0 = dget_or a1 t 0 + dget_or a2 t 0" "wf_dict ?a12" for t
    using c1 c2 by (auto simp: inplace_add_amount intro: inplace_add_wf)
  have p12: "planned ?nts ?h ?mw c0 c2 ?a12"
    by (rule planned_trans(1) [OF p1 p2 reached a12(2,1)])
  then have p3: "planned ?nts ?h ?mw c0 (inplace_add c2 n) ?a3" by (rule planned_add [OF _ l])
  then have g3: "grown ?nts ?h c0 (inplace_add c2 n) ?a3" by (simp add: planned_def)
  have a3: "dget_or ?a3 t 0 = sum_counts [a1, a2, n] t" for t
    using a12 n by (simp add: inplace_add_amount sum_counts_def)
  have "wf_dict ?nts" using nts by (simp add: wf_node_types_def)
  note tot = total_nodes_to_add_at [OF this, of "[a1, a2, n]"]
  have sc0: "t \<notin> set (dkeys ?nts) \<Longrightarrow> sum_counts [a1, a2, n] t = 0" "0 \<le> sum_counts [a1, a2, n] t" for t
    using grown_outside [OF g3, of t] grownD(4) [OF g3, of t] a3 [of t] by auto
  note tot = tot [OF sc0]
  let ?pgs = "map (\<lambda>(t, _ :: node_type_config). (t, sum_counts [a2, npg] t)) ?nts"
  have pg0: "0 \<le> dget_or ?pgs t 0" for t
  proof -
    have "0 \<le> sum_counts [a2, npg] t" using grownD(4) [OF g2, of t] launches_mono [OF lpg, of t]
      by (simp add: sum_counts_def)
    moreover have "map_of ?pgs t = map_option (\<lambda>_. sum_counts [a2, npg] t) (map_of ?nts t)"
      by (rule map_of_map_keys)
    ultimately show ?thesis by (cases "map_of ?nts t") (auto simp: dget_or_def)
  qed
  note cl = concurrent_launch [OF tot(1) launch refl]
  let ?ub = "launch_upper_bound s
    (fst (separate_running_and_pending_nodes provider nodes (dkeys unused)))
    (snd (separate_running_and_pending_nodes provider nodes (dkeys unused))) launching a1 ?pgs"
  have "dget_or a1 t 0 \<le> dget_or launch t 0 \<and> dget_or launch t 0 \<le> dget_or ?a3 t 0" for t
  proof -
    have "dget_or a1 t 0 \<le> sum_counts [a1, a2, n] t" "0 \<le> dget_or a1 t 0"
      using grownD(4) [OF g1, of t] grownD(4) [OF g2, of t] launches_mono [OF l, of t]
      by (auto simp: sum_counts_def)
    moreover have "dget_or a1 t 0 \<le> ?ub t"
      using pg0 [of t] by (simp add: launch_upper_bound_def Let_def)
    moreover have "dget_or launch t 0 =
        (if sum_counts [a1, a2, n] t > 0 \<and> ?ub t > 0 then min (?ub t) (sum_counts [a1, a2, n] t) else 0)"
      using cl(2) [of t] tot(2) [of t] by (simp add: dget_or_def)
    ultimately show ?thesis using a3 [of t] by auto
  qed
  then show ?thesis using p3 cl(1) by blast
qed

section \<open>The state the scheduler plans with\<close>

definition valid_reports :: "(string, resource_dict) dict \<Rightarrow> bool" where
  "valid_reports reports \<longleftrightarrow> (\<forall>(ip, r) \<in> set reports. nonneg r \<and> wf_dict r)"

text \<open>The node types may learn resources; nothing else of the configuration changes.\<close>

definition same_config :: "demand_scheduler \<Rightarrow> demand_scheduler \<Rightarrow> bool" where
  "same_config s s' \<longleftrightarrow>
     ds_max_workers s' = ds_max_workers s \<and> ds_head_node_type s' = ds_head_node_type s \<and>
     ds_upscaling_speed s' = ds_upscaling_speed s \<and>
     (\<forall>t. map_option (\<lambda>c. c\<lparr>ntc_resources := None\<rparr>) (map_of (ds_node_types s') t)
        = map_option (\<lambda>c. c\<lparr>ntc_resources := None\<rparr>) (map_of (ds_node_types s) t))"

lemma same_config_refl: "same_config s s"
  by (simp add: same_config_def)

lemma same_config_trans: "same_config s s' \<Longrightarrow> same_config s' s'' \<Longrightarrow> same_config s s''"
  by (simp add: same_config_def)

lemma same_config_dmem:
  assumes "same_config s s'"
  shows "dmem t (ds_node_types s') \<longleftrightarrow> dmem t (ds_node_types s)"
proof -
  have "map_option (\<lambda>c. c\<lparr>ntc_resources := None\<rparr>) (map_of (ds_node_types s') t)
      = map_option (\<lambda>c. c\<lparr>ntc_resources := None\<rparr>) (map_of (ds_node_types s) t)"
    using assms by (simp add: same_config_def)
  then have "map_of (ds_node_types s') t = None \<longleftrightarrow> map_of (ds_node_types s) t = None"
    by (metis option.map_disc_iff)
  then show ?thesis by (simp add: dmem_iff map_of_eq_None_iff)
qed

lemma same_config_legacy: "same_config s s' \<Longrightarrow> is_legacy_yaml s' [] = is_legacy_yaml s []"
  by (simp add: is_legacy_yaml_def Let_def same_config_dmem)

lemma refresh_resources_wf:
  assumes "nonneg runtime" and "wf_dict res" and "nonneg res"
  shows "wf_dict (refresh_resources runtime res) \<and> nonneg (refresh_resources runtime res)"
proof -
  let ?f = "\<lambda>k res. case map_of runtime k of None \<Rightarrow> res | Some v \<Rightarrow> dset res k v"
  have "wf_dict (fold ?f ks res) \<and> nonneg (fold ?f ks res)" for ks
    using assms(2,3)
  proof (induction ks arbitrary: res)
    case (Cons k ks)
    have "wf_dict (?f k res) \<and> nonneg (?f k res)"
    proof (cases "map_of runtime k")
      case (Some v)
      then have "(k, v) \<in> set runtime" by (rule map_of_SomeD)
      then have "0 \<le> v" using assms(1) by (auto simp: nonneg_def)
      then show ?thesis using Some Cons.prems by (simp add: nonneg_dset)
    qed (use Cons.prems in simp)
    then show ?case using Cons.IH by simp
  qed simp
  then show ?thesis by (simp add: refresh_resources_def)
qed

lemma wf_node_types_dset:
  assumes "wf_node_types nts" and "nonneg r" and "wf_dict r"
  shows "wf_node_types (dset nts t (c\<lparr>ntc_resources := Some r\<rparr>))"
  using assms set_dset_subset [where d = nts and k = t and v = "c\<lparr>ntc_resources := Some r\<rparr>"]
  by (fastforce simp: wf_node_types_def)

lemma same_config_dset:
  assumes "map_of (ds_node_types s) t = Some c"
  shows "same_config s (s\<lparr>ds_node_types := dset (ds_node_types s) t (c\<lparr>ntc_resources := Some r\<rparr>)\<rparr>)"
  using assms by (simp add: same_config_def)

lemma valid_reports_get:
  "valid_reports reports \<Longrightarrow> nonneg (dget_or reports ip []) \<and> wf_dict (dget_or reports ip [])"
  by (cases "map_of reports ip")
     (auto simp: dget_or_def valid_reports_def nonneg_def dest!: map_of_SomeD)

lemma update_node_from_runtime_state:
  assumes "wf_node_types (ds_node_types s)" and "valid_reports reports"
    and "update_node_from_runtime provider reports s node_id = Inr s'"
  shows "wf_node_types (ds_node_types s') \<and> same_config s s'"
proof (cases "s' = s")
  case True
  then show ?thesis using assms(1) by (simp add: same_config_refl)
next
  case False
  then obtain t c where t: "map_of (ds_node_types s) t = Some c"
    and s': "ds_node_types s' = dset (ds_node_types s) t (c\<lparr>ntc_resources :=
        Some (refresh_resources (dget_or reports (np_internal_ip provider node_id) [])
          (case ntc_resources c of None \<Rightarrow> [] | Some r \<Rightarrow> r))\<rparr>)"
      "ds_max_workers s' = ds_max_workers s" "ds_head_node_type s' = ds_head_node_type s"
      "ds_upscaling_speed s' = ds_upscaling_speed s"
    using assms(3) by (auto simp: update_node_from_runtime_def Let_def result_simps
        split: option.splits if_splits)
  have "\<exists>r. ntc_resources c = Some r \<and> nonneg r \<and> wf_dict r"
    using assms(1) t by (auto simp: wf_node_types_def dest!: map_of_SomeD)
  then have "nonneg (case ntc_resources c of None \<Rightarrow> [] | Some r \<Rightarrow> r)"
    "wf_dict (case ntc_resources c of None \<Rightarrow> [] | Some r \<Rightarrow> r)" by auto
  note res = refresh_resources_wf [OF conjunct1 [OF valid_reports_get [OF assms(2)]] this(2,1)]
  then show ?thesis
    using wf_node_types_dset [OF assms(1)] t by (simp add: s' same_config_def)
qed

lemma update_from_runtime_state:
  assumes wf: "wf_node_types (ds_node_types s)" and rep: "valid_reports reports"
    and run: "update_node_resources_from_runtime provider s nodes reports = Inr s'"
  shows "wf_node_types (ds_node_types s') \<and> same_config s s'"
proof (cases "length (ds_node_types s) \<noteq> card (ds_node_resource_updated s)")
  case True
  then have f: "foldE (update_node_from_runtime provider reports) s nodes = Inr s'"
    using run by (simp add: update_node_resources_from_runtime_def)
  show ?thesis
  proof (rule foldE_invariant [OF _ f])
    show "wf_node_types (ds_node_types s) \<and> same_config s s" by (simp add: wf same_config_refl)
    fix u x v
    assume "wf_node_types (ds_node_types u) \<and> same_config s u"
      and "update_node_from_runtime provider reports u x = Inr v"
    then show "wf_node_types (ds_node_types v) \<and> same_config s v"
      using update_node_from_runtime_state [OF _ rep] same_config_trans by blast
  qed
qed (use run wf in \<open>simp add: update_node_resources_from_runtime_def same_config_refl\<close>)

section \<open>The cluster that exists\<close>

text \<open>Node counts and free resources as \<open>calculate_node_resources\<close> collects them.\<close>

definition cluster_ok :: "node_types \<Rightarrow> cluster_resources \<Rightarrow> bool" where
  "cluster_ok nts s \<longleftrightarrow> wf_dict (snd s) \<and> set (dkeys (snd s)) \<subseteq> set (dkeys nts) \<and>
     int (length (fst s)) = dtotal (snd s)"

lemma add_node_ok:
  assumes "cluster_ok nts s" and "add_node nts t avail s = Inr s'"
  shows "cluster_ok nts s'"
proof (cases "map_of nts t")
  case None
  then show ?thesis using assms by (cases s) (simp add: add_node_def)
next
  case (Some c)
  then have "t \<in> set (dkeys nts)" by (force dest: map_of_SomeD)
  then show ?thesis using assms Some
    by (cases s) (auto simp: add_node_def cluster_ok_def result_simps Let_def bump_count_def
        dtotal_dset dkeys_dset simp del: set_map)
qed

lemma foldE_add_node_ok:
  assumes "cluster_ok nts s" and "foldE f s xs = Inr s'"
    and "\<And>s x s'. f s x = Inr s' \<Longrightarrow> s' = s \<or> (\<exists>t avail. add_node nts t avail s = Inr s')"
  shows "cluster_ok nts s'"
  by (rule foldE_invariant [where P = "cluster_ok nts", OF assms(1,2)]) (use assms(3) add_node_ok in blast)

lemma calculate_node_resources_ok:
  assumes "calculate_node_resources provider s nodes pending unused = Inr r"
  shows "cluster_ok (ds_node_types s) r"
proof -
  let ?nts = "ds_node_types s"
  obtain r1 where r1: "foldE (\<lambda>acc node_id.
        case map_of (np_node_tags provider node_id) TAG_RAY_USER_NODE_TYPE of
          None \<Rightarrow> Inr acc
        | Some t \<Rightarrow> add_node ?nts t (map_of unused (np_internal_ip provider node_id)) acc)
      ([], []) nodes = Inr r1"
    and r2: "foldE (\<lambda>acc (t, cnt). foldE (\<lambda>acc _. add_node ?nts t None acc) acc [0..<nat cnt])
      r1 pending = Inr r"
    using assms by (auto simp: calculate_node_resources_def result_simps)
  have ok1: "cluster_ok ?nts r1"
    by (rule foldE_add_node_ok [OF _ r1])
       (auto simp: cluster_ok_def split: option.splits intro: exI)
  show ?thesis
  proof (rule foldE_invariant [where P = "cluster_ok (ds_node_types s)", OF ok1 r2])
    fix u v and x :: "string \<times> int"
    assume u: "cluster_ok ?nts u"
      and st: "(case x of (t, cnt) \<Rightarrow> foldE (\<lambda>acc _. add_node ?nts t None acc) u [0..<nat cnt]) = Inr v"
    show "cluster_ok ?nts v"
      by (rule foldE_add_node_ok [OF u st [unfolded case_prod_unfold]]) blast
  qed
qed

lemma placement_groups_wf:
  assumes "\<forall>pg \<in> set pgs. \<forall>b \<in> set (pg_bundles pg). wf_dict b"
  shows "(\<forall>d \<in> set (fst (placement_groups_to_resource_demands pgs)). wf_dict d)
     \<and> (\<forall>bs \<in> set (snd (placement_groups_to_resource_demands pgs)). \<forall>d \<in> set bs. wf_dict d)"
  using assms
proof (induction pgs)
  case (Cons pg pgs)
  have "wf_dict c \<Longrightarrow> wf_dict (combine_shapes c bs)" for c bs
    by (induction c bs rule: combine_shapes.induct) (auto intro: inplace_add_wf)
  from this [of "[]"] show ?case
    using Cons by (auto simp: case_prod_unfold Let_def split: placement_strategy.splits)
qed simp

section \<open>Plans of the whole method\<close>

lemma get_nodes_to_launch_planned:
  assumes wf: "wf_node_types (ds_node_types s)" and rep: "valid_reports max_res"
    and nl: "\<not> is_legacy_yaml s []"
    and d: "\<forall>d \<in> set demands. wf_dict d" "\<forall>d \<in> set ens. wf_dict d"
      "\<forall>pg \<in> set pgs. \<forall>b \<in> set (pg_bundles pg). wf_dict b"
    and run: "get_nodes_to_launch conserve provider s nodes launching demands unused pgs max_res ens
      = Inr (s', launch, unf)"
  obtains nr counts a1 c3 a3 where
    "calculate_node_resources provider s' nodes launching unused = Inr (nr, counts)"
    "planned (ds_node_types s') (ds_head_node_type s') (ds_max_workers s') counts c3 a3"
    "wf_dict launch" "\<And>t. 0 \<le> dget_or launch t 0" "\<And>t. dget_or launch t 0 \<le> dget_or a3 t 0"
    "\<forall>(t, cfg) \<in> set (ds_node_types s').
       min_target (ds_head_node_type s') t cfg \<le> dget_or counts t 0 + dget_or launch t 0"
    "same_config s s'" "wf_dict counts"
proof -
  obtain s1 where s1: "update_node_resources_from_runtime provider s nodes max_res = Inr s1"
    using run nl by (auto simp: get_nodes_to_launch_def result_simps)
  note st = update_from_runtime_state [OF wf rep s1]
  have nl1: "\<not> is_legacy_yaml s1 []" using nl st same_config_legacy by blast
  let ?pg = "placement_groups_to_resource_demands pgs"
  obtain nr counts nr1 c1 a1 where calc: "calculate_node_resources provider s1 nodes launching unused = Inr (nr, counts)"
    and am: "add_min_workers_nodes conserve nr counts (ds_node_types s1) (ds_max_workers s1)
        (ds_head_node_type s1) ens = Inr (nr1, c1, a1)"
    and l: "launch_for_demands conserve provider s1 nodes launching unused (fst ?pg)
        (fst ?pg @ demands) (snd ?pg) (nr1, c1, a1) = Inr (launch, unf)" and eq: "s' = s1"
    using run nl nl1 s1 by (auto simp: get_nodes_to_launch_def result_simps Let_def case_prod_unfold)
  have wc: "wf_dict counts"
    using calculate_node_resources_ok [OF calc] by (simp add: cluster_ok_def)
  note m = add_min_workers_planned [OF conjunct1 [OF st] wc d(2) am]
  have "\<exists>c3 a3. planned (ds_node_types s1) (ds_head_node_type s1) (ds_max_workers s1) counts c3 a3 \<and>
      wf_dict launch \<and> (\<forall>t. dget_or a1 t 0 \<le> dget_or launch t 0 \<and> dget_or launch t 0 \<le> dget_or a3 t 0)"
    by (rule launch_for_demands_planned [OF conjunct1 [OF st] m _ _ _ l])
       (use placement_groups_wf [OF d(3)] d(1) in auto)
  then obtain c3 a3 where
    p3: "planned (ds_node_types s1) (ds_head_node_type s1) (ds_max_workers s1) counts c3 a3"
    and launch: "wf_dict launch" "\<And>t. dget_or a1 t 0 \<le> dget_or launch t 0"
      "\<And>t. dget_or launch t 0 \<le> dget_or a3 t 0" by blast
  have g: "grown (ds_node_types s1) (ds_head_node_type s1) counts c1 a1" using m(1) by (simp add: planned_def)
  have c1: "dget_or c1 t 0 = dget_or counts t 0 + dget_or a1 t 0" "0 \<le> dget_or a1 t 0" for t
    by (rule grownD [OF g])+
  show thesis
  proof (rule that [OF calc [folded eq] p3 [folded eq] launch(1) _ launch(3)])
    show "0 \<le> dget_or launch t 0" for t using c1(2) launch(2) order_trans by blast
    show "same_config s s'" using st eq by simp
    show "\<forall>(t, cfg) \<in> set (ds_node_types s').
       min_target (ds_head_node_type s') t cfg \<le> dget_or counts t 0 + dget_or launch t 0"
      unfolding eq
    proof (clarify)
      fix t cfg assume "(t, cfg) \<in> set (ds_node_types s1)"
      then have "min_target (ds_head_node_type s1) t cfg \<le> dget_or c1 t 0" using m(2) by auto
      then show "min_target (ds_head_node_type s1) t cfg \<le> dget_or counts t 0 + dget_or launch t 0"
        using c1(1) [of t] launch(2) [of t] by linarith
    qed
  qed (rule wc)
qed

end
