(* ===== verification/Scheduler_Guarantees.thy ===== *)
theory Scheduler_Guarantees
  imports Launch_Limits
begin

text \<open>
  The guarantees of the resource demand scheduler as a whole: limits and minimums of the
  launch plan, when it returns, when its assertion on strictly spread groups fails, and the
  contracts of bin packing and node selection it is built on.
\<close>

section \<open>Example clusters\<close>

definition ex_config :: "resource_dict \<Rightarrow> int \<Rightarrow> int \<Rightarrow> node_type_config" where
  "ex_config r mn mx = \<lparr>ntc_resources = Some r, ntc_min_workers = Some mn,
     ntc_max_workers = Some mx, ntc_node_config = ''''\<rparr>"

definition ex_provider :: node_provider where
  "ex_provider = \<lparr>
     np_node_tags = (\<lambda>n. if n = ''head-1''
       then [(TAG_RAY_NODE_KIND, NODE_KIND_HEAD), (TAG_RAY_USER_NODE_TYPE, ''head'')]
       else [(TAG_RAY_NODE_KIND, NODE_KIND_WORKER), (TAG_RAY_USER_NODE_TYPE, ''cpu'')]),
     np_internal_ip = (\<lambda>n. n), np_non_terminated_nodes = (\<lambda>_. [''head-1''])\<rparr>"

definition ex_scheduler :: demand_scheduler where
  "ex_scheduler = \<lparr>
     ds_node_types = [(''head'', ex_config [(''CPU'', 2)] 0 0), (''cpu'', ex_config [(''CPU'', 4)] 1 10)],
     ds_node_resource_updated = {}, ds_max_workers = 4, ds_head_node_type = ''head'',
     ds_upscaling_speed = 1\<rparr>"

definition ex_reports :: "(string, resource_dict) dict" where
  "ex_reports = [(''head-1'', [(''CPU'', 2)])]"

definition ex_demands :: "resource_dict list" where
  "ex_demands = replicate 9 [(''CPU'', 1)]"

definition ex_spread_scheduler :: demand_scheduler where
  "ex_spread_scheduler = \<lparr>
     ds_node_types = [(''h'', ex_config [] 0 0), (''x'', ex_config [(''CPU'', 8), (''GPU'', 1)] 0 10),
       (''y'', ex_config [(''CPU'', 4)] 0 10)],
     ds_node_resource_updated = {}, ds_max_workers = 10, ds_head_node_type = ''h'',
     ds_upscaling_speed = 1\<rparr>"

lemmas ex_defs = ex_config_def ex_provider_def ex_scheduler_def ex_reports_def ex_demands_def
  ex_spread_scheduler_def

lemma ex_scheduler_ok:
  "wf_node_types (ds_node_types ex_scheduler)" "valid_reports ex_reports"
  "\<not> is_legacy_yaml ex_scheduler []" "\<forall>d \<in> set ex_demands. valid_demand d"
  by (auto simp: ex_defs wf_node_types_def valid_reports_def nonneg_def is_legacy_yaml_def Let_def
      dmem_iff NODE_TYPE_LEGACY_HEAD_def valid_demand_def positive_def)

lemma ex_run:
  "get_nodes_to_launch False ex_provider ex_scheduler [''head-1''] [] ex_demands ex_reports []
     ex_reports [] = Inr (ex_scheduler, [(''cpu'', 2)], [])"
  by code_simp

lemma ex_calc:
  "calculate_node_resources ex_provider ex_scheduler [''head-1''] [] ex_reports
     = Inr ([[(''CPU'', 2)]], [(''head'', 1)])"
  by code_simp

section \<open>When the scheduler returns\<close>

lemma type_resources_known:
  assumes "wf_node_types nts" and "t \<in> set (dkeys nts)"
  shows "\<exists>r. type_resources nts t = Inr r \<and> nonneg r"
proof -
  obtain c where "(t, c) \<in> set nts" using assms(2) by auto
  then have "map_of nts t = Some c" "\<exists>r. ntc_resources c = Some r \<and> nonneg r \<and> wf_dict r"
    using wf_node_typesD [OF assms(1)] by auto
  then show ?thesis by (auto simp: type_resources_def config_resources_def)
qed

lemma add_node_total:
  assumes "wf_node_types nts" and "\<forall>n \<in> set (fst s). nonneg n" and "\<forall>r. avail = Some r \<longrightarrow> nonneg r"
  shows "\<exists>s'. add_node nts t avail s = Inr s' \<and> (\<forall>n \<in> set (fst s'). nonneg n)"
proof (cases "map_of nts t")
  case None
  then show ?thesis using assms(2) by (cases s) (simp add: add_node_def)
next
  case (Some c)
  then obtain r where "ntc_resources c = Some r" "nonneg r"
    using assms(1) by (auto simp: wf_node_types_def dest!: map_of_SomeD)
  then show ?thesis using assms(2,3) Some
    by (cases s) (auto simp: add_node_def config_resources_def Let_def split: option.splits)
qed

lemma calculate_node_resources_total:
  assumes nts: "wf_node_types (ds_node_types s)" and un: "valid_reports unused"
  shows "\<exists>r. calculate_node_resources provider s nodes pending unused = Inr r
     \<and> (\<forall>n \<in> set (fst r). nonneg n)"
proof -
  let ?P = "\<lambda>r :: cluster_resources. \<forall>n \<in> set (fst r). nonneg n"
  let ?f = "\<lambda>acc node_id. case map_of (np_node_tags provider node_id) TAG_RAY_USER_NODE_TYPE of
      None \<Rightarrow> Inr acc
    | Some t \<Rightarrow> add_node (ds_node_types s) t (map_of unused (np_internal_ip provider node_id)) acc"
  let ?g = "\<lambda>acc (t, cnt). foldE (\<lambda>acc _. add_node (ds_node_types s) t None acc) acc [0..<nat cnt]"
  have un': "\<forall>r. map_of unused ip = Some r \<longrightarrow> nonneg r" for ip
    using un by (auto simp: valid_reports_def dest!: map_of_SomeD)
  have "\<exists>r. foldE ?f ([], []) nodes = Inr r \<and> ?P r"
  proof (rule foldE_total)
    fix acc node_id assume acc: "?P acc"
    show "\<exists>t. ?f acc node_id = Inr t \<and> ?P t"
    proof (cases "map_of (np_node_tags provider node_id) TAG_RAY_USER_NODE_TYPE")
      case None
      then show ?thesis using acc by simp
    next
      case (Some t)
      then show ?thesis using add_node_total [OF nts acc un'] by simp
    qed
  qed simp
  then obtain r1 where r1: "foldE ?f ([], []) nodes = Inr r1" "?P r1" by blast
  have "\<exists>r. foldE ?g r1 pending = Inr r \<and> ?P r"
  proof (rule foldE_total [where P = ?P, OF r1(2)])
    fix acc and x :: "string \<times> int" assume acc: "?P acc"
    show "\<exists>t. ?g acc x = Inr t \<and> ?P t"
      unfolding case_prod_unfold by (rule foldE_total [where P = ?P, OF acc]) (rule add_node_total [OF nts], auto)
  qed
  then show ?thesis using r1(1) by (simp add: calculate_node_resources_def)
qed

definition plan_ok :: "node_types \<Rightarrow> min_workers_state \<Rightarrow> bool" where
  "plan_ok nts s \<longleftrightarrow>
     (\<forall>n \<in> set (fst s). nonneg n) \<and> set (dkeys (fst (snd s))) \<subseteq> set (dkeys nts)"

lemma min_workers_step_total:
  assumes "wf_node_types nts" and "plan_ok nts s" and "p \<in> set nts"
  shows "\<exists>s'. min_workers_step head s p = Inr s' \<and> plan_ok nts s'"
proof -
  obtain nr c a t cfg where s: "s = (nr, c, a)" "p = (t, cfg)" by (cases s, cases p)
  obtain r where "ntc_resources cfg = Some r" "nonneg r"
    using assms(1,3) s by (auto simp: wf_node_types_def)
  moreover have "t \<in> set (dkeys nts)" using assms(3) s by force
  ultimately show ?thesis using assms(2)
    by (auto simp: min_workers_step_def s plan_ok_def config_resources_def Let_def dkeys_dset
        simp del: set_map)
qed

lemma request_step_total:
  assumes "wf_node_types nts" and "plan_ok nts s" and "fst p \<in> set (dkeys nts)"
  shows "\<exists>s'. request_step nts s p = Inr s' \<and> plan_ok nts s'"
proof -
  obtain nr c a t v where s: "s = (nr, c, a)" "p = (t, v)" by (cases s, cases p)
  obtain r where "type_resources nts t = Inr r" "nonneg r"
    using type_resources_known [OF assms(1)] assms(3) s by auto
  then show ?thesis using assms(2,3)
    by (auto simp: request_step_def s plan_ok_def dkeys_dset simp del: set_map)
qed

lemma counts_to_resources_total:
  assumes "wf_node_types nts" and "set (dkeys counts) \<subseteq> set (dkeys nts)"
  shows "\<exists>rs. node_type_counts_to_node_resources nts counts = Inr rs \<and> (\<forall>r \<in> set rs. nonneg r)"
  unfolding node_type_counts_to_node_resources_def
proof (rule foldE_total)
  fix rs :: "resource_dict list" and p assume rs: "\<forall>r \<in> set rs. nonneg r" and p: "p \<in> set counts"
  have "fst p \<in> set (dkeys nts)" using assms(2) p by auto
  then obtain r where "type_resources nts (fst p) = Inr r" "nonneg r"
    using type_resources_known [OF assms(1)] by blast
  then show "\<exists>t. (case p of (t, cnt) \<Rightarrow> if cnt \<le> 0 then Inr rs
      else bindE (type_resources nts t) (\<lambda>r. Inr (rs @ replicate (nat cnt) r))) = Inr t
      \<and> (\<forall>r \<in> set t. nonneg r)"
    using rs by (cases p) auto
qed simp

lemma get_nodes_for_total:
  assumes "wf_node_types nts" and "\<forall>d \<in> set ds. valid_demand d"
  shows "\<exists>n ds'. get_nodes_for conserve nts ex head m ds strict = Inr (n, ds')
     \<and> set (dkeys n) \<subseteq> set (dkeys nts)"
proof -
  obtain n ds' where r: "get_nodes_for conserve nts ex head m ds strict = Inr (n, ds')"
    using get_nodes_for_loop_total [OF assms] unfolding get_nodes_for_def by blast
  have "\<forall>d \<in> set ds. wf_dict d" using assms(2) by (simp add: valid_demand_def)
  note launches_keys [OF get_nodes_for_launches [OF assms(1) this r]]
  then show ?thesis using r by simp
qed

lemma add_min_workers_total:
  assumes nts: "wf_node_types nts" and ens: "\<forall>d \<in> set ens. valid_demand d"
    and ok: "\<forall>n \<in> set nr. nonneg n" "set (dkeys counts) \<subseteq> set (dkeys nts)"
  shows "\<exists>s'. add_min_workers_nodes conserve nr counts nts mw head ens = Inr s' \<and> plan_ok nts s'"
proof -
  have init: "plan_ok nts (nr, counts, [])" using ok by (simp add: plan_ok_def)
  have "\<exists>s1. foldE (min_workers_step head) (nr, counts, []) nts = Inr s1 \<and> plan_ok nts s1"
    by (rule foldE_total [where P = "plan_ok nts", OF init]) (rule min_workers_step_total [OF nts])
  then obtain s1 where s1: "foldE (min_workers_step head) (nr, counts, []) nts = Inr s1"
    "plan_ok nts s1" by blast
  obtain nr1 c1 a1 where "s1 = (nr1, c1, a1)" by (cases s1)
  note m = s1(1) [unfolded this] and ok1 = s1(2) [unfolded this]
  show ?thesis
  proof (cases "ens = []")
    case True
    then show ?thesis using m ok1 by (simp add: add_min_workers_nodes_def)
  next
    case False
    obtain rs where rs: "node_type_counts_to_node_resources nts c1 = Inr rs" "\<forall>r \<in> set rs. nonneg r"
      using counts_to_resources_total [OF nts, of c1] ok1 by (auto simp: plan_ok_def)
    obtain unf ns where b: "get_bin_pack_residual rs ens False = Inr (unf, ns)"
      using bin_pack_total [OF rs(2) ens] by blast
    have "\<forall>d \<in> set unf. valid_demand d" using bin_pack_subset [OF b] ens by auto
    from get_nodes_for_total [OF nts this] obtain n ds' where
      n: "get_nodes_for conserve nts c1 head (mw + 1 - dtotal c1) unf False = Inr (n, ds')"
        "set (dkeys n) \<subseteq> set (dkeys nts)" by blast
    have "\<exists>s'. foldE (request_step nts) (nr1, c1, a1) n = Inr s' \<and> plan_ok nts s'"
    proof (rule foldE_total [where P = "plan_ok nts", OF ok1])
      fix u x assume "plan_ok nts u" "x \<in> set n"
      then show "\<exists>t. request_step nts u x = Inr t \<and> plan_ok nts t"
        using n(2) by (intro request_step_total [OF nts]) auto
    qed
    then show ?thesis using m False rs(1) b n(1)
      by (simp add: add_min_workers_nodes_def Let_def)
  qed
qed

lemma launch_for_demands_total:
  assumes nts: "wf_node_types (ds_node_types s)"
    and d: "\<forall>d \<in> set demands. valid_demand d" "\<forall>d \<in> set pgdemands. valid_demand d"
    and nr: "\<forall>n \<in> set nr. nonneg n"
  shows "\<exists>launch unf. launch_for_demands conserve provider s nodes launching unused pgdemands demands
      [] (nr, c, a) = Inr (launch, unf)"
proof -
  obtain u1 n1 where b1: "get_bin_pack_residual nr pgdemands False = Inr (u1, n1)"
    using bin_pack_total [OF nr d(2)] by blast
  obtain u2 n2 where b2: "get_bin_pack_residual nr demands False = Inr (u2, n2)"
    using bin_pack_total [OF nr d(1)] by blast
  have "\<forall>d \<in> set u1. valid_demand d" "\<forall>d \<in> set u2. valid_demand d"
    using bin_pack_subset [OF b1] bin_pack_subset [OF b2] d by auto
  note g = this [THEN get_nodes_for_total [OF nts]]
  obtain p1 q1 where g1: "get_nodes_for conserve (ds_node_types s) c (ds_head_node_type s)
      (ds_max_workers s + 1 - dtotal c) u1 False = Inr (p1, q1)" using g(1) by blast
  obtain p2 q2 where g2: "get_nodes_for conserve (ds_node_types s) c (ds_head_node_type s)
      (ds_max_workers s + 1 - dtotal c) u2 False = Inr (p2, q2)" using g(2) by blast
  show ?thesis
    by (simp add: launch_for_demands_def reserve_and_allocate_spread_def b1 b2 g1 g2 Let_def)
qed

lemma update_from_runtime_total:
  assumes "\<forall>n \<in> set nodes. map_of (np_node_tags provider n) TAG_RAY_NODE_KIND \<noteq> None"
  shows "\<exists>s'. update_node_resources_from_runtime provider s nodes reports = Inr s'"
proof -
  have "\<exists>s'. foldE (update_node_from_runtime provider reports) s nodes = Inr s' \<and> True"
  proof (rule foldE_total)
    fix s n assume "n \<in> set nodes"
    then obtain k where "map_of (np_node_tags provider n) TAG_RAY_NODE_KIND = Some k"
      using assms by blast
    then show "\<exists>t. update_node_from_runtime provider reports s n = Inr t \<and> True"
      by (auto simp: update_node_from_runtime_def Let_def dindex_def split: option.splits)
  qed simp
  then show ?thesis by (simp add: update_node_resources_from_runtime_def)
qed

lemma combine_shapes_valid:
  "valid_demand c \<Longrightarrow> \<forall>b \<in> set bs. valid_demand b \<Longrightarrow> valid_demand (combine_shapes c bs)"
proof (induction c bs rule: combine_shapes.induct)
  case (2 c b bs)
  have "positive (inplace_add c b)" if "positive c" "positive b" "wf_dict c" for c b :: resource_dict
    using that
  proof (induction c b rule: inplace_add.induct)
    case (2 a k v b)
    have "0 \<le> dget_or a k 0" using 2(2) nonneg_amount [OF positive_nonneg] by (simp add: amount_def)
    then have "0 < dget_or a k 0 + v" using 2(3) by (simp add: positive_def)
    then have "positive (dset a k (dget_or a k 0 + v))"
      using 2(2) set_dset_subset [where d = a and k = k and v = "dget_or a k 0 + v"]
      by (auto simp: positive_def)
    then show ?case using 2 by (simp add: positive_def)
  qed simp
  then show ?case using 2 by (simp add: valid_demand_def inplace_add_wf)
qed simp

lemma placement_groups_valid:
  assumes "\<forall>pg \<in> set pgs. \<forall>b \<in> set (pg_bundles pg). valid_demand b"
  shows "\<forall>d \<in> set (fst (placement_groups_to_resource_demands pgs)). valid_demand d"
    and "\<forall>bs \<in> set (snd (placement_groups_to_resource_demands pgs)). \<forall>d \<in> set bs. valid_demand d"
  using assms
proof (induction pgs)
  case (Cons pg pgs)
  have nil: "valid_demand []" by (simp add: valid_demand_def positive_def)
  {
    case 1
    then show ?case using Cons combine_shapes_valid [OF nil]
      by (auto simp: case_prod_unfold Let_def split: placement_strategy.splits)
  next
    case 2
    then show ?case using Cons
      by (auto simp: case_prod_unfold Let_def split: placement_strategy.splits)
  }
qed simp_all

lemma placement_groups_no_spread:
  assumes "\<forall>pg \<in> set pgs. pg_strategy pg \<noteq> STRICT_SPREAD"
  shows "snd (placement_groups_to_resource_demands pgs) = []"
  using assms
  by (induction pgs) (auto simp: case_prod_unfold Let_def split: placement_strategy.splits)

section \<open>When the strict-spread assertion fails\<close>

lemma launches_strict_count:
  assumes "launches nts ex h m st a ds a' ds'" and "st" and "wf_dict a"
  shows "dtotal a' - dtotal a = int (length ds) - int (length ds')"
  using assms
proof (induction rule: launches.induct)
  case (launches_stop a ds)
  then show ?case by simp
next
  case (launches_node ds a t c r taken rest a' ds')
  have "length taken = 1" "mset taken + mset rest = mset ds"
    using launches_node.hyps(6) launches_node.prems(1) by (simp_all add: absorbs_def)
  then have "length ds = length rest + 1" by (metis add.commute size_mset size_union)
  then show ?case using launches_node.IH launches_node.prems by (simp add: dtotal_dset)
qed

lemma counts_to_resources_length:
  assumes "node_type_counts_to_node_resources nts n = Inr rs" and "\<forall>(t, v) \<in> set n. 0 \<le> v"
  shows "int (length rs) = dtotal n"
proof -
  let ?f = "\<lambda>rs (t, cnt). if cnt \<le> 0 then Inr rs
      else bindE (type_resources nts t) (\<lambda>r. Inr (rs @ replicate (nat cnt) r))"
  have "foldE ?f acc n = Inr rs \<Longrightarrow> int (length rs) = int (length acc) + dtotal n" for acc
    using assms(2)
  proof (induction n arbitrary: acc)
    case Nil
    then show ?case by simp
  next
    case (Cons p n)
    obtain acc1 where "?f acc p = Inr acc1" "foldE ?f acc1 n = Inr rs"
      using Cons.prems(1) by (auto simp: result_simps)
    moreover from this(1) have "int (length acc1) = int (length acc) + snd p"
      using Cons.prems(2) by (cases p) (auto simp: result_simps split: if_splits)
    ultimately show ?case using Cons.IH [of acc1] Cons.prems(2) by simp
  qed
  from this [of "[]"] show ?thesis
    using assms(1) by (simp add: node_type_counts_to_node_resources_def)
qed

lemma packing_strict_length:
  assumes "packing True nodes ds unf nodes'"
  shows "length ds \<le> length unf + length nodes"
proof -
  obtain bins where b: "mset (map fst bins) = mset nodes"
    "mset (concat (map snd bins)) + mset unf = mset ds" "\<forall>b \<in> set bins. length (snd b) \<le> 1"
    using assms unfolding packing_def by auto
  have "length (concat (map snd bins)) \<le> length bins"
    using b(3) by (induction bins) (simp, fastforce)
  moreover have "length bins = length nodes" by (metis b(1) length_map size_mset)
  moreover have "length (concat (map snd bins)) + length unf = length ds"
    by (metis b(2) size_mset size_union)
  ultimately show ?thesis by linarith
qed

lemma reserve_step_unplaced:
  assumes nts: "wf_node_types (ds_node_types s)" and b: "\<forall>d \<in> set bundles. valid_demand d"
    and pack: "get_bin_pack_residual nr bundles True = Inr (unf, nr')"
    and sel: "get_nodes_for conserve (ds_node_types s) counts (ds_head_node_type s)
        (ds_max_workers s + 1 - dtotal counts) unf True = Inr (n, rest)"
    and rest: "rest \<noteq> []"
  shows "reserve_step conserve s (a, nr, counts) bundles = Inl AssertionError"
proof -
  have v: "\<forall>d \<in> set unf. valid_demand d" using bin_pack_subset [OF pack] b by auto
  then have wf: "\<forall>d \<in> set unf. wf_dict d" by (simp add: valid_demand_def)
  note l = get_nodes_for_launches [OF nts wf sel]
  have "set (dkeys n) \<subseteq> set (dkeys (ds_node_types s))" using launches_keys [OF l] by simp
  then obtain rs where rs: "node_type_counts_to_node_resources (ds_node_types s) n = Inr rs"
    "\<forall>r \<in> set rs. nonneg r" using counts_to_resources_total [OF nts] by blast
  obtain unf' ns where p: "get_bin_pack_residual rs unf True = Inr (unf', ns)"
    using bin_pack_total [OF rs(2) v] by blast
  have "int (length rs) = int (length unf) - int (length rest)"
    using counts_to_resources_length [OF rs(1) launches_nonneg [OF l]]
      launches_strict_count [OF l] by simp
  then have "length rs < length unf" using rest by (cases rest) auto
  then have "unf' \<noteq> []" using packing_strict_length [OF bin_pack_packing [OF rs(2) wf p]] by auto
  then show ?thesis
    by (simp add: reserve_step_def pack sel Let_def rs(1) p assertE_def)
qed

section \<open>Legacy configurations\<close>

lemma update_based_other:
  assumes "update_based_on_node_config old_types new_types t = Inr r" and "u \<noteq> t"
  shows "map_of r u = map_of old_types u"
proof -
  have "\<exists>c. r = dset old_types t c"
    using assms(1) unfolding update_based_on_node_config_def bindE_eq_Inr_iff
    by (elim exE conjE) (auto simp only: bindE_eq_Inr_iff split: if_splits option.splits)
  then show ?thesis using assms(2) by auto
qed

section \<open>Running and pending nodes\<close>

definition nodes_of_type :: "node_provider \<Rightarrow> string \<Rightarrow> (string \<Rightarrow> bool) \<Rightarrow> string list \<Rightarrow> int" where
  "nodes_of_type provider t P nodes =
     int (length (filter (\<lambda>n. map_of (np_node_tags provider n) TAG_RAY_USER_NODE_TYPE = Some t
       \<and> P (np_internal_ip provider n)) nodes))"

lemma separate_counts:
  assumes "separate_running_and_pending_nodes provider nodes ips = (ru, pe)"
  shows "dget_or ru t 0 = nodes_of_type provider t (\<lambda>ip. ip \<in> set ips) nodes"
    and "dget_or pe t 0 = nodes_of_type provider t (\<lambda>ip. ip \<notin> set ips) nodes"
proof -
  let ?f = "\<lambda>(running, pending) node_id.
      case map_of (np_node_tags provider node_id) TAG_RAY_USER_NODE_TYPE of
        None \<Rightarrow> (running, pending)
      | Some t \<Rightarrow> if np_internal_ip provider node_id \<in> set ips
          then (bump_count running t, pending) else (running, bump_count pending t)"
  have "dget_or (fst (foldl ?f (r0, p0) nodes)) t 0
        = dget_or r0 t 0 + nodes_of_type provider t (\<lambda>ip. ip \<in> set ips) nodes
      \<and> dget_or (snd (foldl ?f (r0, p0) nodes)) t 0
        = dget_or p0 t 0 + nodes_of_type provider t (\<lambda>ip. ip \<notin> set ips) nodes" for r0 p0
  proof (induction nodes arbitrary: r0 p0)
    case Nil
    then show ?case by (simp add: nodes_of_type_def)
  next
    case (Cons n nodes)
    show ?case
      by (cases "map_of (np_node_tags provider n) TAG_RAY_USER_NODE_TYPE")
         (simp_all add: Cons.IH, simp_all add: nodes_of_type_def bump_count_def)
  qed
  from this [of "[]" "[]"] show "dget_or ru t 0 = nodes_of_type provider t (\<lambda>ip. ip \<in> set ips) nodes"
    and "dget_or pe t 0 = nodes_of_type provider t (\<lambda>ip. ip \<notin> set ips) nodes"
    using assms by (simp_all add: separate_running_and_pending_nodes_def)
qed

section \<open>Demand of placement groups\<close>

definition known_strategy :: "placement_strategy \<Rightarrow> bool" where
  "known_strategy st \<longleftrightarrow> (case st of UNKNOWN_STRATEGY _ \<Rightarrow> False | _ \<Rightarrow> True)"

definition total_amount :: "resource_dict list \<Rightarrow> string \<Rightarrow> rat" where
  "total_amount ds k = (\<Sum>d\<leftarrow>ds. amount d k)"

lemma total_amount_simps [simp]:
  "total_amount [] k = 0" "total_amount (d # ds) k = amount d k + total_amount ds k"
  "total_amount (ds @ es) k = total_amount ds k + total_amount es k"
  by (simp_all add: total_amount_def)

lemma combine_shapes_amount:
  assumes "\<forall>b \<in> set bs. wf_dict b"
  shows "amount (combine_shapes c bs) k = amount c k + total_amount bs k"
  using assms
proof (induction c bs rule: combine_shapes.induct)
  case (2 c b bs)
  then show ?case using inplace_add_amount [of b c k] by (simp add: amount_def)
qed simp

section \<open>Properties of the scheduler\<close>

text \<open>
  C4: whatever \<open>get_nodes_to_launch\<close> asks for, the existing nodes and the requested ones
  together are at most \<open>max_workers + 1\<close> (the head node), unless the configured minimums
  alone need more, and a node type that is launched stays within its own \<open>max_workers\<close>.
\<close>

theorem launch_within_limits:
  assumes "wf_node_types (ds_node_types s)" and "valid_reports max_res" and "\<not> is_legacy_yaml s []"
    and "\<forall>d \<in> set demands. wf_dict d" and "\<forall>d \<in> set ens. wf_dict d"
    and "\<forall>pg \<in> set pgs. \<forall>b \<in> set (pg_bundles pg). wf_dict b"
    and run: "get_nodes_to_launch conserve provider s nodes launching demands unused pgs max_res ens
      = Inr (s', launch, unf)"
    and calc: "calculate_node_resources provider s' nodes launching unused = Inr (nr, counts)"
  shows "dtotal counts + dtotal launch
      \<le> max (ds_max_workers s + 1)
          (dtotal counts + min_shortfall (ds_node_types s') (ds_head_node_type s) counts)
    \<and> (\<forall>t. 0 < dget_or launch t 0 \<longrightarrow> (\<exists>cfg. map_of (ds_node_types s') t = Some cfg \<and>
          dget_or counts t 0 + dget_or launch t 0 \<le> worker_limit (ds_head_node_type s) t cfg))"
proof -
  obtain c3 a3 where
    p: "planned (ds_node_types s') (ds_head_node_type s') (ds_max_workers s') counts c3 a3"
    and l: "wf_dict launch" "\<And>t. dget_or launch t 0 \<le> dget_or a3 t 0"
    and same: "same_config s s'" and wc: "wf_dict counts"
    by (rule get_nodes_to_launch_planned [OF assms(1-7)]) (use calc in auto)
  have same: "ds_max_workers s' = ds_max_workers s" "ds_head_node_type s' = ds_head_node_type s"
    using same by (simp_all add: same_config_def)
  have g: "grown (ds_node_types s') (ds_head_node_type s) counts c3 a3"
    using p same by (simp add: planned_def)
  have "dtotal launch \<le> dtotal a3"
    using l grownD(2) [OF g] by (intro dtotal_mono) auto
  moreover have "dtotal c3 = dtotal counts + dtotal a3" by (rule grown_total [OF g wc])
  moreover have "\<exists>cfg. map_of (ds_node_types s') t = Some cfg \<and>
      dget_or counts t 0 + dget_or launch t 0 \<le> worker_limit (ds_head_node_type s) t cfg"
    if "0 < dget_or launch t 0" for t
  proof -
    have "0 < dget_or a3 t 0" using that l(2) [of t] by linarith
    then obtain cfg where "map_of (ds_node_types s') t = Some cfg"
      "dget_or c3 t 0 \<le> worker_limit (ds_head_node_type s) t cfg" using grownD(5) [OF g] by blast
    then show ?thesis using grownD(3) [OF g, of t] l(2) [of t] by auto
  qed
  ultimately show ?thesis using p same by (auto simp: planned_def)
qed

theorem launch_within_limits_witness:
  "get_nodes_to_launch False ex_provider ex_scheduler [''head-1''] [] ex_demands ex_reports []
     ex_reports [] = Inr (ex_scheduler, [(''cpu'', 2)], [])
   \<and> dtotal [(''head'', 1)] + dtotal [(''cpu'', 2)]
      \<le> max (ds_max_workers ex_scheduler + 1) (dtotal [(''head'', 1 :: int)]
          + min_shortfall (ds_node_types ex_scheduler) (ds_head_node_type ex_scheduler) [(''head'', 1)])"
  using launch_within_limits [OF ex_scheduler_ok(1,2,3) _ _ _ ex_run ex_calc] ex_run
    ex_scheduler_ok(4) by (simp add: valid_demand_def)



text \<open>
  C19: without strictly spread placement groups, on a configuration whose types carry their
  resources and demands with positive quantities, \<open>get_nodes_to_launch\<close> raises nothing: it
  returns a launch plan.
\<close>

theorem get_nodes_to_launch_returns:
  assumes nts: "wf_node_types (ds_node_types s)" and rep: "valid_reports max_res" "valid_reports unused"
    and nl: "\<not> is_legacy_yaml s []"
    and d: "\<forall>d \<in> set demands. valid_demand d" "\<forall>d \<in> set ens. valid_demand d"
      "\<forall>pg \<in> set pgs. \<forall>b \<in> set (pg_bundles pg). valid_demand b"
    and ns: "\<forall>pg \<in> set pgs. pg_strategy pg \<noteq> STRICT_SPREAD"
    and kind: "\<forall>n \<in> set nodes. map_of (np_node_tags provider n) TAG_RAY_NODE_KIND \<noteq> None"
  shows "\<exists>s' launch unf. get_nodes_to_launch conserve provider s nodes launching demands unused pgs
      max_res ens = Inr (s', launch, unf)"
proof -
  obtain s1 where s1: "update_node_resources_from_runtime provider s nodes max_res = Inr s1"
    using update_from_runtime_total [OF kind] by blast
  note st = update_from_runtime_state [OF nts rep(1) s1]
  have nl1: "\<not> is_legacy_yaml s1 []" using nl st same_config_legacy by blast
  obtain nr counts where c: "calculate_node_resources provider s1 nodes launching unused = Inr (nr, counts)"
    and nr: "\<forall>n \<in> set nr. nonneg n"
    using calculate_node_resources_total [OF conjunct1 [OF st] rep(2)] by fastforce
  have "set (dkeys counts) \<subseteq> set (dkeys (ds_node_types s1))"
    using calculate_node_resources_ok [OF c] by (simp add: cluster_ok_def)
  from add_min_workers_total [OF conjunct1 [OF st] d(2) nr this] obtain nr1 c1 a1 where
    m: "add_min_workers_nodes conserve nr counts (ds_node_types s1) (ds_max_workers s1)
        (ds_head_node_type s1) ens = Inr (nr1, c1, a1)" and ok: "plan_ok (ds_node_types s1) (nr1, c1, a1)"
    by (metis prod_cases3)
  let ?pg = "placement_groups_to_resource_demands pgs"
  have "\<exists>launch unf. launch_for_demands conserve provider s1 nodes launching unused (fst ?pg)
      (fst ?pg @ demands) [] (nr1, c1, a1) = Inr (launch, unf)"
    by (rule launch_for_demands_total [OF conjunct1 [OF st]])
       (use ok d(1) placement_groups_valid [OF d(3)] in \<open>auto simp: plan_ok_def\<close>)
  then show ?thesis
    using nl nl1 s1 c m placement_groups_no_spread [OF ns]
    by (auto simp: get_nodes_to_launch_def case_prod_unfold Let_def)
qed

theorem get_nodes_to_launch_returns_witness:
  "\<exists>s' launch unf. get_nodes_to_launch True ex_provider ex_scheduler [''head-1''] [] ex_demands
     ex_reports [\<lparr>pg_strategy = STRICT_PACK, pg_bundles = ex_demands\<rparr>] ex_reports ex_demands
   = Inr (s', launch, unf)"
  by (rule get_nodes_to_launch_returns)
     (use ex_scheduler_ok in \<open>auto simp: ex_provider_def TAG_RAY_NODE_KIND_def\<close>)

text \<open>
  A strictly spread placement group of which \<open>get_nodes_for\<close> leaves a bundle unplaced
  (no node type fits it, or the limits are reached) is not reported as unfulfilled: the
  assertion at the end of the loop body of \<open>reserve_and_allocate_spread\<close> fails, because
  each new node takes at most one bundle.
\<close>

theorem spread_unplaced_raises:
  assumes "wf_node_types (ds_node_types s)" and "\<forall>d \<in> set bundles. valid_demand d"
    and "get_bin_pack_residual nr bundles True = Inr (unf, nr')"
    and "get_nodes_for conserve (ds_node_types s) counts (ds_head_node_type s)
        (ds_max_workers s + 1 - dtotal counts) unf True = Inr (n, rest)"
    and "rest \<noteq> []"
  shows "reserve_and_allocate_spread conserve s (bundles # spreads) nr counts = Inl AssertionError"
  using reserve_step_unplaced [OF assms] by (simp add: reserve_and_allocate_spread_def)

theorem spread_unplaced_raises_witness:
  "reserve_and_allocate_spread True ex_scheduler [[[(''GPU'', 1)]]] [] [(''head'', 1)]
     = Inl AssertionError"
proof (rule spread_unplaced_raises [OF ex_scheduler_ok(1), where unf = "[[(''GPU'', 1)]]"
      and nr' = "[]" and n = "[]" and rest = "[[(''GPU'', 1)]]"])
  show "get_bin_pack_residual [] [[(''GPU'', 1)]] True = Inr ([[(''GPU'', 1)]], [])" by code_simp
  show "get_nodes_for True (ds_node_types ex_scheduler) [(''head'', 1)]
      (ds_head_node_type ex_scheduler)
      (ds_max_workers ex_scheduler + 1 - dtotal [(''head'', 1)]) [[(''GPU'', 1)]] True
    = Inr ([], [[(''GPU'', 1)]])" by code_simp
qed (simp_all add: valid_demand_def positive_def)

text \<open>
  The assertion also fails for a group that fits. Node selection finds nodes for all three
  bundles, but first-fit packing of the same bundles onto these nodes, grouped by type, puts
  the CPU bundle on a GPU node and leaves the last GPU bundle out.
\<close>

theorem spread_feasible_raises:
  "get_nodes_for True (ds_node_types ex_spread_scheduler) [] ''h'' 11
     [[(''CPU'', 1), (''GPU'', 1)], [(''CPU'', 4)], [(''GPU'', 1)]] True
     = Inr ([(''x'', 2), (''y'', 1)], [])
   \<and> reserve_and_allocate_spread True ex_spread_scheduler
       [[[(''CPU'', 1), (''GPU'', 1)], [(''CPU'', 4)], [(''GPU'', 1)]]] [] [] = Inl AssertionError"
proof
  show "get_nodes_for True (ds_node_types ex_spread_scheduler) [] ''h'' 11
     [[(''CPU'', 1), (''GPU'', 1)], [(''CPU'', 4)], [(''GPU'', 1)]] True
     = Inr ([(''x'', 2), (''y'', 1)], [])" by code_simp
  show "reserve_and_allocate_spread True ex_spread_scheduler
       [[[(''CPU'', 1), (''GPU'', 1)], [(''CPU'', 4)], [(''GPU'', 1)]]] [] [] = Inl AssertionError"
    by code_simp
qed

text \<open>
  C20: \<open>get_nodes_for\<close> returns; the nodes it adds are at most \<open>max_to_add\<close> in all and
  within the limit of each type counting the existing ones; and they can host, one bin per new
  node (one demand per node under strict spread), every demand it does not return as unfulfilled.
\<close>

theorem get_nodes_for_correct:
  assumes nts: "wf_node_types nts" and ds: "\<forall>d \<in> set demands. valid_demand d"
  shows "\<exists>n rest. get_nodes_for conserve nts existing head max_to_add demands strict = Inr (n, rest)
     \<and> hosted nts strict demands (\<lambda>t. dget_or n t 0) rest
     \<and> dtotal n \<le> max max_to_add 0
     \<and> (\<forall>t. dget_or n t 0 \<noteq> 0 \<longrightarrow> (\<exists>c. map_of nts t = Some c \<and>
          dget_or existing t 0 + dget_or n t 0 \<le> worker_limit head t c))"
proof -
  obtain n rest where r: "get_nodes_for conserve nts existing head max_to_add demands strict
      = Inr (n, rest)" using get_nodes_for_total [OF assms] by blast
  have "\<forall>d \<in> set demands. wf_dict d" using ds by (simp add: valid_demand_def)
  note l = get_nodes_for_launches [OF nts this r]
  show ?thesis
    using r launches_hosted [OF l] launches_total(1) [OF l] launches_limit [OF l] by auto
qed

theorem get_nodes_for_correct_witness:
  "get_nodes_for False (ds_node_types ex_scheduler) [] ''head'' 3 ex_demands False
     = Inr ([(''cpu'', 2), (''head'', 1)], [])
   \<and> hosted (ds_node_types ex_scheduler) False ex_demands
       (\<lambda>t. dget_or [(''cpu'', 2), (''head'', 1)] t 0) []"
proof -
  have r: "get_nodes_for False (ds_node_types ex_scheduler) [] ''head'' 3 ex_demands False
     = Inr ([(''cpu'', 2), (''head'', 1)], [])" by code_simp
  show ?thesis
    using get_nodes_for_correct [OF ex_scheduler_ok(1,4), of False "[]" "''head''" 3 False] r by auto
qed

text \<open>
  C8: bin packing returns on non-negative nodes and positive demands, and its result is a
  packing: each node carries a group of demands that its resources cover, the groups and the
  unfulfilled demands together are exactly the demands, the returned nodes are what is left, and
  under strict spread no node carries two.
\<close>

theorem bin_pack_refines_packing:
  assumes "\<forall>n \<in> set nodes. nonneg n" and "\<forall>d \<in> set demands. valid_demand d"
  shows "\<exists>unf nodes'. get_bin_pack_residual nodes demands strict = Inr (unf, nodes')
     \<and> packing strict nodes demands unf nodes'"
  using bin_pack_total [OF assms, of strict] bin_pack_packing [OF assms(1), of demands strict]
    assms(2) by (auto simp: valid_demand_def)

theorem bin_pack_refines_packing_witness:
  "\<exists>unf nodes'. get_bin_pack_residual [[(''CPU'', 4)], [(''CPU'', 2)]] ex_demands True
     = Inr (unf, nodes') \<and> packing True [[(''CPU'', 4)], [(''CPU'', 2)]] ex_demands unf nodes'"
  by (rule bin_pack_refines_packing [OF _ ex_scheduler_ok(4)]) (simp add: nonneg_def)

text \<open>
  The residual is maximal without strict spread: a demand reported unfulfilled fits none of
  the nodes as packing leaves them.
\<close>

theorem bin_pack_residual_maximal:
  assumes "\<forall>d \<in> set demands. valid_demand d"
    and "get_bin_pack_residual nodes demands False = Inr (unf, nodes')"
    and "d \<in> set unf" and "d \<noteq> []" and "n \<in> set nodes'"
  shows "\<not> fits n d"
  by (rule bin_pack_rejected [OF assms(1,2,3) _ assms(5)]) (simp add: assms(4))

theorem bin_pack_residual_maximal_witness:
  "\<not> fits [(''CPU'', 1)] [(''CPU'', 2)]"
  by (rule bin_pack_residual_maximal [of "[[(''CPU'', 2)], [(''CPU'', 2)]]" "[[(''CPU'', 3)]]"
        "[[(''CPU'', 2)]]" "[[(''CPU'', 1)]]"])
     (simp add: valid_demand_def positive_def, code_simp, simp_all)

text \<open>
  A demand that names a resource with quantity zero which the node does not have is accepted
  by \<open>_fits\<close> and then trips the assertion of \<open>_inplace_subtract\<close>, so packing raises.
\<close>

theorem zero_quantity_raises:
  assumes "node \<noteq> []" and "fits node demand"
    and "(k, 0) \<in> set demand" and "k \<notin> set (dkeys node)"
  shows "get_bin_pack_residual [node] [demand] strict = Inl AssertionError"
proof -
  have "inplace_subtract node demand = Inl AssertionError"
    by (rule inplace_subtract_missing) (use assms in force)+
  then show ?thesis
    using assms(1,2) by (simp add: get_bin_pack_residual_def sorted_reverse_def)
qed

theorem zero_quantity_raises_witness:
  "get_bin_pack_residual [[(''CPU'', 4)]] [[(''CPU'', 1), (''GPU'', 0)]] False = Inl AssertionError"
  by (rule zero_quantity_raises [where k = "''GPU''"]) (auto simp: dget_or_def)

text \<open>
  The concurrency limit. A type for which nodes are launched never has more nodes waiting
  (tagged but not connected, being launched, or launched now) than \<open>max(5, upscaling_speed *
  running)\<close>, except that the nodes for \<open>min_workers\<close>, \<open>request_resources\<close> and placement
  groups are always allowed; and never more are launched than were asked for.
\<close>

theorem concurrent_launch_bounded:
  assumes "wf_dict to_launch"
    and "0 < dget_or (get_concurrent_resource_demand_to_launch provider s to_launch ips nodes
          launching mins pgs) t 0"
  shows "dget_or (get_concurrent_resource_demand_to_launch provider s to_launch ips nodes
          launching mins pgs) t 0 \<le> dget_or to_launch t 0
    \<and> dget_or (get_concurrent_resource_demand_to_launch provider s to_launch ips nodes
          launching mins pgs) t 0
      \<le> max (max 5 (py_int (ds_upscaling_speed s
              * of_int (nodes_of_type provider t (\<lambda>ip. ip \<in> set ips) nodes)))
            - dget_or launching t 0 - nodes_of_type provider t (\<lambda>ip. ip \<notin> set ips) nodes)
          (dget_or mins t 0 + dget_or pgs t 0)"
proof -
  obtain ru pe where sep: "separate_running_and_pending_nodes provider nodes ips = (ru, pe)"
    by (cases "separate_running_and_pending_nodes provider nodes ips")
  let ?ub = "launch_upper_bound s ru pe launching mins pgs t"
  have "?ub = max (max 5 (py_int (ds_upscaling_speed s
              * of_int (nodes_of_type provider t (\<lambda>ip. ip \<in> set ips) nodes)))
            - dget_or launching t 0 - nodes_of_type provider t (\<lambda>ip. ip \<notin> set ips) nodes)
          (dget_or mins t 0 + dget_or pgs t 0)"
    by (simp add: launch_upper_bound_def Let_def separate_counts [OF sep]
        UPSCALING_INITIAL_NUM_NODES_def)
  moreover
  let ?l = "get_concurrent_resource_demand_to_launch provider s to_launch ips nodes launching mins pgs"
  have l: "map_of ?l t = (case map_of to_launch t of None \<Rightarrow> None
      | Some n \<Rightarrow> if ?ub > 0 then Some (min ?ub n) else None)"
    using concurrent_launch(2) [OF assms(1) refl refl, of provider s ips nodes launching mins pgs t]
    unfolding sep fst_conv snd_conv .
  have "dget_or ?l t 0 \<le> dget_or to_launch t 0 \<and> dget_or ?l t 0 \<le> ?ub"
  proof (cases "map_of to_launch t")
    case None
    then show ?thesis using assms(2) l by (simp add: dget_or_def)
  next
    case (Some n)
    then show ?thesis using assms(2) l by (cases "?ub > 0") (simp_all add: dget_or_def)
  qed
  ultimately show ?thesis by simp
qed

theorem concurrent_launch_bounded_witness:
  "dget_or (get_concurrent_resource_demand_to_launch ex_provider ex_scheduler [(''cpu'', 9)]
     [''head-1''] [''head-1'', ''n2''] [(''cpu'', 1)] [] []) ''cpu'' 0 = 3
   \<and> dget_or (get_concurrent_resource_demand_to_launch ex_provider ex_scheduler [(''cpu'', 9)]
     [''head-1''] [''head-1'', ''n2''] [(''cpu'', 1)] [] []) ''cpu'' 0 \<le> dget_or [(''cpu'', 9)] ''cpu'' 0"
proof -
  have r: "dget_or (get_concurrent_resource_demand_to_launch ex_provider ex_scheduler [(''cpu'', 9)]
     [''head-1''] [''head-1'', ''n2''] [(''cpu'', 1)] [] []) ''cpu'' 0 = 3" by code_simp
  show ?thesis
    using concurrent_launch_bounded [of "[(''cpu'', 9)]" ex_provider ex_scheduler "[''head-1'']"
        "[''head-1'', ''n2'']" "[(''cpu'', 1)]" "[]" "[]" "''cpu''"] r by simp
qed

text \<open>
  Turning placement groups into demands loses nothing: for every resource the demand vector
  and the strictly spread groups together ask for what the bundles of all groups with a known
  strategy ask for, and a strictly packed group becomes a single demand.
\<close>

theorem placement_groups_conserve:
  assumes "\<forall>pg \<in> set pgs. \<forall>b \<in> set (pg_bundles pg). wf_dict b"
    and "placement_groups_to_resource_demands pgs = (demands, spreads)"
  shows "total_amount demands k + total_amount (concat spreads) k
     = total_amount (concat (map pg_bundles (filter (\<lambda>pg. known_strategy (pg_strategy pg)) pgs))) k
   \<and> spreads = map pg_bundles (filter (\<lambda>pg. pg_strategy pg = STRICT_SPREAD) pgs)"
  using assms
proof (induction pgs arbitrary: demands spreads)
  case (Cons pg pgs)
  obtain ds sp where r: "placement_groups_to_resource_demands pgs = (ds, sp)" by fastforce
  show ?case
    using Cons.IH [OF _ r] Cons.prems combine_shapes_amount [of "pg_bundles pg" "[]" k] r
    by (auto simp: known_strategy_def split: placement_strategy.splits)
qed simp

theorem placement_groups_conserve_witness:
  "total_amount [[(''CPU'', 9)]] ''CPU'' + total_amount (concat [[[(''CPU'', 2)]]]) ''CPU''
     = total_amount (concat (map pg_bundles [\<lparr>pg_strategy = STRICT_PACK, pg_bundles = ex_demands\<rparr>,
         \<lparr>pg_strategy = STRICT_SPREAD, pg_bundles = [[(''CPU'', 2)]]\<rparr>])) ''CPU''"
proof -
  have "placement_groups_to_resource_demands [\<lparr>pg_strategy = STRICT_PACK, pg_bundles = ex_demands\<rparr>,
      \<lparr>pg_strategy = STRICT_SPREAD, pg_bundles = [[(''CPU'', 2)]]\<rparr>]
    = ([[(''CPU'', 9)]], [[[(''CPU'', 2)]]])" by code_simp
  from placement_groups_conserve [OF _ this, of "''CPU''"] show ?thesis
    using ex_scheduler_ok(4) by (simp add: known_strategy_def valid_demand_def)
qed

text \<open>
  Resetting the configuration of a legacy cluster keeps the resources that were inferred
  for the worker type, as long as its node configuration did not change.
\<close>

theorem reset_config_keeps_inferred:
  assumes "is_legacy_yaml s []" and "is_legacy_yaml s nts"
    and "map_of (ds_node_types s) NODE_TYPE_LEGACY_WORKER = Some old"
    and "map_of nts NODE_TYPE_LEGACY_WORKER = Some new"
    and "ntc_node_config old = ntc_node_config new" and "ntc_resources old = Some known" and "known \<noteq> []"
    and "reset_config s nts max_workers head speed = Inr s'"
  shows "type_resources (ds_node_types s') NODE_TYPE_LEGACY_WORKER = Inr known"
proof -
  obtain nts1 nts2 where u1: "update_based_on_node_config (ds_node_types s) nts NODE_TYPE_LEGACY_HEAD = Inr nts1"
    and u2: "update_based_on_node_config nts1 nts NODE_TYPE_LEGACY_WORKER = Inr nts2"
    and s': "ds_node_types s' = nts2"
    using assms(1,2,8) by (auto simp: reset_config_def result_simps)
  have "NODE_TYPE_LEGACY_HEAD \<noteq> NODE_TYPE_LEGACY_WORKER"
    by (simp add: NODE_TYPE_LEGACY_HEAD_def NODE_TYPE_LEGACY_WORKER_def)
  then have "map_of nts1 NODE_TYPE_LEGACY_WORKER = Some old"
    using update_based_other [OF u1] assms(3) by simp
  then have "nts2 = dset nts1 NODE_TYPE_LEGACY_WORKER (update_config old (new\<lparr>ntc_resources := None\<rparr>))"
    using u2 assms(4-7) by (auto simp: update_based_on_node_config_def dindex_def config_resources_def
        split: option.splits)
  then show ?thesis
    using assms(6) s' by (simp add: type_resources_def dindex_def config_resources_def update_config_def)
qed

definition ex_legacy :: demand_scheduler where
  "ex_legacy = ex_scheduler\<lparr>ds_node_types := [(NODE_TYPE_LEGACY_HEAD, ex_config [] 0 0),
     (NODE_TYPE_LEGACY_WORKER, ex_config [(''CPU'', 16)] 0 5)]\<rparr>"

theorem reset_config_keeps_inferred_witness:
  "\<exists>s'. reset_config ex_legacy [(NODE_TYPE_LEGACY_HEAD, ex_config [] 0 0),
       (NODE_TYPE_LEGACY_WORKER, ex_config [] 0 8)] 8 NODE_TYPE_LEGACY_HEAD 1 = Inr s'
     \<and> type_resources (ds_node_types s') NODE_TYPE_LEGACY_WORKER = Inr [(''CPU'', 16)]"
proof -
  have "reset_config ex_legacy [(NODE_TYPE_LEGACY_HEAD, ex_config [] 0 0),
      (NODE_TYPE_LEGACY_WORKER, ex_config [] 0 8)] 8 NODE_TYPE_LEGACY_HEAD 1
    = Inr (ex_legacy\<lparr>ds_node_types := [(NODE_TYPE_LEGACY_HEAD, ex_config [] 0 0),
        (NODE_TYPE_LEGACY_WORKER, ex_config [(''CPU'', 16)] 0 8)],
        ds_max_workers := 8, ds_head_node_type := NODE_TYPE_LEGACY_HEAD\<rparr>)" by code_simp
  from reset_config_keeps_inferred [OF _ _ _ _ _ _ _ this, of "ex_config [(''CPU'', 16)] 0 5"
      "ex_config [] 0 8" "[(''CPU'', 16)]"] this
  show ?thesis
    by (simp add: ex_legacy_def is_legacy_yaml_def Let_def dmem_iff ex_config_def
        NODE_TYPE_LEGACY_HEAD_def NODE_TYPE_LEGACY_WORKER_def)
qed

end
