(* ===== verification/Load_Metrics.thy ===== *)
theory Load_Metrics
  imports Resources
begin

text \<open>
  \<open>autoscaler/_private/load_metrics.py\<close>: the container of heartbeat data the autoscaler
  reads. \<open>time.time()\<close> is the parameter \<open>now\<close> of the operations that read it.
  A \<open>frozenset\<close> of dict items is represented by the sorted list of the items.
\<close>

section \<open>Helpers\<close>

definition add_resources :: "resource_dict \<Rightarrow> resource_dict \<Rightarrow> resource_dict" where
  "add_resources dict1 dict2 = foldl (\<lambda>d (k, v). dset d k (v + dget_or d k 0)) dict1 dict2"

text \<open>\<open>reduce(add_resources, ds) if ds else {}\<close>\<close>

fun sum_resources :: "resource_dict list \<Rightarrow> resource_dict" where
  "sum_resources [] = []"
| "sum_resources (d # ds) = foldl add_resources d ds"

text \<open>\<open>collections.Counter\<close> over an iterable: insertion order of first occurrences.\<close>

definition counter :: "'s list \<Rightarrow> ('s, nat) dict" where
  "counter xs = foldl (\<lambda>c x. dset c x (dget_or c x 0 + 1)) [] xs"

definition freq_of_dicts :: "('d \<Rightarrow> 's) \<Rightarrow> ('s \<Rightarrow> 'u) \<Rightarrow> 'd list \<Rightarrow> ('u \<times> nat) list" where
  "freq_of_dicts serializer deserializer dicts =
     map (\<lambda>(s, n). (deserializer s, n)) (counter (map serializer dicts))"

definition frozen_items :: "resource_dict \<Rightarrow> resource_dict" where
  "frozen_items d = sort d"

text \<open>Equality of dicts does not see their order.\<close>

definition dict_eq :: "('k, 'v) dict \<Rightarrow> ('k, 'v) dict \<Rightarrow> bool" where
  "dict_eq d1 d2 \<longleftrightarrow> (\<forall>k \<in> set (dkeys d1 @ dkeys d2). map_of d1 k = map_of d2 k)"

section \<open>State\<close>

record load_metrics =
  last_used_time_by_ip :: "(string, rat) dict"
  last_heartbeat_time_by_ip :: "(string, rat) dict"
  static_resources_by_ip :: "(string, resource_dict) dict"
  dynamic_resources_by_ip :: "(string, resource_dict) dict"
  raylet_id_by_ip :: "(string, string) dict"
  resource_load_by_ip :: "(string, resource_dict) dict"
  local_ip :: string
  waiting_bundles :: "resource_dict list"
  infeasible_bundles :: "resource_dict list"
  pending_placement_groups :: "placement_group list"
  resource_requests :: "resource_dict list"
  cluster_full_of_actors_detected :: bool

definition init_load_metrics :: "string \<Rightarrow> load_metrics" where
  "init_load_metrics ip = \<lparr>last_used_time_by_ip = [], last_heartbeat_time_by_ip = [],
     static_resources_by_ip = [], dynamic_resources_by_ip = [], raylet_id_by_ip = [],
     resource_load_by_ip = [], local_ip = ip, waiting_bundles = [], infeasible_bundles = [],
     pending_placement_groups = [], resource_requests = [],
     cluster_full_of_actors_detected = False\<rparr>"

section \<open>Operations\<close>

record heartbeat =
  hb_ip :: string
  hb_raylet_id :: string
  hb_static_resources :: resource_dict
  hb_dynamic_resources :: resource_dict
  hb_resource_load :: resource_dict
  hb_waiting_bundles :: "resource_dict list"
  hb_infeasible_bundles :: "resource_dict list"
  hb_pending_placement_groups :: "placement_group list"
  hb_cluster_full :: bool

definition fill_dynamic :: "resource_dict \<Rightarrow> resource_dict \<Rightarrow> resource_dict" where
  "fill_dynamic static dynamic =
     foldl (\<lambda>d (k, _). if dmem k d then d else dset d k 0) dynamic static"

definition lm_update :: "rat \<Rightarrow> heartbeat \<Rightarrow> load_metrics \<Rightarrow> load_metrics" where
  "lm_update now hb lm =
     (let ip = hb_ip hb;
          static = hb_static_resources hb;
          dynamic = fill_dynamic static (hb_dynamic_resources hb);
          used = (if \<not> dmem ip (last_used_time_by_ip lm) \<or> \<not> dict_eq static dynamic
                  then dset (last_used_time_by_ip lm) ip now else last_used_time_by_ip lm)
      in lm\<lparr>resource_load_by_ip := dset (resource_load_by_ip lm) ip (hb_resource_load hb),
            static_resources_by_ip := dset (static_resources_by_ip lm) ip static,
            raylet_id_by_ip := dset (raylet_id_by_ip lm) ip (hb_raylet_id hb),
            cluster_full_of_actors_detected := hb_cluster_full hb,
            dynamic_resources_by_ip := dset (dynamic_resources_by_ip lm) ip dynamic,
            last_used_time_by_ip := used,
            last_heartbeat_time_by_ip := dset (last_heartbeat_time_by_ip lm) ip now,
            waiting_bundles := hb_waiting_bundles hb,
            infeasible_bundles := hb_infeasible_bundles hb,
            pending_placement_groups := hb_pending_placement_groups hb\<rparr>)"

definition mark_active :: "rat \<Rightarrow> string option \<Rightarrow> load_metrics \<Rightarrow> load_metrics result" where
  "mark_active now ip lm =
     (case ip of
        None \<Rightarrow> Inl AssertionError
      | Some i \<Rightarrow>
          Inr (lm\<lparr>last_heartbeat_time_by_ip := dset (last_heartbeat_time_by_ip lm) i now\<rparr>))"

definition is_active :: "string \<Rightarrow> load_metrics \<Rightarrow> bool" where
  "is_active ip lm = dmem ip (last_heartbeat_time_by_ip lm)"

definition prune :: "string set \<Rightarrow> (string, 'v) dict \<Rightarrow> (string, 'v) dict result" where
  "prune active_ips mapping =
     (let unwanted_ips = filter (\<lambda>ip. ip \<notin> active_ips) (dkeys mapping);
          mapping' = foldl ddel mapping unwanted_ips
      in bindE (assertE (\<forall>ip \<in> set unwanted_ips. \<not> dmem ip mapping')) (\<lambda>_. Inr mapping'))"

definition prune_active_ips :: "string list \<Rightarrow> load_metrics \<Rightarrow> load_metrics result" where
  "prune_active_ips ips lm =
     (let active_ips = insert (local_ip lm) (set ips) in
      bindE (prune active_ips (last_used_time_by_ip lm)) (\<lambda>used.
      bindE (prune active_ips (static_resources_by_ip lm)) (\<lambda>static.
      bindE (prune active_ips (raylet_id_by_ip lm)) (\<lambda>raylet.
      bindE (prune active_ips (dynamic_resources_by_ip lm)) (\<lambda>dynamic.
      bindE (prune active_ips (resource_load_by_ip lm)) (\<lambda>load.
      bindE (prune active_ips (last_heartbeat_time_by_ip lm)) (\<lambda>beat.
        Inr (lm\<lparr>last_used_time_by_ip := used, static_resources_by_ip := static,
               raylet_id_by_ip := raylet, dynamic_resources_by_ip := dynamic,
               resource_load_by_ip := load, last_heartbeat_time_by_ip := beat\<rparr>))))))))"

definition get_node_resources :: "load_metrics \<Rightarrow> resource_dict list" where
  "get_node_resources lm = dvalues (static_resources_by_ip lm)"

definition get_static_node_resources_by_ip :: "load_metrics \<Rightarrow> (string, resource_dict) dict" where
  "get_static_node_resources_by_ip lm = static_resources_by_ip lm"

definition get_resource_utilization :: "load_metrics \<Rightarrow> (string, resource_dict) dict" where
  "get_resource_utilization lm = dynamic_resources_by_ip lm"

text \<open>
  \<open>_get_resource_usage\<close>: the counters of nodes and non-idle nodes it also computes are
  not returned and not modelled; the lookups that can raise are.
\<close>

type_synonym usage = "resource_dict \<times> resource_dict"

definition usage_resource :: "resource_dict \<Rightarrow> usage \<Rightarrow> string \<times> rat \<Rightarrow> usage result" where
  "usage_resource avail_resources s p =
     (case s of (resources_used, resources_total) \<Rightarrow>
      case p of (resource_id, amt) \<Rightarrow>
        bindE (dindex avail_resources resource_id) (\<lambda>avail.
          let used = amt - avail
          in Inr (dset resources_used resource_id (dget_or resources_used resource_id 0 + used),
                  dset resources_total resource_id (dget_or resources_total resource_id 0 + amt))))"

definition usage_node :: "load_metrics \<Rightarrow> usage \<Rightarrow> string \<times> resource_dict \<Rightarrow> usage result" where
  "usage_node lm s p =
     (case p of (ip, max_resources) \<Rightarrow>
        bindE (dindex (dynamic_resources_by_ip lm) ip) (\<lambda>avail_resources.
        bindE (dindex (resource_load_by_ip lm) ip) (\<lambda>resource_load.
          foldE (usage_resource avail_resources) s max_resources)))"

definition get_resource_usage :: "load_metrics \<Rightarrow> usage result" where
  "get_resource_usage lm = foldE (usage_node lm) ([], []) (static_resources_by_ip lm)"

definition AUTOSCALER_MAX_RESOURCE_DEMAND_VECTOR_SIZE :: nat where
  "AUTOSCALER_MAX_RESOURCE_DEMAND_VECTOR_SIZE = 1000"

definition get_resource_demand_vector :: "bool \<Rightarrow> load_metrics \<Rightarrow> resource_dict list" where
  "get_resource_demand_vector clip lm =
     (if clip then
        take AUTOSCALER_MAX_RESOURCE_DEMAND_VECTOR_SIZE (waiting_bundles lm)
        @ take AUTOSCALER_MAX_RESOURCE_DEMAND_VECTOR_SIZE (infeasible_bundles lm)
      else waiting_bundles lm @ infeasible_bundles lm)"

definition get_resource_requests :: "load_metrics \<Rightarrow> resource_dict list" where
  "get_resource_requests lm = resource_requests lm"

definition get_pending_placement_groups :: "load_metrics \<Rightarrow> placement_group list" where
  "get_pending_placement_groups lm = pending_placement_groups lm"

definition trunc_rat :: "rat \<Rightarrow> int" where
  "trunc_rat x = (if x < 0 then \<lceil>x\<rceil> else \<lfloor>x\<rfloor>)"

definition resources_avail_summary :: "load_metrics \<Rightarrow> string" where
  "resources_avail_summary lm =
     (let total_resources = sum_resources (dvalues (static_resources_by_ip lm));
          out = str_int (trunc_rat (amount total_resources ''CPU'')) @ '' CPUs''
      in if dmem ''GPU'' total_resources
         then out @ '', '' @ str_int (trunc_rat (amount total_resources ''GPU'')) @ '' GPUs''
         else out)"

record load_metrics_summary =
  lms_head_ip :: string
  lms_usage :: "(string, rat \<times> rat) dict"
  lms_resource_demand :: "(resource_dict \<times> nat) list"
  lms_pg_demand :: "(((resource_dict \<times> nat) list \<times> placement_strategy) \<times> nat) list"
  lms_request_demand :: "(resource_dict \<times> nat) list"
  lms_node_types :: "(resource_dict \<times> nat) list"

definition summary_usage :: "resource_dict \<Rightarrow> resource_dict \<Rightarrow> (string, rat \<times> rat) dict result" where
  "summary_usage available_resources total_resources =
     mapE (\<lambda>(key, total).
         bindE (dindex available_resources key) (\<lambda>available.
           if key = ''memory'' \<or> key = ''object_store_memory'' then
             let total = total * MEMORY_RESOURCE_UNIT_BYTES;
                 available = available * MEMORY_RESOURCE_UNIT_BYTES
             in Inr (key, (total - available, total))
           else Inr (key, (total - available, total))))
       total_resources"

definition placement_group_serializer :: "placement_group \<Rightarrow> resource_dict list \<times> placement_strategy" where
  "placement_group_serializer pg = (map frozen_items (pg_bundles pg), pg_strategy pg)"

definition placement_group_deserializer ::
  "resource_dict list \<times> placement_strategy \<Rightarrow> (resource_dict \<times> nat) list \<times> placement_strategy" where
  "placement_group_deserializer pg_tuple =
     (freq_of_dicts frozen_items (\<lambda>d. d) (fst pg_tuple), snd pg_tuple)"

definition lm_summary :: "load_metrics \<Rightarrow> load_metrics_summary result" where
  "lm_summary lm =
     bindE (summary_usage (sum_resources (dvalues (dynamic_resources_by_ip lm)))
              (sum_resources (dvalues (static_resources_by_ip lm)))) (\<lambda>usage_dict.
       Inr \<lparr>lms_head_ip = local_ip lm,
            lms_usage = usage_dict,
            lms_resource_demand =
              freq_of_dicts frozen_items (\<lambda>d. d) (get_resource_demand_vector False lm),
            lms_pg_demand = freq_of_dicts placement_group_serializer placement_group_deserializer
              (get_pending_placement_groups lm),
            lms_request_demand = freq_of_dicts frozen_items (\<lambda>d. d) (get_resource_requests lm),
            lms_node_types = freq_of_dicts frozen_items (\<lambda>d. d) (dvalues (static_resources_by_ip lm))\<rparr>)"

definition set_resource_requests :: "resource_dict list option \<Rightarrow> load_metrics \<Rightarrow> load_metrics result" where
  "set_resource_requests requested_resources lm =
     (case requested_resources of
        None \<Rightarrow> Inl TypeError
      | Some rs \<Rightarrow> Inr (lm\<lparr>resource_requests := filter (\<lambda>r. length r > 0) rs\<rparr>))"

text \<open>The timing part of \<open>_info\<close>: minimum, mean and maximum age in whole seconds, or -1.\<close>

definition age_stats :: "rat \<Rightarrow> (string, rat) dict \<Rightarrow> int \<times> int \<times> int" where
  "age_stats now stamps =
     (let ages = map (\<lambda>t. now - t) (dvalues stamps)
      in if ages = [] then (-1, -1, -1)
         else (trunc_rat (Min (set ages)), trunc_rat (sum_list ages / of_nat (length ages)),
               trunc_rat (Max (set ages))))"

definition most_delayed_heartbeats :: "rat \<Rightarrow> load_metrics \<Rightarrow> (string, rat) dict" where
  "most_delayed_heartbeats now lm =
     map (\<lambda>(ip, t). (ip, now - t)) (take 5 (sort_key snd (last_heartbeat_time_by_ip lm)))"

section \<open>Sums of resource dictionaries\<close>

lemma add_resources_eq: "add_resources d1 d2 = inplace_add d1 d2"
proof (induction d2 arbitrary: d1)
  case (Cons p d2)
  then show ?case by (cases p) (simp add: add_resources_def add.commute)
qed (simp add: add_resources_def)

lemma sum_resources_keys: "set (dkeys (sum_resources ds)) = (\<Union>d\<in>set ds. set (dkeys d))"
proof -
  have "set (dkeys (foldl add_resources a es)) = set (dkeys a) \<union> (\<Union>d\<in>set es. set (dkeys d))" for a es
    by (induction es arbitrary: a) (auto simp: add_resources_eq inplace_add_keys simp del: set_map)
  then show ?thesis by (cases ds) simp_all
qed

lemma sum_resources_amount:
  assumes "\<forall>d \<in> set ds. wf_dict d"
  shows "amount (sum_resources ds) k = (\<Sum>d\<leftarrow>ds. amount d k)"
proof -
  have "amount (foldl add_resources a es) k = amount a k + (\<Sum>d\<leftarrow>es. amount d k)"
    if "\<forall>d \<in> set es. wf_dict d" for a es
    using that
  proof (induction es arbitrary: a)
    case (Cons e es)
    then show ?case using inplace_add_amount [of e a k] by (simp add: add_resources_eq amount_def)
  qed simp
  then show ?thesis using assms by (cases ds) simp_all
qed

lemma sum_resources_wf:
  assumes "\<forall>d \<in> set ds. wf_dict d"
  shows "wf_dict (sum_resources ds)"
proof -
  have "wf_dict a \<Longrightarrow> wf_dict (foldl add_resources a es)" for a es
    by (induction es arbitrary: a) (simp_all add: add_resources_eq inplace_add_wf)
  then show ?thesis using assms by (cases ds) simp_all
qed

section \<open>Counting\<close>

lemma counter_spec:
  "wf_dict (counter xs) \<and> set (dkeys (counter xs)) = set xs
     \<and> (\<forall>x. dget_or (counter xs) x 0 = count_list xs x)"
proof -
  let ?f = "\<lambda>c x. dset c x (dget_or c x (0 :: nat) + 1)"
  have "wf_dict c \<Longrightarrow> wf_dict (foldl ?f c xs) \<and> set (dkeys (foldl ?f c xs)) = set (dkeys c) \<union> set xs
      \<and> (\<forall>x. dget_or (foldl ?f c xs) x 0 = dget_or c x 0 + count_list xs x)" for c
    by (induction xs arbitrary: c) (auto simp: dkeys_dset simp del: set_map)
  from this [of "[]"] show ?thesis by (simp add: counter_def)
qed

lemma counter_in: "(x, n) \<in> set (counter xs) \<Longrightarrow> n = count_list xs x"
  using counter_spec [of xs] by (auto dest: dget_or_in [of "counter xs" x n 0])

section \<open>Pruning\<close>

lemma foldl_ddel: "foldl ddel m ks = filter (\<lambda>p. fst p \<notin> set ks) m"
  by (induction ks arbitrary: m) (auto simp: AList.delete_eq intro!: filter_cong)

lemma prune_eq: "prune active m = Inr (filter (\<lambda>p. fst p \<in> active) m)"
proof -
  have "foldl ddel m (filter (\<lambda>ip. ip \<notin> active) (dkeys m)) = filter (\<lambda>p. fst p \<in> active) m"
    unfolding foldl_ddel by (rule filter_cong) auto
  moreover have "\<not> dmem ip (filter (\<lambda>p. fst p \<in> active) m)" if "ip \<notin> active" for ip
    using that by (auto simp: dmem_iff)
  ultimately show ?thesis by (simp add: prune_def Let_def assertE_def)
qed

lemma map_of_filter_keys: "map_of (filter (\<lambda>p. P (fst p)) m) k = (if P k then map_of m k else None)"
  by (induction m) auto

lemma wf_dict_filter: "wf_dict m \<Longrightarrow> wf_dict (filter P m)"
  by (simp add: wf_dict_def distinct_map_filter)

section \<open>Invariant\<close>

definition valid_heartbeat :: "heartbeat \<Rightarrow> bool" where
  "valid_heartbeat hb \<longleftrightarrow> wf_dict (hb_static_resources hb) \<and> wf_dict (hb_dynamic_resources hb)"

inductive lm_step :: "load_metrics \<Rightarrow> load_metrics \<Rightarrow> bool" where
  lm_step_update: "valid_heartbeat hb \<Longrightarrow> lm_step lm (lm_update now hb lm)"
| lm_step_active: "mark_active now ip lm = Inr lm' \<Longrightarrow> lm_step lm lm'"
| lm_step_prune: "prune_active_ips ips lm = Inr lm' \<Longrightarrow> lm_step lm lm'"
| lm_step_requests: "set_resource_requests rs lm = Inr lm' \<Longrightarrow> lm_step lm lm'"

text \<open>
  Every node with static resources has a load, a raylet id, a last-used time and a heartbeat, and
  its dynamic resources cover its static ones.
\<close>

definition covers :: "(string, resource_dict) dict \<Rightarrow> string \<times> resource_dict \<Rightarrow> bool" where
  "covers dynamic p \<longleftrightarrow> wf_dict (snd p) \<and>
     (\<exists>d. map_of dynamic (fst p) = Some d \<and> set (dkeys (snd p)) \<subseteq> set (dkeys d))"

definition lm_ok :: "load_metrics \<Rightarrow> bool" where
  "lm_ok lm \<longleftrightarrow>
     wf_dict (static_resources_by_ip lm) \<and> wf_dict (dynamic_resources_by_ip lm) \<and>
     (\<forall>d \<in> set (dvalues (dynamic_resources_by_ip lm)). wf_dict d) \<and>
     (\<forall>p \<in> set (static_resources_by_ip lm). covers (dynamic_resources_by_ip lm) p) \<and>
     set (dkeys (dynamic_resources_by_ip lm)) = set (dkeys (static_resources_by_ip lm)) \<and>
     set (dkeys (resource_load_by_ip lm)) = set (dkeys (static_resources_by_ip lm)) \<and>
     set (dkeys (raylet_id_by_ip lm)) = set (dkeys (static_resources_by_ip lm)) \<and>
     set (dkeys (last_used_time_by_ip lm)) = set (dkeys (static_resources_by_ip lm)) \<and>
     set (dkeys (static_resources_by_ip lm)) \<subseteq> set (dkeys (last_heartbeat_time_by_ip lm)) \<and>
     [] \<notin> set (resource_requests lm)"

lemma fill_dynamic_spec:
  shows "set (dkeys (fill_dynamic static dynamic)) = set (dkeys dynamic) \<union> set (dkeys static)"
    and "wf_dict dynamic \<Longrightarrow> wf_dict (fill_dynamic static dynamic)"
    and "amount (fill_dynamic static dynamic) k = amount dynamic k"
proof -
  let ?f = "\<lambda>d (k :: string, _ :: rat). if dmem k d then d else dset d k (0 :: rat)"
  have "set (dkeys (foldl ?f dynamic static)) = set (dkeys dynamic) \<union> set (dkeys static)
      \<and> (wf_dict dynamic \<longrightarrow> wf_dict (foldl ?f dynamic static))
      \<and> amount (foldl ?f dynamic static) k = amount dynamic k"
  proof (induction static arbitrary: dynamic)
    case (Cons p static)
    have "\<not> dmem (fst p) dynamic \<Longrightarrow> amount dynamic (fst p) = 0"
      by (simp add: dmem_iff amount_notin)
    then show ?case using Cons.IH [of "?f dynamic p"]
      by (cases p) (auto simp: dkeys_dset dmem_iff simp del: set_map)
  qed simp
  then show "set (dkeys (fill_dynamic static dynamic)) = set (dkeys dynamic) \<union> set (dkeys static)"
    "wf_dict dynamic \<Longrightarrow> wf_dict (fill_dynamic static dynamic)"
    "amount (fill_dynamic static dynamic) k = amount dynamic k"
    by (simp_all add: fill_dynamic_def)
qed

lemma dvalues_dset_subset: "set (dvalues (dset d k v)) \<subseteq> insert v (set (dvalues d))"
  using set_dset_subset [where d = d and k = k and v = v] by force

lemma lm_update_ok:
  assumes ok: "lm_ok lm" and hb: "valid_heartbeat hb"
  shows "lm_ok (lm_update now hb lm)"
proof -
  let ?st = "hb_static_resources hb" and ?ip = "hb_ip hb"
  let ?dy = "fill_dynamic ?st (hb_dynamic_resources hb)"
  have dy: "wf_dict ?dy" "set (dkeys ?st) \<subseteq> set (dkeys ?dy)" and st: "wf_dict ?st"
    using hb fill_dynamic_spec(1) [of ?st "hb_dynamic_resources hb"]
    by (auto simp: valid_heartbeat_def intro: fill_dynamic_spec(2))
  have "covers (dset (dynamic_resources_by_ip lm) ?ip ?dy) p"
    if p: "p \<in> set (dset (static_resources_by_ip lm) ?ip ?st)" for p
  proof (cases "fst p = ?ip")
    case True
    have "wf_dict (dset (static_resources_by_ip lm) ?ip ?st)" using ok by (auto simp: lm_ok_def)
    moreover have "(?ip, snd p) \<in> set (dset (static_resources_by_ip lm) ?ip ?st)"
      using p True by (metis prod.collapse)
    ultimately have "snd p = ?st" using dget_or_in [where v = "[]"] by fastforce
    then show ?thesis using dy st True by (simp add: covers_def)
  next
    case False
    then have "p \<in> set (static_resources_by_ip lm)"
      using p set_dset_subset [where d = "static_resources_by_ip lm" and k = ?ip and v = ?st] by auto
    then show ?thesis using ok False by (auto simp: lm_ok_def covers_def)
  qed
  moreover have "\<forall>d \<in> set (dvalues (dset (dynamic_resources_by_ip lm) ?ip ?dy)). wf_dict d"
    using ok dy(1) dvalues_dset_subset [where d = "dynamic_resources_by_ip lm" and k = ?ip and v = ?dy]
    unfolding lm_ok_def by blast
  ultimately show ?thesis using ok
    by (auto simp: lm_ok_def lm_update_def Let_def dkeys_dset dmem_iff simp del: set_map)
qed

lemma prune_active_ips_eq:
  "prune_active_ips ips lm = Inr (let keep = filter (\<lambda>p. fst p \<in> insert (local_ip lm) (set ips)) in
     lm\<lparr>last_used_time_by_ip := filter (\<lambda>p. fst p \<in> insert (local_ip lm) (set ips)) (last_used_time_by_ip lm),
        static_resources_by_ip := keep (static_resources_by_ip lm),
        raylet_id_by_ip := filter (\<lambda>p. fst p \<in> insert (local_ip lm) (set ips)) (raylet_id_by_ip lm),
        dynamic_resources_by_ip := keep (dynamic_resources_by_ip lm),
        resource_load_by_ip := keep (resource_load_by_ip lm),
        last_heartbeat_time_by_ip :=
          filter (\<lambda>p. fst p \<in> insert (local_ip lm) (set ips)) (last_heartbeat_time_by_ip lm)\<rparr>)"
  by (simp add: prune_active_ips_def prune_eq Let_def)

lemma dkeys_filter: "set (dkeys (filter (\<lambda>p. fst p \<in> A) m)) = set (dkeys m) \<inter> A"
  by auto

lemma prune_ok:
  assumes ok: "lm_ok lm" and run: "prune_active_ips ips lm = Inr lm'"
  shows "lm_ok lm'"
proof -
  define A where "A = insert (local_ip lm) (set ips)"
  let ?k = "\<lambda>m. filter (\<lambda>p. fst p \<in> A) m"
  have lm': "lm' = lm\<lparr>last_used_time_by_ip := filter (\<lambda>p. fst p \<in> A) (last_used_time_by_ip lm),
      static_resources_by_ip := ?k (static_resources_by_ip lm),
      raylet_id_by_ip := filter (\<lambda>p. fst p \<in> A) (raylet_id_by_ip lm),
      dynamic_resources_by_ip := ?k (dynamic_resources_by_ip lm),
      resource_load_by_ip := ?k (resource_load_by_ip lm),
      last_heartbeat_time_by_ip := filter (\<lambda>p. fst p \<in> A) (last_heartbeat_time_by_ip lm)\<rparr>"
    using run unfolding prune_active_ips_eq Let_def A_def by simp
  have cov: "\<forall>p \<in> set (static_resources_by_ip lm). covers (dynamic_resources_by_ip lm) p"
    and dy: "\<forall>d \<in> set (dvalues (dynamic_resources_by_ip lm)). wf_dict d"
    using ok by (simp_all add: lm_ok_def)
  have "covers (?k (dynamic_resources_by_ip lm)) p"
    if "p \<in> set (static_resources_by_ip lm)" "fst p \<in> A" for p
    using bspec [OF cov that(1)] that(2) map_of_filter_keys [of "\<lambda>k. k \<in> A" "dynamic_resources_by_ip lm" "fst p"]
    unfolding covers_def by simp
  then have "\<forall>p \<in> set (?k (static_resources_by_ip lm)). covers (?k (dynamic_resources_by_ip lm)) p"
    by simp
  moreover have "\<forall>d \<in> set (dvalues (?k (dynamic_resources_by_ip lm))). wf_dict d"
    using dy by auto
  ultimately show ?thesis
    using ok unfolding lm' lm_ok_def
    by (simp add: wf_dict_filter dkeys_filter del: set_map) blast
qed

lemma lm_step_ok:
  assumes "lm_ok lm" and "lm_step lm lm'"
  shows "lm_ok lm'"
  using assms(2,1)
proof (induction rule: lm_step.induct)
  case (lm_step_active now ip lm lm')
  then obtain i where
    "lm' = lm\<lparr>last_heartbeat_time_by_ip := dset (last_heartbeat_time_by_ip lm) i now\<rparr>"
    by (auto simp: mark_active_def split: option.splits)
  then show ?case using lm_step_active.prems
    by (auto simp: lm_ok_def dkeys_dset simp del: set_map)
next
  case (lm_step_requests rs lm lm')
  then obtain r where "lm' = lm\<lparr>resource_requests := filter (\<lambda>r. length r > 0) r\<rparr>"
    by (auto simp: set_resource_requests_def split: option.splits)
  then show ?case using lm_step_requests.prems by (simp add: lm_ok_def)
qed (simp_all add: lm_update_ok prune_ok)

interpretation lm: invariant_system "\<lambda>lm. \<exists>ip. lm = init_load_metrics ip" lm_step lm_ok
proof unfold_locales
  show "lm_ok s" if "\<exists>ip. s = init_load_metrics ip" for s
    using that by (auto simp: lm_ok_def init_load_metrics_def)
qed (rule lm_step_ok)

section \<open>Usage\<close>

lemma summary_usage_eq:
  assumes "set (dkeys tot) \<subseteq> set (dkeys available)"
  shows "summary_usage available tot = Inr (map (\<lambda>(k, t). (k, (t - amount available k, t))) tot)"
  using assms
proof (induction tot)
  case (Cons p tot)
  then obtain v where "map_of available (fst p) = Some v"
    by (auto simp: map_of_eq_None_iff [symmetric] dest: weak_map_of_SomeI)
  moreover have "summary_usage available tot = Inr (map (\<lambda>(k, t). (k, (t - amount available k, t))) tot)"
    using Cons by simp
  ultimately show ?case
    by (cases p) (simp add: summary_usage_def dindex_def amount_def dget_or_def
        MEMORY_RESOURCE_UNIT_BYTES_def Let_def)
qed (simp add: summary_usage_def)

lemma covers_sum_keys:
  assumes "lm_ok lm"
  shows "set (dkeys (sum_resources (dvalues (static_resources_by_ip lm))))
    \<subseteq> set (dkeys (sum_resources (dvalues (dynamic_resources_by_ip lm))))"
proof
  fix k assume "k \<in> set (dkeys (sum_resources (dvalues (static_resources_by_ip lm))))"
  then obtain p where p: "p \<in> set (static_resources_by_ip lm)" "k \<in> set (dkeys (snd p))"
    unfolding sum_resources_keys by auto
  have "covers (dynamic_resources_by_ip lm) p" using assms p(1) by (simp add: lm_ok_def)
  then obtain d where d: "map_of (dynamic_resources_by_ip lm) (fst p) = Some d" "k \<in> set (dkeys d)"
    using p(2) unfolding covers_def by blast
  then have "d \<in> set (dvalues (dynamic_resources_by_ip lm))" by (force dest: map_of_SomeD)
  then show "k \<in> set (dkeys (sum_resources (dvalues (dynamic_resources_by_ip lm))))"
    using d(2) unfolding sum_resources_keys by blast
qed

lemma lm_ok_values_wf:
  assumes "lm_ok lm"
  shows "\<forall>d \<in> set (dvalues (static_resources_by_ip lm)). wf_dict d"
    and "\<forall>d \<in> set (dvalues (dynamic_resources_by_ip lm)). wf_dict d"
  using assms by (auto simp: lm_ok_def covers_def)

lemma usage_resource_fold:
  assumes "set (dkeys r) \<subseteq> set (dkeys avail)" and "wf_dict r"
  shows "\<exists>u' t'. foldE (usage_resource avail) (u, t) r = Inr (u', t')
     \<and> (\<forall>k. amount t' k = amount t k + amount r k)
     \<and> (\<forall>k. amount u' k = amount u k + (if k \<in> set (dkeys r) then amount r k - amount avail k else 0))"
  using assms
proof (induction r arbitrary: u t)
  case (Cons p r)
  obtain k v where p: "p = (k, v)" by (cases p)
  obtain a where a: "map_of avail k = Some a"
    using Cons.prems(1) p by (auto simp: map_of_eq_None_iff [symmetric] dest: weak_map_of_SomeI)
  let ?u = "dset u k (dget_or u k 0 + (v - a))" and ?t = "dset t k (dget_or t k 0 + v)"
  have st: "usage_resource avail (u, t) p = Inr (?u, ?t)"
    by (simp add: usage_resource_def p dindex_def a Let_def)
  have kr: "k \<notin> set (dkeys r)" "wf_dict r" "set (dkeys r) \<subseteq> set (dkeys avail)"
    using Cons.prems p by auto
  obtain u' t' where IH: "foldE (usage_resource avail) (?u, ?t) r = Inr (u', t')"
    "\<forall>j. amount t' j = amount ?t j + amount r j"
    "\<forall>j. amount u' j = amount ?u j + (if j \<in> set (dkeys r) then amount r j - amount avail j else 0)"
    using Cons.IH [OF kr(3,2)] by blast
  have "amount avail k = a" "amount r k = 0"
    using a kr(1) by (simp_all add: amount_def dget_or_def amount_notin [unfolded amount_def dget_or_def])
  then show ?case
    using IH st kr(1) by (auto simp: p amount_Cons amount_def [of u k] amount_def [of t k])
qed simp

lemma usage_nodes_fold:
  assumes "\<forall>p \<in> set ps. covers (dynamic_resources_by_ip lm) p"
    and "fst ` set ps \<subseteq> set (dkeys (resource_load_by_ip lm))"
  shows "\<exists>u' t'. foldE (usage_node lm) (u, t) ps = Inr (u', t')
     \<and> (\<forall>k. amount t' k = amount t k + (\<Sum>r\<leftarrow>map snd ps. amount r k))"
  using assms
proof (induction ps arbitrary: u t)
  case (Cons p ps)
  obtain d where d: "map_of (dynamic_resources_by_ip lm) (fst p) = Some d"
    "set (dkeys (snd p)) \<subseteq> set (dkeys d)" "wf_dict (snd p)"
    using Cons.prems(1) by (auto simp: covers_def)
  obtain l where l: "map_of (resource_load_by_ip lm) (fst p) = Some l"
    using Cons.prems(2) by (auto dest: weak_map_of_SomeI)
  obtain u1 t1 where 1: "foldE (usage_resource d) (u, t) (snd p) = Inr (u1, t1)"
    "\<forall>k. amount t1 k = amount t k + amount (snd p) k"
    using usage_resource_fold [OF d(2,3), of u t] by blast
  have "\<exists>u' t'. foldE (usage_node lm) (u1, t1) ps = Inr (u', t')
      \<and> (\<forall>k. amount t' k = amount t1 k + (\<Sum>r\<leftarrow>map snd ps. amount r k))"
    by (rule Cons.IH) (use Cons.prems in auto)
  moreover have "usage_node lm (u, t) p = Inr (u1, t1)"
    using d(1) l 1(1) by (cases p) (simp add: usage_node_def dindex_def)
  ultimately show ?case using 1(2) by (auto simp: algebra_simps)
qed simp

lemma lm_ok_usage:
  assumes "lm_ok lm"
  shows "\<exists>u t. get_resource_usage lm = Inr (u, t)
     \<and> (\<forall>k. amount t k = (\<Sum>r\<leftarrow>get_node_resources lm. amount r k))"
proof -
  have "\<forall>p \<in> set (static_resources_by_ip lm). covers (dynamic_resources_by_ip lm) p"
    "fst ` set (static_resources_by_ip lm) \<subseteq> set (dkeys (resource_load_by_ip lm))"
    using assms by (simp_all add: lm_ok_def)
  from usage_nodes_fold [OF this, of "[]" "[]"] show ?thesis
    by (simp add: get_resource_usage_def get_node_resources_def)
qed

lemma lm_ok_summary:
  assumes ok: "lm_ok lm"
  shows "\<exists>s. lm_summary lm = Inr s
     \<and> (\<forall>k \<in> (\<Union>r \<in> set (get_node_resources lm). set (dkeys r)). map_of (lms_usage s) k =
          Some ((\<Sum>r\<leftarrow>get_node_resources lm. amount r k)
                - (\<Sum>r\<leftarrow>dvalues (get_resource_utilization lm). amount r k),
                (\<Sum>r\<leftarrow>get_node_resources lm. amount r k)))"
proof -
  let ?st = "dvalues (static_resources_by_ip lm)" and ?dy = "dvalues (dynamic_resources_by_ip lm)"
  note wf = lm_ok_values_wf [OF ok]
  have u: "summary_usage (sum_resources ?dy) (sum_resources ?st)
      = Inr (map (\<lambda>(k, t). (k, (t - amount (sum_resources ?dy) k, t))) (sum_resources ?st))"
    by (rule summary_usage_eq [OF covers_sum_keys [OF ok]])
  have "map_of (map (\<lambda>(k, t). (k, (t - amount (sum_resources ?dy) k, t))) (sum_resources ?st)) k =
      Some ((\<Sum>r\<leftarrow>?st. amount r k) - (\<Sum>r\<leftarrow>?dy. amount r k), (\<Sum>r\<leftarrow>?st. amount r k))"
    if "k \<in> (\<Union>r \<in> set ?st. set (dkeys r))" for k
  proof -
    have "k \<in> set (dkeys (sum_resources ?st))" using that unfolding sum_resources_keys .
    then obtain v where v: "map_of (sum_resources ?st) k = Some v" by (auto dest: weak_map_of_SomeI)
    then have "v = amount (sum_resources ?st) k" by (simp add: amount_def dget_or_def)
    moreover have "map_of (map (\<lambda>(k, t). (k, g k t)) m) k = map_option (g k) (map_of m k)"
      for g :: "string \<Rightarrow> rat \<Rightarrow> rat \<times> rat" and m by (induction m) auto
    ultimately show ?thesis using v by (simp add: sum_resources_amount wf)
  qed
  note at = this
  obtain s where s: "lm_summary lm = Inr s" "lms_usage s
      = map (\<lambda>(k, t). (k, (t - amount (sum_resources ?dy) k, t))) (sum_resources ?st)"
    using u by (auto simp: lm_summary_def)
  show ?thesis
    unfolding get_node_resources_def get_resource_utilization_def
    by (rule exI [of _ s], intro conjI ballI s(1)) (unfold s(2), rule at)
qed

section \<open>Properties\<close>

definition ex_heartbeat :: heartbeat where
  "ex_heartbeat = \<lparr>hb_ip = ''10.0.0.2'', hb_raylet_id = ''r2'',
     hb_static_resources = [(''CPU'', 4), (''GPU'', 1)], hb_dynamic_resources = [(''CPU'', 3)],
     hb_resource_load = [], hb_waiting_bundles = [[(''CPU'', 2)]], hb_infeasible_bundles = [],
     hb_pending_placement_groups = [], hb_cluster_full = False\<rparr>"

lemma ex_heartbeat_reached:
  "reaches lm_step (init_load_metrics ''10.0.0.1'') (lm_update 7 ex_heartbeat (init_load_metrics ''10.0.0.1''))"
proof (rule reaches_step)
  show "lm_step (init_load_metrics ''10.0.0.1'') (lm_update 7 ex_heartbeat (init_load_metrics ''10.0.0.1''))"
    by (rule lm_step_update) (simp add: valid_heartbeat_def ex_heartbeat_def)
qed (rule reaches_refl)

text \<open>
  After any sequence of heartbeats, activations, prunings and requests, the summary and the
  usage report return: no lookup in them raises KeyError. The usage of a resource is its total over
  all nodes less what the nodes report as available.
\<close>

theorem load_metrics_reports_return:
  assumes "reaches lm_step (init_load_metrics ip) lm"
  shows "(\<exists>s. lm_summary lm = Inr s
       \<and> (\<forall>k \<in> (\<Union>r \<in> set (get_node_resources lm). set (dkeys r)). map_of (lms_usage s) k =
            Some ((\<Sum>r\<leftarrow>get_node_resources lm. amount r k)
                  - (\<Sum>r\<leftarrow>dvalues (get_resource_utilization lm). amount r k),
                  (\<Sum>r\<leftarrow>get_node_resources lm. amount r k))))
    \<and> (\<exists>u t. get_resource_usage lm = Inr (u, t)
       \<and> (\<forall>k. amount t k = (\<Sum>r\<leftarrow>get_node_resources lm. amount r k)))"
proof -
  have "lm_ok lm" by (rule lm.reaches_invar [OF assms]) blast
  then show ?thesis using lm_ok_summary lm_ok_usage by blast
qed

theorem load_metrics_reports_return_witness:
  "\<exists>u t. get_resource_usage (lm_update 7 ex_heartbeat (init_load_metrics ''10.0.0.1'')) = Inr (u, t)
     \<and> amount t ''CPU'' = 4"
proof -
  have "get_node_resources (lm_update 7 ex_heartbeat (init_load_metrics ''10.0.0.1''))
      = [[(''CPU'', 4), (''GPU'', 1)]]" by code_simp
  with load_metrics_reports_return [OF ex_heartbeat_reached] show ?thesis
    by (auto simp: amount_Cons)
qed

text \<open>
  Pruning never trips its assertion, forgets exactly the nodes that are neither listed nor
  the local one, and keeps the data of the others.
\<close>

theorem prune_exact:
  "\<exists>lm'. prune_active_ips ips lm = Inr lm'
     \<and> (\<forall>ip. is_active ip lm' \<longleftrightarrow> is_active ip lm \<and> (ip = local_ip lm \<or> ip \<in> set ips))
     \<and> (\<forall>ip. map_of (get_static_node_resources_by_ip lm') ip
          = (if ip = local_ip lm \<or> ip \<in> set ips
             then map_of (get_static_node_resources_by_ip lm) ip else None))"
  by (auto simp: prune_active_ips_eq Let_def is_active_def dmem_def get_static_node_resources_by_ip_def
      map_of_filter_keys [of "\<lambda>k. k = local_ip lm \<or> k \<in> set ips"])

text \<open>
  \<open>freq_of_dicts\<close> lists every distinct dictionary once (as its set of items) with its
  number of occurrences, and the counts add up to the number of dictionaries.
\<close>

theorem freq_of_dicts_counts:
  "(\<forall>d n. (d, n) \<in> set (freq_of_dicts frozen_items (\<lambda>d. d) dicts)
       \<longleftrightarrow> d \<in> frozen_items ` set dicts \<and> n = length (filter (\<lambda>e. frozen_items e = d) dicts))
   \<and> distinct (map fst (freq_of_dicts frozen_items (\<lambda>d. d) dicts))
   \<and> sum_list (map snd (freq_of_dicts frozen_items (\<lambda>d. d) dicts)) = length dicts"
proof -
  let ?c = "counter (map frozen_items dicts)"
  have eq: "freq_of_dicts frozen_items (\<lambda>d. d) dicts = ?c"
    by (simp add: freq_of_dicts_def case_prod_unfold)
  note sp = counter_spec [of "map frozen_items dicts"]
  have cl: "count_list (map frozen_items dicts) d = length (filter (\<lambda>e. frozen_items e = d) dicts)" for d
    by (induction dicts) auto
  have in_iff: "(d, n) \<in> set ?c \<longleftrightarrow> d \<in> frozen_items ` set dicts
      \<and> n = length (filter (\<lambda>e. frozen_items e = d) dicts)" for d n
  proof
    assume m: "(d, n) \<in> set ?c"
    then have "d \<in> set (dkeys ?c)" by force
    then show "d \<in> frozen_items ` set dicts \<and> n = length (filter (\<lambda>e. frozen_items e = d) dicts)"
      using sp counter_in [OF m] cl by simp
  next
    assume a: "d \<in> frozen_items ` set dicts \<and> n = length (filter (\<lambda>e. frozen_items e = d) dicts)"
    then have "d \<in> set (dkeys ?c)" using sp by simp
    then obtain n' where "(d, n') \<in> set ?c" by auto
    then show "(d, n) \<in> set ?c" using counter_in [of d n' "map frozen_items dicts"] cl a by auto
  qed
  have "dtotal ?c = (\<Sum>k\<in>set (map frozen_items dicts). count_list (map frozen_items dicts) k)"
    using sp dtotal_eq_sum [of ?c] by simp
  also have "\<dots> = length dicts" using sum_count_set [of "map frozen_items dicts" "set (map frozen_items dicts)"] by simp
  finally show ?thesis using in_iff sp by (simp add: eq dtotal_def wf_dict_def)
qed

text \<open>
  The idle clock. A heartbeat restarts the last-used time of its node exactly when the node
  is new or is not entirely free; it is entirely free when everything it reports as available is
  one of its resources and every resource is available in full.
\<close>

theorem update_idle_clock:
  assumes hb: "valid_heartbeat hb"
  shows "map_of (last_used_time_by_ip (lm_update now hb lm)) (hb_ip hb) =
    (if (\<exists>t. map_of (last_used_time_by_ip lm) (hb_ip hb) = Some t)
        \<and> set (dkeys (hb_dynamic_resources hb)) \<subseteq> set (dkeys (hb_static_resources hb))
        \<and> (\<forall>k \<in> set (dkeys (hb_static_resources hb)).
             amount (hb_dynamic_resources hb) k = amount (hb_static_resources hb) k)
     then map_of (last_used_time_by_ip lm) (hb_ip hb) else Some now)"
proof -
  let ?s = "hb_static_resources hb" and ?d = "hb_dynamic_resources hb"
  note fs = fill_dynamic_spec [of ?s ?d]
  have eq_iff: "map_of m k = map_of m' k \<longleftrightarrow> (k \<in> set (dkeys m) \<longleftrightarrow> k \<in> set (dkeys m')) \<and> amount m k = amount m' k"
    for m m' :: resource_dict and k
  proof -
    have "k \<in> set (dkeys d) \<longleftrightarrow> map_of d k \<noteq> None" for d :: resource_dict
      by (simp add: map_of_eq_None_iff)
    then show ?thesis
      by (cases "map_of m k"; cases "map_of m' k") (simp_all add: amount_def dget_or_def del: set_map)
  qed
  have "dict_eq ?s (fill_dynamic ?s ?d) \<longleftrightarrow> set (dkeys ?d) \<subseteq> set (dkeys ?s)
      \<and> (\<forall>k \<in> set (dkeys ?s). amount ?d k = amount ?s k)"
    unfolding dict_eq_def eq_iff set_append fs by (auto simp: subset_eq simp del: set_map)
  then show ?thesis by (auto simp: lm_update_def Let_def dmem_def)
qed

theorem update_idle_clock_witness:
  "map_of (last_used_time_by_ip (lm_update 9
     (ex_heartbeat\<lparr>hb_dynamic_resources := [(''GPU'', 1), (''CPU'', 4)]\<rparr>)
     (lm_update 7 ex_heartbeat (init_load_metrics ''10.0.0.1'')))) ''10.0.0.2'' = Some 7"
proof -
  let ?hb = "ex_heartbeat\<lparr>hb_dynamic_resources := [(''GPU'', 1), (''CPU'', 4)]\<rparr>"
  let ?lm = "lm_update 7 ex_heartbeat (init_load_metrics ''10.0.0.1'')"
  have "map_of (last_used_time_by_ip ?lm) ''10.0.0.2'' = Some 7" by code_simp
  moreover have "valid_heartbeat ?hb" by (simp add: valid_heartbeat_def ex_heartbeat_def)
  ultimately show ?thesis
    using update_idle_clock [of ?hb 9 ?lm] by (simp add: ex_heartbeat_def amount_Cons)
qed

end
