(* ===== verification/Segment_Tree.thy ===== *)
theory Segment_Tree
  imports Ray_Prelude
begin

text \<open>
  \<open>rllib/execution/segment_tree.py\<close>: the array-backed segment tree of the prioritized
  replay buffer, with its subclasses for sums and minima. The tree is a record whose
  \<open>operation\<close> is a function. A Python float of the minimum tree is a rational or one of the
  infinities, ordered as Python orders them.
\<close>

unbundle bit_operations_syntax

section \<open>Floats with infinities\<close>

datatype pyfloat = NegInf | Fin rat | PosInf

instantiation pyfloat :: linorder
begin

fun less_eq_pyfloat :: "pyfloat \<Rightarrow> pyfloat \<Rightarrow> bool" where
  "less_eq_pyfloat NegInf _ = True"
| "less_eq_pyfloat (Fin x) (Fin y) = (x \<le> y)"
| "less_eq_pyfloat _ PosInf = True"
| "less_eq_pyfloat _ _ = False"

definition less_pyfloat :: "pyfloat \<Rightarrow> pyfloat \<Rightarrow> bool" where
  "less_pyfloat x y \<longleftrightarrow> x \<le> y \<and> \<not> y \<le> (x :: pyfloat)"

instance
proof
  fix x y z :: pyfloat
  show "x < y \<longleftrightarrow> x \<le> y \<and> \<not> y \<le> x" by (rule less_pyfloat_def)
  show "x \<le> x" by (cases x) auto
  show "x \<le> y \<Longrightarrow> y \<le> z \<Longrightarrow> x \<le> z" by (cases x; cases y; cases z) auto
  show "x \<le> y \<Longrightarrow> y \<le> x \<Longrightarrow> x = y" by (cases x; cases y) auto
  show "x \<le> y \<or> y \<le> x" by (cases x; cases y) auto
qed

end

section \<open>Lists indexed as in Python\<close>

definition py_index :: "'a list \<Rightarrow> int \<Rightarrow> 'a result" where
  "py_index xs i =
     (let j = (if i < 0 then i + int (length xs) else i)
      in if 0 \<le> j \<and> j < int (length xs) then Inr (xs ! nat j) else Inl IndexError)"

definition py_store :: "'a list \<Rightarrow> int \<Rightarrow> 'a \<Rightarrow> 'a list result" where
  "py_store xs i x =
     (let j = (if i < 0 then i + int (length xs) else i)
      in if 0 \<le> j \<and> j < int (length xs) then Inr (xs[nat j := x]) else Inl IndexError)"

lemma py_index_in [simp]: "0 \<le> i \<Longrightarrow> i < int (length xs) \<Longrightarrow> py_index xs i = Inr (xs ! nat i)"
  by (simp add: py_index_def)

lemma py_store_in [simp]: "0 \<le> i \<Longrightarrow> i < int (length xs) \<Longrightarrow> py_store xs i x = Inr (xs[nat i := x])"
  by (simp add: py_store_def)

section \<open>The tree\<close>

record 'a segment_tree =
  st_capacity :: int
  st_neutral_element :: 'a
  st_value :: "'a list"
  st_operation :: "'a \<Rightarrow> 'a \<Rightarrow> 'a"

text \<open>The neutral element is given by the subclass; see \<open>init_sum_tree\<close> and \<open>init_min_tree\<close>.\<close>

definition init_segment_tree :: "int \<Rightarrow> ('a \<Rightarrow> 'a \<Rightarrow> 'a) \<Rightarrow> 'a \<Rightarrow> 'a segment_tree result" where
  "init_segment_tree capacity operation neutral_element =
     bindE (assertE (capacity > 0 \<and> capacity AND (capacity - 1) = 0)) (\<lambda>_.
       Inr \<lparr>st_capacity = capacity, st_neutral_element = neutral_element,
            st_value = replicate (nat (2 * capacity)) neutral_element, st_operation = operation\<rparr>)"

function reduce_loop ::
  "('a \<Rightarrow> 'a \<Rightarrow> 'a) \<Rightarrow> 'a list \<Rightarrow> int \<Rightarrow> int \<Rightarrow> 'a \<Rightarrow> 'a result" where
  "reduce_loop operation val start stop res =
     (if start < stop then
        bindE (if odd start then
                 bindE (py_index val start) (\<lambda>x. Inr (operation res x))
               else Inr res) (\<lambda>res1.
        bindE (if odd stop then
                 bindE (py_index val (stop - 1)) (\<lambda>x. Inr (operation res1 x))
               else Inr res1) (\<lambda>res2.
          reduce_loop operation val
            ((if odd start then start + 1 else start) div 2)
            ((if odd stop then stop - 1 else stop) div 2) res2))
      else Inr res)"
  by pat_completeness auto
termination
  by (relation "measure (\<lambda>(_, _, start, stop, _). nat (stop - start))") (auto elim!: oddE evenE)

declare reduce_loop.simps [simp del]

definition reduce :: "'a segment_tree \<Rightarrow> int \<Rightarrow> int option \<Rightarrow> 'a result" where
  "reduce t start stop =
     (let e = (case stop of None \<Rightarrow> st_capacity t
                 | Some e \<Rightarrow> if e < 0 then e + st_capacity t else e)
      in reduce_loop (st_operation t) (st_value t) (start + st_capacity t) (e + st_capacity t)
           (st_neutral_element t))"

function setitem_loop :: "('a \<Rightarrow> 'a \<Rightarrow> 'a) \<Rightarrow> 'a list \<Rightarrow> int \<Rightarrow> 'a list result" where
  "setitem_loop operation val idx =
     (if idx \<ge> 1 then
        bindE (py_index val (2 * idx)) (\<lambda>l.
        bindE (py_index val (2 * idx + 1)) (\<lambda>r.
        bindE (py_store val idx (operation l r)) (\<lambda>val'.
          setitem_loop operation val' (idx div 2))))
      else Inr val)"
  by pat_completeness auto
termination
  by (relation "measure (\<lambda>(_, _, idx). nat idx)") auto

declare setitem_loop.simps [simp del]

definition setitem :: "'a segment_tree \<Rightarrow> int \<Rightarrow> 'a \<Rightarrow> 'a segment_tree result" where
  "setitem t idx v =
     bindE (assertE (0 \<le> idx \<and> idx < st_capacity t)) (\<lambda>_.
     bindE (py_store (st_value t) (idx + st_capacity t) v) (\<lambda>val.
     bindE (setitem_loop (st_operation t) val ((idx + st_capacity t) div 2)) (\<lambda>val'.
       Inr (t\<lparr>st_value := val'\<rparr>))))"

definition getitem :: "'a segment_tree \<Rightarrow> int \<Rightarrow> 'a result" where
  "getitem t idx =
     bindE (assertE (0 \<le> idx \<and> idx < st_capacity t)) (\<lambda>_. py_index (st_value t) (idx + st_capacity t))"

definition get_state :: "'a segment_tree \<Rightarrow> 'a list" where
  "get_state t = st_value t"

definition set_state :: "'a segment_tree \<Rightarrow> 'a list \<Rightarrow> 'a segment_tree result" where
  "set_state t state =
     bindE (assertE (int (length state) = st_capacity t * 2)) (\<lambda>_. Inr (t\<lparr>st_value := state\<rparr>))"

section \<open>Sum and minimum trees\<close>

definition init_sum_tree :: "int \<Rightarrow> rat segment_tree result" where
  "init_sum_tree capacity = init_segment_tree capacity (+) 0"

definition tree_sum :: "rat segment_tree \<Rightarrow> int \<Rightarrow> int option \<Rightarrow> rat result" where
  "tree_sum t start stop = reduce t start stop"

text \<open>
  The index starts at 1, where \<open>idx \<ge> 1\<close> holds and stays true; the conjunct makes the
  recursion total on the other integers.
\<close>

function find_prefixsum_loop :: "int \<Rightarrow> rat list \<Rightarrow> int \<Rightarrow> rat \<Rightarrow> int result" where
  "find_prefixsum_loop capacity val idx prefixsum =
     (if idx \<ge> 1 \<and> idx < capacity then
        bindE (py_index val (2 * idx)) (\<lambda>l.
          if l > prefixsum then find_prefixsum_loop capacity val (2 * idx) prefixsum
          else find_prefixsum_loop capacity val (2 * idx + 1) (prefixsum - l))
      else Inr (idx - capacity))"
  by pat_completeness auto
termination
  by (relation "measure (\<lambda>(capacity, _, idx, _). nat (capacity - idx))") auto

declare find_prefixsum_loop.simps [simp del]

definition find_prefixsum_idx :: "rat segment_tree \<Rightarrow> rat \<Rightarrow> int result" where
  "find_prefixsum_idx t prefixsum =
     bindE (tree_sum t 0 None) (\<lambda>s.
     bindE (assertE (0 \<le> prefixsum \<and> prefixsum \<le> s + 1 / 100000)) (\<lambda>_.
       find_prefixsum_loop (st_capacity t) (st_value t) 1 prefixsum))"

definition init_min_tree :: "int \<Rightarrow> pyfloat segment_tree result" where
  "init_min_tree capacity = init_segment_tree capacity min PosInf"

definition tree_min :: "pyfloat segment_tree \<Rightarrow> int \<Rightarrow> int option \<Rightarrow> pyfloat result" where
  "tree_min t start stop = reduce t start stop"

section \<open>Aggregates of segments\<close>

definition agg :: "('a \<Rightarrow> 'a \<Rightarrow> 'a) \<Rightarrow> 'a \<Rightarrow> 'a list \<Rightarrow> 'a" where
  "agg f e xs = foldr f xs e"

definition segment :: "'a list \<Rightarrow> nat \<Rightarrow> nat \<Rightarrow> 'a list" where
  "segment v l r = map (\<lambda>i. v ! i) [l..<r]"

lemma segment_split: "l \<le> m \<Longrightarrow> m \<le> r \<Longrightarrow> segment v l r = segment v l m @ segment v m r"
  by (metis segment_def map_append upt_add_eq_append le_add_diff_inverse)

lemma segment_one [simp]: "segment v l (Suc l) = [v ! l]"
  by (simp add: segment_def)

lemma segment_empty [simp]: "r \<le> l \<Longrightarrow> segment v l r = []"
  by (simp add: segment_def)

lemma segment_drop_take:
  assumes "c + b \<le> length v"
  shows "segment v (c + a) (c + b) = take (b - a) (drop a (drop c v))"
  using assms by (intro nth_equalityI) (auto simp: segment_def ac_simps)

text \<open>Every inner node holds the combination of its two children.\<close>

definition tree_wf :: "('a \<Rightarrow> 'a \<Rightarrow> 'a) \<Rightarrow> 'a list \<Rightarrow> nat \<Rightarrow> bool" where
  "tree_wf f v c \<longleftrightarrow> length v = 2 * c \<and>
     (\<forall>i. 1 \<le> i \<and> i < c \<longrightarrow> v ! i = f (v ! (2 * i)) (v ! (2 * i + 1)))"

lemma ancestors_step: "(\<forall>k. i \<noteq> idx div 2 ^ k) \<longleftrightarrow> i \<noteq> idx \<and> (\<forall>k. i \<noteq> (idx div 2) div 2 ^ k)"
  for i idx :: nat
proof -
  have "(\<forall>k. i \<noteq> idx div 2 ^ k) \<longleftrightarrow> i \<noteq> idx div 2 ^ 0 \<and> (\<forall>k. i \<noteq> idx div 2 ^ Suc k)"
    by (metis not0_implies_Suc)
  then show ?thesis by (simp add: div_mult2_eq)
qed

lemma setitem_loop_correct:
  assumes "length v = 2 * c" and "idx < c"
    and "\<And>i. 1 \<le> i \<Longrightarrow> i < c \<Longrightarrow> \<forall>k. i \<noteq> idx div 2 ^ k \<Longrightarrow> v ! i = f (v ! (2 * i)) (v ! (2 * i + 1))"
  shows "\<exists>v'. setitem_loop f v (int idx) = Inr v' \<and> tree_wf f v' c \<and> (\<forall>j. c \<le> j \<longrightarrow> v' ! j = v ! j)"
  using assms
proof (induction idx arbitrary: v rule: less_induct)
  case (less idx)
  show ?case
  proof (cases "idx = 0")
    case True
    then show ?thesis using less.prems by (auto simp: setitem_loop.simps [of f v] tree_wf_def)
  next
    case False
    define w where "w = v[idx := f (v ! (2 * idx)) (v ! (2 * idx + 1))]"
    have st: "setitem_loop f v (int idx) = setitem_loop f w (int (idx div 2))"
    proof -
      have "nat (2 * int idx) = 2 * idx" "nat (2 * int idx + 1) = 2 * idx + 1" by auto
      then show ?thesis using False less.prems(1,2)
        by (simp add: setitem_loop.simps [of f v] w_def zdiv_int)
    qed
    have "w ! i = f (w ! (2 * i)) (w ! (2 * i + 1))"
      if i: "1 \<le> i" "i < c" "\<forall>k. i \<noteq> (idx div 2) div 2 ^ k" for i
    proof (cases "i = idx")
      case True
      then show ?thesis using i less.prems(1) False by (simp add: w_def)
    next
      case ne: False
      have "i \<noteq> idx div 2" using i(3) spec [OF i(3), of 0] by simp
      then have "2 * i \<noteq> idx" "2 * i + 1 \<noteq> idx" by auto
      moreover have "v ! i = f (v ! (2 * i)) (v ! (2 * i + 1))"
        using less.prems(3) i ne ancestors_step by blast
      ultimately show ?thesis using ne by (simp add: w_def)
    qed
    then have "\<exists>v'. setitem_loop f w (int (idx div 2)) = Inr v' \<and> tree_wf f v' c
        \<and> (\<forall>j. c \<le> j \<longrightarrow> v' ! j = w ! j)"
      using less.prems(1,2) False by (intro less.IH) (auto simp: w_def)
    moreover have "w ! j = v ! j" if "c \<le> j" for j using that less.prems(2) by (simp add: w_def)
    ultimately show ?thesis using st by auto
  qed
qed

lemma set_leaf_correct:
  assumes wf: "tree_wf f v c" and i: "i < c"
  shows "\<exists>v'. setitem_loop f (v[c + i := x]) (int ((c + i) div 2)) = Inr v' \<and> tree_wf f v' c
     \<and> drop c v' = (drop c v)[i := x]"
proof -
  let ?v = "v[c + i := x]"
  have "\<exists>v'. setitem_loop f ?v (int ((c + i) div 2)) = Inr v' \<and> tree_wf f v' c
      \<and> (\<forall>j. c \<le> j \<longrightarrow> v' ! j = ?v ! j)"
  proof (rule setitem_loop_correct)
    fix j assume j: "1 \<le> j" "j < c" "\<forall>k. j \<noteq> (c + i) div 2 div 2 ^ k"
    have "j \<noteq> (c + i) div 2" using spec [OF j(3), of 0] by simp
    then have "2 * j \<noteq> c + i" "2 * j + 1 \<noteq> c + i" by auto
    then show "?v ! j = f (?v ! (2 * j)) (?v ! (2 * j + 1))" using wf j by (simp add: tree_wf_def)
  qed (use wf i in \<open>auto simp: tree_wf_def\<close>)
  then obtain v' where v': "setitem_loop f ?v (int ((c + i) div 2)) = Inr v'" "tree_wf f v' c"
    "\<forall>j. c \<le> j \<longrightarrow> v' ! j = ?v ! j" by blast
  have "drop c v' = drop c ?v"
    using v'(2,3) wf by (intro nth_equalityI) (auto simp: tree_wf_def)
  then show ?thesis using v'(1,2) by (auto simp: drop_update_swap)
qed

section \<open>Reduction over a commutative monoid\<close>

text \<open>
  What the tree asks of its operation: the loop of \<open>reduce\<close> takes elements alternately from
  the left and from the right end, so associativity alone would not be enough.
\<close>

locale segment_monoid =
  fixes f :: "'a \<Rightarrow> 'a \<Rightarrow> 'a" and e :: 'a
  assumes assoc: "f (f a b) c = f a (f b c)"
    and comm: "f a b = f b a"
    and neutral: "f e a = a"
begin

lemma neutral_right: "f a e = a"
  by (metis comm neutral)

lemma agg_append: "agg f e (xs @ ys) = f (agg f e xs) (agg f e ys)"
  by (induction xs) (simp_all add: agg_def neutral assoc)

lemma agg_single: "agg f e [x] = x"
  by (simp add: agg_def neutral_right)

lemma agg_halve:
  assumes wf: "tree_wf f v c" and "1 \<le> l" and "l \<le> r" and "r \<le> c"
  shows "agg f e (segment v (2 * l) (2 * r)) = agg f e (segment v l r)"
  using assms(3,4)
proof (induction r rule: dec_induct)
  case base
  then show ?case by simp
next
  case (step r)
  have "v ! r = f (v ! (2 * r)) (v ! (2 * r + 1))" using wf step assms(2) by (simp add: tree_wf_def)
  moreover have "segment v (2 * l) (2 * Suc r) = segment v (2 * l) (2 * r) @ [v ! (2 * r)] @ [v ! (2 * r + 1)]"
    using step(1) by (simp add: segment_def)
  moreover have "segment v l (Suc r) = segment v l r @ [v ! r]"
    using step(1) by (simp add: segment_def)
  ultimately show ?case using step by (simp add: agg_append agg_single del: append.simps)
qed

lemma agg_pow:
  assumes "tree_wf f v c" and "1 \<le> l" and "l \<le> r" and "2 ^ m * r \<le> 2 * c"
  shows "agg f e (segment v (2 ^ m * l) (2 ^ m * r)) = agg f e (segment v l r)"
  using assms(4)
proof (induction m)
  case (Suc m)
  have "agg f e (segment v (2 * (2 ^ m * l)) (2 * (2 ^ m * r))) = agg f e (segment v (2 ^ m * l) (2 ^ m * r))"
    using assms Suc.prems by (intro agg_halve [OF assms(1)]) auto
  then show ?case using Suc by (simp add: mult.assoc)
qed simp

lemma reduce_loop_correct:
  assumes wf: "tree_wf f v c" and "1 \<le> s" and "t \<le> 2 * c"
  shows "reduce_loop f v (int s) (int t) res = Inr (f res (agg f e (segment v s t)))"
  using assms(2,3)
proof (induction "t - s" arbitrary: s t res rule: less_induct)
  case less
  show ?case
  proof (cases "s < t")
    case False
    then have "f res (agg f e (segment v s t)) = res" by (simp add: agg_def neutral_right)
    then show ?thesis using False by (simp add: reduce_loop.simps)
  next
    case True
    define s' where "s' = (if odd s then s + 1 else s) div 2"
    define t' where "t' = (if odd t then t - 1 else t) div 2"
    define left where "left = (if odd s then [v ! s] else [])"
    define right where "right = (if odd t then [v ! (t - 1)] else [])"
    have s2: "2 * s' = (if odd s then s + 1 else s)" and t2: "2 * t' = (if odd t then t - 1 else t)"
      by (auto simp: s'_def t'_def)
    have le: "2 * s' \<le> 2 * t'" using True unfolding s2 t2 by (auto elim!: oddE evenE)
    have bounds: "1 \<le> s'" "t' \<le> c" "t' - s' < t - s" "s' \<le> t'"
      using less.prems True s2 t2 le by (auto split: if_splits)
    have len: "length v = 2 * c" using wf by (simp add: tree_wf_def)
    have "segment v s t = left @ segment v (2 * s') (2 * t') @ right"
    proof -
      have "segment v s t = segment v s (2 * s') @ segment v (2 * s') (2 * t') @ segment v (2 * t') t"
      proof -
        have "s \<le> 2 * s'" "2 * t' \<le> t" unfolding s2 t2 by auto
        then show ?thesis
          using le segment_split [of s "2 * s'" t v] segment_split [of "2 * s'" "2 * t'" t v] by simp
      qed
      moreover have "segment v s (2 * s') = left" using s2 by (auto simp: left_def)
      moreover have "segment v (2 * t') t = right"
        using t2 segment_one [of v "t - 1"] True by (auto simp: right_def split: if_splits)
      ultimately show ?thesis by simp
    qed
    then have agg_eq: "agg f e (segment v s t) = f (agg f e left) (f (agg f e (segment v s' t')) (agg f e right))"
      using agg_halve [OF wf bounds(1,4,2)] by (simp add: agg_append)
    define res2 where "res2 = f (f res (agg f e left)) (agg f e right)"
    have "reduce_loop f v (int s) (int t) res = reduce_loop f v (int s') (int t') res2"
    proof -
      have i: "odd s \<Longrightarrow> int s div 2 + 1 = int s'" "even s \<Longrightarrow> int s div 2 = int s'"
        "odd t \<Longrightarrow> (int t - 1) div 2 = int t'" "even t \<Longrightarrow> int t div 2 = int t'"
        by (auto simp: s'_def t'_def zdiv_int elim!: oddE)
      have e: "f x (agg f e []) = x" for x by (simp add: agg_def neutral_right)
      have ts: "nat (int t - 1) = t - 1" by simp
      show ?thesis
        using True less.prems len
        by (subst reduce_loop.simps) (simp add: i ts res2_def left_def right_def agg_single e)
    qed
    also have "\<dots> = Inr (f res2 (agg f e (segment v s' t')))"
      using bounds less.prems by (intro less.hyps) auto
    also have "f res2 (agg f e (segment v s' t')) = f res (agg f e (segment v s t))"
      unfolding agg_eq res2_def by (metis assoc comm)
    finally show ?thesis .
  qed
qed

lemma reduce_correct:
  assumes wf: "tree_wf f (st_value t) c" and t: "st_capacity t = int c" "st_operation t = f"
    "st_neutral_element t = e" and "a \<le> b" "b \<le> c" "0 < c"
  shows "reduce t (int a) (Some (int b)) = Inr (agg f e (take (b - a) (drop a (drop c (st_value t)))))"
proof -
  have "reduce_loop f (st_value t) (int (c + a)) (int (c + b)) e
      = Inr (f e (agg f e (segment (st_value t) (c + a) (c + b))))"
    using assms by (intro reduce_loop_correct) auto
  moreover have "segment (st_value t) (c + a) (c + b) = take (b - a) (drop a (drop c (st_value t)))"
    using wf assms(6) by (intro segment_drop_take) (simp add: tree_wf_def)
  ultimately show ?thesis using t by (simp add: reduce_def neutral add.commute)
qed

end

interpretation sum_monoid: segment_monoid "(+)" "0 :: rat"
  by unfold_locales auto

interpretation min_monoid: segment_monoid min PosInf
proof unfold_locales
  have "PosInf \<le> a \<longleftrightarrow> a = PosInf" for a by (cases a) auto
  then show "min PosInf a = a" for a by (simp add: min_def)
qed (auto simp: min.assoc intro: min.commute)

section \<open>Powers of two\<close>

lemma and_pred_power_of_two: "n AND (n - 1) = 0 \<longleftrightarrow> (\<exists>h. n = 2 ^ h)" if "0 < n" for n :: int
  using that
proof (induction "nat n" arbitrary: n rule: less_induct)
  case less
  show ?case
  proof (cases "even n")
    case True
    then obtain m where m: "n = 2 * m" by (rule evenE)
    have m0: "0 < m" "nat m < nat n" using less.prems m by auto
    have "(2 * m - 1) div 2 = m - 1" by presburger
    then have "n AND (n - 1) = 2 * (m AND (m - 1))"
      by (subst and_int_rec) (simp add: m)
    moreover have "(\<exists>h. n = 2 ^ h) \<longleftrightarrow> (\<exists>h. m = 2 ^ h)"
    proof
      assume "\<exists>h. n = 2 ^ h"
      then obtain h where h: "n = 2 ^ h" ..
      then have "h \<noteq> 0" using True by (cases h) auto
      then show "\<exists>h. m = 2 ^ h" using h m by (cases h) auto
    next
      assume "\<exists>h. m = 2 ^ h"
      then show "\<exists>h. n = 2 ^ h" using m by (metis power_Suc)
    qed
    ultimately show ?thesis using less.hyps [OF m0(2,1)] by simp
  next
    case False
    then obtain m where m: "n = 2 * m + 1" by (rule oddE)
    have "n AND (n - 1) = 2 * m"
      by (subst and_int_rec) (simp add: m)
    moreover have "(\<exists>h. n = 2 ^ h) \<longleftrightarrow> m = 0"
    proof
      assume "\<exists>h. n = 2 ^ h"
      then obtain h where h: "n = 2 ^ h" ..
      then have "h = 0" using False by (cases h) auto
      then show "m = 0" using h m by simp
    next
      assume "m = 0"
      then show "\<exists>h. n = 2 ^ h" using m by (intro exI [of _ 0]) simp
    qed
    ultimately show ?thesis by simp
  qed
qed

section \<open>Reachable trees\<close>

text \<open>The array a tree stands for.\<close>

definition items :: "'a segment_tree \<Rightarrow> 'a list" where
  "items t = drop (nat (st_capacity t)) (st_value t)"

definition st_ok :: "('a \<Rightarrow> 'a \<Rightarrow> 'a) \<Rightarrow> 'a \<Rightarrow> 'a segment_tree \<Rightarrow> bool" where
  "st_ok f e t \<longleftrightarrow> (\<exists>h. st_capacity t = 2 ^ h) \<and> st_operation t = f \<and> st_neutral_element t = e \<and>
     tree_wf f (st_value t) (nat (st_capacity t))"

inductive tree_step :: "'a segment_tree \<Rightarrow> 'a segment_tree \<Rightarrow> bool" where
  step_setitem: "setitem t i x = Inr t' \<Longrightarrow> tree_step t t'"
| step_restore: "st_ok (st_operation t) (st_neutral_element t) u \<Longrightarrow> st_capacity u = st_capacity t
    \<Longrightarrow> set_state t (get_state u) = Inr t' \<Longrightarrow> tree_step t t'"

lemma st_okD:
  assumes "st_ok f e t"
  shows "0 < st_capacity t" and "length (items t) = nat (st_capacity t)"
    and "tree_wf f (st_value t) (nat (st_capacity t))"
    and "length (st_value t) = 2 * nat (st_capacity t)"
  using assms by (auto simp: st_ok_def items_def tree_wf_def)

lemma setitem_correct:
  assumes ok: "st_ok f e t" and i: "0 \<le> i" "i < st_capacity t"
  shows "\<exists>t'. setitem t i x = Inr t' \<and> st_ok f e t' \<and> st_capacity t' = st_capacity t
     \<and> items t' = (items t)[nat i := x]"
proof -
  let ?c = "nat (st_capacity t)"
  note d = st_okD [OF ok]
  obtain v' where v': "setitem_loop f ((st_value t)[?c + nat i := x]) (int ((?c + nat i) div 2)) = Inr v'"
    "tree_wf f v' ?c" "drop ?c v' = (drop ?c (st_value t))[nat i := x]"
    using set_leaf_correct [OF d(3), of "nat i" x] i by auto
  have n: "nat (i + st_capacity t) = ?c + nat i" "int ((?c + nat i) div 2) = (i + st_capacity t) div 2"
    using i by (auto simp: nat_add_distrib zdiv_int)
  have "setitem t i x = Inr (t\<lparr>st_value := v'\<rparr>)"
    using i d(4) v'(1) ok by (simp add: setitem_def assertE_def n st_ok_def)
  then show ?thesis using v' ok by (simp add: st_ok_def items_def)
qed

lemma setitem_out_of_range: "\<not> (0 \<le> i \<and> i < st_capacity t) \<Longrightarrow> setitem t i x = Inl AssertionError"
  by (auto simp: setitem_def assertE_def)

lemma getitem_correct:
  assumes "st_ok f e t"
  shows "getitem t i = (if 0 \<le> i \<and> i < st_capacity t then Inr (items t ! nat i) else Inl AssertionError)"
  using st_okD [OF assms] by (auto simp: getitem_def assertE_def items_def nat_add_distrib add.commute)

lemma tree_step_ok:
  assumes "st_ok f e t" and "tree_step t t'"
  shows "st_ok f e t'"
  using assms(2,1)
proof (induction rule: tree_step.induct)
  case (step_setitem t i x t')
  then show ?case
    using setitem_correct [of f e t i x] setitem_out_of_range [of i t x] by fastforce
next
  case (step_restore t u t')
  then show ?case
    by (auto simp: set_state_def get_state_def result_simps st_ok_def assertE_def split: if_splits)
qed

context segment_monoid
begin

lemma init_ok:
  assumes "init_segment_tree cap f e = Inr t"
  shows "st_ok f e t"
proof -
  have cap: "0 < cap" "\<exists>h. cap = 2 ^ h" and t: "t = \<lparr>st_capacity = cap, st_neutral_element = e,
      st_value = replicate (nat (2 * cap)) e, st_operation = f\<rparr>"
    using assms and_pred_power_of_two [of cap]
    by (auto simp: init_segment_tree_def assertE_def result_simps split: if_splits)
  have "tree_wf f (replicate (nat (2 * cap)) e) (nat cap)"
    using cap(1) by (auto simp: tree_wf_def neutral nat_mult_distrib)
  then show ?thesis using cap t by (simp add: st_ok_def)
qed

lemma reduce_items:
  assumes ok: "st_ok f e t" and "0 \<le> a" "a \<le> b" "b \<le> st_capacity t"
  shows "reduce t a (Some b) = Inr (agg f e (take (nat (b - a)) (drop (nat a) (items t))))"
  using reduce_correct [OF st_okD(3) [OF ok], of "nat a" "nat b"] assms st_okD(1) [OF ok]
  by (simp add: st_ok_def items_def nat_diff_distrib)

end

interpretation sum_tree: invariant_system "\<lambda>t. \<exists>c. init_sum_tree c = Inr t" tree_step "st_ok (+) 0"
  by unfold_locales (auto simp: init_sum_tree_def intro: sum_monoid.init_ok tree_step_ok)

interpretation min_tree: invariant_system "\<lambda>t. \<exists>c. init_min_tree c = Inr t" tree_step "st_ok min PosInf"
  by unfold_locales (auto simp: init_min_tree_def intro: min_monoid.init_ok tree_step_ok)

lemma agg_sum: "agg (+) 0 xs = sum_list xs" for xs :: "rat list"
  by (simp add: agg_def sum_list.eq_foldr)

lemma agg_min: "xs \<noteq> [] \<Longrightarrow> agg min PosInf xs = Min (set xs)"
proof (induction xs)
  case (Cons x xs)
  show ?case
  proof (cases "xs = []")
    case True
    then show ?thesis by (simp add: min_monoid.agg_single)
  next
    case False
    then show ?thesis using Cons by (simp add: agg_def)
  qed
qed simp

section \<open>Sampling\<close>

lemma node_sum:
  fixes v :: "rat list"
  assumes wf: "tree_wf (+) v (2 ^ h)" and "d \<le> h" and "j < 2 ^ d"
  shows "v ! (2 ^ d + j) = sum_list (segment v (2 ^ h + j * 2 ^ (h - d)) (2 ^ h + Suc j * 2 ^ (h - d)))"
proof -
  have pow: "2 ^ (h - d) * 2 ^ d = (2 :: nat) ^ h" using assms(2) by (simp flip: power_add)
  have "2 ^ (h - d) * Suc (2 ^ d + j) \<le> 2 ^ (h - d) * (2 * 2 ^ d)"
    using assms(3) by (intro mult_le_mono2) simp
  then have "2 ^ (h - d) * Suc (2 ^ d + j) \<le> 2 * (2 :: nat) ^ h" using pow by simp
  then have "agg (+) 0 (segment v (2 ^ (h - d) * (2 ^ d + j)) (2 ^ (h - d) * Suc (2 ^ d + j)))
      = agg (+) 0 (segment v (2 ^ d + j) (Suc (2 ^ d + j)))"
    by (intro sum_monoid.agg_pow [OF wf]) (auto simp: Suc_le_eq)
  moreover have "2 ^ (h - d) * (2 ^ d + j) = 2 ^ h + j * 2 ^ (h - d)"
    "2 ^ (h - d) * Suc (2 ^ d + j) = 2 ^ h + Suc j * 2 ^ (h - d)"
    using pow by (simp_all add: algebra_simps)
  ultimately show ?thesis by (simp add: agg_sum ac_simps)
qed

text \<open>
  The descent keeps: the remaining \<open>p\<close> is the target less the leaves before the current
  subtree, and is below the subtree's sum unless the subtree is the rightmost one.
\<close>

lemma find_prefixsum_loop_correct:
  fixes v :: "rat list"
  assumes wf: "tree_wf (+) v (2 ^ h)" and "d \<le> h" and "j < 2 ^ d" and "0 \<le> p"
    and "p < v ! (2 ^ d + j) \<or> Suc j = 2 ^ d"
  shows "\<exists>i. find_prefixsum_loop (2 ^ h) v (2 ^ d + int j) p = Inr (int i) \<and> i < 2 ^ h
     \<and> j * 2 ^ (h - d) \<le> i
     \<and> sum_list (segment v (2 ^ h + j * 2 ^ (h - d)) (2 ^ h + i)) \<le> p
     \<and> (p < sum_list (segment v (2 ^ h + j * 2 ^ (h - d)) (2 ^ h + Suc i)) \<or> Suc i = 2 ^ h)"
  using assms(2-)
proof (induction "h - d" arbitrary: d j p)
  case 0
  then have d: "d = h" by simp
  have "find_prefixsum_loop (2 ^ h) v (2 ^ d + int j) p = Inr (int j)"
    using d by (simp add: find_prefixsum_loop.simps)
  then show ?case using 0 d by (intro exI [of _ j]) auto
next
  case (Suc m)
  let ?L = "v ! (2 * (2 ^ d + j))"
  have dh: "d < h" "m = h - Suc d" "Suc d \<le> h" using Suc.hyps(2) by auto
  have le: "2 ^ d + j < 2 ^ h"
  proof -
    have "2 ^ d + j < (2 :: nat) ^ Suc d" using Suc.prems(2) by simp
    also have "\<dots> \<le> 2 ^ h" using dh by (intro power_increasing) auto
    finally show ?thesis .
  qed
  have len: "length v = 2 * 2 ^ h" using wf by (simp add: tree_wf_def)
  have node: "v ! (2 ^ d + j) = ?L + v ! Suc (2 * (2 ^ d + j))"
    using wf le by (simp add: tree_wf_def Suc_le_eq)
  have ileft: "2 * (2 ^ d + j) = 2 ^ Suc d + 2 * j" and iright: "Suc (2 * (2 ^ d + j)) = 2 ^ Suc d + Suc (2 * j)"
    by simp_all
  have pw: "2 ^ (h - d) = 2 * (2 :: nat) ^ (h - Suc d)" using dh by (metis Suc_diff_Suc power_Suc)
  have idx: "2 * (2 ^ d + int j) = 2 ^ Suc d + int (2 * j)" by simp
  have unf: "find_prefixsum_loop (2 ^ h) v (2 ^ d + int j) p =
      (if ?L > p then find_prefixsum_loop (2 ^ h) v (2 ^ Suc d + int (2 * j)) p
       else find_prefixsum_loop (2 ^ h) v (2 ^ Suc d + int (Suc (2 * j))) (p - ?L))"
  proof -
    have "2 ^ d + int j = int (2 ^ d + j)" by simp
    moreover have "int (2 ^ d + j) < 2 ^ h" using le by (metis of_nat_less_iff of_nat_numeral of_nat_power)
    moreover have "1 \<le> int (2 ^ d + j)" by (simp add: add_increasing2)
    moreover have "py_index v (2 * int (2 ^ d + j)) = Inr ?L"
      using le len by (subst py_index_in) (auto simp: nat_mult_distrib nat_power_eq simp flip: of_nat_add)
    ultimately show ?thesis
      by (subst find_prefixsum_loop.simps) (simp add: algebra_simps)
  qed
  show ?case
  proof (cases "?L > p")
    case True
    have "\<exists>i. find_prefixsum_loop (2 ^ h) v (2 ^ Suc d + int (2 * j)) p = Inr (int i) \<and> i < 2 ^ h
        \<and> 2 * j * 2 ^ (h - Suc d) \<le> i
        \<and> sum_list (segment v (2 ^ h + 2 * j * 2 ^ (h - Suc d)) (2 ^ h + i)) \<le> p
        \<and> (p < sum_list (segment v (2 ^ h + 2 * j * 2 ^ (h - Suc d)) (2 ^ h + Suc i)) \<or> Suc i = 2 ^ h)"
      by (rule Suc.hyps(1) [OF dh(2,3)]) (use Suc.prems True ileft in auto)
    moreover have "2 * j * 2 ^ (h - Suc d) = j * 2 ^ (h - d)" using pw by simp
    ultimately show ?thesis using True unf by simp
  next
    case False
    let ?a = "2 ^ h + j * 2 ^ (h - d)" and ?b = "2 ^ h + Suc (2 * j) * 2 ^ (h - Suc d)"
    have L: "?L = sum_list (segment v ?a ?b)"
      using node_sum [OF wf dh(3), of "2 * j"] Suc.prems(2) pw by (simp add: ac_simps)
    have ab: "?a \<le> ?b" using pw by simp
    have "\<exists>i. find_prefixsum_loop (2 ^ h) v (2 ^ Suc d + int (Suc (2 * j))) (p - ?L) = Inr (int i) \<and> i < 2 ^ h
        \<and> Suc (2 * j) * 2 ^ (h - Suc d) \<le> i
        \<and> sum_list (segment v ?b (2 ^ h + i)) \<le> p - ?L
        \<and> (p - ?L < sum_list (segment v ?b (2 ^ h + Suc i)) \<or> Suc i = 2 ^ h)"
      by (rule Suc.hyps(1) [OF dh(2,3)]) (use Suc.prems False node iright in auto)
    then obtain i where i: "find_prefixsum_loop (2 ^ h) v (2 ^ Suc d + int (Suc (2 * j))) (p - ?L) = Inr (int i)"
      "i < 2 ^ h" "Suc (2 * j) * 2 ^ (h - Suc d) \<le> i" "sum_list (segment v ?b (2 ^ h + i)) \<le> p - ?L"
      "p - ?L < sum_list (segment v ?b (2 ^ h + Suc i)) \<or> Suc i = 2 ^ h" by blast
    have "sum_list (segment v ?a (2 ^ h + n)) = ?L + sum_list (segment v ?b (2 ^ h + n))" if "i \<le> n" for n
      using segment_split [OF ab, of "2 ^ h + n" v] i(3) that L by simp
    from this [of i] this [of "Suc i"] show ?thesis
      using i False unf ab by (intro exI [of _ i]) auto
  qed
qed

lemma sum_prefix_mono:
  fixes xs :: "rat list"
  assumes "\<forall>x \<in> set xs. 0 \<le> x" and "i \<le> j"
  shows "sum_list (take i xs) \<le> sum_list (take j xs)"
proof -
  have "take j xs = take i xs @ take (j - i) (drop i xs)" using assms(2) by (metis le_add_diff_inverse take_add)
  moreover have "0 \<le> sum_list (take (j - i) (drop i xs))"
    using assms(1) by (intro sum_list_nonneg) (auto dest: in_set_takeD in_set_dropD)
  ultimately show ?thesis by simp
qed

section \<open>Properties\<close>

lemma ex_sum_tree_reached:
  assumes "init_sum_tree 4 = Inr t0" and "setitem t0 0 1 = Inr t1" and "setitem t1 2 5 = Inr t"
  shows "reaches tree_step t0 t"
proof -
  have "reaches tree_step t0 t1" by (rule reaches_one) (rule step_setitem [OF assms(2)])
  then show ?thesis by (rule reaches_step) (rule step_setitem [OF assms(3)])
qed

lemma ex_sum_tree_run:
  obtains t0 t1 t where "init_sum_tree 4 = Inr t0" "setitem t0 0 1 = Inr t1" "setitem t1 2 5 = Inr t"
    "st_capacity t = 4" "items t = [1, 0, 5, 0]"
proof -
  obtain t0 where t0: "init_sum_tree 4 = Inr t0" "st_capacity t0 = 4" "items t0 = [0, 0, 0, 0]"
    by (simp add: init_sum_tree_def init_segment_tree_def assertE_def items_def numeral_eq_Suc)
  have ok0: "st_ok (+) 0 t0" using t0(1) by (simp add: init_sum_tree_def sum_monoid.init_ok)
  obtain t1 where t1: "setitem t0 0 1 = Inr t1" "st_ok (+) 0 t1" "st_capacity t1 = 4" "items t1 = [1, 0, 0, 0]"
    using setitem_correct [OF ok0, of 0 1] t0 by auto
  obtain t where "setitem t1 2 5 = Inr t" "st_capacity t = 4" "items t = [1, 0, 5, 0]"
    using setitem_correct [OF t1(2), of 2 5] t1 by (auto simp: numeral_2_eq_2)
  then show thesis using that t0(1) t1(1) by blast
qed

text \<open>
  C31: however a sum tree was filled, \<open>sum(start, end)\<close> is the sum of the stored items from
  \<open>start\<close> up to but excluding \<open>end\<close>.
\<close>

theorem sum_tree_range:
  assumes "init_sum_tree capacity = Inr t0" and "reaches tree_step t0 t"
    and "0 \<le> a" and "a \<le> b" and "b \<le> st_capacity t"
  shows "tree_sum t a (Some b) = Inr (sum_list (take (nat (b - a)) (drop (nat a) (items t))))"
proof -
  have "st_ok (+) 0 t" by (rule sum_tree.reaches_invar [OF assms(2)]) (use assms(1) in blast)
  then show ?thesis using sum_monoid.reduce_items assms(3-) by (simp add: tree_sum_def agg_sum)
qed

theorem sum_tree_range_witness:
  "\<exists>t0 t. init_sum_tree 4 = Inr t0 \<and> reaches tree_step t0 t \<and> tree_sum t 0 (Some 3) = Inr 6"
proof -
  obtain t0 t1 t where r: "init_sum_tree 4 = Inr t0" "setitem t0 0 1 = Inr t1" "setitem t1 2 5 = Inr t"
    "st_capacity t = 4" "items t = [1, 0, 5, 0]" by (rule ex_sum_tree_run)
  note re = ex_sum_tree_reached [OF r(1-3)]
  from sum_tree_range [OF r(1) re, of 0 3] show ?thesis
    using r re by (intro exI [of _ t0] exI [of _ t]) (simp add: numeral_3_eq_3)
qed

text \<open>The minimum tree returns the least item of a non-empty range.\<close>

theorem min_tree_range:
  assumes "init_min_tree capacity = Inr t0" and "reaches tree_step t0 t"
    and "0 \<le> a" and "a < b" and "b \<le> st_capacity t"
  shows "tree_min t a (Some b) = Inr (Min (set (take (nat (b - a)) (drop (nat a) (items t)))))"
proof -
  have ok: "st_ok min PosInf t" by (rule min_tree.reaches_invar [OF assms(2)]) (use assms(1) in blast)
  have "take (nat (b - a)) (drop (nat a) (items t)) \<noteq> []"
    using assms(3-) st_okD(2) [OF ok] by simp
  then show ?thesis
    using min_monoid.reduce_items [OF ok, of a b] assms(3-) by (simp add: tree_min_def agg_min)
qed

theorem min_tree_range_witness:
  "\<exists>t0 t. init_min_tree 2 = Inr t0 \<and> setitem t0 1 (Fin 3) = Inr t \<and> tree_min t 0 (Some 2) = Inr (Fin 3)"
proof -
  obtain t0 where t0: "init_min_tree 2 = Inr t0" "st_capacity t0 = 2" "items t0 = [PosInf, PosInf]"
    by (simp add: init_min_tree_def init_segment_tree_def assertE_def items_def numeral_eq_Suc)
  have "st_ok min PosInf t0" using t0(1) by (simp add: init_min_tree_def min_monoid.init_ok)
  then obtain t where t: "setitem t0 1 (Fin 3) = Inr t" "st_capacity t = 2" "items t = [PosInf, Fin 3]"
    using setitem_correct [of min PosInf t0 1 "Fin 3"] t0 by auto
  have "reaches tree_step t0 t" by (rule reaches_one) (rule step_setitem [OF t(1)])
  from min_tree_range [OF t0(1) this, of 0 2] show ?thesis
    using t0 t by (intro exI [of _ t0] exI [of _ t]) (simp add: numeral_2_eq_2 min_def)
qed

text \<open>
  Storing at a valid index and reading back gives the stored value, and the other items are
  unchanged; an index outside the capacity raises AssertionError and changes nothing.
\<close>

theorem setitem_getitem:
  assumes "init_sum_tree capacity = Inr t0" and "reaches tree_step t0 t"
  shows "(if 0 \<le> i \<and> i < st_capacity t
     then \<exists>t'. setitem t i x = Inr t' \<and> getitem t' i = Inr x
        \<and> (\<forall>j. j \<noteq> i \<longrightarrow> getitem t' j = getitem t j)
     else setitem t i x = Inl AssertionError)"
proof -
  have ok: "st_ok (+) 0 t" by (rule sum_tree.reaches_invar [OF assms(2)]) (use assms(1) in blast)
  show ?thesis
  proof (cases "0 \<le> i \<and> i < st_capacity t")
    case True
    then obtain t' where t': "setitem t i x = Inr t'" "st_ok (+) 0 t'" "st_capacity t' = st_capacity t"
      "items t' = (items t)[nat i := x]" using setitem_correct [OF ok] by blast
    have "getitem t' j = getitem t j" if "j \<noteq> i" for j
      using that True by (auto simp: getitem_correct [OF ok] getitem_correct [OF t'(2)] t'(3,4)
          nth_list_update eq_nat_nat_iff)
    moreover have "getitem t' i = Inr x"
      using True st_okD(2) [OF ok] by (simp add: getitem_correct [OF t'(2)] t'(3,4))
    ultimately show ?thesis using True t'(1) by auto
  qed (auto simp: setitem_out_of_range)
qed

theorem setitem_getitem_witness:
  "\<exists>t0 t'. init_sum_tree 4 = Inr t0 \<and> setitem t0 3 7 = Inr t' \<and> getitem t' 3 = Inr 7"
proof -
  obtain t0 where t0: "init_sum_tree 4 = Inr t0" "st_capacity t0 = 4"
    by (simp add: init_sum_tree_def init_segment_tree_def assertE_def)
  from setitem_getitem [OF t0(1) reaches_refl, of 3 7] show ?thesis using t0 by auto
qed

lemma tree_sum_all:
  assumes ok: "st_ok (+) 0 t"
  shows "tree_sum t 0 None = Inr (sum_list (items t))"
proof -
  have "reduce t 0 None = reduce t 0 (Some (st_capacity t))"
    using st_okD(1) [OF ok] by (simp add: reduce_def)
  then show ?thesis
    using sum_monoid.reduce_items [OF ok, of 0 "st_capacity t"] st_okD(1,2) [OF ok]
    by (simp add: tree_sum_def agg_sum)
qed

lemma find_prefixsum_items:
  assumes ok: "st_ok (+) 0 t" and p: "0 \<le> p" "p \<le> sum_list (items t) + 1 / 100000"
  shows "\<exists>i. find_prefixsum_idx t p = Inr (int i) \<and> i < length (items t)
     \<and> sum_list (take i (items t)) \<le> p
     \<and> (p < sum_list (take (Suc i) (items t)) \<or> Suc i = length (items t))"
proof -
  obtain h where h: "st_capacity t = 2 ^ h" using ok by (auto simp: st_ok_def)
  have c: "nat (st_capacity t) = 2 ^ h" using h by (simp add: nat_power_eq)
  have wf: "tree_wf (+) (st_value t) (2 ^ h)" using st_okD(3) [OF ok] c by simp
  have len: "length (items t) = 2 ^ h" using st_okD(2) [OF ok] c by simp
  have seg: "sum_list (segment (st_value t) (2 ^ h) (2 ^ h + n)) = sum_list (take n (items t))"
    if "n \<le> 2 ^ h" for n
    using segment_drop_take [of "2 ^ h" n "st_value t" 0] that wf h by (simp add: tree_wf_def items_def nat_power_eq)
  obtain i where i: "find_prefixsum_loop (2 ^ h) (st_value t) 1 p = Inr (int i)" "i < 2 ^ h"
    "sum_list (segment (st_value t) (2 ^ h) (2 ^ h + i)) \<le> p"
    "p < sum_list (segment (st_value t) (2 ^ h) (2 ^ h + Suc i)) \<or> Suc i = 2 ^ h"
    using find_prefixsum_loop_correct [OF wf, of 0 0 p] p(1) by auto
  have "find_prefixsum_idx t p = Inr (int i)"
    using i(1) p tree_sum_all [OF ok] h by (simp add: find_prefixsum_idx_def assertE_def)
  then show ?thesis using i seg [of i] seg [of "Suc i"] len by (intro exI [of _ i]) auto
qed

text \<open>
  C10: on non-negative priorities \<open>find_prefixsum_idx\<close> returns the largest index whose
  preceding items sum to at most \<open>prefixsum\<close>, for every \<open>prefixsum\<close> its assertion admits.
\<close>

theorem find_prefixsum_idx_correct:
  assumes init: "init_sum_tree capacity = Inr t0" and re: "reaches tree_step t0 t"
    and nn: "\<forall>x \<in> set (items t). 0 \<le> x" and p: "0 \<le> p" "p \<le> sum_list (items t) + 1 / 100000"
  shows "\<exists>i. find_prefixsum_idx t p = Inr (int i) \<and> i < length (items t)
     \<and> sum_list (take i (items t)) \<le> p
     \<and> (\<forall>j < length (items t). sum_list (take j (items t)) \<le> p \<longrightarrow> j \<le> i)"
proof -
  have ok: "st_ok (+) 0 t" by (rule sum_tree.reaches_invar [OF re]) (use init in blast)
  obtain i where i: "find_prefixsum_idx t p = Inr (int i)" "i < length (items t)"
    "sum_list (take i (items t)) \<le> p"
    "p < sum_list (take (Suc i) (items t)) \<or> Suc i = length (items t)"
    using find_prefixsum_items [OF ok p] by blast
  have "j \<le> i" if j: "j < length (items t)" "sum_list (take j (items t)) \<le> p" for j
  proof (rule ccontr)
    assume "\<not> j \<le> i"
    then have "Suc i \<le> j" by simp
    then have "sum_list (take (Suc i) (items t)) \<le> p"
      using sum_prefix_mono [OF nn] j(2) order_trans by blast
    then show False using i(4) \<open>Suc i \<le> j\<close> j(1) by auto
  qed
  then show ?thesis using i by blast
qed

theorem find_prefixsum_idx_correct_witness:
  "\<exists>t0 t i. init_sum_tree 4 = Inr t0 \<and> reaches tree_step t0 t \<and> find_prefixsum_idx t 3 = Inr (int i)
     \<and> sum_list (take i (items t)) \<le> 3"
proof -
  obtain t0 t1 t where r: "init_sum_tree 4 = Inr t0" "setitem t0 0 1 = Inr t1" "setitem t1 2 5 = Inr t"
    "st_capacity t = 4" "items t = [1, 0, 5, 0]" by (rule ex_sum_tree_run)
  note re = ex_sum_tree_reached [OF r(1-3)]
  from find_prefixsum_idx_correct [OF r(1) re, of 3] show ?thesis using r re by auto
qed

text \<open>
  The constructor accepts exactly the powers of two: the bit test \<open>capacity & (capacity
  - 1) == 0\<close> on a positive capacity is that condition, anything else raises AssertionError.
\<close>

theorem init_accepts_powers_of_two:
  "(if \<exists>h. capacity = 2 ^ h then \<exists>t. init_sum_tree capacity = Inr t
    else init_sum_tree capacity = Inl AssertionError)"
proof (cases "0 < capacity")
  case True
  then show ?thesis
    using and_pred_power_of_two [OF True]
    by (auto simp: init_sum_tree_def init_segment_tree_def assertE_def)
next
  case False
  then have "\<not> (\<exists>h. capacity = 2 ^ h)" by auto
  then show ?thesis using False by (simp add: init_sum_tree_def init_segment_tree_def assertE_def)
qed

end
