(* ===== verification/Replay_Buffer.thy ===== *)
theory Replay_Buffer
  imports Segment_Tree
begin

text \<open>
  \<open>rllib/execution/replay_buffer.py\<close>: the circular buffer of experiences and its prioritized
  subclass, which keeps the priorities in a sum and a minimum tree (theory \<open>Segment_Tree\<close>) and
  samples in proportion to them. The subclass is an extension of the record of the base class, so
  that the methods of the base class apply to both. The attribute \<open>_num_sampled\<close> of
  the base class is an option: no constructor sets it.

  A batch is a record of what the buffer reads of it; the concatenation of sampled batches is
  the list of them. Random numbers are arguments, and so is floating-point exponentiation
  \<open>fpow\<close>, about which \<open>pow_ok\<close> states what the theorems need. Floats are exact
  rationals.
\<close>

section \<open>Window statistics and batches\<close>

record window_stat =
  ws_items :: "rat option list"
  ws_idx :: nat
  ws_count :: nat

definition init_window_stat :: "nat \<Rightarrow> window_stat" where
  "init_window_stat n = \<lparr>ws_items = replicate n None, ws_idx = 0, ws_count = 0\<rparr>"

definition ws_push :: "rat \<Rightarrow> window_stat \<Rightarrow> window_stat" where
  "ws_push obj ws =
     ws\<lparr>ws_items := (ws_items ws)[ws_idx ws := Some obj],
        ws_idx := (ws_idx ws + 1) mod length (ws_items ws),
        ws_count := ws_count ws + 1\<rparr>"

record 'd sample_batch =
  sb_count :: int
  sb_multi_agent :: bool
  sb_zero_padded :: bool
  sb_max_seq_len :: int
  sb_size_bytes :: int
  sb_data :: 'd

text \<open>What \<open>log_once\<close> returns and the memory \<open>psutil\<close> reports, in bytes.\<close>

record replay_env =
  env_log_once :: bool
  env_total_memory :: rat

definition warn_replay_capacity :: "replay_env \<Rightarrow> 'd sample_batch \<Rightarrow> rat \<Rightarrow> unit result" where
  "warn_replay_capacity env item num_items =
     (if env_log_once env then
        let item_size = sb_size_bytes item;
            total_gb = env_total_memory env / 10 ^ 9;
            mem_size = num_items * of_int item_size / 10 ^ 9
        in if mem_size > total_gb then Inl ValueError else Inr ()
      else Inr ())"

section \<open>The circular buffer\<close>

record 'd replay_buffer =
  rb_storage :: "'d sample_batch list"
  rb_capacity :: int
  rb_next_idx :: int
  rb_hit_count :: "rat list"
  rb_eviction_started :: bool
  rb_num_timesteps_added :: int
  rb_num_timesteps_added_wrap :: int
  rb_num_timesteps_sampled :: int
  rb_evicted_hit_stats :: window_stat
  rb_est_size_bytes :: int
  rb_num_sampled :: "int option"

text \<open>The deprecated argument \<open>size\<close> overrides the capacity; \<open>np.zeros\<close> rejects a negative one.\<close>

definition init_replay_buffer :: "int \<Rightarrow> int option \<Rightarrow> 'd replay_buffer result" where
  "init_replay_buffer capacity size_arg =
     (let capacity = (case size_arg of None \<Rightarrow> capacity | Some n \<Rightarrow> n)
      in if capacity < 0 then Inl ValueError
         else Inr \<lparr>rb_storage = [], rb_capacity = capacity, rb_next_idx = 0,
                   rb_hit_count = replicate (nat capacity) 0, rb_eviction_started = False,
                   rb_num_timesteps_added = 0, rb_num_timesteps_added_wrap = 0,
                   rb_num_timesteps_sampled = 0, rb_evicted_hit_stats = init_window_stat 1000,
                   rb_est_size_bytes = 0, rb_num_sampled = None\<rparr>)"

definition rb_add ::
  "replay_env \<Rightarrow> 'd sample_batch \<Rightarrow> ('d, 'z) replay_buffer_scheme \<Rightarrow> ('d, 'z) replay_buffer_scheme result" where
  "rb_add env item b =
     bindE (assertE (sb_count item > 0)) (\<lambda>_.
     bindE (warn_replay_capacity env item (of_int (rb_capacity b) / of_int (sb_count item))) (\<lambda>_.
     let b1 = b\<lparr>rb_num_timesteps_added := rb_num_timesteps_added b + sb_count item,
                rb_num_timesteps_added_wrap := rb_num_timesteps_added_wrap b + sb_count item\<rparr> in
     bindE (if rb_next_idx b1 \<ge> int (length (rb_storage b1)) then
              Inr (b1\<lparr>rb_storage := rb_storage b1 @ [item],
                      rb_est_size_bytes := rb_est_size_bytes b1 + sb_size_bytes item\<rparr>)
            else
              bindE (py_store (rb_storage b1) (rb_next_idx b1) item) (\<lambda>storage.
              Inr (b1\<lparr>rb_storage := storage\<rparr>))) (\<lambda>b2.
     let b3 = (if rb_num_timesteps_added_wrap b2 \<ge> rb_capacity b2
               then b2\<lparr>rb_eviction_started := True, rb_num_timesteps_added_wrap := 0, rb_next_idx := 0\<rparr>
               else b2\<lparr>rb_next_idx := rb_next_idx b2 + 1\<rparr>) in
     if rb_eviction_started b3 then
       bindE (py_index (rb_hit_count b3) (rb_next_idx b3)) (\<lambda>hits.
       bindE (py_store (rb_hit_count b3) (rb_next_idx b3) 0) (\<lambda>hit_count.
       Inr (b3\<lparr>rb_evicted_hit_stats := ws_push hits (rb_evicted_hit_stats b3),
               rb_hit_count := hit_count\<rparr>)))
     else Inr b3)))"

definition encode_sample :: "('d, 'z) replay_buffer_scheme \<Rightarrow> int list \<Rightarrow> 'd sample_batch list result" where
  "encode_sample b idxes = mapE (py_index (rb_storage b)) idxes"

text \<open>\<open>draws\<close> are the integers \<open>random.randint(0, len - 1)\<close> returns, which raises on an empty range.\<close>

definition rb_sample ::
  "int list \<Rightarrow> ('d, 'z) replay_buffer_scheme
     \<Rightarrow> ('d sample_batch list \<times> ('d, 'z) replay_buffer_scheme) result" where
  "rb_sample draws b =
     bindE (if draws \<noteq> [] \<and> rb_storage b = [] then Inl ValueError else Inr draws) (\<lambda>idxes.
     case rb_num_sampled b of
       None \<Rightarrow> Inl AttributeError
     | Some n \<Rightarrow>
         let b1 = b\<lparr>rb_num_sampled := Some (n + int (length draws))\<rparr> in
         bindE (encode_sample b1 idxes) (\<lambda>out. Inr (out, b1)))"

record buffer_stats =
  added_count :: int
  added_count_wrapped :: int
  eviction_started :: bool
  sampled_count :: int
  est_size_bytes :: int
  num_entries :: int

definition rb_stats :: "('d, 'z) replay_buffer_scheme \<Rightarrow> buffer_stats" where
  "rb_stats b =
     \<lparr>added_count = rb_num_timesteps_added b,
      added_count_wrapped = rb_num_timesteps_added_wrap b,
      eviction_started = rb_eviction_started b,
      sampled_count = rb_num_timesteps_sampled b,
      est_size_bytes = rb_est_size_bytes b,
      num_entries = int (length (rb_storage b))\<rparr>"

record 'd buffer_state =
  state_storage :: "'d sample_batch list"
  state_next_idx :: int
  state_stats :: buffer_stats

definition rb_get_state :: "('d, 'z) replay_buffer_scheme \<Rightarrow> 'd buffer_state" where
  "rb_get_state b = \<lparr>state_storage = rb_storage b, state_next_idx = rb_next_idx b, state_stats = rb_stats b\<rparr>"

definition rb_set_state ::
  "('d, 'y) buffer_state_scheme \<Rightarrow> ('d, 'z) replay_buffer_scheme \<Rightarrow> ('d, 'z) replay_buffer_scheme" where
  "rb_set_state st b =
     b\<lparr>rb_storage := state_storage st, rb_next_idx := state_next_idx st,
       rb_num_timesteps_added := added_count (state_stats st),
       rb_num_timesteps_added_wrap := added_count_wrapped (state_stats st),
       rb_eviction_started := eviction_started (state_stats st),
       rb_num_timesteps_sampled := sampled_count (state_stats st),
       rb_est_size_bytes := est_size_bytes (state_stats st)\<rparr>"

section \<open>The prioritized buffer\<close>

record 'd prioritized_buffer = "'d replay_buffer" +
  pb_alpha :: rat
  pb_it_sum :: "rat segment_tree"
  pb_it_min :: "pyfloat segment_tree"
  pb_max_priority :: rat
  pb_prio_change_stats :: window_stat

text \<open>
  \<open>while it_capacity < capacity: it_capacity *= 2\<close>, started at 1; the conjunct makes the
  recursion total.
\<close>

function tree_capacity :: "int \<Rightarrow> int \<Rightarrow> int" where
  "tree_capacity capacity it_capacity =
     (if it_capacity \<ge> 1 \<and> it_capacity < capacity then tree_capacity capacity (it_capacity * 2)
      else it_capacity)"
  by pat_completeness auto
termination
  by (relation "measure (\<lambda>(capacity, it_capacity). nat (capacity - it_capacity))") auto

declare tree_capacity.simps [simp del]

definition init_prioritized_buffer :: "int \<Rightarrow> rat \<Rightarrow> int option \<Rightarrow> 'd prioritized_buffer result" where
  "init_prioritized_buffer capacity alpha size_arg =
     bindE (init_replay_buffer capacity size_arg) (\<lambda>base.
     bindE (assertE (alpha > 0)) (\<lambda>_.
     let it_capacity = tree_capacity (rb_capacity base) 1 in
     bindE (init_sum_tree it_capacity) (\<lambda>it_sum.
     bindE (init_min_tree it_capacity) (\<lambda>it_min.
     Inr (replay_buffer.extend base
       \<lparr>pb_alpha = alpha, pb_it_sum = it_sum, pb_it_min = it_min, pb_max_priority = 1,
        pb_prio_change_stats = init_window_stat 1000\<rparr>)))))"

definition pb_set_priority ::
  "(rat \<Rightarrow> rat \<Rightarrow> rat) \<Rightarrow> int \<Rightarrow> rat \<Rightarrow> 'd prioritized_buffer \<Rightarrow> 'd prioritized_buffer result" where
  "pb_set_priority fpow idx weight b =
     bindE (setitem (pb_it_sum b) idx (fpow weight (pb_alpha b))) (\<lambda>it_sum.
     bindE (setitem (pb_it_min b) idx (Fin (fpow weight (pb_alpha b)))) (\<lambda>it_min.
     Inr (b\<lparr>pb_it_sum := it_sum, pb_it_min := it_min\<rparr>)))"

definition pb_add ::
  "(rat \<Rightarrow> rat \<Rightarrow> rat) \<Rightarrow> replay_env \<Rightarrow> 'd sample_batch \<Rightarrow> rat option
     \<Rightarrow> 'd prioritized_buffer \<Rightarrow> 'd prioritized_buffer result" where
  "pb_add fpow env item weight b =
     (let idx = rb_next_idx b in
      bindE (rb_add env item b) (\<lambda>b1.
      let weight = (case weight of None \<Rightarrow> pb_max_priority b1 | Some w \<Rightarrow> w)
      in pb_set_priority fpow idx weight b1))"

text \<open>One number \<open>random.random()\<close> per sampled item.\<close>

definition sample_proportional :: "rat list \<Rightarrow> 'd prioritized_buffer \<Rightarrow> int list result" where
  "sample_proportional randoms b =
     mapE (\<lambda>u.
       bindE (tree_sum (pb_it_sum b) 0 (Some (int (length (rb_storage b))))) (\<lambda>mass.
       find_prefixsum_idx (pb_it_sum b) (u * mass))) randoms"

text \<open>Division and exponentiation of floats, with the infinity of an empty minimum tree.\<close>

definition float_div :: "rat \<Rightarrow> rat \<Rightarrow> rat result" where
  "float_div x y = (if y = 0 then Inl ZeroDivisionError else Inr (x / y))"

definition float_pow :: "(rat \<Rightarrow> rat \<Rightarrow> rat) \<Rightarrow> rat \<Rightarrow> rat \<Rightarrow> rat result" where
  "float_pow fpow x y = (if x = 0 \<and> y < 0 then Inl ZeroDivisionError else Inr (fpow x y))"

definition max_sample_weight ::
  "(rat \<Rightarrow> rat \<Rightarrow> rat) \<Rightarrow> pyfloat \<Rightarrow> rat \<Rightarrow> int \<Rightarrow> rat \<Rightarrow> rat result" where
  "max_sample_weight fpow least mass n beta =
     (case least of
        Fin x \<Rightarrow> bindE (float_div x mass) (\<lambda>p_min. float_pow fpow (p_min * of_int n) (- beta))
      | _ \<Rightarrow> if mass = 0 then Inl ZeroDivisionError else Inr (if beta = 0 then 1 else 0))"

definition actual_size :: "'d sample_batch \<Rightarrow> int" where
  "actual_size item =
     (if \<not> sb_multi_agent item \<and> sb_zero_padded item then sb_max_seq_len item else sb_count item)"

record weighted_indexes =
  weights :: "rat list"
  batch_indexes :: "int list"

definition weigh_one ::
  "(rat \<Rightarrow> rat \<Rightarrow> rat) \<Rightarrow> rat \<Rightarrow> rat \<Rightarrow> weighted_indexes \<times> 'd prioritized_buffer \<Rightarrow> int
     \<Rightarrow> (weighted_indexes \<times> 'd prioritized_buffer) result" where
  "weigh_one fpow beta max_weight s idx =
     (case s of (wi, b) \<Rightarrow>
      bindE (getitem (pb_it_sum b) idx) (\<lambda>prio.
      bindE (tree_sum (pb_it_sum b) 0 None) (\<lambda>mass.
      bindE (float_div prio mass) (\<lambda>p_sample.
      bindE (float_pow fpow (p_sample * of_nat (length (rb_storage b))) (- beta)) (\<lambda>weight.
      bindE (py_index (rb_storage b) idx) (\<lambda>item.
      bindE (float_div weight max_weight) (\<lambda>w.
      Inr (\<lparr>weights = weights wi @ replicate (nat (actual_size item)) w,
            batch_indexes = batch_indexes wi @ replicate (nat (actual_size item)) idx\<rparr>,
           b\<lparr>rb_num_timesteps_sampled := rb_num_timesteps_sampled b + sb_count item\<rparr>))))))))"

definition pb_sample ::
  "(rat \<Rightarrow> rat \<Rightarrow> rat) \<Rightarrow> rat list \<Rightarrow> rat \<Rightarrow> 'd prioritized_buffer
     \<Rightarrow> (('d sample_batch list \<times> weighted_indexes option) \<times> 'd prioritized_buffer) result" where
  "pb_sample fpow randoms beta b =
     bindE (assertE (beta \<ge> 0)) (\<lambda>_.
     bindE (sample_proportional randoms b) (\<lambda>idxes.
     bindE (tree_min (pb_it_min b) 0 None) (\<lambda>least.
     bindE (tree_sum (pb_it_sum b) 0 None) (\<lambda>mass.
     bindE (max_sample_weight fpow least mass (int (length (rb_storage b))) beta) (\<lambda>max_weight.
     bindE (foldE (weigh_one fpow beta max_weight) (\<lparr>weights = [], batch_indexes = []\<rparr>, b) idxes) (\<lambda>(wi, b1).
     bindE (encode_sample b1 idxes) (\<lambda>batch.
     Inr ((batch, if \<exists>item \<in> set batch. sb_multi_agent item then None else Some wi), b1))))))))"

definition update_priority ::
  "(rat \<Rightarrow> rat \<Rightarrow> rat) \<Rightarrow> 'd prioritized_buffer \<Rightarrow> int \<times> rat \<Rightarrow> 'd prioritized_buffer result" where
  "update_priority fpow b = (\<lambda>(idx, priority).
     bindE (assertE (priority > 0)) (\<lambda>_.
     bindE (assertE (0 \<le> idx \<and> idx < int (length (rb_storage b)))) (\<lambda>_.
     bindE (getitem (pb_it_sum b) idx) (\<lambda>old.
     let delta = fpow priority (pb_alpha b) - old;
         b1 = b\<lparr>pb_prio_change_stats := ws_push delta (pb_prio_change_stats b)\<rparr> in
     bindE (pb_set_priority fpow idx priority b1) (\<lambda>b2.
     Inr (b2\<lparr>pb_max_priority := max (pb_max_priority b2) priority\<rparr>))))))"

definition update_priorities ::
  "(rat \<Rightarrow> rat \<Rightarrow> rat) \<Rightarrow> int list \<Rightarrow> rat list \<Rightarrow> 'd prioritized_buffer \<Rightarrow> 'd prioritized_buffer result" where
  "update_priorities fpow idxes priorities b =
     bindE (assertE (length idxes = length priorities)) (\<lambda>_.
     foldE (update_priority fpow) b (zip idxes priorities))"

record 'd prioritized_state = "'d buffer_state" +
  state_sum_tree :: "rat list"
  state_min_tree :: "pyfloat list"
  state_max_priority :: rat

definition pb_get_state :: "'d prioritized_buffer \<Rightarrow> 'd prioritized_state" where
  "pb_get_state b = buffer_state.extend (rb_get_state b)
     \<lparr>state_sum_tree = get_state (pb_it_sum b), state_min_tree = get_state (pb_it_min b),
      state_max_priority = pb_max_priority b\<rparr>"

definition pb_set_state :: "'d prioritized_state \<Rightarrow> 'd prioritized_buffer \<Rightarrow> 'd prioritized_buffer result" where
  "pb_set_state st b =
     (let b1 = rb_set_state st b in
      bindE (set_state (pb_it_sum b1) (state_sum_tree st)) (\<lambda>it_sum.
      bindE (set_state (pb_it_min b1) (state_min_tree st)) (\<lambda>it_min.
      Inr (b1\<lparr>pb_it_sum := it_sum, pb_it_min := it_min, pb_max_priority := state_max_priority st\<rparr>))))"

section \<open>The invariant of the circular buffer\<close>

definition rb_ok :: "('d, 'z) replay_buffer_scheme \<Rightarrow> bool" where
  "rb_ok b \<longleftrightarrow> 0 \<le> rb_next_idx b \<and> rb_next_idx b \<le> rb_num_timesteps_added_wrap b
     \<and> rb_num_timesteps_added_wrap b < rb_capacity b
     \<and> rb_next_idx b \<le> int (length (rb_storage b))
     \<and> int (length (rb_storage b)) \<le> rb_capacity b
     \<and> int (length (rb_hit_count b)) = rb_capacity b"

text \<open>The memory check of \<open>add\<close> passes.\<close>

definition fits_memory :: "replay_env \<Rightarrow> int \<Rightarrow> 'd sample_batch \<Rightarrow> bool" where
  "fits_memory env capacity item \<longleftrightarrow>
     warn_replay_capacity env item (of_int capacity / of_int (sb_count item)) = Inr ()"

lemma rb_add_spec:
  fixes b :: "('d, 'z) replay_buffer_scheme"
  assumes ok: "rb_ok b" and "0 < sb_count item" and "fits_memory env (rb_capacity b) item"
  defines "wraps \<equiv> rb_num_timesteps_added_wrap b + sb_count item \<ge> rb_capacity b"
  shows "\<exists>b'. rb_add env item b = Inr b' \<and> rb_ok b'
     \<and> rb_storage b' = (if rb_next_idx b = int (length (rb_storage b)) then rb_storage b @ [item]
          else (rb_storage b)[nat (rb_next_idx b) := item])
     \<and> rb_next_idx b' = (if wraps then 0 else rb_next_idx b + 1)
     \<and> rb_num_timesteps_added_wrap b' = (if wraps then 0 else rb_num_timesteps_added_wrap b + sb_count item)
     \<and> rb_capacity b' = rb_capacity b \<and> rb_num_sampled b' = rb_num_sampled b
     \<and> replay_buffer.more b' = replay_buffer.more b"
proof -
  have i: "0 \<le> rb_next_idx b" "rb_next_idx b \<le> int (length (rb_storage b))"
    "rb_next_idx b \<le> rb_num_timesteps_added_wrap b" "rb_num_timesteps_added_wrap b < rb_capacity b"
    "int (length (rb_storage b)) \<le> rb_capacity b" "int (length (rb_hit_count b)) = rb_capacity b"
    using ok by (auto simp: rb_ok_def)
  have idx: "0 \<le> j \<Longrightarrow> j < rb_capacity b \<Longrightarrow> py_index (rb_hit_count b) j = Inr (rb_hit_count b ! nat j)"
    "0 \<le> j \<Longrightarrow> j < rb_capacity b \<Longrightarrow> py_store (rb_hit_count b) j 0 = Inr ((rb_hit_count b)[nat j := 0])" for j
    using i(6) by simp_all
  have warn: "warn_replay_capacity env item (of_int (rb_capacity b) / of_int (sb_count item)) = Inr ()"
    using assms(3) by (simp add: fits_memory_def)
  note simps = rb_add_def warn assertE_def Let_def rb_ok_def wraps_def
  consider (append) "rb_next_idx b = int (length (rb_storage b))" | (store) "rb_next_idx b < int (length (rb_storage b))"
    using i(2) by linarith
  then show ?thesis
  proof cases
    case append
    then show ?thesis
      using i assms(2) by (cases wraps; cases "rb_eviction_started b") (auto simp: simps idx)
  next
    case store
    then show ?thesis
      using i assms(2) by (cases wraps; cases "rb_eviction_started b") (auto simp: simps idx)
  qed
qed

lemma init_rb_ok:
  assumes "init_replay_buffer capacity size_arg = Inr b"
  shows "rb_storage b = []" "rb_next_idx b = 0" "rb_num_timesteps_added_wrap b = 0" "rb_num_sampled b = None"
    "rb_capacity b = (case size_arg of None \<Rightarrow> capacity | Some n \<Rightarrow> n)" "0 < rb_capacity b \<Longrightarrow> rb_ok b"
  using assms by (auto simp: init_replay_buffer_def Let_def rb_ok_def split: if_splits)

abbreviation add_all ::
  "replay_env \<Rightarrow> ('d, 'z) replay_buffer_scheme \<Rightarrow> 'd sample_batch list \<Rightarrow> ('d, 'z) replay_buffer_scheme result" where
  "add_all env b xs \<equiv> foldE (\<lambda>b x. rb_add env x b) b xs"

text \<open>
  Batches of one size \<open>k\<close>: the buffer is a ring of \<open>p\<close> slots, the least number of
  batches that reach the capacity.
\<close>

definition ring :: "nat \<Rightarrow> int \<Rightarrow> 'd sample_batch list \<Rightarrow> ('d, 'z) replay_buffer_scheme \<Rightarrow> bool" where
  "ring p k xs b \<longleftrightarrow> rb_ok b
     \<and> rb_next_idx b = int (length xs mod p)
     \<and> rb_num_timesteps_added_wrap b = int (length xs mod p) * k
     \<and> length (rb_storage b) = min (length xs) p
     \<and> (\<forall>j < length xs. length xs \<le> j + p \<longrightarrow> rb_storage b ! (j mod p) = xs ! j)"

definition slots :: "int \<Rightarrow> int \<Rightarrow> nat" where
  "slots capacity k = nat ((capacity + k - 1) div k)"

lemma slots_wrap:
  assumes "0 < k" and "0 < c" and "m < slots c k"
  shows "c \<le> int m * k + k \<longleftrightarrow> Suc m = slots c k"
proof -
  define q where "q = (c + k - 1) div k"
  have q: "int (slots c k) = q" using assms(1,2) by (simp add: slots_def q_def pos_imp_zdiv_nonneg_iff)
  have "(c + k - 1) mod k < k" "0 \<le> (c + k - 1) mod k" "q * k + (c + k - 1) mod k = c + k - 1"
    using assms(1) by (simp_all add: q_def)
  then have "q * k \<le> c + k - 1" "c + k - 1 < q * k + k" by linarith+
  then have "c \<le> (int m + 1) * k \<longleftrightarrow> q \<le> int m + 1"
  proof (intro iffI)
    assume "c \<le> (int m + 1) * k"
    then have "q * k < (int m + 1 + 1) * k" using \<open>q * k \<le> c + k - 1\<close> by (simp add: algebra_simps)
    then show "q \<le> int m + 1" using assms(1) by (simp add: mult_less_cancel_right)
  next
    assume "q \<le> int m + 1"
    then have "q * k \<le> (int m + 1) * k" using assms(1) by simp
    then show "c \<le> (int m + 1) * k" using \<open>c + k - 1 < q * k + k\<close> by linarith
  qed
  then show ?thesis using assms(3) q by (simp add: algebra_simps) linarith
qed

lemma slots_pos: "0 < k \<Longrightarrow> 0 < c \<Longrightarrow> 0 < slots c k"
  by (simp add: slots_def pos_imp_zdiv_pos_iff)

lemma ring_add:
  assumes ring: "ring (slots (rb_capacity b) k) k xs b" and k: "0 < k" "sb_count x = k"
    and c: "0 < rb_capacity b" and mem: "fits_memory env (rb_capacity b) x"
  shows "\<exists>b'. rb_add env x b = Inr b' \<and> ring (slots (rb_capacity b) k) k (xs @ [x]) b'
     \<and> rb_capacity b' = rb_capacity b"
proof -
  let ?p = "slots (rb_capacity b) k" and ?n = "length xs"
  have p: "0 < ?p" using slots_pos k(1) c by blast
  have r: "rb_ok b" "rb_next_idx b = int (?n mod ?p)" "rb_num_timesteps_added_wrap b = int (?n mod ?p) * k"
    "length (rb_storage b) = min ?n ?p" "\<And>j. j < ?n \<Longrightarrow> ?n \<le> j + ?p \<Longrightarrow> rb_storage b ! (j mod ?p) = xs ! j"
    using ring by (auto simp: ring_def)
  have wraps: "rb_capacity b \<le> rb_num_timesteps_added_wrap b + sb_count x \<longleftrightarrow> Suc (?n mod ?p) = ?p"
    using slots_wrap [OF k(1) c, of "?n mod ?p"] p r(3) k(2) by simp
  obtain b' where b': "rb_add env x b = Inr b'" "rb_ok b'" "rb_capacity b' = rb_capacity b"
    "rb_storage b' = (if rb_next_idx b = int (length (rb_storage b)) then rb_storage b @ [x]
       else (rb_storage b)[nat (rb_next_idx b) := x])"
    "rb_next_idx b' = (if Suc (?n mod ?p) = ?p then 0 else rb_next_idx b + 1)"
    "rb_num_timesteps_added_wrap b' = (if Suc (?n mod ?p) = ?p then 0 else rb_num_timesteps_added_wrap b + k)"
    using rb_add_spec [OF r(1), of x env] k mem unfolding wraps by auto
  have next_: "Suc ?n mod ?p = (if Suc (?n mod ?p) = ?p then 0 else Suc (?n mod ?p))" by (rule mod_Suc)
  have app: "rb_next_idx b = int (length (rb_storage b)) \<longleftrightarrow> ?n < ?p"
    using r(2,4) p by (cases "?n < ?p") (auto simp: min_def, metis mod_less_divisor nat_neq_iff)
  have stored: "rb_storage b' ! (j mod ?p) = (xs @ [x]) ! j" if "j < Suc ?n" "Suc ?n \<le> j + ?p" for j
  proof (cases "j = ?n")
    case True
    then show ?thesis using b'(4) app r(2,4) p by (cases "?n < ?p") (auto simp: nth_append)
  next
    case False
    then have j: "j < ?n" "?n \<le> j + ?p" using that by auto
    have "j mod ?p \<noteq> ?n mod ?p" if "\<not> ?n < ?p"
    proof
      assume "j mod ?p = ?n mod ?p"
      then have "?p dvd ?n - j" using j(1) by (metis less_imp_le_nat mod_eq_dvd_iff_nat)
      then show False using j \<open>Suc ?n \<le> j + ?p\<close> dvd_imp_le [of ?p "?n - j"] by auto
    qed
    then show ?thesis
      using b'(4) app r(2,4) r(5) [OF j] j p by (cases "?n < ?p") (auto simp: nth_append)
  qed
  have "length (rb_storage b') = min (Suc ?n) ?p" using b'(4) app r(4) by auto
  then have "ring ?p k (xs @ [x]) b'"
    using b' r(2,3) stored next_ by (auto simp: ring_def algebra_simps)
  then show ?thesis using b' by blast
qed

lemma ring_add_all:
  assumes "init_replay_buffer capacity None = Inr b0" and "0 < capacity" and "0 < k"
    and "\<forall>x \<in> set xs. sb_count x = k \<and> fits_memory env capacity x"
  shows "\<exists>b. add_all env b0 xs = Inr b \<and> ring (slots capacity k) k xs b \<and> rb_capacity b = capacity"
  using assms(4)
proof (induction xs rule: rev_induct)
  case Nil
  then show ?case using init_rb_ok [OF assms(1)] assms(2) by (simp add: ring_def)
next
  case (snoc x xs)
  then obtain b where b: "add_all env b0 xs = Inr b" "ring (slots capacity k) k xs b" "rb_capacity b = capacity"
    by auto
  then show ?case
    using ring_add [of b k xs x env] snoc.prems assms(2,3) by (auto simp: foldE_append)
qed

section \<open>The invariant of the prioritized buffer\<close>

definition pow_ok :: "(rat \<Rightarrow> rat \<Rightarrow> rat) \<Rightarrow> bool" where
  "pow_ok fpow \<longleftrightarrow> (\<forall>x y. 0 < x \<longrightarrow> 0 < fpow x y)
     \<and> (\<forall>x y e. 0 < x \<and> x \<le> y \<and> 0 \<le> e \<longrightarrow> fpow y (- e) \<le> fpow x (- e))"

text \<open>The slots in use have positive priorities, the same in both trees; the others are neutral.\<close>

definition prio_ok :: "nat \<Rightarrow> rat list \<Rightarrow> pyfloat list \<Rightarrow> bool" where
  "prio_ok n ps qs \<longleftrightarrow> length qs = length ps
     \<and> (\<forall>i < length ps. if i < n then 0 < ps ! i \<and> qs ! i = Fin (ps ! i) else ps ! i = 0 \<and> qs ! i = PosInf)"

definition pb_ok :: "'d prioritized_buffer \<Rightarrow> bool" where
  "pb_ok b \<longleftrightarrow> rb_ok b
     \<and> st_ok (+) 0 (pb_it_sum b) \<and> st_ok min PosInf (pb_it_min b)
     \<and> st_capacity (pb_it_min b) = st_capacity (pb_it_sum b)
     \<and> rb_capacity b \<le> st_capacity (pb_it_sum b) \<and> 0 < pb_max_priority b
     \<and> prio_ok (length (rb_storage b)) (items (pb_it_sum b)) (items (pb_it_min b))"

lemma prio_okD:
  assumes "prio_ok n ps qs" and "i < length ps"
  shows "i < n \<Longrightarrow> 0 < ps ! i" and "i < n \<Longrightarrow> qs ! i = Fin (ps ! i)"
    and "n \<le> i \<Longrightarrow> ps ! i = 0" and "n \<le> i \<Longrightarrow> qs ! i = PosInf"
proof -
  have "if i < n then 0 < ps ! i \<and> qs ! i = Fin (ps ! i) else ps ! i = 0 \<and> qs ! i = PosInf"
    using assms by (simp add: prio_ok_def)
  then show "i < n \<Longrightarrow> 0 < ps ! i" "i < n \<Longrightarrow> qs ! i = Fin (ps ! i)"
    "n \<le> i \<Longrightarrow> ps ! i = 0" "n \<le> i \<Longrightarrow> qs ! i = PosInf"
    by (auto split: if_splits)
qed

lemma prio_ok_update:
  assumes "prio_ok n ps qs" and "i \<le> n" and "i < length ps" and "0 < v"
  shows "prio_ok (max n (Suc i)) (ps[i := v]) (qs[i := Fin v])"
  using assms by (auto simp: prio_ok_def nth_list_update max_def)

lemma tree_capacity_power:
  "\<exists>h. it_capacity = 2 ^ h \<Longrightarrow> \<exists>h. tree_capacity capacity it_capacity = 2 ^ h"
  "1 \<le> it_capacity \<Longrightarrow> capacity \<le> tree_capacity capacity it_capacity"
proof (induction capacity it_capacity rule: tree_capacity.induct)
  case (1 capacity it_capacity)
  {
    case 1
    then have "\<exists>h. it_capacity * 2 = 2 ^ h" by (auto intro: exI [of _ "Suc _"] simp: power_Suc2)
    then show ?case using 1 "1.IH"(1) by (subst tree_capacity.simps) auto
  next
    case 2
    then show ?case using "1.IH"(2) by (subst tree_capacity.simps) auto
  }
qed

lemma init_pb_ok:
  assumes "init_prioritized_buffer capacity alpha size_arg = Inr b" and "0 < rb_capacity b"
  shows "pb_ok b"
proof -
  obtain base it_sum it_min where base: "init_replay_buffer capacity size_arg = Inr base"
    and sum: "init_sum_tree (tree_capacity (rb_capacity base) 1) = Inr it_sum"
    and least: "init_min_tree (tree_capacity (rb_capacity base) 1) = Inr it_min"
    and b: "b = replay_buffer.extend base
       \<lparr>pb_alpha = alpha, pb_it_sum = it_sum, pb_it_min = it_min, pb_max_priority = 1,
        pb_prio_change_stats = init_window_stat 1000\<rparr>"
    using assms(1) by (auto simp: init_prioritized_buffer_def Let_def result_simps)
  have trees: "st_ok (+) 0 it_sum" "st_ok min PosInf it_min"
    using sum least by (auto simp: init_sum_tree_def init_min_tree_def intro: sum_monoid.init_ok min_monoid.init_ok)
  have items: "items it_sum = replicate (nat (st_capacity it_sum)) 0"
    "items it_min = replicate (nat (st_capacity it_min)) PosInf"
    "st_capacity it_sum = tree_capacity (rb_capacity base) 1" "st_capacity it_min = tree_capacity (rb_capacity base) 1"
    using sum least
    by (auto simp: init_sum_tree_def init_min_tree_def init_segment_tree_def items_def result_simps
        nat_mult_distrib)
  have "rb_ok base" using init_rb_ok(6) [OF base] assms(2) by (simp add: b replay_buffer.defs)
  then show ?thesis
    using trees items init_rb_ok(1) [OF base] tree_capacity_power(2) [of 1 "rb_capacity base"]
    by (auto simp: pb_ok_def b replay_buffer.defs rb_ok_def prio_ok_def)
qed

lemma pb_set_priority_spec:
  assumes trees: "st_ok (+) 0 (pb_it_sum b)" "st_ok min PosInf (pb_it_min b)"
      "st_capacity (pb_it_min b) = st_capacity (pb_it_sum b)"
    and prio: "prio_ok n (items (pb_it_sum b)) (items (pb_it_min b))"
    and idx: "0 \<le> idx" "idx \<le> int n" "idx < st_capacity (pb_it_sum b)" and "pow_ok fpow" "0 < w"
  shows "\<exists>ts tm. pb_set_priority fpow idx w b = Inr (b\<lparr>pb_it_sum := ts, pb_it_min := tm\<rparr>)
     \<and> st_ok (+) 0 ts \<and> st_ok min PosInf tm \<and> st_capacity ts = st_capacity (pb_it_sum b)
     \<and> st_capacity tm = st_capacity (pb_it_sum b)
     \<and> prio_ok (max n (Suc (nat idx))) (items ts) (items tm)"
proof -
  let ?v = "fpow w (pb_alpha b)"
  have v: "0 < ?v" using assms(8,9) by (simp add: pow_ok_def)
  obtain ts where ts: "setitem (pb_it_sum b) idx ?v = Inr ts" "st_ok (+) 0 ts"
    "st_capacity ts = st_capacity (pb_it_sum b)" "items ts = (items (pb_it_sum b))[nat idx := ?v]"
    using setitem_correct [OF trees(1) idx(1,3)] by blast
  obtain tm where tm: "setitem (pb_it_min b) idx (Fin ?v) = Inr tm" "st_ok min PosInf tm"
    "st_capacity tm = st_capacity (pb_it_min b)" "items tm = (items (pb_it_min b))[nat idx := Fin ?v]"
    using setitem_correct [OF trees(2) idx(1), of "Fin ?v"] idx(3) trees(3) by auto
  have "nat idx < length (items (pb_it_sum b))" using idx(1,3) st_okD(2) [OF trees(1)] by simp
  then have "prio_ok (max n (Suc (nat idx))) (items ts) (items tm)"
    using prio_ok_update [OF prio _ _ v, of "nat idx"] idx ts(4) tm(4) by simp
  then show ?thesis
    using ts tm trees(3) by (intro exI [of _ ts] exI [of _ tm]) (simp add: pb_set_priority_def)
qed

lemma pb_add_ok:
  assumes ok: "pb_ok b" and "pow_ok fpow" and "0 < sb_count item" and "fits_memory env (rb_capacity b) item"
    and "case weight of None \<Rightarrow> True | Some w \<Rightarrow> 0 < w"
  shows "\<exists>b'. pb_add fpow env item weight b = Inr b' \<and> pb_ok b' \<and> rb_capacity b' = rb_capacity b"
proof -
  have rb: "rb_ok b" using ok by (simp add: pb_ok_def)
  obtain b1 where b1: "rb_add env item b = Inr b1" "rb_ok b1" "rb_capacity b1 = rb_capacity b"
    "rb_storage b1 = (if rb_next_idx b = int (length (rb_storage b)) then rb_storage b @ [item]
       else (rb_storage b)[nat (rb_next_idx b) := item])"
    "replay_buffer.more b1 = replay_buffer.more b"
    using rb_add_spec [OF rb assms(3,4)] by blast
  have same: "pb_it_sum b1 = pb_it_sum b" "pb_it_min b1 = pb_it_min b" "pb_max_priority b1 = pb_max_priority b"
    using b1(5) by (cases b; cases b1; simp)+
  let ?w = "case weight of None \<Rightarrow> pb_max_priority b1 | Some w \<Rightarrow> w"
  have w: "0 < ?w" using assms(5) ok same(3) by (auto simp: pb_ok_def split: option.splits)
  have len: "length (rb_storage b1) = max (length (rb_storage b)) (Suc (nat (rb_next_idx b)))"
    using b1(4) rb by (auto simp: rb_ok_def)
  have idx: "0 \<le> rb_next_idx b" "rb_next_idx b \<le> int (length (rb_storage b))"
    "rb_next_idx b < st_capacity (pb_it_sum b1)"
    using rb ok same(1) by (auto simp: rb_ok_def pb_ok_def)
  obtain ts tm where "pb_set_priority fpow (rb_next_idx b) ?w b1 = Inr (b1\<lparr>pb_it_sum := ts, pb_it_min := tm\<rparr>)"
    "st_ok (+) 0 ts" "st_ok min PosInf tm" "st_capacity ts = st_capacity (pb_it_sum b)"
    "st_capacity tm = st_capacity (pb_it_sum b)" "prio_ok (length (rb_storage b1)) (items ts) (items tm)"
    using pb_set_priority_spec [OF _ _ _ _ idx assms(2) w] ok same unfolding pb_ok_def len by auto
  then show ?thesis
    using ok b1 same by (auto simp: pb_add_def Let_def pb_ok_def rb_ok_def)
qed

lemma update_priority_ok:
  assumes ok: "pb_ok b" and "pow_ok fpow" and "update_priority fpow b p = Inr b'"
  shows "pb_ok b'"
proof -
  obtain idx w where p: "p = (idx, w)" by (cases p)
  obtain old b2 where a: "0 < w" "0 \<le> idx" "idx < int (length (rb_storage b))"
    and old: "getitem (pb_it_sum b) idx = Inr old"
    and b2: "pb_set_priority fpow idx w (b\<lparr>pb_prio_change_stats
        := ws_push (fpow w (pb_alpha b) - old) (pb_prio_change_stats b)\<rparr>) = Inr b2"
    and b': "b' = b2\<lparr>pb_max_priority := max (pb_max_priority b2) w\<rparr>"
    using assms(3) by (auto simp: update_priority_def p result_simps Let_def)
  let ?b1 = "b\<lparr>pb_prio_change_stats := ws_push (fpow w (pb_alpha b) - old) (pb_prio_change_stats b)\<rparr>"
  have cap: "idx < st_capacity (pb_it_sum ?b1)" using a(3) ok by (auto simp: pb_ok_def rb_ok_def)
  have len: "max (length (rb_storage b)) (Suc (nat idx)) = length (rb_storage b)" using a by auto
  have "idx \<le> int (length (rb_storage b))" using a(3) by simp
  from pb_set_priority_spec [OF _ _ _ _ a(2) this cap assms(2) a(1)] ok obtain ts tm where
    "pb_set_priority fpow idx w ?b1 = Inr (?b1\<lparr>pb_it_sum := ts, pb_it_min := tm\<rparr>)"
    "st_ok (+) 0 ts" "st_ok min PosInf tm" "st_capacity ts = st_capacity (pb_it_sum b)"
    "st_capacity tm = st_capacity (pb_it_sum b)" "prio_ok (length (rb_storage b)) (items ts) (items tm)"
    unfolding pb_ok_def len by auto
  then show ?thesis using b2 b' ok a(1) by (auto simp: pb_ok_def rb_ok_def max_def)
qed

lemma update_priorities_ok:
  assumes "pb_ok b" and "pow_ok fpow" and "update_priorities fpow idxes priorities b = Inr b'"
  shows "pb_ok b'"
proof -
  have "foldE (update_priority fpow) b (zip idxes priorities) = Inr b'"
    using assms(3) by (auto simp: update_priorities_def result_simps)
  then show ?thesis
    by (rule foldE_invariant [where P = pb_ok, OF assms(1)]) (auto intro: update_priority_ok assms(2))
qed

section \<open>Sampling\<close>

lemma sum_zeros: "\<forall>x \<in> set xs. x = (0 :: rat) \<Longrightarrow> sum_list xs = 0"
  by (induction xs) auto

lemma prio_prefix:
  assumes "prio_ok n ps qs" and "n \<le> i"
  shows "sum_list (take i ps) = sum_list ps"
proof -
  have "sum_list (drop i ps) = 0"
    by (rule sum_zeros) (use assms(2) prio_okD(3) [OF assms(1)] in \<open>auto simp: in_set_conv_nth\<close>)
  then show ?thesis by (metis add.right_neutral append_take_drop_id sum_list_append)
qed

lemma prio_mass:
  assumes "prio_ok n ps qs" and "0 < n" and "n \<le> length ps"
  shows "0 < sum_list ps"
proof -
  have "0 \<le> ps ! i" if "i < length ps" for i
    using prio_okD(1,3) [OF assms(1) that] by (cases "i < n") (simp_all add: order_less_imp_le)
  then have nn: "\<forall>x \<in> set ps. 0 \<le> x" by (auto simp: in_set_conv_nth)
  have "0 < length ps" using assms(2,3) by (rule order_less_le_trans)
  then have "0 < ps ! 0" using prio_okD(1) [OF assms(1) _ assms(2)] by blast
  also have "ps ! 0 = sum_list (take 1 ps)" using assms(2,3) by (cases ps) auto
  also have "\<dots> \<le> sum_list (take (length ps) ps)" by (rule sum_prefix_mono [OF nn]) (use assms(2,3) in auto)
  finally show ?thesis by simp
qed

lemma tree_min_all:
  assumes ok: "st_ok min PosInf t"
  shows "tree_min t 0 None = Inr (Min (set (items t)))"
proof -
  have "reduce t 0 None = reduce t 0 (Some (st_capacity t))"
    using st_okD(1) [OF ok] by (simp add: reduce_def)
  moreover have "items t \<noteq> []" using st_okD(1,2) [OF ok] by auto
  ultimately show ?thesis
    using min_monoid.reduce_items [OF ok, of 0 "st_capacity t"] st_okD(1,2) [OF ok]
    by (simp add: tree_min_def agg_min)
qed

lemma prio_least:
  assumes "prio_ok n ps qs" and "0 < n" and "n \<le> length ps"
  shows "\<exists>m. Min (set qs) = Fin m \<and> 0 < m \<and> (\<forall>i < n. m \<le> ps ! i)"
proof -
  have q: "qs ! i = Fin (ps ! i)" "0 < ps ! i" if "i < n" for i
    using prio_okD(1,2) [OF assms(1), of i] assms(3) that by simp_all
  have len: "length qs = length ps" using assms(1) by (simp add: prio_ok_def)
  have "Min (set qs) \<in> set qs" using len assms(2,3) by (intro Min_in) auto
  then obtain j where j: "j < length ps" "Min (set qs) = qs ! j" using len by (metis in_set_conv_nth)
  have le: "Min (set qs) \<le> Fin (ps ! i)" if "i < n" for i
    using q(1) [OF that] len that assms(3) by (metis List.finite_set Min_le nth_mem order_less_le_trans)
  have "j < n" using le [OF assms(2)] j prio_okD(4) [OF assms(1) j(1)] by (cases "j < n") auto
  then show ?thesis using j(2) q le by (intro exI [of _ "ps ! j"]) auto
qed

text \<open>The indices drawn: each is the slot whose share of the mass the random number falls into.\<close>

definition proportional :: "rat list \<Rightarrow> rat \<Rightarrow> int \<Rightarrow> bool" where
  "proportional ps u i \<longleftrightarrow> 0 \<le> i \<and> sum_list (take (nat i) ps) \<le> u * sum_list ps
     \<and> u * sum_list ps < sum_list (take (Suc (nat i)) ps)"

lemma draw_proportional:
  assumes ok: "pb_ok b" and ne: "rb_storage b \<noteq> []" and u: "0 \<le> u" "u < 1"
  shows "\<exists>i. bindE (tree_sum (pb_it_sum b) 0 (Some (int (length (rb_storage b))))) (\<lambda>mass.
        find_prefixsum_idx (pb_it_sum b) (u * mass)) = Inr i
     \<and> proportional (items (pb_it_sum b)) u i \<and> i < int (length (rb_storage b))"
proof -
  let ?t = "pb_it_sum b" and ?n = "length (rb_storage b)"
  let ?ps = "items ?t"
  have t: "st_ok (+) 0 ?t" and prio: "prio_ok ?n ?ps (items (pb_it_min b))"
    and n: "0 < ?n" "?n \<le> length ?ps" "int ?n \<le> st_capacity ?t"
    using ok ne st_okD(2) [of "(+)" 0 ?t] by (auto simp: pb_ok_def rb_ok_def)
  have mass: "0 < sum_list ?ps" by (rule prio_mass [OF prio n(1,2)])
  have "tree_sum ?t 0 (Some (int ?n)) = Inr (sum_list ?ps)"
    using sum_monoid.reduce_items [OF t, of 0 "int ?n"] n prio_prefix [OF prio order_refl]
    by (simp add: tree_sum_def agg_sum)
  moreover have p: "0 \<le> u * sum_list ?ps" "u * sum_list ?ps < sum_list ?ps" using u mass by simp_all
  moreover have "u * sum_list ?ps \<le> sum_list ?ps + 1 / 100000" using p(2) by simp
  from find_prefixsum_items [OF t p(1) this] obtain i where i: "find_prefixsum_idx ?t (u * sum_list ?ps) = Inr (int i)"
    "i < length ?ps" "sum_list (take i ?ps) \<le> u * sum_list ?ps"
    "u * sum_list ?ps < sum_list (take (Suc i) ?ps) \<or> Suc i = length ?ps" by blast
  have "u * sum_list ?ps < sum_list (take (Suc i) ?ps)" using i(4) p(2) by auto
  moreover have "i < ?n"
  proof (rule ccontr)
    assume "\<not> i < ?n"
    then have "sum_list (take i ?ps) = sum_list ?ps" by (intro prio_prefix [OF prio]) simp
    then show False using i(3) p(2) by simp
  qed
  ultimately show ?thesis using i by (intro exI [of _ "int i"]) (simp add: proportional_def)
qed

lemma weigh_one_ok:
  assumes ok: "pb_ok b" and "pow_ok fpow" and "0 \<le> beta" and idx: "0 \<le> idx" "idx < int (length (rb_storage b))"
    and m: "0 < m" "\<forall>i < length (rb_storage b). m \<le> items (pb_it_sum b) ! i"
  defines "max_weight \<equiv> fpow (m / sum_list (items (pb_it_sum b)) * of_nat (length (rb_storage b))) (- beta)"
  shows "\<exists>w k. weigh_one fpow beta max_weight (wi, b\<lparr>rb_num_timesteps_sampled := n\<rparr>) idx
      = Inr (\<lparr>weights = weights wi @ replicate (nat (actual_size (rb_storage b ! nat idx))) w,
              batch_indexes = batch_indexes wi @ replicate (nat (actual_size (rb_storage b ! nat idx))) idx\<rparr>,
             b\<lparr>rb_num_timesteps_sampled := k\<rparr>) \<and> 0 < w \<and> w \<le> 1"
proof -
  let ?n = "length (rb_storage b)" and ?ps = "items (pb_it_sum b)"
  let ?x = "?ps ! nat idx / sum_list ?ps * of_nat ?n"
  let ?y = "m / sum_list ?ps * of_nat ?n"
  have t: "st_ok (+) 0 (pb_it_sum b)" and prio: "prio_ok ?n ?ps (items (pb_it_min b))"
    and len: "?n \<le> length ?ps" "int ?n \<le> st_capacity (pb_it_sum b)"
    using ok st_okD(2) [of "(+)" 0 "pb_it_sum b"] by (auto simp: pb_ok_def rb_ok_def)
  have n: "0 < ?n" using idx by auto
  have mass: "0 < sum_list ?ps" by (rule prio_mass [OF prio n len(1)])
  have "m \<le> ?ps ! nat idx" using m(2) idx by auto
  then have yx: "0 < ?y" "?y \<le> ?x"
    using mass m(1) n by (auto intro!: mult_right_mono divide_right_mono simp: divide_pos_pos)
  then have "0 < ?x" by simp
  have w: "0 < fpow ?x (- beta)" "0 < max_weight" "fpow ?x (- beta) \<le> max_weight"
    using assms(2,3) yx \<open>0 < ?x\<close> unfolding pow_ok_def max_weight_def by blast+
  have g: "getitem (pb_it_sum b) idx = Inr (?ps ! nat idx)"
    using getitem_correct [OF t] idx len(2) by simp
  show ?thesis
    using w \<open>0 < ?x\<close> mass tree_sum_all [OF t] g idx
    by (auto simp: weigh_one_def float_div_def float_pow_def)
qed

lemma sample_proportional_ok:
  assumes "pb_ok b" and "rb_storage b \<noteq> []" and "\<forall>u \<in> set randoms. 0 \<le> u \<and> u < 1"
  shows "\<exists>idxes. sample_proportional randoms b = Inr idxes
     \<and> list_all2 (proportional (items (pb_it_sum b))) randoms idxes
     \<and> (\<forall>i \<in> set idxes. 0 \<le> i \<and> i < int (length (rb_storage b)))"
  using assms(3)
proof (induction randoms)
  case Nil
  then show ?case by (simp add: sample_proportional_def)
next
  case (Cons u us)
  obtain i where i: "bindE (tree_sum (pb_it_sum b) 0 (Some (int (length (rb_storage b))))) (\<lambda>mass.
        find_prefixsum_idx (pb_it_sum b) (u * mass)) = Inr i"
     "proportional (items (pb_it_sum b)) u i" "i < int (length (rb_storage b))"
    using draw_proportional [OF assms(1,2), of u] Cons.prems by auto
  then have "0 \<le> i" by (simp add: proportional_def)
  then show ?case using i Cons by (auto simp: sample_proportional_def)
qed

definition sample_ok :: "int list \<Rightarrow> 'd prioritized_buffer \<Rightarrow> weighted_indexes \<times> 'd prioritized_buffer \<Rightarrow> bool" where
  "sample_ok idxes b = (\<lambda>(wi, b'). (\<exists>k. b' = b\<lparr>rb_num_timesteps_sampled := k\<rparr>)
     \<and> (\<forall>w \<in> set (weights wi). 0 < w \<and> w \<le> 1)
     \<and> length (batch_indexes wi) = length (weights wi) \<and> set (batch_indexes wi) \<subseteq> set idxes)"

lemma encode_sample_ok:
  "\<forall>i \<in> set idxes. 0 \<le> i \<and> i < int (length (rb_storage b))
    \<Longrightarrow> encode_sample b idxes = Inr (map (\<lambda>i. rb_storage b ! nat i) idxes)"
  by (induction idxes) (simp_all add: encode_sample_def)

lemma pb_sample_ok:
  assumes ok: "pb_ok b" and pow: "pow_ok fpow" and ne: "rb_storage b \<noteq> []"
    and "\<forall>u \<in> set randoms. 0 \<le> u \<and> u < 1" and beta: "0 \<le> beta"
  shows "\<exists>idxes wi b'. pb_sample fpow randoms beta b
       = Inr ((map (\<lambda>i. rb_storage b ! nat i) idxes,
               if \<exists>i \<in> set idxes. sb_multi_agent (rb_storage b ! nat i) then None else Some wi), b')
     \<and> list_all2 (proportional (items (pb_it_sum b))) randoms idxes
     \<and> (\<forall>i \<in> set idxes. 0 \<le> i \<and> i < int (length (rb_storage b))) \<and> sample_ok idxes b (wi, b')"
proof -
  let ?n = "length (rb_storage b)" and ?ps = "items (pb_it_sum b)"
  obtain idxes where idx: "sample_proportional randoms b = Inr idxes" "list_all2 (proportional ?ps) randoms idxes"
    "\<forall>i \<in> set idxes. 0 \<le> i \<and> i < int ?n" using sample_proportional_ok [OF ok ne assms(4)] by blast
  have t: "st_ok (+) 0 (pb_it_sum b)" "st_ok min PosInf (pb_it_min b)" and prio: "prio_ok ?n ?ps (items (pb_it_min b))"
    and len: "0 < ?n" "?n \<le> length ?ps"
    using ok ne st_okD(2) [of "(+)" 0 "pb_it_sum b"] by (auto simp: pb_ok_def rb_ok_def)
  obtain m where m: "Min (set (items (pb_it_min b))) = Fin m" "0 < m" "\<forall>i < ?n. m \<le> ?ps ! i"
    using prio_least [OF prio len] by blast
  let ?mw = "fpow (m / sum_list ?ps * of_nat ?n) (- beta)"
  have "sum_list ?ps \<noteq> 0" using prio_mass [OF prio len] by simp
  then have mw: "max_sample_weight fpow (Fin m) (sum_list ?ps) (int ?n) beta = Inr ?mw"
    using m(2) len(1) by (simp add: max_sample_weight_def float_div_def float_pow_def)
  have "\<exists>s. foldE (weigh_one fpow beta ?mw) (\<lparr>weights = [], batch_indexes = []\<rparr>, b) idxes = Inr s \<and> sample_ok idxes b s"
  proof (rule foldE_total [where P = "sample_ok idxes b"])
    show "sample_ok idxes b (\<lparr>weights = [], batch_indexes = []\<rparr>, b)"
      by (auto simp: sample_ok_def intro: exI [of _ "rb_num_timesteps_sampled b"])
  next
    fix s x assume s: "sample_ok idxes b s" and x: "x \<in> set idxes"
    obtain wi k where s': "s = (wi, b\<lparr>rb_num_timesteps_sampled := k\<rparr>)" using s by (cases s) (auto simp: sample_ok_def)
    from weigh_one_ok [OF ok pow beta _ _ m(2,3), of x wi k] idx(3) x
    show "\<exists>t. weigh_one fpow beta ?mw s x = Inr t \<and> sample_ok idxes b t"
      using s x by (auto simp: s' sample_ok_def)
  qed
  then obtain wi b' where f: "foldE (weigh_one fpow beta ?mw) (\<lparr>weights = [], batch_indexes = []\<rparr>, b) idxes = Inr (wi, b')"
    "sample_ok idxes b (wi, b')" by auto
  have "rb_storage b' = rb_storage b" using f(2) by (auto simp: sample_ok_def)
  then have "encode_sample b' idxes = Inr (map (\<lambda>i. rb_storage b ! nat i) idxes)"
    using encode_sample_ok [of idxes b'] idx(3) by simp
  then have "pb_sample fpow randoms beta b = Inr ((map (\<lambda>i. rb_storage b ! nat i) idxes,
       if \<exists>i \<in> set idxes. sb_multi_agent (rb_storage b ! nat i) then None else Some wi), b')"
    using idx(1) mw f(1) beta m(1) by (simp add: pb_sample_def tree_min_all [OF t(2)] tree_sum_all [OF t(1)])
  then show ?thesis using idx(2,3) f(2) by blast
qed

section \<open>Runs\<close>

lemma rb_add_Inr:
  assumes "rb_add env item b = Inr b'"
  shows "0 < sb_count item" and "fits_memory env (rb_capacity b) item" and "rb_num_sampled b' = rb_num_sampled b"
  using assms by (auto simp: rb_add_def result_simps fits_memory_def Let_def split: if_splits)

inductive rb_step :: "'d replay_buffer \<Rightarrow> 'd replay_buffer \<Rightarrow> bool" where
  rb_step_add: "rb_add env item b = Inr b' \<Longrightarrow> rb_step b b'"
| rb_step_sample: "rb_sample draws b = Inr (out, b') \<Longrightarrow> rb_step b b'"
| rb_step_set_state: "rb_step b (rb_set_state (st :: 'd buffer_state) b)"

interpretation replay: invariant_system
  "\<lambda>b. \<exists>capacity size_arg. init_replay_buffer capacity size_arg = Inr b" rb_step "\<lambda>b. rb_num_sampled b = None"
proof
  fix s t :: "'a replay_buffer"
  assume "rb_num_sampled s = None" and "rb_step s t"
  then show "rb_num_sampled t = None"
    by (auto elim!: rb_step.cases simp: rb_add_Inr(3) rb_sample_def rb_set_state_def result_simps)
qed (auto dest: init_rb_ok(4))

inductive pb_step :: "(rat \<Rightarrow> rat \<Rightarrow> rat) \<Rightarrow> 'd prioritized_buffer \<Rightarrow> 'd prioritized_buffer \<Rightarrow> bool" for fpow where
  pb_step_add: "pb_add fpow env item weight b = Inr b' \<Longrightarrow> case weight of None \<Rightarrow> True | Some w \<Rightarrow> 0 < w
    \<Longrightarrow> pb_step fpow b b'"
| pb_step_sample: "pb_sample fpow randoms beta b = Inr (out, b') \<Longrightarrow> pb_step fpow b b'"
| pb_step_update: "update_priorities fpow idxes priorities b = Inr b' \<Longrightarrow> pb_step fpow b b'"

lemma pb_sample_frame:
  assumes "pb_sample fpow randoms beta b = Inr (out, b')"
  shows "\<exists>k. b' = b\<lparr>rb_num_timesteps_sampled := k\<rparr>"
proof -
  obtain mw idxes wi where f: "foldE (weigh_one fpow beta mw) (\<lparr>weights = [], batch_indexes = []\<rparr>, b) idxes = Inr (wi, b')"
    using assms by (auto simp: pb_sample_def result_simps)
  have "\<exists>k. snd (wi, b') = b\<lparr>rb_num_timesteps_sampled := k\<rparr>"
    by (rule foldE_invariant [where P = "\<lambda>s. \<exists>k. snd s = b\<lparr>rb_num_timesteps_sampled := k\<rparr>", OF _ f])
      (auto simp: weigh_one_def result_simps intro: exI [of _ "rb_num_timesteps_sampled b"])
  then show ?thesis by simp
qed

lemma pb_step_ok:
  assumes "pow_ok fpow" and "pb_step fpow b b'" and ok: "pb_ok b"
  shows "pb_ok b'"
  using assms(2)
proof cases
  case (pb_step_add env item weight)
  then obtain b1 where "rb_add env item b = Inr b1" by (auto simp: pb_add_def result_simps Let_def)
  from rb_add_Inr(1,2) [OF this] show ?thesis
    using pb_add_ok [OF ok assms(1)] pb_step_add by force
next
  case (pb_step_sample randoms beta out)
  then show ?thesis using pb_sample_frame ok by (fastforce simp: pb_ok_def rb_ok_def)
next
  case (pb_step_update idxes priorities)
  then show ?thesis using update_priorities_ok [OF ok assms(1)] by blast
qed

lemma pb_reaches_ok:
  assumes "reaches (pb_step fpow) b0 b" and "pow_ok fpow" and "pb_ok b0"
  shows "pb_ok b"
  using assms by (induction rule: reaches.induct) (auto intro: pb_step_ok)

section \<open>Properties\<close>

definition ex_batch :: "int \<Rightarrow> nat \<Rightarrow> nat sample_batch" where
  "ex_batch n d = \<lparr>sb_count = n, sb_multi_agent = False, sb_zero_padded = False, sb_max_seq_len = 0,
     sb_size_bytes = 8, sb_data = d\<rparr>"

definition ex_env :: replay_env where
  "ex_env = \<lparr>env_log_once = True, env_total_memory = 10 ^ 12\<rparr>"


definition ex_pow :: "rat \<Rightarrow> rat \<Rightarrow> rat" where
  "ex_pow x y = (if y < 0 then 1 / x else if y = 0 then 1 else x)"

lemma ex_pow_ok: "pow_ok ex_pow"
  by (auto simp: pow_ok_def ex_pow_def frac_le)

definition ex_buffer0 :: "nat prioritized_buffer result" where
  "ex_buffer0 = init_prioritized_buffer 3 1 None"

definition ex_buffer1 :: "nat prioritized_buffer result" where
  "ex_buffer1 = bindE ex_buffer0 (pb_add ex_pow ex_env (ex_batch 1 7) None)"

definition ex_buffer2 :: "nat prioritized_buffer result" where
  "ex_buffer2 = bindE ex_buffer1 (pb_add ex_pow ex_env (ex_batch 1 8) (Some 3))"


text \<open>
  First in, first out. Batches of one size \<open>k\<close> added to an empty buffer: every
  \<open>add\<close> returns and the buffer holds exactly the last \<open>slots capacity k\<close> batches, the
  least number of them that reach the capacity in timesteps, each in its slot of the ring.
\<close>

theorem uniform_batches_fifo:
  assumes "init_replay_buffer capacity None = Inr b0" and "0 < capacity" and "0 < k"
    and "\<forall>x \<in> set xs. sb_count x = k \<and> fits_memory env capacity x"
  shows "\<exists>b. add_all env b0 xs = Inr b
     \<and> length (rb_storage b) = min (length xs) (slots capacity k)
     \<and> (\<forall>j < length xs. length xs \<le> j + slots capacity k \<longrightarrow> rb_storage b ! (j mod slots capacity k) = xs ! j)"
  using ring_add_all [OF assms] by (auto simp: ring_def)

theorem uniform_batches_fifo_witness:
  "\<exists>b0 b. init_replay_buffer 5 None = Inr b0 \<and> slots 5 2 = 3
     \<and> add_all ex_env b0 (map (ex_batch 2) [0, 1, 2, 3]) = Inr b
     \<and> rb_storage b ! 0 = ex_batch 2 3 \<and> rb_storage b ! 1 = ex_batch 2 1"
proof -
  obtain b0 :: "nat replay_buffer" where b0: "init_replay_buffer 5 None = Inr b0" by (simp add: init_replay_buffer_def)
  have s: "slots 5 2 = 3" by (simp add: slots_def)
  have fits: "\<forall>x \<in> set (map (ex_batch 2) [0, 1, 2, 3]). sb_count x = 2 \<and> fits_memory ex_env 5 x"
    by (simp add: ex_batch_def ex_env_def fits_memory_def warn_replay_capacity_def)
  obtain b where b: "add_all ex_env b0 (map (ex_batch 2) [0, 1, 2, 3]) = Inr b"
    "\<forall>j < 4. 4 \<le> j + 3 \<longrightarrow> rb_storage b ! (j mod 3) = map (ex_batch 2) [0, 1, 2, 3] ! j"
    using uniform_batches_fifo [OF b0 _ _ fits] s by auto
  from b(2) [rule_format, of 1] b(2) [rule_format, of 3] show ?thesis
    using b0 s b(1) by (intro exI [of _ b0] exI [of _ b]) simp
qed

lemma large_add:
  assumes "rb_ok b" and "rb_next_idx b = 0" and "rb_storage b \<noteq> []" and "rb_capacity b \<le> sb_count y"
    and "fits_memory env (rb_capacity b) y"
  shows "\<exists>b'. rb_add env y b = Inr b' \<and> rb_ok b' \<and> rb_next_idx b' = 0
     \<and> rb_storage b' = y # tl (rb_storage b) \<and> rb_capacity b' = rb_capacity b"
proof -
  have "0 < sb_count y" "rb_capacity b \<le> rb_num_timesteps_added_wrap b + sb_count y"
    using assms(1,4) by (auto simp: rb_ok_def)
  then show ?thesis
    using rb_add_spec [OF assms(1) _ assms(5)] assms(2,3) by (cases "rb_storage b") auto
qed

lemma large_add_all:
  assumes "rb_ok b" and "rb_next_idx b = 0" and "rb_storage b \<noteq> []"
    and "\<forall>y \<in> set ys. rb_capacity b \<le> sb_count y \<and> fits_memory env (rb_capacity b) y" and "ys \<noteq> []"
  shows "\<exists>b'. add_all env b ys = Inr b' \<and> rb_storage b' = last ys # tl (rb_storage b)"
  using assms
proof (induction ys arbitrary: b)
  case (Cons y ys)
  obtain b1 where b1: "rb_add env y b = Inr b1" "rb_ok b1" "rb_next_idx b1 = 0"
    "rb_storage b1 = y # tl (rb_storage b)" "rb_capacity b1 = rb_capacity b"
    using large_add [OF Cons.prems(1-3), of y env] Cons.prems(4) by auto
  then show ?case using Cons.IH [OF b1(2,3)] Cons.prems(4) by (cases "ys = []") auto
qed simp

text \<open>
  With batches of different sizes the buffer is neither first in, first out nor bounded
  by its capacity. After a full round of single timesteps, batches as large as the
  capacity all go to the first slot: the other old batches are never evicted, however many
  batches follow, and the timesteps stored exceed the capacity by \<open>capacity - 1\<close>.
\<close>

theorem large_batches_pin_old_ones:
  assumes "init_replay_buffer capacity None = Inr b0" and "0 < capacity"
    and "int (length xs) = capacity" and "\<forall>x \<in> set xs. sb_count x = 1 \<and> fits_memory env capacity x"
    and "ys \<noteq> []" and "\<forall>y \<in> set ys. capacity \<le> sb_count y \<and> fits_memory env capacity y"
  shows "\<exists>b. add_all env b0 (xs @ ys) = Inr b \<and> rb_storage b = last ys # tl xs
     \<and> 2 * rb_capacity b0 - 1 \<le> sum_list (map sb_count (rb_storage b))"
proof -
  obtain b1 where b1: "add_all env b0 xs = Inr b1" "ring (slots capacity 1) 1 xs b1" "rb_capacity b1 = capacity"
    using ring_add_all [OF assms(1,2) _ assms(4)] by auto
  have p: "slots capacity 1 = length xs" "xs \<noteq> []" using assms(2,3) by (auto simp: slots_def)
  have "rb_storage b1 = xs" using b1(2) p by (intro nth_equalityI) (auto simp: ring_def)
  then obtain b where b: "add_all env b1 ys = Inr b" "rb_storage b = last ys # tl xs"
    using large_add_all [of b1 ys env] b1(2,3) p assms(5,6) by (auto simp: ring_def)
  have "\<forall>x \<in> set (tl xs). sb_count x = 1" using assms(4) by (cases xs) auto
  then have "map sb_count (tl xs) = replicate (length (tl xs)) 1" by (simp add: map_replicate_const cong: map_cong)
  then have "sum_list (map sb_count (tl xs)) = int (length (tl xs))" by (simp add: sum_list_replicate)
  moreover have "capacity \<le> sb_count (last ys)" using assms(5,6) by simp
  ultimately have "2 * capacity - 1 \<le> sum_list (map sb_count (rb_storage b))"
    using b(2) assms(3) p(2) by (cases xs) auto
  then show ?thesis using b b1(1) init_rb_ok(5) [OF assms(1)] by (auto simp: foldE_append)
qed

theorem large_batches_pin_old_ones_witness:
  "\<exists>b0 b. init_replay_buffer 3 None = Inr b0
     \<and> add_all ex_env b0 (map (ex_batch 1) [0, 1, 2] @ [ex_batch 4 3, ex_batch 4 4]) = Inr b
     \<and> rb_storage b = [ex_batch 4 4, ex_batch 1 1, ex_batch 1 2]"
proof -
  obtain b0 :: "nat replay_buffer" where b0: "init_replay_buffer 3 None = Inr b0" by (simp add: init_replay_buffer_def)
  have fits: "\<forall>x \<in> set (map (ex_batch 1) [0, 1, 2]). sb_count x = 1 \<and> fits_memory ex_env 3 x"
    "\<forall>y \<in> set [ex_batch 4 3, ex_batch 4 4]. 3 \<le> sb_count y \<and> fits_memory ex_env 3 y"
    by (simp_all add: ex_batch_def ex_env_def fits_memory_def warn_replay_capacity_def)
  from large_batches_pin_old_ones [OF b0 _ _ fits(1) _ fits(2)] b0 show ?thesis by auto
qed

text \<open>
  \<open>ReplayBuffer.sample\<close> never returns: it increments \<open>_num_sampled\<close>, which no method
  ever sets, so on a non-empty buffer it raises AttributeError whatever was done before, and
  on an empty one it raises as well.
\<close>

theorem base_sample_always_raises:
  assumes "init_replay_buffer capacity size_arg = Inr b0" and "reaches rb_step b0 b"
  shows "rb_sample draws b = Inl (if draws \<noteq> [] \<and> rb_storage b = [] then ValueError else AttributeError)"
proof -
  have "rb_num_sampled b = None" by (rule replay.reaches_invar [OF assms(2)]) (use assms(1) in blast)
  then show ?thesis by (auto simp: rb_sample_def)
qed

theorem base_sample_always_raises_witness:
  "\<exists>(b0 :: nat replay_buffer) b. init_replay_buffer 2 None = Inr b0 \<and> rb_add ex_env (ex_batch 1 0) b0 = Inr b
     \<and> rb_sample [0] b = Inl AttributeError"
proof -
  have "case init_replay_buffer 2 None of Inl _ \<Rightarrow> False
      | Inr b0 \<Rightarrow> (case rb_add ex_env (ex_batch 1 0) b0 of Inl _ \<Rightarrow> False | Inr b \<Rightarrow> length (rb_storage b) = 1)"
    by code_simp
  then obtain b0 b where b: "init_replay_buffer 2 None = Inr b0" "rb_add ex_env (ex_batch 1 0) b0 = Inr b"
    "length (rb_storage b) = 1" by (auto split: sum.splits)
  have "reaches rb_step b0 b" by (rule reaches_one) (rule rb_step_add [OF b(2)])
  from base_sample_always_raises [OF b(1) this, of "[0]"] show ?thesis using b by auto
qed

text \<open>Saving the state and restoring it in a buffer with trees of the same capacity.\<close>

lemma pb_state_round_trip:
  assumes "pb_ok b" and "st_ok (+) 0 (pb_it_sum c)" "st_ok min PosInf (pb_it_min c)"
    and "st_capacity (pb_it_sum c) = st_capacity (pb_it_sum b)" "st_capacity (pb_it_min c) = st_capacity (pb_it_min b)"
  shows "\<exists>c'. pb_set_state (pb_get_state b) c = Inr c' \<and> pb_get_state c' = pb_get_state b"
  using assms st_okD(1,4) [of "(+)" 0 "pb_it_sum b"] st_okD(1,4) [of min PosInf "pb_it_min b"]
  by (auto simp: pb_ok_def pb_set_state_def pb_get_state_def rb_set_state_def rb_get_state_def rb_stats_def
      set_state_def get_state_def buffer_state.defs assertE_def Let_def)

end
