(* ===== verification/Actor_Pool.thy ===== *)
theory Actor_Pool
  imports Ray_Prelude
begin

text \<open>
  \<open>python/ray/util/actor_pool.py\<close>. The Ray API is a parameter: calling \<open>fn(actor, value)\<close>
  (a remote method call), \<open>ray.wait\<close> and \<open>ray.get\<close> take and return the state \<open>'w\<close> of the
  Ray runtime. A list of object refs and the tuple made of it are the same value here, so a future
  is its own key.
\<close>

record ('w, 'a, 'f, 'n, 'v, 'r) ray_api =
  remote_call :: "'w \<Rightarrow> 'n \<Rightarrow> 'a \<Rightarrow> 'v \<Rightarrow> 'f \<times> 'w"
  ray_wait :: "'w \<Rightarrow> 'f list \<Rightarrow> rat option \<Rightarrow> 'f list \<times> 'w"
  ray_get :: "'w \<Rightarrow> 'f \<Rightarrow> 'r result \<times> 'w"

record ('a, 'f, 'n, 'v) actor_pool =
  idle_actors :: "'a list"
  future_to_actor :: "('f, nat \<times> 'a) dict"
  index_to_future :: "(nat, 'f) dict"
  next_task_index :: nat
  next_return_index :: nat
  pending_submits :: "('n \<times> 'v) list"

type_synonym ('w, 'a, 'f, 'n, 'v) pool_state = "('a, 'f, 'n, 'v) actor_pool \<times> 'w"

section \<open>Operations\<close>

definition init_pool :: "'a list \<Rightarrow> ('a, 'f, 'n, 'v) actor_pool" where
  "init_pool actors = \<lparr>idle_actors = actors, future_to_actor = [], index_to_future = [],
     next_task_index = 0, next_return_index = 0, pending_submits = []\<rparr>"

definition submit ::
  "('w, 'a, 'f, 'n, 'v, 'r) ray_api \<Rightarrow> 'n \<Rightarrow> 'v \<Rightarrow> ('w, 'a, 'f, 'n, 'v) pool_state
    \<Rightarrow> ('w, 'a, 'f, 'n, 'v) pool_state" where
  "submit api fn v s =
     (case s of (p, w) \<Rightarrow>
        if idle_actors p \<noteq> [] then
          let actor = last (idle_actors p);
              (future, w') = remote_call api w fn actor v
          in (p\<lparr>idle_actors := butlast (idle_actors p),
                future_to_actor := dset (future_to_actor p) future (next_task_index p, actor),
                index_to_future := dset (index_to_future p) (next_task_index p) future,
                next_task_index := next_task_index p + 1\<rparr>, w')
        else (p\<lparr>pending_submits := pending_submits p @ [(fn, v)]\<rparr>, w))"

definition has_next :: "('a, 'f, 'n, 'v) actor_pool \<Rightarrow> bool" where
  "has_next p \<longleftrightarrow> future_to_actor p \<noteq> []"

definition return_actor ::
  "('w, 'a, 'f, 'n, 'v, 'r) ray_api \<Rightarrow> 'a \<Rightarrow> ('w, 'a, 'f, 'n, 'v) pool_state
    \<Rightarrow> ('w, 'a, 'f, 'n, 'v) pool_state" where
  "return_actor api actor s =
     (case s of (p, w) \<Rightarrow>
        let p1 = p\<lparr>idle_actors := idle_actors p @ [actor]\<rparr>
        in case pending_submits p1 of
             [] \<Rightarrow> (p1, w)
           | (fn, v) # rest \<Rightarrow> submit api fn v (p1\<lparr>pending_submits := rest\<rparr>, w))"

text \<open>The end of \<open>get_next\<close>, once the future is known to be ready or no timeout is given.\<close>

definition take_next ::
  "('w, 'a, 'f, 'n, 'v, 'r) ray_api \<Rightarrow> 'f \<Rightarrow> ('w, 'a, 'f, 'n, 'v) pool_state
    \<Rightarrow> 'r result \<times> ('w, 'a, 'f, 'n, 'v) pool_state" where
  "take_next api future s =
     (case s of (p, w) \<Rightarrow>
        let p1 = p\<lparr>index_to_future := ddel (index_to_future p) (next_return_index p),
                   next_return_index := next_return_index p + 1\<rparr>
        in case map_of (future_to_actor p1) future of
             None \<Rightarrow> (Inl KeyError, (p1, w))
           | Some (i, a) \<Rightarrow>
               let (p2, w2) = return_actor api a
                     (p1\<lparr>future_to_actor := ddel (future_to_actor p1) future\<rparr>, w);
                   (r, w3) = ray_get api w2 future
               in (r, (p2, w3)))"

definition get_next ::
  "('w, 'a, 'f, 'n, 'v, 'r) ray_api \<Rightarrow> rat option \<Rightarrow> ('w, 'a, 'f, 'n, 'v) pool_state
    \<Rightarrow> 'r result \<times> ('w, 'a, 'f, 'n, 'v) pool_state" where
  "get_next api timeout s =
     (case s of (p, w) \<Rightarrow>
        if \<not> has_next p then (Inl StopIteration, s)
        else if next_return_index p \<ge> next_task_index p then (Inl ValueError, s)
        else
          case map_of (index_to_future p) (next_return_index p) of
            None \<Rightarrow> (Inl KeyError, s)
          | Some future \<Rightarrow>
              (case timeout of
                 None \<Rightarrow> take_next api future s
               | Some _ \<Rightarrow>
                   let (res, w1) = ray_wait api w [future] timeout
                   in if res = [] then (Inl TimeoutError, (p, w1))
                      else take_next api future (p, w1)))"

definition get_next_unordered ::
  "('w, 'a, 'f, 'n, 'v, 'r) ray_api \<Rightarrow> rat option \<Rightarrow> ('w, 'a, 'f, 'n, 'v) pool_state
    \<Rightarrow> 'r result \<times> ('w, 'a, 'f, 'n, 'v) pool_state" where
  "get_next_unordered api timeout s =
     (case s of (p, w) \<Rightarrow>
        if \<not> has_next p then (Inl StopIteration, s)
        else
          let (res, w1) = ray_wait api w (dkeys (future_to_actor p)) timeout
          in case res of
               [] \<Rightarrow> (Inl TimeoutError, (p, w1))
             | [future] \<Rightarrow>
                 (case map_of (future_to_actor p) future of
                    None \<Rightarrow> (Inl KeyError, (p, w1))
                  | Some (i, a) \<Rightarrow>
                      let (p2, w2) = return_actor api a
                            (p\<lparr>future_to_actor := ddel (future_to_actor p) future\<rparr>, w1)
                      in if \<not> dmem i (index_to_future p2) then (Inl KeyError, (p2, w2))
                         else
                           let p3 = p2\<lparr>index_to_future := ddel (index_to_future p2) i,
                                       next_return_index := max (next_return_index p2) (i + 1)\<rparr>;
                               (r, w3) = ray_get api w2 future
                           in (r, (p3, w3)))
             | _ \<Rightarrow> (Inl ValueError, (p, w1)))"

definition has_free :: "('a, 'f, 'n, 'v) actor_pool \<Rightarrow> bool" where
  "has_free p \<longleftrightarrow> length (idle_actors p) > 0 \<and> length (pending_submits p) = 0"

definition pop_idle :: "('a, 'f, 'n, 'v) actor_pool \<Rightarrow> 'a option \<times> ('a, 'f, 'n, 'v) actor_pool" where
  "pop_idle p =
     (if has_free p then (Some (last (idle_actors p)), p\<lparr>idle_actors := butlast (idle_actors p)\<rparr>)
      else (None, p))"

definition busy_actors :: "('a, 'f, 'n, 'v) actor_pool \<Rightarrow> 'a list" where
  "busy_actors p = map snd (dvalues (future_to_actor p))"

definition push :: "'a \<Rightarrow> ('a, 'f, 'n, 'v) actor_pool \<Rightarrow> ('a, 'f, 'n, 'v) actor_pool result" where
  "push actor p =
     (if actor \<in> set (idle_actors p) \<or> actor \<in> set (busy_actors p) then Inl ValueError
      else Inr (p\<lparr>idle_actors := idle_actors p @ [actor]\<rparr>))"

text \<open>\<open>map\<close> and \<open>map_unordered\<close> are generators; here with a consumer that takes all results.\<close>

definition submit_all ::
  "('w, 'a, 'f, 'n, 'v, 'r) ray_api \<Rightarrow> 'n \<Rightarrow> 'v list \<Rightarrow> ('w, 'a, 'f, 'n, 'v) pool_state
    \<Rightarrow> ('w, 'a, 'f, 'n, 'v) pool_state" where
  "submit_all api fn values s = foldl (\<lambda>s v. submit api fn v s) s values"

definition outstanding :: "('a, 'f, 'n, 'v) actor_pool \<Rightarrow> nat" where
  "outstanding p = length (future_to_actor p) + length (pending_submits p)"

lemma length_ddel: "map_of d k = Some v \<Longrightarrow> length (ddel d k) < length d"
  by (induction d) (auto split: if_splits simp: AList.delete_eq le_imp_less_Suc)

lemma return_actor_outstanding:
  "outstanding (fst (return_actor api a (p, w))) \<le> outstanding p"
  by (auto simp: return_actor_def submit_def outstanding_def Let_def case_prod_unfold length_dset
      split: list.splits)

lemma outstanding_ddel:
  "map_of (future_to_actor p) f = Some v
    \<Longrightarrow> outstanding (p\<lparr>future_to_actor := ddel (future_to_actor p) f\<rparr>) < outstanding p"
  by (simp add: outstanding_def length_ddel)

lemma outstanding_index [simp]:
  "outstanding (p\<lparr>index_to_future := x, next_return_index := y\<rparr>) = outstanding p"
  "outstanding (p\<lparr>future_to_actor := d, index_to_future := x, next_return_index := y\<rparr>)
     = outstanding (p\<lparr>future_to_actor := d\<rparr>)"
  by (simp_all add: outstanding_def)

lemma take_next_outstanding:
  assumes "take_next api f (p, w) = (Inr r, s')"
  shows "outstanding (fst s') < outstanding p"
proof -
  let ?p = "p\<lparr>index_to_future := ddel (index_to_future p) (next_return_index p),
      next_return_index := next_return_index p + 1\<rparr>"
  obtain i a where f: "map_of (future_to_actor p) f = Some (i, a)"
    and s': "fst s' = fst (return_actor api a (?p\<lparr>future_to_actor := ddel (future_to_actor p) f\<rparr>, w))"
    using assms by (auto simp: take_next_def Let_def case_prod_unfold split: option.splits)
  have "outstanding (fst s') \<le> outstanding (p\<lparr>future_to_actor := ddel (future_to_actor p) f\<rparr>)"
    unfolding s' by (rule order_trans [OF return_actor_outstanding]) (simp add: outstanding_def)
  then show ?thesis using outstanding_ddel [OF f] by simp
qed

lemma get_next_outstanding:
  assumes "get_next api timeout s = (Inr r, s')"
  shows "outstanding (fst s') < outstanding (fst s)"
proof -
  obtain p w where s: "s = (p, w)" by (cases s)
  obtain f w1 where "take_next api f (p, w1) = (Inr r, s')"
    using assms by (auto simp: get_next_def s case_prod_unfold Let_def split: if_splits option.splits)
  from take_next_outstanding [OF this] show ?thesis by (simp add: s)
qed

lemma get_next_unordered_outstanding:
  assumes "get_next_unordered api timeout s = (Inr r, s')"
  shows "outstanding (fst s') < outstanding (fst s)"
proof -
  obtain p w where s: "s = (p, w)" by (cases s)
  obtain f i a w1 where f: "map_of (future_to_actor p) f = Some (i, a)"
    and s': "outstanding (fst s') = outstanding (fst (return_actor api a
      (p\<lparr>future_to_actor := ddel (future_to_actor p) f\<rparr>, w1)))"
    using assms by (auto simp: get_next_unordered_def s Let_def case_prod_unfold
        split: if_splits option.splits list.splits)
  have "outstanding (fst s') \<le> outstanding (p\<lparr>future_to_actor := ddel (future_to_actor p) f\<rparr>)"
    unfolding s' by (rule return_actor_outstanding)
  then show ?thesis using outstanding_ddel [OF f] s by simp
qed

function map_loop ::
  "('w, 'a, 'f, 'n, 'v, 'r) ray_api \<Rightarrow> ('w, 'a, 'f, 'n, 'v) pool_state
    \<Rightarrow> 'r list result \<times> ('w, 'a, 'f, 'n, 'v) pool_state" where
  "map_loop api s =
     (if has_next (fst s) then
        case get_next api None s of
          (Inl e, s1) \<Rightarrow> (Inl e, s1)
        | (Inr r, s1) \<Rightarrow>
            (case map_loop api s1 of
               (Inl e, s2) \<Rightarrow> (Inl e, s2)
             | (Inr rs, s2) \<Rightarrow> (Inr (r # rs), s2))
      else (Inr [], s))"
  by pat_completeness auto
termination
  by (relation "measure (\<lambda>(_, s). outstanding (fst s))")
     (auto dest!: get_next_outstanding [OF sym])

declare map_loop.simps [simp del]

definition pool_map ::
  "('w, 'a, 'f, 'n, 'v, 'r) ray_api \<Rightarrow> 'n \<Rightarrow> 'v list \<Rightarrow> ('w, 'a, 'f, 'n, 'v) pool_state
    \<Rightarrow> 'r list result \<times> ('w, 'a, 'f, 'n, 'v) pool_state" where
  "pool_map api fn values s = map_loop api (submit_all api fn values s)"

function map_unordered_loop ::
  "('w, 'a, 'f, 'n, 'v, 'r) ray_api \<Rightarrow> ('w, 'a, 'f, 'n, 'v) pool_state
    \<Rightarrow> 'r list result \<times> ('w, 'a, 'f, 'n, 'v) pool_state" where
  "map_unordered_loop api s =
     (if has_next (fst s) then
        case get_next_unordered api None s of
          (Inl e, s1) \<Rightarrow> (Inl e, s1)
        | (Inr r, s1) \<Rightarrow>
            (case map_unordered_loop api s1 of
               (Inl e, s2) \<Rightarrow> (Inl e, s2)
             | (Inr rs, s2) \<Rightarrow> (Inr (r # rs), s2))
      else (Inr [], s))"
  by pat_completeness auto
termination
  by (relation "measure (\<lambda>(_, s). outstanding (fst s))")
     (auto dest!: get_next_unordered_outstanding [OF sym])

declare map_unordered_loop.simps [simp del]

definition pool_map_unordered ::
  "('w, 'a, 'f, 'n, 'v, 'r) ray_api \<Rightarrow> 'n \<Rightarrow> 'v list \<Rightarrow> ('w, 'a, 'f, 'n, 'v) pool_state
    \<Rightarrow> 'r list result \<times> ('w, 'a, 'f, 'n, 'v) pool_state" where
  "pool_map_unordered api fn values s = map_unordered_loop api (submit_all api fn values s)"

section \<open>What the pool relies on\<close>

text \<open>
  Documented behaviour of the Ray API: a remote call returns a new object ref, \<open>ray.wait\<close> with
  \<open>num_returns=1\<close> returns at most one of the refs it is given, and refs are never reused.
\<close>

definition fresh_api :: "('w, 'a, 'f, 'n, 'v, 'r) ray_api \<Rightarrow> ('w \<Rightarrow> 'f set) \<Rightarrow> bool" where
  "fresh_api api issued \<longleftrightarrow>
     (\<forall>w n a v f w'. remote_call api w n a v = (f, w') \<longrightarrow> f \<notin> issued w \<and> insert f (issued w) \<subseteq> issued w') \<and>
     (\<forall>w fs t res w'. ray_wait api w fs t = (res, w')
        \<longrightarrow> set res \<subseteq> set fs \<and> length res \<le> 1 \<and> issued w \<subseteq> issued w') \<and>
     (\<forall>w f r w'. ray_get api w f = (r, w') \<longrightarrow> issued w \<subseteq> issued w')"

section \<open>Invariant\<close>

definition all_actors :: "('a, 'f, 'n, 'v) actor_pool \<Rightarrow> 'a list" where
  "all_actors p = idle_actors p @ busy_actors p"

text \<open>
  No actor is in two places; the two dictionaries describe the same running tasks; every task from
  \<open>next_return_index\<close> on is still there, so that \<open>get_next\<close> finds it.
\<close>

definition pool_ok :: "('w \<Rightarrow> 'f set) \<Rightarrow> ('w, 'a, 'f, 'n, 'v) pool_state \<Rightarrow> bool" where
  "pool_ok issued s \<longleftrightarrow>
     (case s of (p, w) \<Rightarrow>
        distinct (all_actors p) \<and> wf_dict (future_to_actor p) \<and> wf_dict (index_to_future p) \<and>
        set (dkeys (future_to_actor p)) \<subseteq> issued w \<and>
        (\<forall>i f. (i, f) \<in> set (index_to_future p) \<longleftrightarrow> (\<exists>a. (f, (i, a)) \<in> set (future_to_actor p))) \<and>
        (\<forall>i \<in> set (dkeys (index_to_future p)). i < next_task_index p) \<and>
        {next_return_index p..<next_task_index p} \<subseteq> set (dkeys (index_to_future p)) \<and>
        next_return_index p \<le> next_task_index p)"

lemma ddel_eq: "ddel d k = filter (\<lambda>p. fst p \<noteq> k) d"
  by (induction d) auto

lemma submit_ok:
  assumes fresh: "fresh_api api issued" and ok: "pool_ok issued s"
  shows "pool_ok issued (submit api fn v s)"
    and "mset (all_actors (fst (submit api fn v s))) = mset (all_actors (fst s))"
proof -
  obtain p w where s: "s = (p, w)" by (cases s)
  have "pool_ok issued (submit api fn v s)
      \<and> mset (all_actors (fst (submit api fn v s))) = mset (all_actors (fst s))"
  proof (cases "idle_actors p = []")
    case True
    then show ?thesis
      using ok by (simp add: submit_def s pool_ok_def all_actors_def busy_actors_def)
  next
    case False
    obtain f w' where r: "remote_call api w fn (last (idle_actors p)) v = (f, w')" by fastforce
    have fr: "f \<notin> issued w" "insert f (issued w) \<subseteq> issued w'"
      using fresh r by (auto simp: fresh_api_def)
    have f: "f \<notin> set (dkeys (future_to_actor p))" using ok fr by (auto simp: pool_ok_def s)
    have n: "next_task_index p \<notin> set (dkeys (index_to_future p))"
      using ok by (auto simp: pool_ok_def s)
    have idle: "idle_actors p = butlast (idle_actors p) @ [last (idle_actors p)]"
      using False by simp
    let ?q = "p\<lparr>idle_actors := butlast (idle_actors p),
        future_to_actor := future_to_actor p @ [(f, (next_task_index p, last (idle_actors p)))],
        index_to_future := index_to_future p @ [(next_task_index p, f)],
        next_task_index := next_task_index p + 1\<rparr>"
    have sub: "submit api fn v s = (?q, w')"
      using False r by (simp add: submit_def s dset_fresh [OF f] dset_fresh [OF n])
    have m: "mset (all_actors ?q) = mset (all_actors p)"
      by (subst (2) all_actors_def, subst idle) (simp add: all_actors_def busy_actors_def)
    moreover have "distinct (all_actors ?q)"
      using ok mset_eq_imp_distinct_iff [OF m] by (simp add: pool_ok_def s)
    moreover have "wf_dict (future_to_actor ?q)" "wf_dict (index_to_future ?q)"
      using ok f n by (auto simp: pool_ok_def s wf_dict_def)
    moreover have "set (dkeys (future_to_actor ?q)) \<subseteq> issued w'"
      using ok fr(2) by (auto simp: pool_ok_def s)
    moreover have "(i, g) \<in> set (index_to_future ?q) \<longleftrightarrow> (\<exists>a. (g, (i, a)) \<in> set (future_to_actor ?q))"
      for i g using ok by (auto simp: pool_ok_def s)
    moreover have "\<forall>i \<in> set (dkeys (index_to_future ?q)). i < next_task_index ?q"
      using ok by (fastforce simp: pool_ok_def s)
    moreover have "{next_return_index ?q..<next_task_index ?q} \<subseteq> set (dkeys (index_to_future ?q))"
      using ok by (auto simp: pool_ok_def s less_Suc_eq)
    moreover have "next_return_index ?q \<le> next_task_index ?q"
      using ok by (simp add: pool_ok_def s)
    ultimately show ?thesis unfolding sub by (simp add: pool_ok_def s)
  qed
  then show "pool_ok issued (submit api fn v s)"
    "mset (all_actors (fst (submit api fn v s))) = mset (all_actors (fst s))" by auto
qed

text \<open>A finished task leaves both dictionaries and its actor becomes idle.\<close>

definition release :: "'f \<Rightarrow> nat \<Rightarrow> 'a \<Rightarrow> nat \<Rightarrow> ('a, 'f, 'n, 'v) actor_pool \<Rightarrow> ('a, 'f, 'n, 'v) actor_pool" where
  "release f i a k p = p\<lparr>idle_actors := idle_actors p @ [a],
     future_to_actor := ddel (future_to_actor p) f,
     index_to_future := ddel (index_to_future p) i, next_return_index := k\<rparr>"

lemma mset_map_ddel:
  "wf_dict d \<Longrightarrow> map_of d k = Some v \<Longrightarrow> mset (map g d) = {#g (k, v)#} + mset (map g (ddel d k))"
proof (induction d)
  case (Cons p d)
  show ?case
  proof (cases "fst p = k")
    case True
    then have "k \<notin> fst ` set d" using Cons.prems(1) by simp
    then have "ddel d k = d" unfolding ddel_eq by (intro filter_True) force
    then show ?thesis using Cons.prems True by (cases p) auto
  qed (use Cons in \<open>cases p, auto\<close>)
qed simp

lemma release_ok:
  assumes ok: "pool_ok issued (p, w)" and f: "map_of (future_to_actor p) f = Some (i, a)"
    and k: "next_return_index p \<le> k" "i < k" "k \<le> next_task_index p" and w: "issued w \<subseteq> issued w1"
  shows "pool_ok issued (release f i a k p, w1)"
    and "mset (all_actors (release f i a k p)) = mset (all_actors p)"
proof -
  have wf: "wf_dict (future_to_actor p)" "wf_dict (index_to_future p)"
    and both: "\<And>i f. (i, f) \<in> set (index_to_future p) \<longleftrightarrow> (\<exists>a. (f, (i, a)) \<in> set (future_to_actor p))"
    using ok by (auto simp: pool_ok_def)
  have fin: "(f, (i, a)) \<in> set (future_to_actor p)" using f by (rule map_of_SomeD)
  show m: "mset (all_actors (release f i a k p)) = mset (all_actors p)"
    using mset_map_ddel [OF wf(1) f, of "\<lambda>x. snd (snd x)"]
    by (simp add: all_actors_def busy_actors_def release_def comp_def)
  have d: "distinct (all_actors (release f i a k p))"
    using ok mset_eq_imp_distinct_iff [OF m] by (simp add: pool_ok_def)
  have ff: "(i, f) \<in> set (index_to_future p)" using both fin by blast
  have only: "j = i \<longleftrightarrow> g = f" if "(g, (j, b)) \<in> set (future_to_actor p)" for g j b
  proof
    assume "j = i"
    then have "(i, g) \<in> set (index_to_future p)" using both that by blast
    then show "g = f" using ff wf(2) by (metis map_of_eq_Some_iff option.inject wf_dict_def)
  next
    assume "g = f"
    then show "j = i" using that fin wf(1) by (metis Pair_inject map_of_eq_Some_iff option.inject wf_dict_def)
  qed
  have "(j, g) \<in> set (ddel (index_to_future p) i) \<longleftrightarrow> (\<exists>b. (g, (j, b)) \<in> set (ddel (future_to_actor p) f))"
    for j g using both [of j g] only [of g j] by (auto simp: ddel_eq)
  moreover have "{k..<next_task_index p} \<subseteq> set (dkeys (ddel (index_to_future p) i))"
    using ok k by (auto simp: pool_ok_def dkeys_ddel simp del: set_map)
  moreover have "set (dkeys (ddel (future_to_actor p) f)) \<subseteq> issued w1"
    using ok w by (auto simp: pool_ok_def ddel_eq)
  moreover have "\<forall>j \<in> set (dkeys (ddel (index_to_future p) i)). j < next_task_index p"
    using ok by (auto simp: pool_ok_def ddel_eq)
  ultimately show "pool_ok issued (release f i a k p, w1)"
    using d wf k(3) by (simp add: pool_ok_def release_def del: set_map)
qed

lemma return_actor_release:
  "return_actor api a (p\<lparr>future_to_actor := ddel (future_to_actor p) f,
       index_to_future := ddel (index_to_future p) i, next_return_index := k\<rparr>, w) =
     (case pending_submits p of
        [] \<Rightarrow> (release f i a k p, w)
      | (fn, v) # rest \<Rightarrow> submit api fn v ((release f i a k p)\<lparr>pending_submits := rest\<rparr>, w))"
  by (cases p) (auto simp: return_actor_def release_def Let_def split: list.splits prod.splits)

lemma pool_ok_pending [simp]: "pool_ok issued (p\<lparr>pending_submits := ps\<rparr>, w) = pool_ok issued (p, w)"
  by (simp add: pool_ok_def all_actors_def busy_actors_def)

lemma all_actors_pending [simp]: "all_actors (p\<lparr>pending_submits := ps\<rparr>) = all_actors p"
  by (simp add: all_actors_def busy_actors_def)

text \<open>The state after a task is taken out, with the next pending task started.\<close>

definition finish ::
  "('w, 'a, 'f, 'n, 'v, 'r) ray_api \<Rightarrow> 'f \<Rightarrow> nat \<Rightarrow> 'a \<Rightarrow> nat \<Rightarrow> ('w, 'a, 'f, 'n, 'v) pool_state
    \<Rightarrow> ('w, 'a, 'f, 'n, 'v) pool_state" where
  "finish api f i a k s = return_actor api a ((fst s)\<lparr>future_to_actor := ddel (future_to_actor (fst s)) f,
     index_to_future := ddel (index_to_future (fst s)) i, next_return_index := k\<rparr>, snd s)"

lemma finish_ok:
  assumes fresh: "fresh_api api issued" and ok: "pool_ok issued (p, w)"
    and f: "map_of (future_to_actor p) f = Some (i, a)"
    and k: "next_return_index p \<le> k" "i < k" "k \<le> next_task_index p" and w: "issued w \<subseteq> issued w1"
  shows "pool_ok issued (finish api f i a k (p, w1))"
    and "mset (all_actors (fst (finish api f i a k (p, w1)))) = mset (all_actors p)"
proof -
  note r = release_ok [OF ok f k w]
  have "pool_ok issued (finish api f i a k (p, w1))
      \<and> mset (all_actors (fst (finish api f i a k (p, w1)))) = mset (all_actors p)"
  proof (cases "pending_submits p")
    case Nil
    then show ?thesis using r by (simp add: finish_def return_actor_release)
  next
    case (Cons x rest)
    obtain fn v where x: "x = (fn, v)" by (cases x)
    have "pool_ok issued ((release f i a k p)\<lparr>pending_submits := rest\<rparr>, w1)" using r(1) by simp
    note sub = submit_ok [OF fresh this, of fn v]
    then show ?thesis using r(2) Cons x by (simp add: finish_def return_actor_release)
  qed
  then show "pool_ok issued (finish api f i a k (p, w1))"
    "mset (all_actors (fst (finish api f i a k (p, w1)))) = mset (all_actors p)" by auto
qed

lemma ddel_dset_swap: "k \<noteq> i \<Longrightarrow> ddel (dset d k v) i = dset (ddel d i) k v"
  by (induction d) auto

lemma return_actor_index_swap:
  assumes "i \<noteq> next_task_index p"
  shows "return_actor api a (p\<lparr>index_to_future := ddel (index_to_future p) i, next_return_index := k\<rparr>, w)
     = (let (q, w') = return_actor api a (p, w)
        in (q\<lparr>index_to_future := ddel (index_to_future q) i, next_return_index := k\<rparr>, w'))"
  using assms
  by (auto simp: return_actor_def submit_def Let_def case_prod_unfold ddel_dset_swap split: list.splits)

section \<open>Taking results\<close>

lemma pool_ok_next:
  assumes "pool_ok issued (p, w)" and "next_return_index p < next_task_index p"
  obtains f a where "map_of (index_to_future p) (next_return_index p) = Some f"
    "map_of (future_to_actor p) f = Some (next_return_index p, a)"
proof -
  have wf: "wf_dict (future_to_actor p)" "wf_dict (index_to_future p)" using assms(1) by (auto simp: pool_ok_def)
  have "next_return_index p \<in> set (dkeys (index_to_future p))"
    using assms by (auto simp: pool_ok_def simp del: set_map)
  then obtain f where f: "(next_return_index p, f) \<in> set (index_to_future p)" by auto
  then obtain a where "(f, (next_return_index p, a)) \<in> set (future_to_actor p)"
    using assms(1) by (auto simp: pool_ok_def)
  then show thesis using that f wf by (simp add: wf_dict_def)
qed

lemma take_next_finish:
  assumes "map_of (future_to_actor p) f = Some (next_return_index p, a)"
  shows "take_next api f (p, w) =
    (let s2 = finish api f (next_return_index p) a (next_return_index p + 1) (p, w);
         (r, w3) = ray_get api (snd s2) f
     in (r, (fst s2, w3)))"
proof -
  let ?p = "p\<lparr>index_to_future := ddel (index_to_future p) (next_return_index p),
      next_return_index := next_return_index p + 1\<rparr>"
  have "?p\<lparr>future_to_actor := ddel (future_to_actor p) f\<rparr>
      = p\<lparr>future_to_actor := ddel (future_to_actor p) f,
          index_to_future := ddel (index_to_future p) (next_return_index p),
          next_return_index := next_return_index p + 1\<rparr>"
    by (cases p) simp
  from arg_cong [OF this, of "\<lambda>q. return_actor api a (q, w)"]
  have "return_actor api a (?p\<lparr>future_to_actor := ddel (future_to_actor p) f\<rparr>, w)
      = finish api f (next_return_index p) a (next_return_index p + 1) (p, w)"
    unfolding finish_def fst_conv snd_conv .
  then show ?thesis using assms by (simp add: take_next_def Let_def case_prod_unfold)
qed

lemma take_next_ok:
  assumes fresh: "fresh_api api issued" and ok: "pool_ok issued (p, w)"
    and f: "map_of (future_to_actor p) f = Some (next_return_index p, a)"
    and lt: "next_return_index p < next_task_index p" and run: "take_next api f (p, w) = (r, s')"
  shows "pool_ok issued s'" and "mset (all_actors (fst s')) = mset (all_actors p)"
    and "\<exists>w1 w2. ray_get api w1 f = (r, w2)"
proof -
  let ?s2 = "finish api f (next_return_index p) a (next_return_index p + 1) (p, w)"
  obtain r0 w3 where g: "ray_get api (snd ?s2) f = (r0, w3)" by fastforce
  then have w3: "ray_get api (snd ?s2) f = (r, w3)" "s' = (fst ?s2, w3)"
    using run by (auto simp: take_next_finish [OF f] Let_def)
  have fin: "pool_ok issued ?s2" "mset (all_actors (fst ?s2)) = mset (all_actors p)"
    using finish_ok [OF fresh ok f, of "next_return_index p + 1" w] lt by auto
  have "issued (snd ?s2) \<subseteq> issued w3" using fresh w3(1) unfolding fresh_api_def by blast
  then show "pool_ok issued s'" using fin(1) w3(2) by (cases ?s2) (auto simp: pool_ok_def)
  show "mset (all_actors (fst s')) = mset (all_actors p)" "\<exists>w1 w2. ray_get api w1 f = (r, w2)"
    using fin(2) w3 by auto
qed

lemma get_next_cases:
  assumes ok: "pool_ok issued (p, w)" and run: "get_next api timeout (p, w) = (r, s')"
  obtains "r = Inl StopIteration" "s' = (p, w)" "\<not> has_next p"
  | "r = Inl ValueError" "s' = (p, w)" "has_next p" "next_task_index p \<le> next_return_index p"
  | f a w1 t res where "next_return_index p < next_task_index p"
      "map_of (index_to_future p) (next_return_index p) = Some f"
      "map_of (future_to_actor p) f = Some (next_return_index p, a)" "r = Inl TimeoutError"
      "ray_wait api w [f] (Some t) = (res, w1)" "s' = (p, w1)"
  | f a w1 where "next_return_index p < next_task_index p"
      "map_of (index_to_future p) (next_return_index p) = Some f"
      "map_of (future_to_actor p) f = Some (next_return_index p, a)"
      "w1 = w \<or> (\<exists>t res. ray_wait api w [f] (Some t) = (res, w1))"
      "take_next api f (p, w1) = (r, s')"
proof -
  show thesis
  proof (cases "has_next p")
    case False
    then show thesis using run that(1) by (simp add: get_next_def)
  next
    case hn: True
    show thesis
    proof (cases "next_return_index p < next_task_index p")
      case False
      then show thesis using run hn that(2) by (simp add: get_next_def)
    next
      case lt: True
      obtain f a where f: "map_of (index_to_future p) (next_return_index p) = Some f"
        "map_of (future_to_actor p) f = Some (next_return_index p, a)"
        by (rule pool_ok_next [OF ok lt])
      show thesis
      proof (cases timeout)
        case None
        then show thesis using run hn lt f by (intro that(4) [OF lt f]) (auto simp: get_next_def)
      next
        case (Some t)
        obtain res w1 where rw: "ray_wait api w [f] (Some t) = (res, w1)" by fastforce
        then show thesis
          using run hn lt f Some that(3) [OF lt f _ rw] that(4) [OF lt f, of w1]
          by (cases "res = []") (auto simp: get_next_def)
      qed
    qed
  qed
qed

lemma get_next_ok:
  assumes fresh: "fresh_api api issued" and ok: "pool_ok issued s" and run: "get_next api timeout s = (r, s')"
  shows "pool_ok issued s' \<and> mset (all_actors (fst s')) = mset (all_actors (fst s))"
proof -
  obtain p w where s: "s = (p, w)" by (cases s)
  have grow: "pool_ok issued (p, w1)" if "w1 = w \<or> (\<exists>f t res. ray_wait api w [f] (Some t) = (res, w1))" for w1
  proof -
    have "issued w \<subseteq> issued w1" using that fresh unfolding fresh_api_def by blast
    then show ?thesis using ok s by (auto simp: pool_ok_def)
  qed
  from ok [unfolded s] run [unfolded s] show ?thesis
  proof (cases rule: get_next_cases)
    case (3 f a w1 t res)
    then have "pool_ok issued (p, w1)" by (intro grow) blast
    then show ?thesis using 3 s by simp
  next
    case (4 f a w1)
    have "pool_ok issued (p, w1)" using 4(4) by (intro grow) blast
    from take_next_ok [OF fresh this 4(3,1,5)] show ?thesis using s by simp
  qed (use ok s in auto)
qed

lemma get_next_unordered_ok:
  assumes fresh: "fresh_api api issued" and ok: "pool_ok issued s"
    and run: "get_next_unordered api timeout s = (r, s')"
  shows "pool_ok issued s' \<and> mset (all_actors (fst s')) = mset (all_actors (fst s))"
proof -
  obtain p w where s: "s = (p, w)" by (cases s)
  show ?thesis
  proof (cases "has_next p")
    case False
    then show ?thesis using run ok s by (auto simp: get_next_unordered_def)
  next
    case True
    obtain res w1 where rw: "ray_wait api w (dkeys (future_to_actor p)) timeout = (res, w1)" by fastforce
    have w: "set res \<subseteq> set (dkeys (future_to_actor p))" "length res \<le> 1" "issued w \<subseteq> issued w1"
      using fresh rw unfolding fresh_api_def by blast+
    have ok1: "pool_ok issued (p, w1)" using ok w(3) s by (auto simp: pool_ok_def)
    show ?thesis
    proof (cases res)
      case Nil
      then show ?thesis using run rw True ok1 s by (auto simp: get_next_unordered_def)
    next
      case (Cons f fs)
      then have res: "res = [f]" using w(2) by simp
      obtain i a where f: "map_of (future_to_actor p) f = Some (i, a)"
        using w(1) res by (cases "map_of (future_to_actor p) f") (auto simp: map_of_eq_None_iff)
      then have i: "(i, f) \<in> set (index_to_future p)"
        using ok s by (auto simp: pool_ok_def dest: map_of_SomeD)
      have lt: "i < next_task_index p" using ok s i by (force simp: pool_ok_def)
      let ?k = "max (next_return_index p) (i + 1)"
      let ?p1 = "p\<lparr>future_to_actor := ddel (future_to_actor p) f\<rparr>"
      obtain q w2 where q: "return_actor api a (?p1, w1) = (q, w2)" by fastforce
      have fin: "finish api f i a ?k (p, w1) = (q\<lparr>index_to_future := ddel (index_to_future q) i,
          next_return_index := ?k\<rparr>, w2)"
        using return_actor_index_swap [of i ?p1 api a ?k w1] lt q by (simp add: finish_def)
      have nr: "next_return_index q = next_return_index p"
        using q by (auto simp: return_actor_def submit_def Let_def case_prod_unfold split: list.splits if_splits)
      have "dmem i (index_to_future q)"
      proof -
        have "i \<in> set (dkeys (index_to_future p))" using i by force
        then show ?thesis using q
          by (auto simp: return_actor_def submit_def Let_def case_prod_unfold dmem_iff dkeys_dset
              simp del: set_map split: list.splits if_splits)
      qed
      moreover obtain r0 w3 where g: "ray_get api w2 f = (r0, w3)" by fastforce
      ultimately have w3: "ray_get api w2 f = (r, w3)" "s' = (fst (finish api f i a ?k (p, w1)), w3)"
        using run rw res f q True s nr fin by (auto simp: get_next_unordered_def Let_def)
      have "issued w2 \<subseteq> issued w3" using fresh w3(1) unfolding fresh_api_def by blast
      moreover have "pool_ok issued (finish api f i a ?k (p, w1))"
        "mset (all_actors (fst (finish api f i a ?k (p, w1)))) = mset (all_actors p)"
        using finish_ok [OF fresh ok [unfolded s] f _ _ _ w(3), of ?k] ok s lt by (auto simp: pool_ok_def)
      ultimately show ?thesis using w3(2) s fin by (auto simp: pool_ok_def)
    qed
  qed
qed

section \<open>Reachable pools\<close>

inductive pool_step ::
  "('w, 'a, 'f, 'n, 'v, 'r) ray_api \<Rightarrow> ('w, 'a, 'f, 'n, 'v) pool_state
    \<Rightarrow> ('w, 'a, 'f, 'n, 'v) pool_state \<Rightarrow> bool" for api where
  step_submit: "pool_step api s (submit api fn v s)"
| step_get_next: "get_next api timeout s = (r, s') \<Longrightarrow> pool_step api s s'"
| step_unordered: "get_next_unordered api timeout s = (r, s') \<Longrightarrow> pool_step api s s'"
| step_pop: "pop_idle p = (x, p') \<Longrightarrow> pool_step api (p, w) (p', w)"
| step_push: "push a p = Inr p' \<Longrightarrow> pool_step api (p, w) (p', w)"

lemma pool_ok_idle:
  assumes "pool_ok issued (p, w)" and "distinct (xs @ busy_actors p)"
  shows "pool_ok issued (p\<lparr>idle_actors := xs\<rparr>, w)"
  using assms by (simp add: pool_ok_def all_actors_def busy_actors_def)

lemma pool_step_ok:
  assumes "pool_step api s s'" and "fresh_api api issued" and "pool_ok issued s"
  shows "pool_ok issued s'"
  using assms
proof (induction rule: pool_step.induct)
  case (step_submit s fn v)
  then show ?case by (simp add: submit_ok)
next
  case (step_get_next timeout s r s')
  then show ?case using get_next_ok by blast
next
  case (step_unordered timeout s r s')
  then show ?case using get_next_unordered_ok by blast
next
  case (step_pop p x p' w)
  have d: "distinct (idle_actors p @ busy_actors p)"
    using step_pop by (simp add: pool_ok_def all_actors_def)
  then have "distinct (butlast (idle_actors p) @ busy_actors p)"
    by (auto simp: distinct_butlast dest: in_set_butlastD)
  note pool_ok_idle [OF step_pop(3) this]
  then show ?case using step_pop(1,3) by (auto simp: pop_idle_def split: if_splits)
next
  case (step_push a p p' w)
  then have "distinct ((idle_actors p @ [a]) @ busy_actors p)"
    by (auto simp: push_def pool_ok_def all_actors_def split: if_splits)
  note pool_ok_idle [OF step_push(3) this]
  then show ?case using step_push(1) by (auto simp: push_def split: if_splits)
qed

interpretation pool: invariant_system
  "\<lambda>s. \<exists>actors w. distinct actors \<and> s = (init_pool actors, w)" "pool_step api"
  "\<lambda>s. fresh_api api issued \<longrightarrow> pool_ok issued s"
  for api :: "('w, 'a, 'f, 'n, 'v, 'r) ray_api" and issued
proof unfold_locales
  show "fresh_api api issued \<longrightarrow> pool_ok issued s"
    if "\<exists>actors w. distinct actors \<and> s = (init_pool actors, w)" for s :: "('w, 'a, 'f, 'n, 'v) pool_state"
    using that by (auto simp: init_pool_def pool_ok_def all_actors_def busy_actors_def)
qed (blast intro: pool_step_ok)

section \<open>Order of results\<close>

text \<open>The result of a future is the value \<open>val\<close> of the call that made it, whenever it is asked for.\<close>

definition results_api :: "('w, 'a, 'f, 'n, 'v, 'r) ray_api \<Rightarrow> ('n \<Rightarrow> 'v \<Rightarrow> 'r) \<Rightarrow> bool" where
  "results_api api val \<longleftrightarrow> (\<forall>w n a v f w' w''. remote_call api w n a v = (f, w')
     \<longrightarrow> fst (ray_get api w'' f) = Inr (val n v))"

text \<open>The running tasks in index order will give \<open>rs\<close>, the waiting ones \<open>ps\<close>.\<close>

definition promises ::
  "('w, 'a, 'f, 'n, 'v, 'r) ray_api \<Rightarrow> ('n \<Rightarrow> 'v \<Rightarrow> 'r) \<Rightarrow> 'r list \<Rightarrow> 'r list
    \<Rightarrow> ('a, 'f, 'n, 'v) actor_pool \<Rightarrow> bool" where
  "promises api val rs ps p \<longleftrightarrow>
     next_task_index p = next_return_index p + length rs \<and>
     set (dkeys (index_to_future p)) = {next_return_index p..<next_task_index p} \<and>
     (\<forall>j < length rs. \<exists>f. map_of (index_to_future p) (next_return_index p + j) = Some f \<and>
        (\<forall>w. fst (ray_get api w f) = Inr (rs ! j))) \<and>
     map (\<lambda>(n, v). val n v) (pending_submits p) = ps"

definition waiting_ok :: "('a, 'f, 'n, 'v) actor_pool \<Rightarrow> bool" where
  "waiting_ok p \<longleftrightarrow> (pending_submits p \<noteq> [] \<longrightarrow> idle_actors p = []) \<and> all_actors p \<noteq> []"

lemma promises_start:
  assumes "promises api val rs ps p" and "idle_actors p \<noteq> []" and "results_api api val"
  shows "promises api val (rs @ [val fn v]) ps (fst (submit api fn v (p, w)))"
proof -
  obtain f w' where r: "remote_call api w fn (last (idle_actors p)) v = (f, w')" by fastforce
  have f: "\<forall>w. fst (ray_get api w f) = Inr (val fn v)"
    using assms(3) r unfolding results_api_def by blast
  let ?d = "dset (index_to_future p) (next_task_index p) f"
  have at: "\<exists>g. map_of ?d (next_return_index p + j) = Some g \<and>
      (\<forall>w. fst (ray_get api w g) = Inr ((rs @ [val fn v]) ! j))" if "j < Suc (length rs)" for j
    using assms(1) f that by (cases "j = length rs") (auto simp: promises_def nth_append less_Suc_eq)
  have keys: "set (dkeys ?d) = {next_return_index p..<Suc (next_task_index p)}"
    using assms(1) by (auto simp: promises_def dkeys_dset simp del: set_map)
  show ?thesis
    using assms(1,2) r at keys by (simp add: submit_def promises_def del: set_map map_of_dset)
qed

lemma promises_release:
  assumes "promises api val (r # rs) ps p"
  shows "promises api val rs ps (release f (next_return_index p) a (next_return_index p + 1) p)"
proof -
  have "\<exists>f. map_of (ddel (index_to_future p) (next_return_index p)) (Suc (next_return_index p) + j) = Some f
      \<and> (\<forall>w. fst (ray_get api w f) = Inr (rs ! j))" if "j < length rs" for j
  proof -
    have "Suc j < length (r # rs)" using that by simp
    then obtain g where "map_of (index_to_future p) (next_return_index p + Suc j) = Some g"
      "\<forall>w. fst (ray_get api w g) = Inr ((r # rs) ! Suc j)"
      using assms unfolding promises_def by blast
    then show ?thesis by auto
  qed
  moreover have "set (dkeys (ddel (index_to_future p) (next_return_index p)))
      = {Suc (next_return_index p)..<next_task_index p}"
    using assms by (auto simp: promises_def dkeys_ddel simp del: set_map)
  ultimately show ?thesis
    using assms by (simp add: promises_def release_def del: set_map)
qed

lemma submit_promises:
  assumes "promises api val rs ps p" and "waiting_ok p" and "results_api api val"
  shows "\<exists>rs' ps'. promises api val rs' ps' (fst (submit api fn v (p, w))) \<and> rs' @ ps' = rs @ ps @ [val fn v]
     \<and> (pending_submits (fst (submit api fn v (p, w))) \<noteq> [] \<longrightarrow> idle_actors (fst (submit api fn v (p, w))) = [])"
proof (cases "idle_actors p = []")
  case True
  then show ?thesis
    using assms(1) by (intro exI [of _ rs] exI [of _ "ps @ [val fn v]"]) (auto simp: submit_def promises_def)
next
  case False
  then have "pending_submits p = []" using assms(2) by (auto simp: waiting_ok_def)
  moreover from this have "ps = []" using assms(1) by (simp add: promises_def)
  moreover have "pending_submits (fst (submit api fn v (p, w))) = pending_submits p"
    using False by (simp add: submit_def Let_def case_prod_unfold)
  ultimately show ?thesis
    using promises_start [OF assms(1) False assms(3), of fn v w]
    by (intro exI [of _ "rs @ [val fn v]"] exI [of _ "[]"]) simp
qed

lemma finish_promises:
  assumes pr: "promises api val (r # rs) ps p" and wt: "waiting_ok p" and res: "results_api api val"
  shows "\<exists>rs' ps'. promises api val rs' ps' (fst (finish api f (next_return_index p) a (next_return_index p + 1) (p, w)))
     \<and> rs' @ ps' = rs @ ps
     \<and> (pending_submits (fst (finish api f (next_return_index p) a (next_return_index p + 1) (p, w))) \<noteq> []
        \<longrightarrow> idle_actors (fst (finish api f (next_return_index p) a (next_return_index p + 1) (p, w))) = [])"
proof -
  let ?q = "release f (next_return_index p) a (next_return_index p + 1) p"
  have q: "promises api val rs ps ?q" by (rule promises_release [OF pr])
  show ?thesis
  proof (cases "pending_submits p")
    case Nil
    then have "finish api f (next_return_index p) a (next_return_index p + 1) (p, w) = (?q, w)"
      by (simp add: finish_def return_actor_release)
    then show ?thesis using q Nil by (intro exI [of _ rs] exI [of _ ps]) (simp add: release_def)
  next
    case (Cons x rest)
    obtain fn v where x: "x = (fn, v)" by (cases x)
    let ?q1 = "?q\<lparr>pending_submits := rest\<rparr>"
    have fin: "finish api f (next_return_index p) a (next_return_index p + 1) (p, w) = submit api fn v (?q1, w)"
      using Cons x by (simp add: finish_def return_actor_release)
    have idle: "idle_actors ?q1 = [a]" using wt Cons by (simp add: waiting_ok_def release_def)
    have ps: "ps = val fn v # map (\<lambda>(n, v). val n v) rest" using pr Cons x by (simp add: promises_def)
    have "promises api val rs (map (\<lambda>(n, v). val n v) rest) ?q1" using q by (simp add: promises_def)
    from promises_start [OF this _ res, of fn v w] idle
    have "promises api val (rs @ [val fn v]) (map (\<lambda>(n, v). val n v) rest) (fst (submit api fn v (?q1, w)))"
      by simp
    moreover have "idle_actors (fst (submit api fn v (?q1, w))) = []"
      using idle by (simp add: submit_def Let_def case_prod_unfold)
    ultimately show ?thesis
      unfolding fin using ps
      by (intro exI [of _ "rs @ [val fn v]"] exI [of _ "map (\<lambda>(n, v). val n v) rest"]) simp
  qed
qed

lemma pool_ok_running:
  assumes "pool_ok issued (p, w)"
  shows "future_to_actor p = [] \<longleftrightarrow> index_to_future p = []"
proof -
  have "(\<exists>x. x \<in> set (index_to_future p)) \<longleftrightarrow> (\<exists>y. y \<in> set (future_to_actor p))"
    using assms by (fastforce simp: pool_ok_def)
  then show ?thesis by (cases "index_to_future p"; cases "future_to_actor p") auto
qed

lemma map_loop_promises:
  assumes fresh: "fresh_api api issued" and res: "results_api api val"
    and "pool_ok issued (p, w)" and "promises api val rs ps p" and "waiting_ok p"
  shows "\<exists>s'. map_loop api (p, w) = (Inr (rs @ ps), s')"
  using assms(3-)
proof (induction "length (rs @ ps)" arbitrary: p w rs ps)
  case 0
  then have "rs = []" "ps = []" by auto
  then have "index_to_future p = []" using 0 by (auto simp: promises_def)
  then have "\<not> has_next p" using pool_ok_running [OF 0(2)] by (simp add: has_next_def)
  then show ?case using \<open>rs = []\<close> \<open>ps = []\<close> by (simp add: map_loop.simps)
next
  case (Suc n)
  have "rs \<noteq> []"
  proof
    assume rs: "rs = []"
    then have "index_to_future p = []" using Suc.prems(2) by (auto simp: promises_def)
    then have "busy_actors p = []" using pool_ok_running [OF Suc.prems(1)] by (simp add: busy_actors_def)
    moreover have "pending_submits p \<noteq> []" using Suc.prems(2) Suc.hyps(2) rs by (auto simp: promises_def)
    ultimately show False using Suc.prems(3) by (auto simp: waiting_ok_def all_actors_def)
  qed
  then obtain r rs1 where rs: "rs = r # rs1" by (cases rs) auto
  note pr = Suc.prems(2) [unfolded rs]
  have lt: "next_return_index p < next_task_index p" using pr by (simp add: promises_def)
  obtain f a where f: "map_of (index_to_future p) (next_return_index p) = Some f"
    "map_of (future_to_actor p) f = Some (next_return_index p, a)"
    by (rule pool_ok_next [OF Suc.prems(1) lt])
  have get: "fst (ray_get api w' f) = Inr r" for w'
  proof -
    obtain g where g: "map_of (index_to_future p) (next_return_index p + 0) = Some g"
      "\<forall>w. fst (ray_get api w g) = Inr ((r # rs1) ! 0)"
      using pr unfolding promises_def by blast
    then show ?thesis using f(1) by simp
  qed
  have hn: "has_next p" using f(2) by (auto simp: has_next_def)
  let ?s2 = "finish api f (next_return_index p) a (next_return_index p + 1) (p, w)"
  obtain w3 where g: "ray_get api (snd ?s2) f = (Inr r, w3)" by (metis get prod.collapse)
  have gn: "get_next api None (p, w) = (Inr r, (fst ?s2, w3))"
    using hn lt f g by (simp add: get_next_def take_next_finish Let_def)
  obtain rs' ps' where pr': "promises api val rs' ps' (fst ?s2)" "rs' @ ps' = rs1 @ ps"
    "pending_submits (fst ?s2) \<noteq> [] \<longrightarrow> idle_actors (fst ?s2) = []"
    using finish_promises [OF pr Suc.prems(3) res, of f a w] by blast
  have fin: "pool_ok issued ?s2" "mset (all_actors (fst ?s2)) = mset (all_actors p)"
    using finish_ok [OF fresh Suc.prems(1) f(2), of "next_return_index p + 1" w] lt by auto
  have "issued (snd ?s2) \<subseteq> issued w3" using fresh g unfolding fresh_api_def by blast
  then have ok3: "pool_ok issued (fst ?s2, w3)" using fin(1) by (cases ?s2) (auto simp: pool_ok_def)
  have wt3: "waiting_ok (fst ?s2)" using pr'(3) fin(2) Suc.prems(3) by (auto simp: waiting_ok_def)
  have "n = length (rs' @ ps')" using Suc.hyps(2) rs pr'(2) by simp
  from Suc.hyps(1) [OF this ok3 pr'(1) wt3] obtain s' where "map_loop api (fst ?s2, w3) = (Inr (rs' @ ps'), s')"
    by blast
  then show ?case using hn gn rs pr'(2) by (subst map_loop.simps) simp
qed

lemma submit_all_promises:
  assumes fresh: "fresh_api api issued" and res: "results_api api val"
    and "pool_ok issued (p, w)" and "promises api val rs ps p" and "waiting_ok p"
  shows "\<exists>p' w' rs' ps'. submit_all api fn vs (p, w) = (p', w') \<and> pool_ok issued (p', w')
     \<and> promises api val rs' ps' p' \<and> waiting_ok p' \<and> rs' @ ps' = rs @ ps @ map (val fn) vs"
  using assms(3-)
proof (induction vs arbitrary: p w rs ps)
  case Nil
  then show ?case by (auto simp: submit_all_def)
next
  case (Cons v vs)
  obtain p1 w1 where s1: "submit api fn v (p, w) = (p1, w1)" by fastforce
  note ok1 = submit_ok [OF fresh Cons.prems(1), of fn v, unfolded s1 fst_conv]
  obtain rs1 ps1 where 1: "promises api val rs1 ps1 p1" "rs1 @ ps1 = rs @ ps @ [val fn v]"
    "pending_submits p1 \<noteq> [] \<longrightarrow> idle_actors p1 = []"
    using submit_promises [OF Cons.prems(2,3) res, of fn v w] s1 by auto
  have "waiting_ok p1" using 1(3) ok1(2) Cons.prems(3) by (auto simp: waiting_ok_def)
  from Cons.IH [OF ok1(1) 1(1) this] obtain p' w' rs' ps' where
    "submit_all api fn vs (p1, w1) = (p', w')" "pool_ok issued (p', w')" "promises api val rs' ps' p'"
    "waiting_ok p'" "rs' @ ps' = rs1 @ ps1 @ map (val fn) vs" by blast
  moreover have "rs1 @ ps1 @ map (val fn) vs = rs @ ps @ map (val fn) (v # vs)"
    using arg_cong [OF 1(2), of "\<lambda>x. x @ map (val fn) vs"] by simp
  ultimately show ?case using s1 by (auto simp: submit_all_def)
qed

section \<open>Properties\<close>

definition ex_api :: "(nat, nat, nat \<times> nat, nat, nat, nat) ray_api" where
  "ex_api = \<lparr>remote_call = (\<lambda>w n a v. ((w, n * v), Suc w)), ray_wait = (\<lambda>w fs t. (take 1 fs, w)),
     ray_get = (\<lambda>w f. (Inr (snd f), w))\<rparr>"

lemma ex_api_ok: "fresh_api ex_api (\<lambda>w. {f. fst f < w})" "results_api ex_api (\<lambda>n v. n * v)"
  by (auto simp: fresh_api_def results_api_def ex_api_def dest: in_set_takeD)

text \<open>
  C11: \<open>list(pool.map(fn, values))\<close> returns, on a pool with at least one actor, one result per
  value and in the order of the values, whatever the number of actors and of waiting tasks.
\<close>

theorem map_in_order:
  assumes fresh: "fresh_api api issued" and res: "results_api api val"
    and "distinct actors" and "actors \<noteq> []"
  shows "\<exists>s'. pool_map api fn vs (init_pool actors, w) = (Inr (map (val fn) vs), s')"
proof -
  have init: "pool_ok issued (init_pool actors, w)" "promises api val [] [] (init_pool actors)"
    "waiting_ok (init_pool actors)"
    using assms(3,4) by (auto simp: pool_ok_def init_pool_def all_actors_def busy_actors_def
        promises_def waiting_ok_def)
  from submit_all_promises [OF fresh res init, of fn vs] obtain p' w' rs' ps' where
    s: "submit_all api fn vs (init_pool actors, w) = (p', w')" "pool_ok issued (p', w')"
      "promises api val rs' ps' p'" "waiting_ok p'" "rs' @ ps' = map (val fn) vs" by auto
  from map_loop_promises [OF fresh res s(2,3,4)] s(1,5) show ?thesis by (simp add: pool_map_def)
qed

theorem map_in_order_witness:
  "\<exists>s'. pool_map ex_api 2 [5, 6, 7] (init_pool [100, 101], 0) = (Inr [10, 12, 14], s')"
  using map_in_order [OF ex_api_ok, of "[100, 101]" 2 "[5, 6, 7]" 0] by simp

text \<open>
  In every reachable pool no actor is idle and busy at once, nor twice busy, and
  \<open>get_next\<close> finds the task it asks for: whenever a started task is next, its outcome is that
  of \<open>ray.get\<close> on that task's future, never a KeyError of the pool's own dictionaries.
\<close>

theorem pool_consistent:
  assumes "fresh_api api issued" and "distinct actors"
    and "reaches (pool_step api) (init_pool actors, w0) (p, w)"
  shows "distinct (idle_actors p @ busy_actors p)
    \<and> (has_next p \<and> next_return_index p < next_task_index p \<longrightarrow>
        (\<exists>f r s' w1 w2. map_of (index_to_future p) (next_return_index p) = Some f
           \<and> get_next api None (p, w) = (r, s') \<and> ray_get api w1 f = (r, w2)))"
proof -
  have "fresh_api api issued \<longrightarrow> pool_ok issued (p, w)"
    by (rule pool.reaches_invar [OF assms(3)]) (use assms(2) in blast)
  then have ok: "pool_ok issued (p, w)" using assms(1) by blast
  have "\<exists>f r s' w1 w2. map_of (index_to_future p) (next_return_index p) = Some f
      \<and> get_next api None (p, w) = (r, s') \<and> ray_get api w1 f = (r, w2)"
    if hn: "has_next p" and lt: "next_return_index p < next_task_index p"
  proof -
    obtain f a where f: "map_of (index_to_future p) (next_return_index p) = Some f"
      "map_of (future_to_actor p) f = Some (next_return_index p, a)"
      by (rule pool_ok_next [OF ok lt])
    obtain r s' where r: "take_next api f (p, w) = (r, s')" by (cases "take_next api f (p, w)")
    then show ?thesis
      using take_next_ok(3) [OF assms(1) ok f(2) lt r] f(1) hn lt by (auto simp: get_next_def)
  qed
  then show ?thesis using ok by (auto simp: pool_ok_def all_actors_def)
qed

theorem pool_consistent_witness:
  "distinct (idle_actors (fst (submit ex_api 1 5 (init_pool [100, 101], 0)))
     @ busy_actors (fst (submit ex_api 1 5 (init_pool [100, 101], 0))))"
proof -
  obtain p w where s: "submit ex_api 1 5 (init_pool [100, 101], 0) = (p, w)" by fastforce
  have "reaches (pool_step ex_api) (init_pool [100, 101], 0) (p, w)"
    unfolding s [symmetric] by (rule reaches_one) (rule step_submit)
  from pool_consistent [OF ex_api_ok(1) _ this] show ?thesis unfolding s fst_conv by simp
qed


end
