(* ===== verification/Stateful.thy ===== *)
theory Stateful
  imports Ray_Prelude
begin

text \<open>
  Methods that mutate an object and may raise: a program maps a state to a result and the state it
  leaves behind, so that what was mutated before an exception stays mutated. \<open>bindS\<close>
  sequences, \<open>forS\<close> is a \<open>for\<close> loop over a list computed before the loop starts.

  \<open>wp m Q E s\<close> is the weakest precondition of \<open>m\<close>: started in \<open>s\<close> it
  either returns with \<open>Q\<close> or raises with \<open>E\<close>. With \<open>E\<close> constantly false it
  states that the program returns, with \<open>E\<close> constantly true it is partial correctness. The
  equations in \<open>wp_simps\<close> push it through the program constructors; \<open>wp_forS\<close> is
  the invariant rule for loops.
\<close>

named_theorems wp_simps \<open>weakest preconditions of the program constructors\<close>

type_synonym ('s, 'a) prog = "'s \<Rightarrow> 'a result \<times> 's"

definition retS :: "'a \<Rightarrow> ('s, 'a) prog" where
  "retS x s = (Inr x, s)"

definition raiseS :: "py_error \<Rightarrow> ('s, 'a) prog" where
  "raiseS e s = (Inl e, s)"

definition bindS :: "('s, 'a) prog \<Rightarrow> ('a \<Rightarrow> ('s, 'b) prog) \<Rightarrow> ('s, 'b) prog" where
  "bindS m f s = (case m s of (Inl e, t) \<Rightarrow> (Inl e, t) | (Inr x, t) \<Rightarrow> f x t)"

definition thenS :: "('s, 'a) prog \<Rightarrow> ('s, 'b) prog \<Rightarrow> ('s, 'b) prog" where
  "thenS m n = bindS m (\<lambda>_. n)"

definition getS :: "('s, 's) prog" where
  "getS s = (Inr s, s)"

definition modifyS :: "('s \<Rightarrow> 's) \<Rightarrow> ('s, unit) prog" where
  "modifyS f s = (Inr (), f s)"

definition assertS :: "bool \<Rightarrow> ('s, unit) prog" where
  "assertS b = (if b then retS () else raiseS AssertionError)"

fun forS :: "('x \<Rightarrow> ('s, unit) prog) \<Rightarrow> 'x list \<Rightarrow> ('s, unit) prog" where
  "forS f [] = retS ()"
| "forS f (x # xs) = thenS (f x) (forS f xs)"

definition wp ::
  "('s, 'a) prog \<Rightarrow> ('a \<Rightarrow> 's \<Rightarrow> bool) \<Rightarrow> (py_error \<Rightarrow> 's \<Rightarrow> bool) \<Rightarrow> 's \<Rightarrow> bool" where
  "wp m Q E s = (case m s of (Inl e, t) \<Rightarrow> E e t | (Inr x, t) \<Rightarrow> Q x t)"

abbreviation returns :: "('s, 'a) prog \<Rightarrow> ('a \<Rightarrow> 's \<Rightarrow> bool) \<Rightarrow> 's \<Rightarrow> bool" where
  "returns m Q \<equiv> wp m Q (\<lambda>_ _. False)"

section \<open>Evaluation\<close>

lemma getS_apply [simp]: "getS s = (Inr s, s)"
  by (simp add: getS_def)

lemma modifyS_apply [simp]: "modifyS f s = (Inr (), f s)"
  by (simp add: modifyS_def)

lemma bindS_Inr: "m s = (Inr x, t) \<Longrightarrow> bindS m f s = f x t"
  by (simp add: bindS_def)

lemma bindS_Inl: "m s = (Inl e, t) \<Longrightarrow> bindS m f s = (Inl e, t)"
  by (simp add: bindS_def)

lemma bindS_cases:
  obtains e t where "m s = (Inl e, t)" and "bindS m f s = (Inl e, t)"
  | x t where "m s = (Inr x, t)" and "bindS m f s = f x t"
  by (cases "m s"; cases "fst (m s)") (auto simp: bindS_def)

lemma thenS_returns: "thenS m n t = (Inr x, t') \<Longrightarrow> \<exists>y t1. m t = (Inr y, t1) \<and> n t1 = (Inr x, t')"
  by (simp add: thenS_def bindS_def split: prod.splits sum.splits)

section \<open>Weakest preconditions\<close>

lemma wp_retS [wp_simps]: "wp (retS x) Q E = Q x"
  by (rule ext) (simp add: wp_def retS_def)

lemma wp_raiseS [wp_simps]: "wp (raiseS e) Q E = E e"
  by (rule ext) (simp add: wp_def raiseS_def)

lemma wp_getS [wp_simps]: "wp getS Q E s \<longleftrightarrow> Q s s"
  by (simp add: wp_def)

lemma wp_modifyS [wp_simps]: "wp (modifyS f) Q E s \<longleftrightarrow> Q () (f s)"
  by (simp add: wp_def)

lemma wp_bindS [wp_simps]: "wp (bindS m f) Q E = wp m (\<lambda>x. wp (f x) Q E) E"
  by (rule ext) (auto simp: wp_def bindS_def split: prod.splits sum.splits)

lemma wp_thenS [wp_simps]: "wp (thenS m n) Q E = wp m (\<lambda>_. wp n Q E) E"
  by (simp add: thenS_def wp_bindS)

lemma wp_assertS [wp_simps]: "wp (assertS b) Q E s \<longleftrightarrow> (if b then Q () s else E AssertionError s)"
  by (simp add: assertS_def wp_simps)

lemma wp_if [wp_simps]: "wp (if b then m else n) Q E s \<longleftrightarrow> (if b then wp m Q E s else wp n Q E s)"
  by simp

lemma wp_mono:
  assumes "wp m Q E s" and "\<And>x t. Q x t \<Longrightarrow> Q' x t" and "\<And>e t. E e t \<Longrightarrow> E' e t"
  shows "wp m Q' E' s"
  using assms by (auto simp: wp_def split: prod.splits sum.splits)

lemma wp_conj: "wp m Q E s \<Longrightarrow> wp m Q' E' s \<Longrightarrow> wp m (\<lambda>x t. Q x t \<and> Q' x t) (\<lambda>e t. E e t \<and> E' e t) s"
  by (auto simp: wp_def split: prod.splits sum.splits)

lemma returns_iff: "returns m Q s \<longleftrightarrow> (\<exists>x t. m s = (Inr x, t) \<and> Q x t)"
  by (auto simp: wp_def split: prod.splits sum.splits)

lemma returnsE:
  assumes "returns m Q s"
  obtains x t where "m s = (Inr x, t)" and "Q x t"
  using assms by (auto simp: returns_iff)

lemma wp_forS:
  assumes "I [] s"
    and "\<And>ys x zs t. xs = ys @ x # zs \<Longrightarrow> I ys t \<Longrightarrow> wp (f x) (\<lambda>_. I (ys @ [x])) E t"
    and "\<And>t. I xs t \<Longrightarrow> Q () t"
  shows "wp (forS f xs) Q E s"
proof -
  have "wp (forS f zs) Q E t" if "xs = ys @ zs" "I ys t" for ys zs t
    using that
  proof (induction zs arbitrary: ys t)
    case Nil
    then show ?case by (simp add: wp_simps assms(3))
  next
    case (Cons x zs)
    have "wp (f x) (\<lambda>_. I (ys @ [x])) E t" using assms(2) Cons.prems by blast
    then have "wp (f x) (\<lambda>_. wp (forS f zs) Q E) E t"
      by (rule wp_mono) (use Cons.IH [of "ys @ [x]"] Cons.prems(1) in simp_all)
    then show ?case by (simp add: wp_simps)
  qed
  then show ?thesis using assms(1) by simp
qed

section \<open>Further program constructors\<close>

text \<open>
  \<open>liftS\<close> embeds a result, \<open>quietS\<close> runs a program and ignores the exception it may
  raise, \<open>foldS\<close> is a loop with an accumulator.
\<close>

definition liftS :: "'a result \<Rightarrow> ('s, 'a) prog" where
  "liftS r s = (r, s)"

definition quietS :: "('s, unit) prog \<Rightarrow> ('s, unit) prog" where
  "quietS m s = (Inr (), snd (m s))"

fun foldS :: "('a \<Rightarrow> 'x \<Rightarrow> ('s, 'a) prog) \<Rightarrow> 'a \<Rightarrow> 'x list \<Rightarrow> ('s, 'a) prog" where
  "foldS f a [] = retS a"
| "foldS f a (x # xs) = bindS (f a x) (\<lambda>a. foldS f a xs)"

lemma wp_liftS [wp_simps]: "wp (liftS r) Q E s \<longleftrightarrow> (case r of Inl e \<Rightarrow> E e s | Inr x \<Rightarrow> Q x s)"
  by (simp add: wp_def liftS_def)

lemma wp_quietS [wp_simps]: "wp (quietS m) Q E = wp m (\<lambda>_. Q ()) (\<lambda>_. Q ())"
  by (rule ext) (auto simp: wp_def quietS_def split: prod.splits sum.splits)

lemma wp_foldS:
  assumes "I [] a s"
    and "\<And>ys x zs b t. xs = ys @ x # zs \<Longrightarrow> I ys b t \<Longrightarrow> wp (f b x) (I (ys @ [x])) E t"
    and "\<And>b t. I xs b t \<Longrightarrow> Q b t"
  shows "wp (foldS f a xs) Q E s"
proof -
  have "wp (foldS f b zs) Q E t" if "xs = ys @ zs" "I ys b t" for ys zs b t
    using that
  proof (induction zs arbitrary: ys b t)
    case Nil
    then show ?case by (simp add: wp_simps assms(3))
  next
    case (Cons x zs)
    have "wp (f b x) (I (ys @ [x])) E t" using assms(2) Cons.prems by blast
    then have "wp (f b x) (\<lambda>b. wp (foldS f b zs) Q E) E t"
      by (rule wp_mono) (use Cons.IH [of "ys @ [x]"] Cons.prems(1) in simp_all)
    then show ?case by (simp add: wp_simps)
  qed
  then show ?thesis using assms(1) by simp
qed

end
