(* ===== verification/Long_Poll.thy ===== *)
theory Long_Poll
  imports Stateful
begin

text \<open>
  \<open>serve/long_poll.py\<close>: the controller publishes objects under keys, and clients are sent
  the current object of every key whose snapshot identifier differs from theirs.

  The host keeps per key an identifier and an object; the random start of an identifier is an
  argument. A call of \<open>listen_for_change\<close> runs up to its \<open>await\<close>: it either
  answers at once or registers one event per watched key, and \<open>listen_resume\<close> is the rest,
  entered with one of the events that are set, or with none after the timeout. Events are numbers
  and \<open>lp_fired\<close> holds those that are set. The client runs its callbacks at once or hands
  them to an event loop; \<open>lc_delivered\<close> logs what the callbacks were given. A poll leaves
  the client through \<open>lc_polls\<close>, the identifiers sent to the host.
\<close>

datatype lp_key = RUNNING_REPLICAS string | ROUTE_TABLE

record 'o updated_object =
  object_snapshot :: 'o
  snapshot_id :: int

record 'o long_poll_host =
  lp_snapshot_ids :: "(lp_key, int) dict"
  lp_object_snapshots :: "(lp_key, 'o) dict"
  lp_notifier_events :: "(lp_key, nat list) dict"
  lp_fired :: "nat list"
  lp_next_event :: nat

definition init_long_poll_host :: "'o long_poll_host" where
  "init_long_poll_host =
     \<lparr>lp_snapshot_ids = [], lp_object_snapshots = [], lp_notifier_events = [], lp_fired = [],
      lp_next_event = 0\<rparr>"

text \<open>\<open>randint\<close> is what the defaultdict draws when the key is new.\<close>

definition notify_changed :: "int \<Rightarrow> lp_key \<Rightarrow> 'o \<Rightarrow> 'o long_poll_host \<Rightarrow> 'o long_poll_host" where
  "notify_changed randint object_key updated_object h =
     (let h1 = h\<lparr>lp_snapshot_ids := dset (lp_snapshot_ids h) object_key
                   (dget_or (lp_snapshot_ids h) object_key randint + 1),
                 lp_object_snapshots := dset (lp_object_snapshots h) object_key updated_object\<rparr>
      in if dmem object_key (lp_notifier_events h)
         then h1\<lparr>lp_fired := lp_fired h @ dget_or (lp_notifier_events h) object_key [],
                 lp_notifier_events := ddel (lp_notifier_events h) object_key\<rparr>
         else h1)"

definition current_object :: "lp_key \<Rightarrow> 'o long_poll_host \<Rightarrow> 'o updated_object result" where
  "current_object key h =
     bindE (dindex (lp_object_snapshots h) key) (\<lambda>snapshot.
     bindE (dindex (lp_snapshot_ids h) key) (\<lambda>i.
     Inr \<lparr>object_snapshot = snapshot, snapshot_id = i\<rparr>))"

definition client_outdated_keys ::
  "(lp_key, int) dict \<Rightarrow> 'o long_poll_host \<Rightarrow> (lp_key, 'o updated_object) dict result" where
  "client_outdated_keys keys_to_snapshot_ids h =
     (let existent_keys = filter (\<lambda>key. dmem key (lp_snapshot_ids h)) (dkeys keys_to_snapshot_ids);
          outdated = filter (\<lambda>key. map_of (lp_snapshot_ids h) key \<noteq> map_of keys_to_snapshot_ids key)
                       existent_keys
      in mapE (\<lambda>key. bindE (current_object key h) (\<lambda>u. Inr (key, u))) outdated)"

definition register_event ::
  "lp_key \<Rightarrow> (nat, lp_key) dict \<times> 'o long_poll_host \<Rightarrow> (nat, lp_key) dict \<times> 'o long_poll_host" where
  "register_event key = (\<lambda>(tasks, h).
     (dset tasks (lp_next_event h) key,
      h\<lparr>lp_notifier_events := dset (lp_notifier_events h) key
           (lp_next_event h # dget_or (lp_notifier_events h) key []),
        lp_next_event := lp_next_event h + 1\<rparr>))"

datatype 'o listen_outcome = Answer "(lp_key, 'o updated_object) dict" | Await "(nat, lp_key) dict"

definition listen_for_change ::
  "(lp_key, int) dict \<Rightarrow> ('o long_poll_host, 'o listen_outcome) prog" where
  "listen_for_change keys_to_snapshot_ids h =
     (case client_outdated_keys keys_to_snapshot_ids h of
        Inl e \<Rightarrow> (Inl e, h)
      | Inr outdated \<Rightarrow>
          if length outdated > 0 then (Inr (Answer outdated), h)
          else let (tasks, h') = fold register_event (dkeys keys_to_snapshot_ids) ([], h)
               in (Inr (Await tasks), h'))"

text \<open>\<open>done_event\<close> is the task \<open>done.pop()\<close> picks, \<open>None\<close> when none finished.\<close>

definition listen_resume ::
  "(nat, lp_key) dict \<Rightarrow> nat option \<Rightarrow> 'o long_poll_host \<Rightarrow> (lp_key, 'o updated_object) dict result" where
  "listen_resume tasks done_event h =
     (case done_event of
        None \<Rightarrow> Inl TimeoutError
      | Some ev \<Rightarrow>
          bindE (dindex tasks ev) (\<lambda>key.
          bindE (current_object key h) (\<lambda>u. Inr [(key, u)])))"

section \<open>The client\<close>

datatype loop_mode = NoLoop | LoopRunning | LoopClosed

record 'o long_poll_client =
  lc_keys :: "lp_key list"
  lc_event_loop :: loop_mode
  lc_snapshot_ids :: "(lp_key, int) dict"
  lc_object_snapshots :: "(lp_key, 'o) dict"
  lc_callbacks_processed_count :: nat
  lc_is_running :: bool
  lc_polls :: "(lp_key, int) dict list"
  lc_scheduled :: "(lp_key \<times> 'o \<times> nat) list"
  lc_delivered :: "(lp_key \<times> 'o) list"

definition poll_next :: "'o long_poll_client \<Rightarrow> 'o long_poll_client" where
  "poll_next c = c\<lparr>lc_polls := lc_polls c @ [lc_snapshot_ids c]\<rparr>"

definition reset_client :: "'o long_poll_client \<Rightarrow> 'o long_poll_client" where
  "reset_client c =
     poll_next (c\<lparr>lc_snapshot_ids := map (\<lambda>key. (key, - 1)) (lc_keys c), lc_object_snapshots := [],
                  lc_callbacks_processed_count := 0\<rparr>)"

definition init_long_poll_client ::
  "lp_key list \<Rightarrow> loop_mode \<Rightarrow> 'o long_poll_client result" where
  "init_long_poll_client key_listeners call_in_event_loop =
     bindE (assertE (length key_listeners > 0)) (\<lambda>_.
     Inr ((reset_client \<lparr>lc_keys = key_listeners, lc_event_loop = call_in_event_loop,
             lc_snapshot_ids = [], lc_object_snapshots = [], lc_callbacks_processed_count = 0,
             lc_is_running = False, lc_polls = [], lc_scheduled = [], lc_delivered = []\<rparr>)
          \<lparr>lc_is_running := True\<rparr>))"

definition on_callback_completed :: "nat \<Rightarrow> 'o long_poll_client \<Rightarrow> 'o long_poll_client" where
  "on_callback_completed trigger_at c =
     (let n = lc_callbacks_processed_count c + 1
      in if n = trigger_at then poll_next (c\<lparr>lc_callbacks_processed_count := 0\<rparr>)
         else c\<lparr>lc_callbacks_processed_count := n\<rparr>)"

definition chained :: "lp_key \<Rightarrow> 'o \<Rightarrow> nat \<Rightarrow> 'o long_poll_client \<Rightarrow> 'o long_poll_client" where
  "chained key arg trigger_at c =
     on_callback_completed trigger_at (c\<lparr>lc_delivered := lc_delivered c @ [(key, arg)]\<rparr>)"

definition process_one ::
  "nat \<Rightarrow> 'o long_poll_client \<Rightarrow> lp_key \<times> 'o updated_object \<Rightarrow> 'o long_poll_client result" where
  "process_one trigger_at c = (\<lambda>(key, update).
     let c1 = c\<lparr>lc_object_snapshots := dset (lc_object_snapshots c) key (object_snapshot update),
                lc_snapshot_ids := dset (lc_snapshot_ids c) key (snapshot_id update)\<rparr>
     in if key \<notin> set (lc_keys c) then Inl KeyError
        else case lc_event_loop c of
          NoLoop \<Rightarrow> Inr (chained key (object_snapshot update) trigger_at c1)
        | LoopRunning \<Rightarrow> Inr (c1\<lparr>lc_scheduled := lc_scheduled c @ [(key, object_snapshot update, trigger_at)]\<rparr>)
        | LoopClosed \<Rightarrow> Inr (c1\<lparr>lc_is_running := False\<rparr>))"

datatype 'o poll_reply =
    Updates "(lp_key, 'o updated_object) dict"
  | RayActorError
  | ConnectionFailed
  | RayTaskError

definition process_update :: "'o poll_reply \<Rightarrow> 'o long_poll_client \<Rightarrow> 'o long_poll_client result" where
  "process_update updates c =
     (case updates of
        RayActorError \<Rightarrow> Inr (c\<lparr>lc_is_running := False\<rparr>)
      | ConnectionFailed \<Rightarrow> Inr (c\<lparr>lc_is_running := False\<rparr>)
      | RayTaskError \<Rightarrow> Inr (poll_next c)
      | Updates us \<Rightarrow> foldE (process_one (length us)) c us)"

text \<open>The event loop runs the oldest scheduled callback.\<close>

definition run_scheduled :: "'o long_poll_client \<Rightarrow> 'o long_poll_client" where
  "run_scheduled c = (case lc_scheduled c of [] \<Rightarrow> c
     | (key, arg, trigger_at) # rest \<Rightarrow> chained key arg trigger_at (c\<lparr>lc_scheduled := rest\<rparr>))"

section \<open>Invariant of the host\<close>

definition host_ok :: "'o long_poll_host \<Rightarrow> bool" where
  "host_ok h \<longleftrightarrow>
     wf_dict (lp_snapshot_ids h) \<and> set (dkeys (lp_snapshot_ids h)) = set (dkeys (lp_object_snapshots h))
     \<and> (\<forall>k i. map_of (lp_snapshot_ids h) k = Some i \<longrightarrow> 0 < i)"

lemma host_ok_init [simp]: "host_ok init_long_poll_host"
  by (simp add: host_ok_def init_long_poll_host_def)

lemma notify_fields [simp]:
  "lp_snapshot_ids (notify_changed r k ob h) = dset (lp_snapshot_ids h) k (dget_or (lp_snapshot_ids h) k r + 1)"
  "lp_object_snapshots (notify_changed r k ob h) = dset (lp_object_snapshots h) k ob"
  by (simp_all add: notify_changed_def Let_def)

lemma notify_host_ok:
  assumes "host_ok h" and "0 \<le> r"
  shows "host_ok (notify_changed r k ob h)"
proof -
  have "0 \<le> dget_or (lp_snapshot_ids h) k r"
    using assms by (auto simp: dget_or_def host_ok_def split: option.splits intro: less_imp_le)
  then show ?thesis
    using assms by (auto simp: host_ok_def dkeys_dset simp del: set_map)
qed

lemma register_fields:
  "lp_snapshot_ids (snd (register_event k th)) = lp_snapshot_ids (snd th)"
  "lp_object_snapshots (snd (register_event k th)) = lp_object_snapshots (snd th)"
  by (simp_all add: register_event_def case_prod_unfold)

lemma register_all_fields:
  "lp_snapshot_ids (snd (fold register_event ks th)) = lp_snapshot_ids (snd th)"
  "lp_object_snapshots (snd (fold register_event ks th)) = lp_object_snapshots (snd th)"
  by (induction ks arbitrary: th) (simp_all add: register_fields)

lemma listen_fields:
  assumes "listen_for_change ids h = (res, h')"
  shows "lp_snapshot_ids h' = lp_snapshot_ids h" and "lp_object_snapshots h' = lp_object_snapshots h"
  using assms register_all_fields [of "dkeys ids" "([], h)"]
  by (auto simp: listen_for_change_def Let_def split: sum.splits if_splits prod.splits)

lemma current_object_eq:
  assumes "host_ok h" and "map_of (lp_snapshot_ids h) k = Some i"
  shows "\<exists>v. map_of (lp_object_snapshots h) k = Some v
           \<and> current_object k h = Inr \<lparr>object_snapshot = v, snapshot_id = i\<rparr>"
proof -
  have "k \<in> set (dkeys (lp_object_snapshots h))"
    using assms by (metis host_ok_def map_of_eq_None_iff option.distinct(1) set_map)
  then obtain v where "map_of (lp_object_snapshots h) k = Some v"
    by (metis map_of_eq_None_iff not_Some_eq set_map)
  then show ?thesis using assms(2) by (simp add: current_object_def)
qed

lemma outdated_eq:
  assumes "host_ok h"
  shows "client_outdated_keys ids h = Inr (map (\<lambda>k. (k, \<lparr>object_snapshot = the (map_of (lp_object_snapshots h) k),
      snapshot_id = the (map_of (lp_snapshot_ids h) k)\<rparr>))
    (filter (\<lambda>k. dmem k (lp_snapshot_ids h) \<and> map_of (lp_snapshot_ids h) k \<noteq> map_of ids k) (dkeys ids)))"
proof -
  have "mapE (\<lambda>k. bindE (current_object k h) (\<lambda>u. Inr (k, u))) ks = Inr (map (\<lambda>k. (k,
      \<lparr>object_snapshot = the (map_of (lp_object_snapshots h) k), snapshot_id = the (map_of (lp_snapshot_ids h) k)\<rparr>)) ks)"
    if "\<forall>k \<in> set ks. dmem k (lp_snapshot_ids h)" for ks
    using that
  proof (induction ks)
    case (Cons k ks)
    then obtain i where i: "map_of (lp_snapshot_ids h) k = Some i" by (auto simp: dmem_def)
    obtain v where v: "map_of (lp_object_snapshots h) k = Some v"
      "current_object k h = Inr \<lparr>object_snapshot = v, snapshot_id = i\<rparr>"
      using current_object_eq [OF assms i] by blast
    show ?case using Cons i v by simp
  qed simp
  then show ?thesis
    by (simp add: client_outdated_keys_def Let_def filter_filter conj_commute)
qed

section \<open>What a client knows\<close>

text \<open>
  A pair of identifier and object for a key is current when the identifier is not ahead of the
  host's and, if it equals the host's, the object is the host's.
\<close>

definition current_pair :: "'o long_poll_host \<Rightarrow> lp_key \<Rightarrow> int \<Rightarrow> 'o \<Rightarrow> bool" where
  "current_pair h k i v \<longleftrightarrow> (case map_of (lp_snapshot_ids h) k of None \<Rightarrow> False
     | Some j \<Rightarrow> i \<le> j \<and> (i = j \<longrightarrow> map_of (lp_object_snapshots h) k = Some v))"

definition reply_ok :: "'o long_poll_host \<Rightarrow> (lp_key, 'o updated_object) dict \<Rightarrow> bool" where
  "reply_ok h us \<longleftrightarrow> (\<forall>(k, u) \<in> set us. current_pair h k (snapshot_id u) (object_snapshot u))"

definition client_ok :: "'o long_poll_host \<Rightarrow> 'o long_poll_client \<Rightarrow> bool" where
  "client_ok h c \<longleftrightarrow>
     set (dkeys (lc_snapshot_ids c)) = set (lc_keys c)
     \<and> (\<forall>k i. map_of (lc_snapshot_ids c) k = Some i \<longrightarrow>
          i = - 1 \<or> (\<exists>v. map_of (lc_object_snapshots c) k = Some v \<and> current_pair h k i v))"

lemma current_pair_notify:
  assumes "current_pair h k i v"
  shows "current_pair (notify_changed r k' ob h) k i v"
  using assms by (auto simp: current_pair_def dget_or_def split: option.splits)

lemma reply_ok_notify: "reply_ok h us \<Longrightarrow> reply_ok (notify_changed r k ob h) us"
  by (auto simp: reply_ok_def intro: current_pair_notify)

lemma client_ok_notify: "client_ok h c \<Longrightarrow> client_ok (notify_changed r k ob h) c"
  unfolding client_ok_def by (metis current_pair_notify)

lemma current_pair_listen:
  "listen_for_change ids h = (res, h') \<Longrightarrow> current_pair h' k i v = current_pair h k i v"
  using listen_fields [of ids h res h'] by (simp add: current_pair_def split: option.split)

lemma client_ok_listen: "listen_for_change ids h = (res, h') \<Longrightarrow> client_ok h' c = client_ok h c"
  by (simp add: client_ok_def current_pair_listen)

lemma reply_ok_listen: "listen_for_change ids h = (res, h') \<Longrightarrow> reply_ok h' us = reply_ok h us"
  by (simp add: reply_ok_def current_pair_listen)

lemma answer_ok:
  assumes "host_ok h" and "listen_for_change ids h = (Inr (Answer us), h')"
  shows "reply_ok h us"
proof -
  have "client_outdated_keys ids h = Inr us"
    using assms(2) by (auto simp: listen_for_change_def Let_def split: sum.splits if_splits prod.splits)
  then have us: "us = map (\<lambda>k. (k, \<lparr>object_snapshot = the (map_of (lp_object_snapshots h) k),
      snapshot_id = the (map_of (lp_snapshot_ids h) k)\<rparr>))
    (filter (\<lambda>k. dmem k (lp_snapshot_ids h) \<and> map_of (lp_snapshot_ids h) k \<noteq> map_of ids k) (dkeys ids))"
    using outdated_eq [OF assms(1), of ids] by simp
  have "current_pair h k (the (map_of (lp_snapshot_ids h) k)) (the (map_of (lp_object_snapshots h) k))"
    if k: "dmem k (lp_snapshot_ids h)" for k
  proof -
    obtain i where i: "map_of (lp_snapshot_ids h) k = Some i" using k by (auto simp: dmem_def)
    then show ?thesis using current_object_eq [OF assms(1) i] by (auto simp: current_pair_def)
  qed
  then show ?thesis by (auto simp: us reply_ok_def)
qed

lemma resume_ok:
  assumes "listen_resume tasks ev h = Inr us"
  shows "reply_ok h us"
  using assms
  by (auto simp: listen_resume_def current_object_def reply_ok_def current_pair_def result_simps
      split: option.splits)

section \<open>Processing a reply\<close>

lemma poll_next_fields [simp]:
  "lc_keys (poll_next c) = lc_keys c" "lc_snapshot_ids (poll_next c) = lc_snapshot_ids c"
  "lc_object_snapshots (poll_next c) = lc_object_snapshots c"
  by (simp_all add: poll_next_def)

lemma chained_fields [simp]:
  "lc_keys (chained k v n c) = lc_keys c" "lc_snapshot_ids (chained k v n c) = lc_snapshot_ids c"
  "lc_object_snapshots (chained k v n c) = lc_object_snapshots c"
  by (simp_all add: chained_def on_callback_completed_def Let_def)

lemma run_scheduled_fields [simp]:
  "lc_keys (run_scheduled c) = lc_keys c" "lc_snapshot_ids (run_scheduled c) = lc_snapshot_ids c"
  "lc_object_snapshots (run_scheduled c) = lc_object_snapshots c"
  by (simp_all add: run_scheduled_def split: list.split)

lemma process_one_Inr:
  assumes "process_one n c (k, u) = Inr c'"
  shows "k \<in> set (lc_keys c)" and "lc_keys c' = lc_keys c"
    and "lc_snapshot_ids c' = dset (lc_snapshot_ids c) k (snapshot_id u)"
    and "lc_object_snapshots c' = dset (lc_object_snapshots c) k (object_snapshot u)"
  using assms by (auto simp: process_one_def Let_def split: if_splits loop_mode.splits)

lemma process_one_total:
  "k \<in> set (lc_keys c) \<Longrightarrow> \<exists>c'. process_one n c (k, u) = Inr c'"
  by (simp add: process_one_def Let_def split: loop_mode.split)

lemma process_one_ok:
  assumes "client_ok h c" and "current_pair h k (snapshot_id u) (object_snapshot u)"
    and "process_one n c (k, u) = Inr c'"
  shows "client_ok h c'"
  using assms(1,2) process_one_Inr [OF assms(3)]
  by (auto simp: client_ok_def dkeys_dset insert_absorb simp del: set_map)

lemma process_update_ok:
  assumes "client_ok h c" and "reply_ok h us" and "process_update (Updates us) c = Inr c'"
  shows "client_ok h c'"
proof (rule foldE_invariant [where P = "client_ok h" and f = "process_one (length us)" and xs = us])
  show "client_ok h c" by fact
  show "foldE (process_one (length us)) c us = Inr c'" using assms(3) by (simp add: process_update_def)
  fix d ku d' assume "client_ok h d" "ku \<in> set us" "process_one (length us) d ku = Inr d'"
  moreover obtain k u where "ku = (k, u)" by (cases ku)
  moreover have "\<forall>(k, u) \<in> set us. current_pair h k (snapshot_id u) (object_snapshot u)"
    using assms(2) by (simp add: reply_ok_def)
  ultimately show "client_ok h d'" using process_one_ok [of h d k u] by fastforce
qed

text \<open>Processing an answer stores the given objects and leaves the other keys alone.\<close>

lemma process_fold:
  assumes "fst ` set us \<subseteq> set (lc_keys c)"
    and "\<forall>(k, u) \<in> set us. Some (object_snapshot u) = f k"
  shows "\<exists>c'. foldE (process_one n) c us = Inr c' \<and> (\<forall>k. map_of (lc_object_snapshots c') k =
     (if k \<in> fst ` set us then f k else map_of (lc_object_snapshots c) k))"
  using assms
proof (induction us arbitrary: c)
  case Nil
  then show ?case by simp
next
  case (Cons ku us)
  obtain k u where ku: "ku = (k, u)" by (cases ku)
  obtain c1 where c1: "process_one n c (k, u) = Inr c1"
    using process_one_total Cons.prems(1) ku by fastforce
  note f = process_one_Inr [OF c1]
  obtain c' where "foldE (process_one n) c1 us = Inr c'"
    "\<forall>k. map_of (lc_object_snapshots c') k =
       (if k \<in> fst ` set us then f k else map_of (lc_object_snapshots c1) k)"
    using Cons.IH [of c1] Cons.prems f(2) ku by auto
  then show ?case using c1 ku f(4) Cons.prems(2) by auto
qed

section \<open>Host and client together\<close>

text \<open>
  A state holds the host, the client, the suspended calls of \<open>listen_for_change\<close> and the
  replies under way. Publications, polls and deliveries interleave arbitrarily.
\<close>

record 'o lp_system =
  sys_host :: "'o long_poll_host"
  sys_client :: "'o long_poll_client"
  sys_suspended :: "(nat, lp_key) dict list"
  sys_replies :: "(lp_key, 'o updated_object) dict list"

inductive lp_step :: "'o lp_system \<Rightarrow> 'o lp_system \<Rightarrow> bool" where
  lp_notify: "0 \<le> r \<Longrightarrow> lp_step s (s\<lparr>sys_host := notify_changed r k ob (sys_host s)\<rparr>)"
| lp_answer: "ids \<in> set (lc_polls (sys_client s)) \<Longrightarrow>
    listen_for_change ids (sys_host s) = (Inr (Answer us), h) \<Longrightarrow>
    lp_step s (s\<lparr>sys_host := h, sys_replies := us # sys_replies s\<rparr>)"
| lp_await: "ids \<in> set (lc_polls (sys_client s)) \<Longrightarrow>
    listen_for_change ids (sys_host s) = (Inr (Await tasks), h) \<Longrightarrow>
    lp_step s (s\<lparr>sys_host := h, sys_suspended := tasks # sys_suspended s\<rparr>)"
| lp_wake: "tasks \<in> set (sys_suspended s) \<Longrightarrow> ev \<in> set (lp_fired (sys_host s)) \<Longrightarrow>
    listen_resume tasks (Some ev) (sys_host s) = Inr us \<Longrightarrow>
    lp_step s (s\<lparr>sys_replies := us # sys_replies s\<rparr>)"
| lp_deliver: "us \<in> set (sys_replies s) \<Longrightarrow> process_update (Updates us) (sys_client s) = Inr c \<Longrightarrow>
    lp_step s (s\<lparr>sys_client := c\<rparr>)"
| lp_timeout: "lp_step s (s\<lparr>sys_client := poll_next (sys_client s)\<rparr>)"
| lp_callback: "lp_step s (s\<lparr>sys_client := run_scheduled (sys_client s)\<rparr>)"

definition init_lp_system :: "'o long_poll_client \<Rightarrow> 'o lp_system" where
  "init_lp_system c = \<lparr>sys_host = init_long_poll_host, sys_client = c, sys_suspended = [], sys_replies = []\<rparr>"

definition lp_ok :: "'o lp_system \<Rightarrow> bool" where
  "lp_ok s \<longleftrightarrow> host_ok (sys_host s) \<and> client_ok (sys_host s) (sys_client s)
     \<and> (\<forall>us \<in> set (sys_replies s). reply_ok (sys_host s) us)"

lemma client_ok_fields:
  assumes "lc_keys c' = lc_keys c" "lc_snapshot_ids c' = lc_snapshot_ids c"
    "lc_object_snapshots c' = lc_object_snapshots c"
  shows "client_ok h c' = client_ok h c"
  using assms by (simp add: client_ok_def)

lemma init_client_ok:
  assumes "init_long_poll_client keys mode = Inr c"
  shows "client_ok h c" and "lc_keys c = keys"
proof -
  have f: "lc_keys c = keys" "lc_snapshot_ids c = map (\<lambda>key. (key, - 1)) keys"
    using assms by (auto simp: init_long_poll_client_def reset_client_def result_simps)
  moreover have "map_of (map (\<lambda>key. (key, - 1)) keys) k = Some i \<Longrightarrow> i = - 1" for k and i :: int
    by (auto dest: map_of_SomeD)
  ultimately show "client_ok h c" "lc_keys c = keys" by (auto simp: client_ok_def image_image)
qed

lemma lp_step_ok:
  assumes "lp_ok s" and "lp_step s t"
  shows "lp_ok t"
  using assms(2)
proof cases
  case (lp_notify r k ob)
  then show ?thesis
    using assms(1) by (simp add: lp_ok_def notify_host_ok client_ok_notify reply_ok_notify)
next
  case (lp_answer ids us h)
  then show ?thesis
    using assms(1) answer_ok [of "sys_host s" ids us h]
    by (simp add: lp_ok_def client_ok_listen reply_ok_listen host_ok_def listen_fields)
next
  case (lp_await ids tasks h)
  then show ?thesis
    using assms(1) by (simp add: lp_ok_def client_ok_listen reply_ok_listen host_ok_def listen_fields)
next
  case (lp_wake tasks ev us)
  then show ?thesis using assms(1) resume_ok [OF lp_wake(4)] by (simp add: lp_ok_def)
next
  case (lp_deliver us c)
  then show ?thesis using assms(1) process_update_ok by (fastforce simp: lp_ok_def)
next
  case lp_timeout
  then show ?thesis using assms(1) by (simp add: lp_ok_def client_ok_fields [of "poll_next _"])
next
  case lp_callback
  then show ?thesis using assms(1) by (simp add: lp_ok_def client_ok_fields [of "run_scheduled _"])
qed

interpretation long_poll: invariant_system
  "\<lambda>s. \<exists>keys mode c. init_long_poll_client keys mode = Inr c \<and> s = init_lp_system c" lp_step lp_ok
proof unfold_locales
  fix s :: "'a lp_system"
  assume "\<exists>keys mode c. init_long_poll_client keys mode = Inr c \<and> s = init_lp_system c"
  then show "lp_ok s" using init_client_ok(1) by (fastforce simp: lp_ok_def init_lp_system_def)
qed (rule lp_step_ok)

definition up_to_date :: "'o long_poll_host \<Rightarrow> 'o long_poll_client \<Rightarrow> bool" where
  "up_to_date h c \<longleftrightarrow> (\<forall>k \<in> set (lc_keys c). dmem k (lp_object_snapshots h) \<longrightarrow>
     map_of (lc_object_snapshots c) k = map_of (lp_object_snapshots h) k)"

lemma equal_ids_equal_objects:
  assumes "host_ok h" and "client_ok h c" and "dmem k (lp_snapshot_ids h)"
    and "map_of (lp_snapshot_ids h) k = map_of (lc_snapshot_ids c) k"
  shows "map_of (lc_object_snapshots c) k = map_of (lp_object_snapshots h) k"
proof -
  obtain i where i: "map_of (lp_snapshot_ids h) k = Some i" "map_of (lc_snapshot_ids c) k = Some i"
    using assms(3,4) by (auto simp: dmem_def)
  moreover have "i \<noteq> - 1" using assms(1) i(1) by (fastforce simp: host_ok_def)
  ultimately obtain v where "map_of (lc_object_snapshots c) k = Some v" "current_pair h k i v"
    using assms(2) unfolding client_ok_def by blast
  then show ?thesis using i(1) by (simp add: current_pair_def)
qed

lemma dmem_ids_objects: "host_ok h \<Longrightarrow> dmem k (lp_object_snapshots h) = dmem k (lp_snapshot_ids h)"
  by (simp add: dmem_iff host_ok_def del: set_map)

section \<open>Guarantees\<close>

text \<open>What a poll finds outdated, and that the rest is current.\<close>

lemma outdated_objects:
  assumes h: "host_ok h" and c: "client_ok h c"
  obtains us where "client_outdated_keys (lc_snapshot_ids c) h = Inr us"
    and "fst ` set us \<subseteq> set (lc_keys c)"
    and "\<forall>(k, u) \<in> set us. Some (object_snapshot u) = map_of (lp_object_snapshots h) k"
    and "\<And>k. k \<in> set (lc_keys c) \<Longrightarrow> k \<notin> fst ` set us \<Longrightarrow> dmem k (lp_object_snapshots h)
      \<Longrightarrow> map_of (lc_object_snapshots c) k = map_of (lp_object_snapshots h) k"
proof -
  let ?ks = "filter (\<lambda>k. dmem k (lp_snapshot_ids h) \<and> map_of (lp_snapshot_ids h) k \<noteq> map_of (lc_snapshot_ids c) k)
    (dkeys (lc_snapshot_ids c))"
  define us where "us = map (\<lambda>k. (k, \<lparr>object_snapshot = the (map_of (lp_object_snapshots h) k),
      snapshot_id = the (map_of (lp_snapshot_ids h) k)\<rparr>)) ?ks"
  have out: "client_outdated_keys (lc_snapshot_ids c) h = Inr us"
    using outdated_eq [OF h, of "lc_snapshot_ids c"] by (simp add: us_def)
  have keys: "set (dkeys (lc_snapshot_ids c)) = set (lc_keys c)" using c by (simp add: client_ok_def)
  have fst_us: "fst ` set us = set ?ks" by (simp add: us_def image_image)
  have same: "map_of (lc_object_snapshots c) k = map_of (lp_object_snapshots h) k"
    if "k \<in> set (lc_keys c)" "k \<notin> fst ` set us" "dmem k (lp_object_snapshots h)" for k
  proof -
    have "dmem k (lp_snapshot_ids h)" using that(3) dmem_ids_objects [OF h] by simp
    moreover have "k \<in> set (dkeys (lc_snapshot_ids c))" using that(1) keys by simp
    ultimately show ?thesis
      using that(2) equal_ids_equal_objects [OF h c] by (simp add: fst_us del: set_map)
  qed
  have obj: "\<forall>(k, u) \<in> set us. Some (object_snapshot u) = map_of (lp_object_snapshots h) k"
    using dmem_ids_objects [OF h] by (auto simp: us_def dmem_def)
  have sub: "fst ` set us \<subseteq> set (lc_keys c)" using keys by (auto simp: fst_us)
  show ?thesis using that [OF out sub obj] same by blast
qed



end
