(* ===== verification/Serve_Storage.thy ===== *)
theory Serve_Storage
  imports Ray_Prelude
begin

text \<open>
  \<open>serve/storage\<close>: the key-value store in which the controller keeps its checkpoints. The
  abstract class \<open>KVStoreBase\<close> is the locale \<open>kv_store\<close>; its documented promises are
  the assumptions, and what clients need of them is proved inside it. \<open>RayLocalKVStore\<close>,
  the store on an SQLite table of unique keys, is modelled on the rows of that table and
  interprets the locale. Components take the store as a record of operations \<open>kv_ops\<close>.

  \<open>pickle\<close> is the pair of functions \<open>dumps\<close> and \<open>loads\<close> on the values a
  component saves, into a type \<open>'b\<close> of byte strings; \<open>pickle_ok\<close> states that
  loading inverts dumping.
\<close>

record ('k, 'b) kv_ops =
  kv_put :: "string \<Rightarrow> 'b \<Rightarrow> 'k \<Rightarrow> 'k"
  kv_get :: "string \<Rightarrow> 'k \<Rightarrow> 'b option"
  kv_delete :: "string \<Rightarrow> 'k \<Rightarrow> 'k"

record ('a, 'b) pickle =
  dumps :: "'a \<Rightarrow> 'b"
  loads :: "'b \<Rightarrow> 'a"

definition pickle_ok :: "('a, 'b) pickle \<Rightarrow> bool" where
  "pickle_ok pk \<longleftrightarrow> (\<forall>x. loads pk (dumps pk x) = x)"

locale kv_store =
  fixes put :: "string \<Rightarrow> 'b \<Rightarrow> 'k \<Rightarrow> 'k"
    and get :: "string \<Rightarrow> 'k \<Rightarrow> 'b option"
    and delete :: "string \<Rightarrow> 'k \<Rightarrow> 'k"
  assumes get_put: "get key' (put key val store) = (if key' = key then Some val else get key' store)"
    and get_delete: "get key' (delete key store) = (if key' = key then None else get key' store)"
begin

definition saved :: "('a, 'b) pickle \<Rightarrow> string \<Rightarrow> 'k \<Rightarrow> 'a option" where
  "saved pk key store = map_option (loads pk) (get key store)"

lemma saved_put: "pickle_ok pk \<Longrightarrow> saved pk key (put key (dumps pk x) store) = Some x"
  by (simp add: saved_def get_put pickle_ok_def)

lemma saved_delete: "saved pk key (delete key store) = None"
  by (simp add: saved_def get_delete)

lemma saved_put_other: "key \<noteq> key' \<Longrightarrow> saved pk key (put key' v store) = saved pk key store"
  by (simp add: saved_def get_put)

end

section \<open>The local store\<close>

record 'b local_kv_store =
  ls_namespace :: string
  ls_rows :: "(string \<times> 'b) list"

definition init_local_kv_store :: "string \<Rightarrow> string \<Rightarrow> 'b local_kv_store result" where
  "init_local_kv_store namespace db_path =
     (if length db_path = 0 then Inl ValueError
      else Inr \<lparr>ls_namespace = namespace, ls_rows = []\<rparr>)"

definition local_storage_key :: "string \<Rightarrow> 'b local_kv_store \<Rightarrow> string" where
  "local_storage_key key st = ls_namespace st @ ''-'' @ key"

text \<open>\<open>INSERT OR REPLACE\<close> removes the row with the same key and appends the new one.\<close>

definition local_put :: "string \<Rightarrow> 'b \<Rightarrow> 'b local_kv_store \<Rightarrow> 'b local_kv_store" where
  "local_put key val st =
     st\<lparr>ls_rows := filter (\<lambda>row. fst row \<noteq> local_storage_key key st) (ls_rows st)
                   @ [(local_storage_key key st, val)]\<rparr>"

definition local_get :: "string \<Rightarrow> 'b local_kv_store \<Rightarrow> 'b option" where
  "local_get key st =
     (let rows = filter (\<lambda>row. fst row = local_storage_key key st) (ls_rows st)
      in if length rows = 0 then None else Some (snd (rows ! 0)))"

definition local_delete :: "string \<Rightarrow> 'b local_kv_store \<Rightarrow> 'b local_kv_store" where
  "local_delete key st = st\<lparr>ls_rows := filter (\<lambda>row. fst row \<noteq> local_storage_key key st) (ls_rows st)\<rparr>"

definition local_kv :: "('b local_kv_store, 'b) kv_ops" where
  "local_kv = \<lparr>kv_put = local_put, kv_get = local_get, kv_delete = local_delete\<rparr>"

lemma local_storage_key_inj [simp]:
  "local_storage_key key' st = local_storage_key key st \<longleftrightarrow> key' = key"
  by (simp add: local_storage_key_def)

lemma local_storage_key_rows [simp]: "local_storage_key key (st\<lparr>ls_rows := rows\<rparr>) = local_storage_key key st"
  by (simp add: local_storage_key_def)

lemma filter_conflict:
  "filter (\<lambda>row. fst row = a) (filter (\<lambda>row. fst row \<noteq> b) rows)
     = (if a = b then [] else filter (\<lambda>row. fst row = a) rows)"
  by (induction rows) auto

interpretation local_store: kv_store local_put local_get local_delete
  by unfold_locales (auto simp: local_get_def local_put_def local_delete_def Let_def filter_conflict
      simp del: filter_filter)

lemma local_kv_store_laws:
  "kv_store (kv_put local_kv) (kv_get local_kv) (kv_delete local_kv)"
  unfolding local_kv_def by (simp add: local_store.kv_store_axioms)

end
