(* ===== verification/Endpoint_State.thy ===== *)
theory Endpoint_State
  imports Long_Poll Serve_Storage
begin

text \<open>
  \<open>serve/endpoint_state.py\<close>: the table from endpoints to routes. Every change is saved to the
  key-value store and published under \<open>ROUTE_TABLE\<close>; a restarted controller loads the
  saved table. The store, the pickler and the random start of a snapshot identifier are arguments.
\<close>

record endpoint_info =
  route :: "string option"

type_synonym endpoints = "(string, endpoint_info) dict"

record 'k endpoint_state =
  es_kv_store :: 'k
  es_long_poll_host :: "endpoints long_poll_host"
  es_endpoints :: endpoints

definition ENDPOINT_CHECKPOINT_KEY :: string where
  "ENDPOINT_CHECKPOINT_KEY = ''serve-endpoint-state-checkpoint''"

definition es_checkpoint :: "('k, 'b) kv_ops \<Rightarrow> (endpoints, 'b) pickle \<Rightarrow> 'k endpoint_state \<Rightarrow> 'k endpoint_state" where
  "es_checkpoint kv pk es =
     es\<lparr>es_kv_store := kv_put kv ENDPOINT_CHECKPOINT_KEY (dumps pk (es_endpoints es)) (es_kv_store es)\<rparr>"

definition notify_route_table_changed :: "int \<Rightarrow> 'k endpoint_state \<Rightarrow> 'k endpoint_state" where
  "notify_route_table_changed randint es =
     es\<lparr>es_long_poll_host := notify_changed randint ROUTE_TABLE (es_endpoints es) (es_long_poll_host es)\<rparr>"

definition init_endpoint_state ::
  "('k, 'b) kv_ops \<Rightarrow> (endpoints, 'b) pickle \<Rightarrow> int \<Rightarrow> 'k \<Rightarrow> endpoints long_poll_host \<Rightarrow> 'k endpoint_state" where
  "init_endpoint_state kv pk randint store host =
     notify_route_table_changed randint
       \<lparr>es_kv_store = store, es_long_poll_host = host,
        es_endpoints = (case kv_get kv ENDPOINT_CHECKPOINT_KEY store of
            None \<Rightarrow> [] | Some checkpoint \<Rightarrow> loads pk checkpoint)\<rparr>"

definition es_shutdown :: "('k, 'b) kv_ops \<Rightarrow> 'k endpoint_state \<Rightarrow> 'k endpoint_state" where
  "es_shutdown kv es = es\<lparr>es_kv_store := kv_delete kv ENDPOINT_CHECKPOINT_KEY (es_kv_store es)\<rparr>"

fun endpoint_for_route :: "endpoints \<Rightarrow> string option \<Rightarrow> string option" where
  "endpoint_for_route [] r = None"
| "endpoint_for_route ((endpoint, info) # rest) r =
     (if route info = r then Some endpoint else endpoint_for_route rest r)"

definition update_endpoint ::
  "('k, 'b) kv_ops \<Rightarrow> (endpoints, 'b) pickle \<Rightarrow> int \<Rightarrow> string \<Rightarrow> endpoint_info \<Rightarrow> 'k endpoint_state \<Rightarrow> 'k endpoint_state result" where
  "update_endpoint kv pk randint endpoint info es =
     (let existing_route_endpoint = endpoint_for_route (es_endpoints es) (route info) in
      if route info \<noteq> None \<and> existing_route_endpoint \<noteq> None \<and> existing_route_endpoint \<noteq> Some endpoint
      then Inl ValueError
      else if map_of (es_endpoints es) endpoint = Some info then Inr es
      else Inr (notify_route_table_changed randint
                 (es_checkpoint kv pk (es\<lparr>es_endpoints := dset (es_endpoints es) endpoint info\<rparr>))))"

definition get_endpoint_route :: "string \<Rightarrow> 'k endpoint_state \<Rightarrow> string option" where
  "get_endpoint_route endpoint es =
     (case map_of (es_endpoints es) endpoint of None \<Rightarrow> None | Some info \<Rightarrow> route info)"

definition get_endpoints :: "'k endpoint_state \<Rightarrow> (string, (string, string option) dict) dict" where
  "get_endpoints es = map (\<lambda>(endpoint, info). (endpoint, [(''route'', route info)])) (es_endpoints es)"

definition delete_endpoint ::
  "('k, 'b) kv_ops \<Rightarrow> (endpoints, 'b) pickle \<Rightarrow> int \<Rightarrow> string \<Rightarrow> 'k endpoint_state \<Rightarrow> 'k endpoint_state" where
  "delete_endpoint kv pk randint endpoint es =
     (if \<not> dmem endpoint (es_endpoints es) then es
      else notify_route_table_changed randint
             (es_checkpoint kv pk (es\<lparr>es_endpoints := ddel (es_endpoints es) endpoint\<rparr>)))"

section \<open>Invariant\<close>

definition unique_routes :: "endpoints \<Rightarrow> bool" where
  "unique_routes d \<longleftrightarrow> (\<forall>e1 e2 i1 i2. map_of d e1 = Some i1 \<longrightarrow> map_of d e2 = Some i2 \<longrightarrow>
     route i1 = route i2 \<longrightarrow> route i1 \<noteq> None \<longrightarrow> e1 = e2)"

definition recovered :: "('k, 'b) kv_ops \<Rightarrow> (endpoints, 'b) pickle \<Rightarrow> 'k \<Rightarrow> endpoints" where
  "recovered kv pk store =
     (case kv_get kv ENDPOINT_CHECKPOINT_KEY store of None \<Rightarrow> [] | Some c \<Rightarrow> loads pk c)"

definition endpoints_ok :: "('k, 'b) kv_ops \<Rightarrow> (endpoints, 'b) pickle \<Rightarrow> 'k endpoint_state \<Rightarrow> bool" where
  "endpoints_ok kv pk es \<longleftrightarrow>
     wf_dict (es_endpoints es) \<and> unique_routes (es_endpoints es)
     \<and> map_of (lp_object_snapshots (es_long_poll_host es)) ROUTE_TABLE = Some (es_endpoints es)
     \<and> recovered kv pk (es_kv_store es) = es_endpoints es"

lemma endpoint_for_route_None:
  "endpoint_for_route d r = None \<longleftrightarrow> (\<forall>(e, i) \<in> set d. route i \<noteq> r)"
  by (induction d r rule: endpoint_for_route.induct) auto

lemma endpoint_for_route_Some:
  "wf_dict d \<Longrightarrow> endpoint_for_route d r = Some e \<Longrightarrow> \<exists>i. map_of d e = Some i \<and> route i = r"
proof (induction d r rule: endpoint_for_route.induct)
  case (2 e' info rest r)
  show ?case
  proof (cases "route info = r")
    case True
    then show ?thesis using 2 by auto
  next
    case False
    then obtain i where i: "map_of rest e = Some i" "route i = r" using 2 by auto
    then have "e \<noteq> e'" using 2(2) by (force dest: map_of_SomeD)
    then show ?thesis using i by simp
  qed
qed simp

lemma route_taken_iff:
  assumes "wf_dict d" and "unique_routes d" and "r \<noteq> None"
  shows "endpoint_for_route d r \<noteq> None \<and> endpoint_for_route d r \<noteq> Some endpoint
    \<longleftrightarrow> (\<exists>e i. e \<noteq> endpoint \<and> map_of d e = Some i \<and> route i = r)"
proof
  assume "endpoint_for_route d r \<noteq> None \<and> endpoint_for_route d r \<noteq> Some endpoint"
  then obtain e where "endpoint_for_route d r = Some e" "e \<noteq> endpoint" by auto
  then show "\<exists>e i. e \<noteq> endpoint \<and> map_of d e = Some i \<and> route i = r"
    using endpoint_for_route_Some [OF assms(1), of r e] by blast
next
  assume "\<exists>e i. e \<noteq> endpoint \<and> map_of d e = Some i \<and> route i = r"
  then obtain e i where e: "e \<noteq> endpoint" "map_of d e = Some i" "route i = r" by blast
  have "(e, i) \<in> set d" using e(2) by (rule map_of_SomeD)
  then have "endpoint_for_route d r \<noteq> None" using e(3) endpoint_for_route_None [of d r] by blast
  moreover have "endpoint_for_route d r \<noteq> Some endpoint"
  proof
    assume "endpoint_for_route d r = Some endpoint"
    then obtain j where "map_of d endpoint = Some j" "route j = r"
      using endpoint_for_route_Some [OF assms(1)] by blast
    then have "e = endpoint" 
      using e assms(3) assms(2) [unfolded unique_routes_def, rule_format, of e i endpoint j] by simp
    then show False using e(1) by simp
  qed
  ultimately show "endpoint_for_route d r \<noteq> None \<and> endpoint_for_route d r \<noteq> Some endpoint" by blast
qed

lemma unique_routes_dset:
  assumes "unique_routes d"
    and "route info = None \<or> \<not> (\<exists>e i. e \<noteq> endpoint \<and> map_of d e = Some i \<and> route i = route info)"
  shows "unique_routes (dset d endpoint info)"
proof -
  have "e1 = e2" if m: "map_of (dset d endpoint info) e1 = Some i1" "map_of (dset d endpoint info) e2 = Some i2"
    and r: "route i1 = route i2" "route i1 \<noteq> None" for e1 e2 i1 i2
  proof (cases "e1 = endpoint \<or> e2 = endpoint")
    case True
    then show ?thesis using m r assms(2) by (metis fun_upd_apply map_of_dset option.inject)
  next
    case False
    then have "map_of d e1 = Some i1" "map_of d e2 = Some i2" using m by simp_all
    then show ?thesis using r assms(1) unfolding unique_routes_def by blast
  qed
  then show ?thesis unfolding unique_routes_def by blast
qed

lemma unique_routes_ddel: "unique_routes d \<Longrightarrow> unique_routes (ddel d endpoint)"
  unfolding unique_routes_def by (auto split: if_splits)

lemma published_saved:
  assumes "kv_store (kv_put kv) (kv_get kv) (kv_delete kv)" and "pickle_ok pk"
    and "wf_dict d" and "unique_routes d"
  shows "endpoints_ok kv pk (notify_route_table_changed r (es_checkpoint kv pk (es\<lparr>es_endpoints := d\<rparr>)))"
  using assms kv_store.get_put [OF assms(1)]
  by (simp add: endpoints_ok_def notify_route_table_changed_def es_checkpoint_def recovered_def pickle_ok_def)

lemma update_endpoint_ok:
  assumes "kv_store (kv_put kv) (kv_get kv) (kv_delete kv)" and "pickle_ok pk"
    and "endpoints_ok kv pk es" and "update_endpoint kv pk r endpoint info es = Inr es'"
  shows "endpoints_ok kv pk es'"
proof -
  have wf: "wf_dict (es_endpoints es)" and un: "unique_routes (es_endpoints es)"
    using assms(3) by (simp_all add: endpoints_ok_def)
  have "\<not> (route info \<noteq> None \<and> endpoint_for_route (es_endpoints es) (route info) \<noteq> None
      \<and> endpoint_for_route (es_endpoints es) (route info) \<noteq> Some endpoint)"
  proof
    assume "route info \<noteq> None \<and> endpoint_for_route (es_endpoints es) (route info) \<noteq> None
      \<and> endpoint_for_route (es_endpoints es) (route info) \<noteq> Some endpoint"
    then have "update_endpoint kv pk r endpoint info es = Inl ValueError"
      by (simp add: update_endpoint_def)
    then show False using assms(4) by simp
  qed
  then have "route info = None \<or> \<not> (\<exists>e i. e \<noteq> endpoint \<and> map_of (es_endpoints es) e = Some i \<and> route i = route info)"
    using route_taken_iff [OF wf un, of "route info" endpoint] by blast
  then have "unique_routes (dset (es_endpoints es) endpoint info)" by (rule unique_routes_dset [OF un])
  then show ?thesis
    using assms(3,4) published_saved [OF assms(1,2)] wf
    by (auto simp: update_endpoint_def Let_def split: if_splits)
qed

lemma delete_endpoint_ok:
  assumes "kv_store (kv_put kv) (kv_get kv) (kv_delete kv)" and "pickle_ok pk" and "endpoints_ok kv pk es"
  shows "endpoints_ok kv pk (delete_endpoint kv pk r endpoint es)"
  using assms(3) published_saved [OF assms(1,2)]
  by (simp add: delete_endpoint_def endpoints_ok_def unique_routes_ddel)

lemma restart_ok:
  assumes "endpoints_ok kv pk es"
  shows "endpoints_ok kv pk (init_endpoint_state kv pk r (es_kv_store es) host)"
    and "es_endpoints (init_endpoint_state kv pk r (es_kv_store es) host) = es_endpoints es"
  using assms by (simp_all add: endpoints_ok_def init_endpoint_state_def notify_route_table_changed_def
      recovered_def)

text \<open>
  The life of the table: updates, deletions, and crashes of the controller, after which a new host
  starts and the table is loaded from the store.
\<close>

inductive endpoint_step :: "('k, 'b) kv_ops \<Rightarrow> (endpoints, 'b) pickle \<Rightarrow> 'k endpoint_state \<Rightarrow> 'k endpoint_state \<Rightarrow> bool"
  for kv pk where
  ep_update: "update_endpoint kv pk r endpoint info es = Inr es' \<Longrightarrow> endpoint_step kv pk es es'"
| ep_delete: "endpoint_step kv pk es (delete_endpoint kv pk r endpoint es)"
| ep_restart: "endpoint_step kv pk es (init_endpoint_state kv pk r (es_kv_store es) init_long_poll_host)"

text \<open>
  The contract of the table, on any store that keeps the promises of \<open>KVStoreBase\<close>.
\<close>

locale endpoint_table =
  fixes kv :: "('k, 'b) kv_ops" and pk :: "(endpoints, 'b) pickle"
  assumes store: "kv_store (kv_put kv) (kv_get kv) (kv_delete kv)" and pickle: "pickle_ok pk"

sublocale endpoint_table \<subseteq> invariant_system "endpoints_ok kv pk" "endpoint_step kv pk" "endpoints_ok kv pk"
proof unfold_locales
  fix s t assume "endpoints_ok kv pk s" and "endpoint_step kv pk s t"
  then show "endpoints_ok kv pk t"
    by (auto elim!: endpoint_step.cases intro: update_endpoint_ok [OF store pickle]
        delete_endpoint_ok [OF store pickle] restart_ok(1))
qed

context endpoint_table
begin

lemma table_ok:
  assumes "reaches (endpoint_step kv pk) s t" and "endpoints_ok kv pk s"
  shows "endpoints_ok kv pk t"
  by (rule reaches_keeps [OF assms])

end

lemma fresh_store_ok:
  assumes "kv_get kv ENDPOINT_CHECKPOINT_KEY store = None"
  shows "endpoints_ok kv pk (init_endpoint_state kv pk r store host)"
  using assms by (simp add: endpoints_ok_def init_endpoint_state_def notify_route_table_changed_def
      recovered_def unique_routes_def)

section \<open>Guarantees\<close>

definition route_owner :: "endpoints \<Rightarrow> string \<Rightarrow> string \<Rightarrow> bool" where
  "route_owner d r e \<longleftrightarrow> (\<exists>i. map_of d e = Some i \<and> route i = Some r)"

text \<open>
  C30: on a store that keeps the contract of \<open>KVStoreBase\<close>, starting without a checkpoint,
  after any sequence of updates, deletions and controller restarts: a route has at most one owner,
  the published route table is the current one, and a restart at this moment recovers exactly the
  current table.
\<close>

theorem endpoint_table_consistent:
  assumes "kv_store (kv_put kv) (kv_get kv) (kv_delete kv)" and "pickle_ok pk"
    and "kv_get kv ENDPOINT_CHECKPOINT_KEY store = None"
    and "reaches (endpoint_step kv pk) (init_endpoint_state kv pk r0 store init_long_poll_host) es"
  shows "(\<forall>r e1 e2. route_owner (es_endpoints es) r e1 \<and> route_owner (es_endpoints es) r e2 \<longrightarrow> e1 = e2)
     \<and> map_of (lp_object_snapshots (es_long_poll_host es)) ROUTE_TABLE = Some (es_endpoints es)
     \<and> es_endpoints (init_endpoint_state kv pk r (es_kv_store es) init_long_poll_host) = es_endpoints es"
proof -
  have "endpoint_table kv pk" by (rule endpoint_table.intro [OF assms(1,2)])
  then have ok: "endpoints_ok kv pk es"
    by (rule endpoint_table.table_ok [OF _ assms(4) fresh_store_ok [OF assms(3)]])
  then have "unique_routes (es_endpoints es)" by (simp add: endpoints_ok_def)
  then have "\<forall>r e1 e2. route_owner (es_endpoints es) r e1 \<and> route_owner (es_endpoints es) r e2 \<longrightarrow> e1 = e2"
    unfolding unique_routes_def route_owner_def by (metis option.discI)
  then show ?thesis using ok restart_ok(2) [OF ok] by (simp add: endpoints_ok_def)
qed

definition ex_pickle :: "(endpoints, endpoints) pickle" where
  "ex_pickle = \<lparr>dumps = (\<lambda>x. x), loads = (\<lambda>x. x)\<rparr>"

definition ex_local_store :: "endpoints local_kv_store" where
  "ex_local_store = \<lparr>ls_namespace = ''ns'', ls_rows = []\<rparr>"

lemma ex_store_ok:
  "kv_store (kv_put local_kv) (kv_get local_kv) (kv_delete local_kv)" "pickle_ok ex_pickle"
  by (simp_all add: local_kv_store_laws pickle_ok_def ex_pickle_def)

interpretation local_table: endpoint_table local_kv ex_pickle
  by (rule endpoint_table.intro [OF ex_store_ok])

theorem endpoint_table_consistent_witness:
  "\<exists>es. update_endpoint local_kv ex_pickle 3 ''a'' \<lparr>route = Some ''/a''\<rparr>
        (init_endpoint_state local_kv ex_pickle 0 ex_local_store init_long_poll_host) = Inr es
     \<and> es_endpoints (init_endpoint_state local_kv ex_pickle 0 (es_kv_store es) init_long_poll_host)
       = [(''a'', \<lparr>route = Some ''/a''\<rparr>)]"
proof -
  let ?es0 = "init_endpoint_state local_kv ex_pickle 0 ex_local_store init_long_poll_host"
  obtain es where es: "update_endpoint local_kv ex_pickle 3 ''a'' \<lparr>route = Some ''/a''\<rparr> ?es0 = Inr es"
    "es_endpoints es = [(''a'', \<lparr>route = Some ''/a''\<rparr>)]"
  proof -
    have "case update_endpoint local_kv ex_pickle 3 ''a'' \<lparr>route = Some ''/a''\<rparr> ?es0 of Inl _ \<Rightarrow> False
       | Inr es \<Rightarrow> es_endpoints es = [(''a'', \<lparr>route = Some ''/a''\<rparr>)]" by code_simp
    then show ?thesis using that by (auto split: sum.splits)
  qed
  have "reaches (endpoint_step local_kv ex_pickle) ?es0 es"
    by (rule reaches_one) (rule ep_update [OF es(1)])
  moreover have "kv_get local_kv ENDPOINT_CHECKPOINT_KEY ex_local_store = None" by code_simp
  ultimately show ?thesis using endpoint_table_consistent [OF ex_store_ok, where r = 0] es by auto
qed

text \<open>
  Updating an endpoint is refused with ValueError exactly when another endpoint owns the
  route; otherwise the endpoint gets the route, every other endpoint keeps its own, and repeating
  the call changes nothing.
\<close>

theorem update_endpoint_exact:
  assumes "wf_dict (es_endpoints es)" and "unique_routes (es_endpoints es)"
  shows "(if \<exists>r e. route info = Some r \<and> e \<noteq> endpoint \<and> route_owner (es_endpoints es) r e
     then update_endpoint kv pk x endpoint info es = Inl ValueError
     else \<exists>es'. update_endpoint kv pk x endpoint info es = Inr es'
       \<and> (\<forall>e. map_of (es_endpoints es') e = (if e = endpoint then Some info else map_of (es_endpoints es) e))
       \<and> update_endpoint kv pk y endpoint info es' = Inr es')"
proof (cases "\<exists>r e. route info = Some r \<and> e \<noteq> endpoint \<and> route_owner (es_endpoints es) r e")
  case True
  then obtain r e where r: "route info = Some r" "e \<noteq> endpoint" "route_owner (es_endpoints es) r e" by blast
  then have "endpoint_for_route (es_endpoints es) (route info) \<noteq> None
      \<and> endpoint_for_route (es_endpoints es) (route info) \<noteq> Some endpoint"
    using route_taken_iff [OF assms, of "route info" endpoint] by (auto simp: route_owner_def)
  then show ?thesis using True r(1) by (simp add: update_endpoint_def)
next
  case False
  define d where "d = dset (es_endpoints es) endpoint info"
  have free: "route info = None \<or> endpoint_for_route (es_endpoints es) (route info) = None
      \<or> endpoint_for_route (es_endpoints es) (route info) = Some endpoint"
    using False route_taken_iff [OF assms, of "route info" endpoint] by (fastforce simp: route_owner_def)
  have "unique_routes d" unfolding d_def
    by (rule unique_routes_dset [OF assms(2)]) (use False in \<open>fastforce simp: route_owner_def\<close>)
  moreover have "wf_dict d" using assms(1) by (simp add: d_def)
  ultimately have again: "\<not> (route info \<noteq> None \<and> endpoint_for_route d (route info) \<noteq> None
      \<and> endpoint_for_route d (route info) \<noteq> Some endpoint)"
    using route_taken_iff [of d "route info" endpoint] False by (fastforce simp: d_def route_owner_def)
  show ?thesis
  proof (cases "map_of (es_endpoints es) endpoint = Some info")
    case True
    then show ?thesis using False free by (auto simp: update_endpoint_def)
  next
    case neq: False
    let ?es = "notify_route_table_changed x (es_checkpoint kv pk (es\<lparr>es_endpoints := d\<rparr>))"
    have "es_endpoints ?es = d" by (simp add: notify_route_table_changed_def es_checkpoint_def)
    moreover have "update_endpoint kv pk x endpoint info es = Inr ?es"
      using free neq by (auto simp: update_endpoint_def d_def)
    moreover have "update_endpoint kv pk y endpoint info ?es = Inr ?es"
      using again \<open>es_endpoints ?es = d\<close> by (auto simp: update_endpoint_def d_def Let_def)
    ultimately show ?thesis using False by (auto simp: d_def)
  qed
qed

definition ex_endpoints :: "endpoints local_kv_store endpoint_state" where
  "ex_endpoints = \<lparr>es_kv_store = ex_local_store, es_long_poll_host = init_long_poll_host,
     es_endpoints = [(''a'', \<lparr>route = Some ''/a''\<rparr>)]\<rparr>"

theorem update_endpoint_exact_witness:
  "update_endpoint local_kv ex_pickle 0 ''b'' \<lparr>route = Some ''/a''\<rparr> ex_endpoints = Inl ValueError"
proof -
  have "wf_dict (es_endpoints ex_endpoints)" "unique_routes (es_endpoints ex_endpoints)"
    by (auto simp: ex_endpoints_def unique_routes_def split: if_splits)
  note exact = update_endpoint_exact [OF this, of "\<lparr>route = Some ''/a''\<rparr>" "''b''" local_kv ex_pickle 0 0]
  have "route_owner (es_endpoints ex_endpoints) ''/a'' ''a''" by (simp add: route_owner_def ex_endpoints_def)
  then have taken: "\<exists>r e. route \<lparr>route = Some ''/a''\<rparr> = Some r \<and> e \<noteq> ''b''
      \<and> route_owner (es_endpoints ex_endpoints) r e" by (intro exI [of _ "''/a''"] exI [of _ "''a''"]) simp
  show ?thesis using exact unfolding if_P [OF taken] .
qed

end
