(* ===== verification/Serve_Autoscaling.thy ===== *)
theory Serve_Autoscaling
  imports Ray_Prelude
begin

text \<open>
  \<open>serve/autoscaling_policy.py\<close>: the number of replicas a deployment should have for its
  current load, and the policy that changes the target only after the same decision has been made
  for a configured number of consecutive periods. Floats are exact rationals; the policy object is
  the record \<open>basic_policy\<close>, and \<open>run_policy\<close> feeds it one measurement per control
  loop.
\<close>

record autoscaling_config =
  min_replicas :: int
  max_replicas :: int
  target_num_ongoing_requests_per_replica :: int
  metrics_interval_s :: rat
  look_back_period_s :: rat
  smoothing_factor :: rat
  downscale_delay_s :: rat
  upscale_delay_s :: rat

definition CONTROL_LOOP_PERIOD_S :: rat where
  "CONTROL_LOOP_PERIOD_S = 1 / 10"

definition calculate_desired_num_replicas :: "autoscaling_config \<Rightarrow> rat list \<Rightarrow> int result" where
  "calculate_desired_num_replicas config current_num_ongoing_requests =
     (let current_num_replicas = length current_num_ongoing_requests in
      if current_num_replicas = 0 then Inl ValueError
      else
        let num_ongoing_requests_per_replica =
              sum_list current_num_ongoing_requests / of_nat (length current_num_ongoing_requests) in
        if target_num_ongoing_requests_per_replica config = 0 then Inl ZeroDivisionError
        else
          let error_ratio = num_ongoing_requests_per_replica
                / of_int (target_num_ongoing_requests_per_replica config);
              smoothed_error_ratio = 1 + (error_ratio - 1) * smoothing_factor config;
              desired_num_replicas = \<lceil>of_nat current_num_replicas * smoothed_error_ratio\<rceil>;
              desired_num_replicas = min (max_replicas config) desired_num_replicas;
              desired_num_replicas = max (min_replicas config) desired_num_replicas
          in Inr desired_num_replicas)"

text \<open>\<open>int\<close> of a float truncates towards zero.\<close>

definition int_of_float :: "rat \<Rightarrow> int" where
  "int_of_float x = (if 0 \<le> x then \<lfloor>x\<rfloor> else \<lceil>x\<rceil>)"

record basic_policy =
  policy_config :: autoscaling_config
  loop_period_s :: rat
  scale_up_consecutive_periods :: int
  scale_down_consecutive_periods :: int
  decision_counter :: int

definition init_basic_policy :: "autoscaling_config \<Rightarrow> basic_policy" where
  "init_basic_policy config =
     \<lparr>policy_config = config,
      loop_period_s = CONTROL_LOOP_PERIOD_S,
      scale_up_consecutive_periods = int_of_float (upscale_delay_s config / CONTROL_LOOP_PERIOD_S),
      scale_down_consecutive_periods = int_of_float (downscale_delay_s config / CONTROL_LOOP_PERIOD_S),
      decision_counter = 0\<rparr>"

definition get_decision_num_replicas ::
  "rat list \<Rightarrow> int \<Rightarrow> basic_policy \<Rightarrow> (int \<times> basic_policy) result" where
  "get_decision_num_replicas current_num_ongoing_requests curr_target_num_replicas p =
     (if current_num_ongoing_requests = [] then Inr (curr_target_num_replicas, p)
      else
        bindE (calculate_desired_num_replicas (policy_config p) current_num_ongoing_requests)
          (\<lambda>desired_num_replicas.
        if desired_num_replicas > curr_target_num_replicas then
          let c = (if decision_counter p < 0 then 0 else decision_counter p) + 1
          in if c > scale_up_consecutive_periods p
             then Inr (desired_num_replicas, p\<lparr>decision_counter := 0\<rparr>)
             else Inr (curr_target_num_replicas, p\<lparr>decision_counter := c\<rparr>)
        else if desired_num_replicas < curr_target_num_replicas then
          let c = (if decision_counter p > 0 then 0 else decision_counter p) - 1
          in if c < - scale_down_consecutive_periods p
             then Inr (desired_num_replicas, p\<lparr>decision_counter := 0\<rparr>)
             else Inr (curr_target_num_replicas, p\<lparr>decision_counter := c\<rparr>)
        else Inr (curr_target_num_replicas, p\<lparr>decision_counter := 0\<rparr>)))"

text \<open>The control loop: the policy is asked once per period with that period's measurement.\<close>

fun run_policy :: "rat list list \<Rightarrow> int \<Rightarrow> basic_policy \<Rightarrow> (int \<times> basic_policy) result" where
  "run_policy [] cur p = Inr (cur, p)"
| "run_policy (reqs # rs) cur p =
     bindE (get_decision_num_replicas reqs cur p) (\<lambda>(cur', p'). run_policy rs cur' p')"

section \<open>The desired number of replicas\<close>

definition policy_ok :: "autoscaling_config \<Rightarrow> bool" where
  "policy_ok config \<longleftrightarrow>
     min_replicas config \<le> max_replicas config \<and> 0 < target_num_ongoing_requests_per_replica config
     \<and> 0 \<le> upscale_delay_s config \<and> 0 \<le> downscale_delay_s config"

lemma desired_Inr:
  assumes "policy_ok config" and "reqs \<noteq> []"
  shows "\<exists>n. calculate_desired_num_replicas config reqs = Inr n
           \<and> min_replicas config \<le> n \<and> n \<le> max_replicas config"
  using assms by (simp add: calculate_desired_num_replicas_def Let_def policy_ok_def)

text \<open>Without smoothing the load divided by the target per replica, rounded up and clamped.\<close>

lemma desired_unsmoothed:
  assumes "reqs \<noteq> []" and "0 < target_num_ongoing_requests_per_replica config"
    and "smoothing_factor config = 1"
  shows "calculate_desired_num_replicas config reqs =
    Inr (max (min_replicas config) (min (max_replicas config)
      \<lceil>sum_list reqs / of_int (target_num_ongoing_requests_per_replica config)\<rceil>))"
  using assms by (simp add: calculate_desired_num_replicas_def Let_def)

section \<open>Hysteresis\<close>

definition wants_more :: "autoscaling_config \<Rightarrow> int \<Rightarrow> rat list \<Rightarrow> bool" where
  "wants_more config cur reqs \<longleftrightarrow>
     (case calculate_desired_num_replicas config reqs of Inl _ \<Rightarrow> False | Inr n \<Rightarrow> cur < n)"

definition wants_less :: "autoscaling_config \<Rightarrow> int \<Rightarrow> rat list \<Rightarrow> bool" where
  "wants_less config cur reqs \<longleftrightarrow>
     (case calculate_desired_num_replicas config reqs of Inl _ \<Rightarrow> False | Inr n \<Rightarrow> n < cur)"

text \<open>Every operation keeps the configuration and the periods, and the counter between them.\<close>

definition counter_ok :: "basic_policy \<Rightarrow> bool" where
  "counter_ok p \<longleftrightarrow>
     policy_ok (policy_config p)
     \<and> 0 \<le> scale_up_consecutive_periods p \<and> 0 \<le> scale_down_consecutive_periods p
     \<and> decision_counter p \<le> scale_up_consecutive_periods p
     \<and> - scale_down_consecutive_periods p \<le> decision_counter p"

lemma int_of_float_nonneg: "0 \<le> x \<Longrightarrow> 0 \<le> int_of_float x"
  by (simp add: int_of_float_def)

lemma init_counter_ok: "policy_ok config \<Longrightarrow> counter_ok (init_basic_policy config)"
  by (simp add: counter_ok_def init_basic_policy_def policy_ok_def int_of_float_nonneg
      CONTROL_LOOP_PERIOD_S_def)

lemma decision_returns:
  assumes "counter_ok p"
  shows "\<exists>n p'. get_decision_num_replicas reqs cur p = Inr (n, p') \<and> counter_ok p'
     \<and> (n = cur \<or> min_replicas (policy_config p) \<le> n \<and> n \<le> max_replicas (policy_config p))
     \<and> policy_config p' = policy_config p
     \<and> scale_up_consecutive_periods p' = scale_up_consecutive_periods p
     \<and> scale_down_consecutive_periods p' = scale_down_consecutive_periods p"
proof (cases "reqs = []")
  case True
  then show ?thesis using assms by (simp add: get_decision_num_replicas_def)
next
  case False
  then obtain n where "calculate_desired_num_replicas (policy_config p) reqs = Inr n"
    "min_replicas (policy_config p) \<le> n" "n \<le> max_replicas (policy_config p)"
    using desired_Inr assms by (metis counter_ok_def)
  then show ?thesis
    using assms False by (auto simp: get_decision_num_replicas_def Let_def counter_ok_def)
qed

lemma run_policy_append:
  "run_policy (rs @ rs') cur p = bindE (run_policy rs cur p) (\<lambda>(c, q). run_policy rs' c q)"
proof (induction rs arbitrary: cur p)
  case Nil
  then show ?case by simp
next
  case (Cons reqs rs)
  then show ?case by (cases "get_decision_num_replicas reqs cur p") (auto split: prod.splits)
qed

text \<open>
  The counter is the length of the current run of equal decisions: the last measurements, as many
  as it shows, all asked for more (or all for less) than the current target. Periods without
  measurements are skipped.
\<close>

definition last_all :: "('a \<Rightarrow> bool) \<Rightarrow> int \<Rightarrow> 'a list \<Rightarrow> bool" where
  "last_all W k xs \<longleftrightarrow> k \<le> int (length xs) \<and> (\<forall>x \<in> set (take (nat k) (rev xs)). W x)"

definition measured :: "rat list list \<Rightarrow> rat list list" where
  "measured rs = filter (\<lambda>reqs. reqs \<noteq> []) rs"

definition counted :: "autoscaling_config \<Rightarrow> rat list list \<Rightarrow> int \<Rightarrow> basic_policy \<Rightarrow> bool" where
  "counted config rs cur p \<longleftrightarrow>
     counter_ok p \<and> policy_config p = config
     \<and> scale_up_consecutive_periods p = int_of_float (upscale_delay_s config / CONTROL_LOOP_PERIOD_S)
     \<and> scale_down_consecutive_periods p = int_of_float (downscale_delay_s config / CONTROL_LOOP_PERIOD_S)
     \<and> last_all (wants_more config cur) (decision_counter p) (measured rs)
     \<and> last_all (wants_less config cur) (- decision_counter p) (measured rs)"

lemma last_all_0 [simp]: "k \<le> 0 \<Longrightarrow> last_all W k xs"
  by (simp add: last_all_def)

lemma last_all_snoc:
  assumes "last_all W k xs" and "W x"
  shows "last_all W (max k 0 + 1) (xs @ [x])"
proof -
  have "nat (max k 0 + 1) = Suc (nat k)" by simp
  then show ?thesis using assms by (auto simp: last_all_def)
qed

lemma measured_snoc: "measured (rs @ [reqs]) = measured rs @ (if reqs = [] then [] else [reqs])"
  by (simp add: measured_def)

lemma decision_cases:
  assumes "calculate_desired_num_replicas (policy_config p) reqs = Inr m" and "reqs \<noteq> []"
  shows "get_decision_num_replicas reqs cur p =
    (if cur < m then
       (if scale_up_consecutive_periods p < max (decision_counter p) 0 + 1
        then Inr (m, p\<lparr>decision_counter := 0\<rparr>)
        else Inr (cur, p\<lparr>decision_counter := max (decision_counter p) 0 + 1\<rparr>))
     else if m < cur then
       (if scale_down_consecutive_periods p < max (- decision_counter p) 0 + 1
        then Inr (m, p\<lparr>decision_counter := 0\<rparr>)
        else Inr (cur, p\<lparr>decision_counter := - (max (- decision_counter p) 0 + 1)\<rparr>))
     else Inr (cur, p\<lparr>decision_counter := 0\<rparr>))"
proof -
  have "(if decision_counter p < 0 then 0 else decision_counter p) + 1 = max (decision_counter p) 0 + 1"
    "(if decision_counter p > 0 then 0 else decision_counter p) - 1 = - (max (- decision_counter p) 0 + 1)"
    by simp_all
  then show ?thesis
    using assms by (simp only: get_decision_num_replicas_def Let_def bindE_Inr) auto
qed

lemma last_all_mono: "last_all W k xs \<Longrightarrow> j \<le> k \<Longrightarrow> last_all W j xs"
  using set_take_subset_set_take [of "nat j" "nat k" "rev xs"] nat_mono [of j k]
  by (auto simp: last_all_def)

lemma decision_counted:
  assumes c: "counted config rs cur p" and d: "get_decision_num_replicas reqs cur p = Inr (n, p')"
  shows "counted config (rs @ [reqs]) n p'
     \<and> (n \<noteq> cur \<longrightarrow> calculate_desired_num_replicas config reqs = Inr n
          \<and> (if cur < n then last_all (wants_more config cur) (scale_up_consecutive_periods p + 1) (measured (rs @ [reqs]))
             else last_all (wants_less config cur) (scale_down_consecutive_periods p + 1) (measured (rs @ [reqs]))))"
proof (cases "reqs = []")
  case True
  then show ?thesis using assms by (auto simp: get_decision_num_replicas_def measured_snoc counted_def)
next
  case False
  have ok: "counter_ok p" and conf: "policy_config p = config" using c by (simp_all add: counted_def)
  obtain m where m: "calculate_desired_num_replicas config reqs = Inr m"
    using desired_Inr [OF _ False] ok conf by (auto simp: counter_ok_def)
  have ms: "measured (rs @ [reqs]) = measured rs @ [reqs]" using False by (simp add: measured_snoc)
  have keep: "counter_ok p'" "policy_config p' = config"
    "scale_up_consecutive_periods p' = scale_up_consecutive_periods p"
    "scale_down_consecutive_periods p' = scale_down_consecutive_periods p"
    using decision_returns [OF ok, of reqs cur] d conf by auto
  note dd = d [unfolded decision_cases [OF m [folded conf] False]]
  have k: "last_all (wants_more config cur) (decision_counter p) (measured rs)"
    "last_all (wants_less config cur) (- decision_counter p) (measured rs)"
    using c by (simp_all add: counted_def)
  consider "cur < m" | "m < cur" | "m = cur" by linarith
  then show ?thesis
  proof cases
    case 1
    then have w: "wants_more config cur reqs" by (simp add: wants_more_def m)
    have l: "last_all (wants_more config cur) (max (decision_counter p) 0 + 1) (measured (rs @ [reqs]))"
      unfolding ms by (rule last_all_snoc [OF k(1) w])
    show ?thesis
    proof (cases "scale_up_consecutive_periods p < max (decision_counter p) 0 + 1")
      case True
      then have np: "n = m" "decision_counter p' = 0" using dd 1 by auto
      have "last_all (wants_more config cur) (scale_up_consecutive_periods p + 1) (measured (rs @ [reqs]))"
        by (rule last_all_mono [OF l]) (use True in linarith)
      then show ?thesis using np c keep 1 m by (simp add: counted_def)
    next
      case False
      then have np: "n = cur" "decision_counter p' = max (decision_counter p) 0 + 1" using dd 1 by auto
      then show ?thesis using c keep l by (simp add: counted_def)
    qed
  next
    case 2
    then have w: "wants_less config cur reqs" by (simp add: wants_less_def m)
    have l: "last_all (wants_less config cur) (max (- decision_counter p) 0 + 1) (measured (rs @ [reqs]))"
      unfolding ms by (rule last_all_snoc [OF k(2) w])
    show ?thesis
    proof (cases "scale_down_consecutive_periods p < max (- decision_counter p) 0 + 1")
      case True
      then have np: "n = m" "decision_counter p' = 0" using dd 2 by auto
      have "last_all (wants_less config cur) (scale_down_consecutive_periods p + 1) (measured (rs @ [reqs]))"
        by (rule last_all_mono [OF l]) (use True in linarith)
      then show ?thesis using np c keep 2 m by (simp add: counted_def)
    next
      case False
      then have np: "n = cur" "- decision_counter p' = max (- decision_counter p) 0 + 1" using dd 2 by auto
      then show ?thesis using c keep l by (simp add: counted_def)
    qed
  next
    case 3
    then have "n = cur" "decision_counter p' = 0" using dd by auto
    then show ?thesis using c keep by (simp add: counted_def)
  qed
qed

lemma run_counted:
  assumes "policy_ok config" and "run_policy rs cur0 (init_basic_policy config) = Inr (cur, p)"
  shows "counted config rs cur p"
  using assms(2)
proof (induction rs arbitrary: cur p rule: rev_induct)
  case Nil
  then show ?case
    using init_counter_ok [OF assms(1)] by (auto simp: counted_def init_basic_policy_def)
next
  case (snoc reqs rs)
  obtain c q where q: "run_policy rs cur0 (init_basic_policy config) = Inr (c, q)"
    "get_decision_num_replicas reqs c q = Inr (cur, p)"
    using snoc.prems by (auto simp: run_policy_append result_simps split: prod.splits)
  show ?case using decision_counted [OF snoc.IH [OF q(1)] q(2)] by simp
qed

section \<open>Sustained load\<close>

lemma sustained_step:
  assumes ok: "counter_ok p" and w: "wants_more (policy_config p) cur0 reqs" and c: "cur0 \<le> cur"
  shows "\<exists>n p'. get_decision_num_replicas reqs cur p = Inr (n, p') \<and> counter_ok p'
     \<and> policy_config p' = policy_config p
     \<and> scale_up_consecutive_periods p' = scale_up_consecutive_periods p
     \<and> (cur0 < n \<or> cur = cur0 \<and> n = cur \<and> decision_counter p' = max (decision_counter p) 0 + 1)"
proof -
  obtain m where m: "calculate_desired_num_replicas (policy_config p) reqs = Inr m" "cur0 < m"
    using w by (auto simp: wants_more_def split: sum.splits)
  then have ne: "reqs \<noteq> []" by (auto simp: calculate_desired_num_replicas_def)
  obtain n p' where d: "get_decision_num_replicas reqs cur p = Inr (n, p')" "counter_ok p'"
    "policy_config p' = policy_config p" "scale_up_consecutive_periods p' = scale_up_consecutive_periods p"
    using decision_returns [OF ok, of reqs cur] by auto
  have "cur0 < n \<or> cur = cur0 \<and> n = cur \<and> decision_counter p' = max (decision_counter p) 0 + 1"
    using d(1) [unfolded decision_cases [OF m(1) ne]] m(2) c by (auto split: if_splits)
  then show ?thesis using d by blast
qed

lemma sustained_run:
  assumes "counter_ok p" and "list_all (wants_more (policy_config p) cur0) rs" and "cur0 \<le> cur"
    and "cur0 < cur \<or> scale_up_consecutive_periods p < max (decision_counter p) 0 + int (length rs)"
  shows "\<exists>n p'. run_policy rs cur p = Inr (n, p') \<and> cur0 < n"
  using assms
proof (induction rs arbitrary: cur p)
  case Nil
  then show ?case by (auto simp: counter_ok_def)
next
  case (Cons reqs rs)
  obtain n p' where d: "get_decision_num_replicas reqs cur p = Inr (n, p')" "counter_ok p'"
    "policy_config p' = policy_config p" "scale_up_consecutive_periods p' = scale_up_consecutive_periods p"
    and step: "cur0 < n \<or> cur = cur0 \<and> n = cur \<and> decision_counter p' = max (decision_counter p) 0 + 1"
    using sustained_step [of p cur0 reqs cur] Cons.prems by auto
  have "\<exists>m q. run_policy rs n p' = Inr (m, q) \<and> cur0 < m"
  proof (rule Cons.IH [OF d(2)])
    show "list_all (wants_more (policy_config p') cur0) rs" using Cons.prems(2) d(3) by simp
    show "cur0 \<le> n" using step Cons.prems(3) by auto
    show "cur0 < n \<or> scale_up_consecutive_periods p' < max (decision_counter p') 0 + int (length rs)"
      using step Cons.prems(4) d(4) by auto
  qed
  then show ?case using d(1) by simp
qed

section \<open>Guarantees\<close>

text \<open>
  Hysteresis. However long the policy has been running, it changes the target only to the
  desired number of the current measurement, within the configured minimum and maximum, and only
  after every one of the last \<open>upscale_delay_s / 0.1\<close> (respectively
  \<open>downscale_delay_s / 0.1\<close>) measurements and the current one asked for more (less) than the
  target.
\<close>

theorem scaling_needs_sustained_load:
  assumes "policy_ok config"
    and "run_policy rs cur0 (init_basic_policy config) = Inr (cur, p)"
    and "get_decision_num_replicas reqs cur p = Inr (n, p')" and "n \<noteq> cur"
  shows "calculate_desired_num_replicas config reqs = Inr n
     \<and> min_replicas config \<le> n \<and> n \<le> max_replicas config
     \<and> (if cur < n
        then last_all (wants_more config cur)
               (int_of_float (upscale_delay_s config / CONTROL_LOOP_PERIOD_S) + 1) (measured (rs @ [reqs]))
        else last_all (wants_less config cur)
               (int_of_float (downscale_delay_s config / CONTROL_LOOP_PERIOD_S) + 1) (measured (rs @ [reqs])))"
proof -
  have c: "counted config rs cur p" by (rule run_counted [OF assms(1,2)])
  have "min_replicas config \<le> n \<and> n \<le> max_replicas config"
    using decision_returns [of p reqs cur] c assms(3,4) by (auto simp: counted_def)
  then show ?thesis using decision_counted [OF c assms(3)] assms(4) c by (auto simp: counted_def)
qed

definition ex_autoscaling :: autoscaling_config where
  "ex_autoscaling = \<lparr>min_replicas = 1, max_replicas = 10, target_num_ongoing_requests_per_replica = 2,
     metrics_interval_s = 10, look_back_period_s = 30, smoothing_factor = 1, downscale_delay_s = 1, upscale_delay_s = 1 / 5\<rparr>"

theorem scaling_needs_sustained_load_witness:
  "\<exists>p'. run_policy [[8], [], [9], [7]] 1 (init_basic_policy ex_autoscaling) = Inr (4, p')
     \<and> wants_more ex_autoscaling 1 [8] \<and> wants_more ex_autoscaling 1 [9]"
proof -
  let ?p = "init_basic_policy ex_autoscaling"
  have p: "run_policy [[8], [], [9]] 1 ?p = Inr (1, ?p\<lparr>decision_counter := 2\<rparr>)"
    "get_decision_num_replicas [7] 1 (?p\<lparr>decision_counter := 2\<rparr>) = Inr (4, ?p)"
    "run_policy [[8], [], [9], [7]] 1 ?p = Inr (4, ?p)"
    by code_simp+
  have "policy_ok ex_autoscaling" by code_simp
  from scaling_needs_sustained_load [OF this p(1,2)]
  have "last_all (wants_more ex_autoscaling 1) 3 [[8], [9], [7]]"
    by (simp add: measured_def ex_autoscaling_def CONTROL_LOOP_PERIOD_S_def int_of_float_def)
  then show ?thesis using p(3) by (simp add: last_all_def)
qed

text \<open>
  C28: sustained load is answered. In whatever state the counter is, once as many measurements as
  the delay has periods, and one more, all ask for more replicas than the target, the target has
  grown.
\<close>

theorem sustained_load_scales_up:
  assumes "counter_ok p" and "list_all (wants_more (policy_config p) cur) rs"
    and "int (length rs) = scale_up_consecutive_periods p + 1"
  shows "\<exists>n p'. run_policy rs cur p = Inr (n, p') \<and> cur < n"
  by (rule sustained_run [OF assms(1,2)]) (use assms(3) in auto)

theorem sustained_load_scales_up_witness:
  "\<exists>n p'. run_policy [[8], [9], [7]] 1 ((init_basic_policy ex_autoscaling)\<lparr>decision_counter := - 5\<rparr>)
     = Inr (n, p') \<and> 1 < n"
  by (rule sustained_load_scales_up) code_simp+

end
