(* ===== verification/Serve_Common.thy ===== *)
theory Serve_Common
  imports Stateful Serve_Autoscaling "HOL-Library.Word" "HOL-Library.Sublist"
begin

text \<open>
  The data Serve's controller works with: \<open>serve/config.py\<close> (the configuration of a
  deployment), \<open>serve/version.py\<close> (versions, compared by a CRC of the pickled user
  configuration and the code version) and \<open>serve/common.py\<close> (deployment descriptions and
  the names of replica actors).

  \<open>zlib.crc32\<close> is the byte-wise shift register on 32-bit words. User configurations are
  Python values; their pickled bytes are an argument. The theorems are that two versions that
  differ always differ in the code version or in the hash of the user configuration, and exactly
  which replica names survive printing and parsing.
\<close>

unbundle bit_operations_syntax

section \<open>Configuration\<close>

datatype py_value =
    PyNone
  | PyBool bool
  | PyInt int
  | PyStr string
  | PyList "py_value list"
  | PyDict "(string \<times> py_value) list"

record deployment_config =
  num_replicas :: int
  max_concurrent_queries :: int
  user_config :: py_value
  graceful_shutdown_wait_loop_s :: rat
  graceful_shutdown_timeout_s :: rat
  autoscaling_config :: "autoscaling_config option"

text \<open>\<open>PositiveInt\<close>, \<open>NonNegativeFloat\<close> and the validator of the queries.\<close>

definition new_deployment_config ::
  "int \<Rightarrow> int option \<Rightarrow> py_value \<Rightarrow> rat \<Rightarrow> rat \<Rightarrow> autoscaling_config option \<Rightarrow> deployment_config result" where
  "new_deployment_config n q u wait_s timeout_s autoscaling =
     (if n \<le> 0 \<or> wait_s < 0 \<or> timeout_s < 0 then Inl ValueError
      else if (case q of None \<Rightarrow> False | Some v \<Rightarrow> v \<le> 0) then Inl ValueError
      else Inr \<lparr>num_replicas = n,
                max_concurrent_queries = (case q of None \<Rightarrow> 100 | Some v \<Rightarrow> v),
                user_config = u, graceful_shutdown_wait_loop_s = wait_s,
                graceful_shutdown_timeout_s = timeout_s, autoscaling_config = autoscaling\<rparr>)"

text \<open>The policy is an object that copies of an info share, so it comes with its identity.\<close>

record deployment_info =
  deployment_config :: deployment_config
  resource_dict :: "(string, rat) dict"
  start_time_ms :: int
  info_version :: "string option"
  end_time_ms :: "int option"
  autoscaling_policy :: "(nat \<times> basic_policy) option"

section \<open>CRC-32\<close>

definition crc_shift :: "32 word \<Rightarrow> 32 word" where
  "crc_shift c = (if bit c 0 then drop_bit 1 c XOR 0xEDB88320 else drop_bit 1 c)"

definition crc_byte :: "8 word \<Rightarrow> 32 word \<Rightarrow> 32 word" where
  "crc_byte b c = (crc_shift ^^ 8) (c XOR ucast b)"

definition crc32 :: "8 word list \<Rightarrow> 32 word" where
  "crc32 bs = fold crc_byte bs 0xFFFFFFFF XOR 0xFFFFFFFF"

text \<open>The value \<open>zlib.crc32(b"a")\<close> of the library.\<close>

lemma crc32_check: "crc32 [97] = 0xE8B7BE43"
  by code_simp

lemma xor_cancel_mask: "a XOR m = b XOR m \<longleftrightarrow> a = (b :: 'a::len word)"
proof
  assume "a XOR m = b XOR m"
  then have "(a XOR m) XOR m = (b XOR m) XOR m" by simp
  then show "a = b" by (simp add: xor.assoc)
qed simp

lemma crc32_append_cong: "crc32 a = crc32 b \<Longrightarrow> crc32 (a @ c) = crc32 (b @ c)"
  by (simp add: crc32_def xor_cancel_mask)

section \<open>Versions\<close>

record deployment_version =
  unversioned :: bool
  code_version :: string
  dv_user_config :: py_value
  user_config_hash :: "32 word"
  version_hash :: "32 word"

text \<open>A character is a code point below 256: one byte below 128, two bytes otherwise.\<close>

definition encode_utf8 :: "string \<Rightarrow> 8 word list" where
  "encode_utf8 s = concat (map (\<lambda>c.
     let n = of_char c :: nat in
     if n < 128 then [of_nat n] else [of_nat (192 + n div 64), of_nat (128 + n mod 64)]) s)"

text \<open>\<open>pickled\<close> is \<open>pickle.dumps\<close> and \<open>letters\<close> what \<open>get_random_letters\<close> returns.\<close>

definition new_deployment_version ::
  "(py_value \<Rightarrow> 8 word list) \<Rightarrow> string \<Rightarrow> string option \<Rightarrow> py_value \<Rightarrow> deployment_version" where
  "new_deployment_version pickled letters code user_conf =
     (let code_str = (case code of None \<Rightarrow> letters | Some c \<Rightarrow> c);
          pickled_user_config = pickled user_conf
      in \<lparr>unversioned = (code = None), code_version = code_str, dv_user_config = user_conf,
          user_config_hash = crc32 pickled_user_config,
          version_hash = crc32 (pickled_user_config @ encode_utf8 code_str)\<rparr>)"

text \<open>\<open>==\<close> on values that are None or a version.\<close>

definition version_eq :: "deployment_version option \<Rightarrow> deployment_version option \<Rightarrow> bool" where
  "version_eq a b = (case (a, b) of
       (None, None) \<Rightarrow> True
     | (Some v, Some w) \<Rightarrow> version_hash v = version_hash w
     | _ \<Rightarrow> False)"

definition version_wf :: "(py_value \<Rightarrow> 8 word list) \<Rightarrow> deployment_version \<Rightarrow> bool" where
  "version_wf pickled v \<longleftrightarrow>
     user_config_hash v = crc32 (pickled (dv_user_config v))
     \<and> version_hash v = crc32 (pickled (dv_user_config v) @ encode_utf8 (code_version v))"

lemma new_version_wf [simp]: "version_wf pickled (new_deployment_version pickled letters code u)"
  by (simp add: version_wf_def new_deployment_version_def Let_def)

lemma new_version_fields [simp]:
  "code_version (new_deployment_version pickled letters (Some c) u) = c"
  "dv_user_config (new_deployment_version pickled letters code u) = u"
  by (simp_all add: new_deployment_version_def Let_def)

lemma version_eq_refl [simp]: "version_eq a a"
  by (simp add: version_eq_def split: option.split)

lemma version_eq_Some [simp]: "version_eq (Some v) (Some w) \<longleftrightarrow> version_hash v = version_hash w"
  by (simp add: version_eq_def)

lemma version_eq_None [simp]: "\<not> version_eq None (Some v)" "\<not> version_eq (Some v) None"
  by (simp_all add: version_eq_def)

text \<open>Versions that agree in the code version and in the hash of the user configuration are equal.\<close>

lemma same_parts_same_version:
  assumes "version_wf pickled v" and "version_wf pickled w"
    and "code_version v = code_version w" and "user_config_hash v = user_config_hash w"
  shows "version_hash v = version_hash w"
  using assms crc32_append_cong by (metis version_wf_def)

section \<open>Names of replicas\<close>

text \<open>\<open>s.replace(p, "")\<close>: occurrences are removed from left to right, without overlap.\<close>

function remove_all :: "string \<Rightarrow> string \<Rightarrow> string" where
  "remove_all p [] = []"
| "remove_all p (c # s) =
     (if p \<noteq> [] \<and> take (length p) (c # s) = p then remove_all p (drop (length p) (c # s))
      else c # remove_all p s)"
  by pat_completeness auto
termination by (relation "measure (\<lambda>(p, s). length s)") auto

text \<open>\<open>s.split(d)\<close> for a separator of one character.\<close>

fun split_on :: "char \<Rightarrow> string \<Rightarrow> string list" where
  "split_on d [] = [[]]"
| "split_on d (c # s) =
     (if c = d then [] # split_on d s
      else case split_on d s of [] \<Rightarrow> [[c]] | w # ws \<Rightarrow> (c # w) # ws)"

record replica_name =
  deployment_tag :: string
  replica_suffix :: string
  replica_tag :: string

definition REPLICA_PREFIX :: string where
  "REPLICA_PREFIX = ''SERVE_REPLICA::''"

definition REPLICA_DELIMITER :: char where
  "REPLICA_DELIMITER = CHR ''#''"

definition new_replica_name :: "string \<Rightarrow> string \<Rightarrow> replica_name" where
  "new_replica_name tag suff =
     \<lparr>deployment_tag = tag, replica_suffix = suff, replica_tag = tag @ [REPLICA_DELIMITER] @ suff\<rparr>"

definition is_replica_name :: "string \<Rightarrow> bool" where
  "is_replica_name actor_name = (take (length REPLICA_PREFIX) actor_name = REPLICA_PREFIX)"

definition replica_name_from_str :: "string \<Rightarrow> replica_name result" where
  "replica_name_from_str actor_name =
     bindE (assertE (is_replica_name actor_name)) (\<lambda>_.
     let parsed = split_on REPLICA_DELIMITER (remove_all REPLICA_PREFIX actor_name) in
     bindE (assertE (length parsed = 2)) (\<lambda>_.
     Inr (new_replica_name (parsed ! 0) (parsed ! 1))))"

lemma remove_all_prefix:
  assumes "p \<noteq> []"
  shows "remove_all p (p @ s) = remove_all p s"
  using assms by (cases p) auto

lemma length_remove_all_le: "length (remove_all p s) \<le> length s"
proof (induction p s rule: remove_all.induct)
  case (2 p c s)
  then show ?case by (auto simp: min_def split: if_splits)
qed simp

lemma remove_all_id_iff:
  assumes "p \<noteq> []"
  shows "remove_all p s = s \<longleftrightarrow> \<not> sublist p s"
  using assms
proof (induction p s rule: remove_all.induct)
  case (1 p)
  then show ?case by (auto simp: sublist_def)
next
  case (2 p c s)
  have pre: "take (length p) (c # s) = p \<longleftrightarrow> prefix p (c # s)"
    by (metis append_take_drop_id prefix_def append_eq_conv_conj)
  show ?case
  proof (cases "take (length p) (c # s) = p")
    case True
    have "length (remove_all p (c # s)) < length (c # s)"
      using length_remove_all_le [of p "drop (length p) (c # s)"] 2(3) True by (cases p) auto
    then have "remove_all p (c # s) \<noteq> c # s" by auto
    moreover have "sublist p (c # s)" using True pre by (simp add: prefix_imp_sublist)
    ultimately show ?thesis by simp
  next
    case False
    then have "sublist p (c # s) \<longleftrightarrow> sublist p s" using pre by (simp add: sublist_Cons_right)
    then show ?thesis using 2 False by simp
  qed
qed

lemma split_on_nonempty [simp]: "split_on d s \<noteq> []"
  by (induction s) (auto split: list.splits)

lemma split_on_join: "split_on d (a @ d # s) = split_on d a @ split_on d s"
proof (induction a)
  case (Cons c a)
  then show ?case by (cases "split_on d a") auto
qed simp

lemma split_on_notin: "d \<notin> set s \<Longrightarrow> split_on d s = [s]"
  by (induction s) auto

lemma length_split_on: "length (split_on d s) = Suc (count_list s d)"
  by (induction s) (auto split: list.splits)

lemma split_on_parts: "w \<in> set (split_on d s) \<Longrightarrow> d \<notin> set w"
  by (induction s arbitrary: w) (auto split: if_splits list.splits)

lemma is_replica_name_prefixed [simp]: "is_replica_name (REPLICA_PREFIX @ s)"
  by (simp add: is_replica_name_def)

lemma REPLICA_PREFIX_nonempty [simp]: "REPLICA_PREFIX \<noteq> []"
  by (simp add: REPLICA_PREFIX_def)

lemma from_str_prefixed:
  "replica_name_from_str (REPLICA_PREFIX @ s) =
     (let parsed = split_on REPLICA_DELIMITER (remove_all REPLICA_PREFIX s) in
      if length parsed = 2 then Inr (new_replica_name (parsed ! 0) (parsed ! 1)) else Inl AssertionError)"
  by (simp add: replica_name_from_str_def remove_all_prefix assertE_def Let_def)

lemma split_join_one: "split_on d s = [b] \<Longrightarrow> s = b"
  by (induction s arbitrary: b) (auto split: if_splits list.splits)

lemma split_join_two:
  assumes "split_on d s = [a, b]"
  shows "s = a @ d # b"
  using assms
proof (induction s arbitrary: a)
  case (Cons c s)
  show ?case
  proof (cases "c = d")
    case True
    then have "a = []" "split_on d s = [b]" using Cons.prems by auto
    then have "s = b" using split_join_one by blast
    then show ?thesis using True \<open>a = []\<close> by simp
  next
    case False
    then obtain w where "a = c # w" "split_on d s = [w, b]"
      using Cons.prems by (auto split: list.splits)
    then show ?thesis using Cons.IH by simp
  qed
qed simp

section \<open>Guarantees\<close>

text \<open>The three outcomes of parsing the registered name of a replica.\<close>

lemma from_str_forward:
  assumes "REPLICA_DELIMITER \<notin> set tag" and "REPLICA_DELIMITER \<notin> set suff"
    and "\<not> sublist REPLICA_PREFIX (tag @ REPLICA_DELIMITER # suff)"
  shows "replica_name_from_str (REPLICA_PREFIX @ tag @ REPLICA_DELIMITER # suff) = Inr (new_replica_name tag suff)"
  using assms by (simp add: from_str_prefixed remove_all_id_iff [THEN iffD2] split_on_join split_on_notin)

lemma from_str_backward:
  assumes "replica_name_from_str (REPLICA_PREFIX @ tag @ REPLICA_DELIMITER # suff) = Inr (new_replica_name tag suff)"
  shows "\<not> sublist REPLICA_PREFIX (tag @ REPLICA_DELIMITER # suff)"
proof -
  let ?s = "tag @ REPLICA_DELIMITER # suff"
  obtain a b where ab: "split_on REPLICA_DELIMITER (remove_all REPLICA_PREFIX ?s) = [a, b]" "a = tag" "b = suff"
    using assms by (auto simp: from_str_prefixed Let_def new_replica_name_def length_Suc_conv numeral_2_eq_2
        split: if_splits)
  then have "remove_all REPLICA_PREFIX ?s = ?s" using split_join_two by blast
  then show ?thesis by (simp add: remove_all_id_iff)
qed

lemma from_str_raises:
  assumes "REPLICA_DELIMITER \<in> set tag \<or> REPLICA_DELIMITER \<in> set suff"
    and "\<not> sublist REPLICA_PREFIX (tag @ REPLICA_DELIMITER # suff)"
  shows "replica_name_from_str (REPLICA_PREFIX @ tag @ REPLICA_DELIMITER # suff) = Inl AssertionError"
proof -
  have "count_list tag REPLICA_DELIMITER + count_list suff REPLICA_DELIMITER \<noteq> 0"
    using assms(1) by (auto simp: count_list_0_iff)
  then show ?thesis
    using assms(2)
    by (simp add: from_str_prefixed remove_all_id_iff [THEN iffD2] split_on_join length_split_on Let_def)
qed

text \<open>
  C32: the name a replica actor is registered under parses back to the same deployment and suffix
  when neither contains the delimiter and the tag does not contain the prefix; a delimiter in the
  deployment name makes parsing raise AssertionError, and a second prefix makes it return another
  name.
\<close>

theorem replica_name_round_trip:
  "(let registered = REPLICA_PREFIX @ replica_tag (new_replica_name tag suff) in
    if sublist REPLICA_PREFIX (replica_tag (new_replica_name tag suff))
    then replica_name_from_str registered \<noteq> Inr (new_replica_name tag suff)
    else if REPLICA_DELIMITER \<in> set tag \<or> REPLICA_DELIMITER \<in> set suff
    then replica_name_from_str registered = Inl AssertionError
    else replica_name_from_str registered = Inr (new_replica_name tag suff))"
proof -
  have tag: "replica_tag (new_replica_name tag suff) = tag @ REPLICA_DELIMITER # suff"
    by (simp add: new_replica_name_def)
  show ?thesis
    unfolding tag Let_def using from_str_backward [of tag suff] from_str_forward [of tag suff]
      from_str_raises [of tag suff]
    by presburger
qed

end
