(* ===== verification/Replica_Actor.thy ===== *)
theory Replica_Actor
  imports Serve_Common
begin

text \<open>
  The first half of \<open>serve/deployment_state.py\<close>: \<open>ActorReplicaWrapper\<close>, the only
  place where Serve's controller calls Ray; \<open>DeploymentReplica\<close>, one replica with its
  version; and \<open>ReplicaStateContainer\<close>, the replicas of a deployment by state.

  Ray, the clock and the random generator act on a world of type \<open>'w\<close> through the record
  \<open>ray_ops\<close>, which every method takes as an argument: nothing is assumed about them here.
  A method of an object is a program on the object and the world. \<open>None\<close> stands for a name
  Ray does not know (ValueError) and for a task that raised; calling a method of a missing handle
  is AttributeError and waiting for a missing reference TypeError, as in Python.
\<close>

datatype replica_state = STARTING | UPDATING | RECOVERING | RUNNING | STOPPING

datatype replica_startup_status = PENDING_ALLOCATION | PENDING_INITIALIZATION | SUCCEEDED | FAILED

definition ALL_REPLICA_STATES :: "replica_state list" where
  "ALL_REPLICA_STATES = [STARTING, UPDATING, RECOVERING, RUNNING, STOPPING]"

section \<open>Ray as seen by the controller\<close>

type_synonym actor_handle = nat
type_synonym object_ref = nat
type_synonym placement_group = nat

datatype actor_call = IsAllocated | Reconfigure py_value | GetMetadata | PrepareForShutdown | RunForever

record actor_options =
  ao_name :: string
  ao_namespace :: string
  ao_detached :: bool
  ao_placement_group :: "placement_group option"
  ao_deployment_name :: string
  ao_replica_tag :: string
  ao_info :: deployment_info
  ao_version :: deployment_version
  ao_controller_name :: string

record 'w ray_ops =
  ray_use_placement_group :: bool
  ray_controller_namespace :: "bool \<Rightarrow> string"
  ray_get_actor :: "string \<Rightarrow> string option \<Rightarrow> 'w \<Rightarrow> actor_handle option"
  ray_create_actor :: "actor_options \<Rightarrow> 'w \<Rightarrow> actor_handle \<times> 'w"
  ray_call :: "actor_handle \<Rightarrow> actor_call \<Rightarrow> 'w \<Rightarrow> object_ref \<times> 'w"
  ray_is_ready :: "object_ref \<Rightarrow> 'w \<Rightarrow> bool"
  ray_get :: "object_ref \<Rightarrow> 'w \<Rightarrow> (deployment_config \<times> deployment_version option) option"
  ray_kill :: "actor_handle \<Rightarrow> 'w \<Rightarrow> 'w"
  ray_placement_group :: "(string, rat) dict \<Rightarrow> bool \<Rightarrow> string \<Rightarrow> 'w \<Rightarrow> placement_group \<times> 'w"
  ray_get_placement_group :: "string \<Rightarrow> 'w \<Rightarrow> placement_group option"
  ray_remove_placement_group :: "placement_group \<Rightarrow> 'w \<Rightarrow> 'w"
  ray_available_resources :: "'w \<Rightarrow> (string, rat) dict"
  py_time :: "'w \<Rightarrow> rat \<times> 'w"
  py_random_letters :: "'w \<Rightarrow> string \<times> 'w"
  py_uuid4 :: "'w \<Rightarrow> nat \<times> 'w"
  py_randint :: "'w \<Rightarrow> int \<times> 'w"
  py_pickle :: "py_value \<Rightarrow> 8 word list"

section \<open>The wrapper of an actor\<close>

record actor_wrapper =
  aw_actor_name :: string
  aw_placement_group_name :: string
  aw_detached :: bool
  aw_controller_name :: string
  aw_controller_namespace :: string
  aw_replica_tag :: string
  aw_deployment_name :: string
  aw_allocated_obj_ref :: "object_ref option"
  aw_ready_obj_ref :: "object_ref option"
  aw_actor_resources :: "(string, rat) dict option"
  aw_max_concurrent_queries :: "int option"
  aw_graceful_shutdown_timeout_s :: rat
  aw_health_check_ref :: "object_ref option"
  aw_actor_handle :: "actor_handle option"
  aw_placement_group :: "placement_group option"
  aw_graceful_shutdown_ref :: "object_ref option"

definition init_actor_wrapper ::
  "'w ray_ops \<Rightarrow> string \<Rightarrow> bool \<Rightarrow> string \<Rightarrow> string \<Rightarrow> string \<Rightarrow> actor_wrapper" where
  "init_actor_wrapper ray actor_name detached controller_name tag deployment_name =
     \<lparr>aw_actor_name = actor_name,
      aw_placement_group_name = actor_name @ ''_placement_group'',
      aw_detached = detached,
      aw_controller_name = controller_name,
      aw_controller_namespace = ray_controller_namespace ray detached,
      aw_replica_tag = tag,
      aw_deployment_name = deployment_name,
      aw_allocated_obj_ref = None,
      aw_ready_obj_ref = None,
      aw_actor_resources = None,
      aw_max_concurrent_queries = None,
      aw_graceful_shutdown_timeout_s = 0,
      aw_health_check_ref = None,
      aw_actor_handle = None,
      aw_placement_group = None,
      aw_graceful_shutdown_ref = None\<rparr>"

text \<open>The property \<open>actor_handle\<close> looks the actor up once and remembers it.\<close>

definition wrapper_actor_handle :: "'w ray_ops \<Rightarrow> actor_wrapper \<Rightarrow> 'w \<Rightarrow> actor_wrapper" where
  "wrapper_actor_handle ray a w =
     (case aw_actor_handle a of
        Some h \<Rightarrow> a
      | None \<Rightarrow> a\<lparr>aw_actor_handle := ray_get_actor ray (aw_actor_name a) (Some (aw_controller_namespace a)) w\<rparr>)"

definition create_placement_group ::
  "'w ray_ops \<Rightarrow> string \<Rightarrow> (string, rat) dict \<Rightarrow> actor_wrapper \<times> 'w \<Rightarrow> actor_wrapper \<times> 'w" where
  "create_placement_group ray placement_group_name actor_resources = (\<lambda>(a, w).
     case aw_placement_group a of
       Some pg \<Rightarrow> (a, w)
     | None \<Rightarrow>
         let (pg, w1) = ray_placement_group ray actor_resources (aw_detached a) placement_group_name w
         in (a\<lparr>aw_placement_group := Some pg\<rparr>, w1))"

definition get_placement_group :: "'w ray_ops \<Rightarrow> string \<Rightarrow> actor_wrapper \<Rightarrow> 'w \<Rightarrow> actor_wrapper" where
  "get_placement_group ray placement_group_name a w =
     (case aw_placement_group a of
        Some pg \<Rightarrow> a
      | None \<Rightarrow> a\<lparr>aw_placement_group := ray_get_placement_group ray placement_group_name w\<rparr>)"

definition wrapper_start ::
  "'w ray_ops \<Rightarrow> deployment_info \<Rightarrow> deployment_version \<Rightarrow> actor_wrapper \<times> 'w \<Rightarrow> actor_wrapper \<times> 'w" where
  "wrapper_start ray info ver = (\<lambda>(a, w).
     let conf = deployment_config info;
         a = a\<lparr>aw_actor_resources := Some (resource_dict info),
               aw_max_concurrent_queries := Some (max_concurrent_queries conf),
               aw_graceful_shutdown_timeout_s := graceful_shutdown_timeout_s conf\<rparr>;
         (a, w) = (if ray_use_placement_group ray
                   then create_placement_group ray (aw_placement_group_name a) (resource_dict info) (a, w)
                   else (a, w));
         (h, w) = ray_create_actor ray
           \<lparr>ao_name = aw_actor_name a, ao_namespace = aw_controller_namespace a,
            ao_detached = aw_detached a, ao_placement_group = aw_placement_group a,
            ao_deployment_name = aw_deployment_name a, ao_replica_tag = aw_replica_tag a,
            ao_info = info, ao_version = ver, ao_controller_name = aw_controller_name a\<rparr> w;
         (allocated, w) = ray_call ray h IsAllocated w;
         (ready, w) = ray_call ray h (Reconfigure (user_config conf)) w
     in (a\<lparr>aw_actor_handle := Some h, aw_allocated_obj_ref := Some allocated,
            aw_ready_obj_ref := Some ready\<rparr>, w))"

definition wrapper_update_user_config ::
  "'w ray_ops \<Rightarrow> py_value \<Rightarrow> (actor_wrapper \<times> 'w, unit) prog" where
  "wrapper_update_user_config ray u = (\<lambda>(a, w).
     case aw_actor_handle a of
       None \<Rightarrow> (Inl AttributeError, (a, w))
     | Some h \<Rightarrow>
         let (ready, w1) = ray_call ray h (Reconfigure u) w
         in (Inr (), (a\<lparr>aw_ready_obj_ref := Some ready\<rparr>, w1)))"

definition wrapper_recover :: "'w ray_ops \<Rightarrow> (actor_wrapper \<times> 'w, unit) prog" where
  "wrapper_recover ray = (\<lambda>(a, w).
     let a = wrapper_actor_handle ray a w;
         a = (if ray_use_placement_group ray
              then get_placement_group ray (aw_placement_group_name a) a w else a)
     in case aw_actor_handle a of
          None \<Rightarrow> (Inl AttributeError, (a, w))
        | Some h \<Rightarrow>
            let (allocated, w1) = ray_call ray h IsAllocated w;
                (ready, w2) = ray_call ray h GetMetadata w1
            in (Inr (), (a\<lparr>aw_allocated_obj_ref := Some allocated, aw_ready_obj_ref := Some ready\<rparr>, w2)))"

definition check_ready ::
  "'w ray_ops \<Rightarrow> (actor_wrapper \<times> 'w, replica_startup_status \<times> deployment_version option) prog" where
  "check_ready ray = (\<lambda>(a, w).
     case aw_allocated_obj_ref a of
       None \<Rightarrow> (Inl TypeError, (a, w))
     | Some allocated \<Rightarrow>
         if \<not> ray_is_ready ray allocated w then (Inr (PENDING_ALLOCATION, None), (a, w))
         else (case aw_ready_obj_ref a of
             None \<Rightarrow> (Inl TypeError, (a, w))
           | Some ready \<Rightarrow>
               if \<not> ray_is_ready ray ready w then (Inr (PENDING_INITIALIZATION, None), (a, w))
               else (case ray_get ray ready w of
                   None \<Rightarrow> (Inr (FAILED, None), (a, w))
                 | Some (conf, ver) \<Rightarrow>
                     (Inr (SUCCEEDED, ver),
                      (a\<lparr>aw_max_concurrent_queries := Some (max_concurrent_queries conf),
                         aw_graceful_shutdown_timeout_s := graceful_shutdown_timeout_s conf\<rparr>, w)))))"

definition graceful_stop :: "'w ray_ops \<Rightarrow> actor_wrapper \<times> 'w \<Rightarrow> rat \<times> (actor_wrapper \<times> 'w)" where
  "graceful_stop ray = (\<lambda>(a, w).
     case ray_get_actor ray (aw_actor_name a) None w of
       None \<Rightarrow> (aw_graceful_shutdown_timeout_s a, (a, w))
     | Some h \<Rightarrow>
         let (ref, w1) = ray_call ray h PrepareForShutdown w
         in (aw_graceful_shutdown_timeout_s a, (a\<lparr>aw_graceful_shutdown_ref := Some ref\<rparr>, w1)))"

definition wrapper_check_stopped :: "'w ray_ops \<Rightarrow> (actor_wrapper \<times> 'w, bool) prog" where
  "wrapper_check_stopped ray = (\<lambda>(a, w).
     case ray_get_actor ray (aw_actor_name a) None w of
       None \<Rightarrow> (Inr True, (a, w))
     | Some h \<Rightarrow>
         (case aw_graceful_shutdown_ref a of
            None \<Rightarrow> (Inl TypeError, (a, w))
          | Some ref \<Rightarrow>
              if ray_is_ready ray ref w then (Inr True, (a, ray_kill ray h w))
              else (Inr False, (a, w))))"

definition wrapper_check_health :: "'w ray_ops \<Rightarrow> (actor_wrapper \<times> 'w, bool) prog" where
  "wrapper_check_health ray = (\<lambda>(a, w).
     case aw_health_check_ref a of
       Some ref \<Rightarrow> (Inr (\<not> ray_is_ready ray ref w), (a, w))
     | None \<Rightarrow>
         (case aw_actor_handle a of
            None \<Rightarrow> (Inl AttributeError, (a, w))
          | Some h \<Rightarrow>
              let (ref, w1) = ray_call ray h RunForever w
              in (Inr (\<not> ray_is_ready ray ref w1), (a\<lparr>aw_health_check_ref := Some ref\<rparr>, w1))))"

definition force_stop :: "'w ray_ops \<Rightarrow> actor_wrapper \<times> 'w \<Rightarrow> actor_wrapper \<times> 'w" where
  "force_stop ray = (\<lambda>(a, w).
     case ray_get_actor ray (aw_actor_name a) None w of
       None \<Rightarrow> (a, w) | Some h \<Rightarrow> (a, ray_kill ray h w))"

definition cleanup :: "'w ray_ops \<Rightarrow> actor_wrapper \<times> 'w \<Rightarrow> actor_wrapper \<times> 'w" where
  "cleanup ray = (\<lambda>(a, w).
     if \<not> ray_use_placement_group ray then (a, w)
     else case aw_placement_group a of
       None \<Rightarrow> (a, w) | Some pg \<Rightarrow> (a, ray_remove_placement_group ray pg w))"

section \<open>Replicas\<close>

record deployment_replica =
  rep_actor :: actor_wrapper
  rep_controller_name :: string
  rep_deployment_name :: string
  rep_tag :: string
  rep_version :: "deployment_version option"
  rep_start_time :: "rat option"
  rep_prev_slow_startup_warning_time :: "rat option"
  rep_shutdown_deadline :: "rat option"

record running_replica_info =
  rri_deployment_name :: string
  rri_replica_tag :: string
  rri_actor_handle :: "actor_handle option"
  rri_max_concurrent_queries :: "int option"

definition new_deployment_replica ::
  "'w ray_ops \<Rightarrow> string \<Rightarrow> bool \<Rightarrow> string \<Rightarrow> string \<Rightarrow> deployment_version option \<Rightarrow> deployment_replica" where
  "new_deployment_replica ray controller_name detached tag deployment_name ver =
     \<lparr>rep_actor = init_actor_wrapper ray (REPLICA_PREFIX @ tag) detached controller_name tag deployment_name,
      rep_controller_name = controller_name,
      rep_deployment_name = deployment_name,
      rep_tag = tag,
      rep_version = ver,
      rep_start_time = None,
      rep_prev_slow_startup_warning_time = None,
      rep_shutdown_deadline = None\<rparr>"

text \<open>A method of the wrapper called from a method of the replica.\<close>

definition on_actor ::
  "(actor_wrapper \<times> 'w, 'a) prog \<Rightarrow> (deployment_replica \<times> 'w, 'a) prog" where
  "on_actor m = (\<lambda>(r, w).
     let (res, (a, w1)) = m (rep_actor r, w) in (res, (r\<lparr>rep_actor := a\<rparr>, w1)))"

definition get_running_replica_info ::
  "'w ray_ops \<Rightarrow> deployment_replica \<Rightarrow> 'w \<Rightarrow> running_replica_info \<times> deployment_replica" where
  "get_running_replica_info ray r w =
     (let a = wrapper_actor_handle ray (rep_actor r) w
      in (\<lparr>rri_deployment_name = rep_deployment_name r, rri_replica_tag = rep_tag r,
           rri_actor_handle = aw_actor_handle a,
           rri_max_concurrent_queries = aw_max_concurrent_queries a\<rparr>,
          r\<lparr>rep_actor := a\<rparr>))"

definition replica_start ::
  "'w ray_ops \<Rightarrow> deployment_info \<Rightarrow> deployment_version \<Rightarrow> deployment_replica \<times> 'w \<Rightarrow> deployment_replica \<times> 'w" where
  "replica_start ray info ver = (\<lambda>(r, w).
     let (a, w) = wrapper_start ray info ver (rep_actor r, w);
         (t1, w) = py_time ray w;
         (t2, w) = py_time ray w
     in (r\<lparr>rep_actor := a, rep_start_time := Some t1,
            rep_prev_slow_startup_warning_time := Some t2, rep_version := Some ver\<rparr>, w))"

definition replica_update_user_config ::
  "'w ray_ops \<Rightarrow> py_value \<Rightarrow> (deployment_replica \<times> 'w, unit) prog" where
  "replica_update_user_config ray u =
     thenS (on_actor (wrapper_update_user_config ray u)) (\<lambda>(r, w).
       case rep_version r of
         None \<Rightarrow> (Inl AttributeError, (r, w))
       | Some v \<Rightarrow>
           (Inr (), (r\<lparr>rep_version :=
              Some (new_deployment_version (py_pickle ray) [] (Some (code_version v)) u)\<rparr>, w)))"

definition replica_recover :: "'w ray_ops \<Rightarrow> (deployment_replica \<times> 'w, unit) prog" where
  "replica_recover ray =
     thenS (on_actor (wrapper_recover ray)) (\<lambda>(r, w).
       let (t, w1) = py_time ray w in (Inr (), (r\<lparr>rep_start_time := Some t\<rparr>, w1)))"

definition check_started :: "'w ray_ops \<Rightarrow> (deployment_replica \<times> 'w, replica_startup_status) prog" where
  "check_started ray =
     bindS (on_actor (check_ready ray)) (\<lambda>(status, ver) (r, w).
       if status = SUCCEEDED \<and> ver \<noteq> None then (Inr status, (r\<lparr>rep_version := ver\<rparr>, w))
       else (Inr status, (r, w)))"

definition replica_stop :: "'w ray_ops \<Rightarrow> bool \<Rightarrow> deployment_replica \<times> 'w \<Rightarrow> deployment_replica \<times> 'w" where
  "replica_stop ray graceful = (\<lambda>(r, w).
     let (timeout_s, (a, w)) = graceful_stop ray (rep_actor r, w);
         timeout_s = (if graceful then timeout_s else 0);
         (t, w) = py_time ray w
     in (r\<lparr>rep_actor := a, rep_shutdown_deadline := Some (t + timeout_s)\<rparr>, w))"

definition replica_check_stopped :: "'w ray_ops \<Rightarrow> (deployment_replica \<times> 'w, bool) prog" where
  "replica_check_stopped ray =
     bindS (on_actor (wrapper_check_stopped ray)) (\<lambda>stopped (r, w).
       if stopped then
         let (a, w1) = cleanup ray (rep_actor r, w) in (Inr True, (r\<lparr>rep_actor := a\<rparr>, w1))
       else
         let (t, w1) = py_time ray w in
         case rep_shutdown_deadline r of
           None \<Rightarrow> (Inl AttributeError, (r, w1))
         | Some deadline \<Rightarrow>
             if t > deadline then
               let (a, w2) = force_stop ray (rep_actor r, w1) in (Inr False, (r\<lparr>rep_actor := a\<rparr>, w2))
             else (Inr False, (r, w1)))"

definition replica_check_health :: "'w ray_ops \<Rightarrow> (deployment_replica \<times> 'w, bool) prog" where
  "replica_check_health ray = on_actor (wrapper_check_health ray)"

text \<open>The strings \<open>"UNKNOWN"\<close> are \<open>None\<close>; otherwise the two dictionaries that are printed.\<close>

definition resource_requirements ::
  "'w ray_ops \<Rightarrow> deployment_replica \<Rightarrow> 'w \<Rightarrow> ((string, rat) dict \<times> (string, rat) dict) option" where
  "resource_requirements ray r w =
     (case aw_actor_resources (rep_actor r) of
        None \<Rightarrow> None
      | Some res \<Rightarrow>
          let required = filter (\<lambda>(k, v). v > 0) res;
              available = filter (\<lambda>(k, v). dmem k required) (ray_available_resources ray w)
          in Some (required, available))"

section \<open>The container\<close>

type_synonym replica_container = "replica_state \<Rightarrow> deployment_replica list"

definition init_container :: replica_container where
  "init_container = (\<lambda>_. [])"

definition container_add :: "replica_state \<Rightarrow> deployment_replica \<Rightarrow> replica_container \<Rightarrow> replica_container" where
  "container_add st r c = c(st := c st @ [r])"

definition container_get :: "replica_state list option \<Rightarrow> replica_container \<Rightarrow> deployment_replica list" where
  "container_get sts c = concat (map c (case sts of None \<Rightarrow> ALL_REPLICA_STATES | Some l \<Rightarrow> l))"

text \<open>
  One state of \<open>pop\<close>: what is popped and what remains, when \<open>n\<close> replicas have been
  popped before. \<open>max_count\<close> is \<open>None\<close> for \<open>math.inf\<close>.
\<close>

fun pop_scan ::
  "deployment_version option \<Rightarrow> int option \<Rightarrow> nat \<Rightarrow> deployment_replica list
     \<Rightarrow> deployment_replica list \<times> deployment_replica list" where
  "pop_scan exclude_version max_count n [] = ([], [])"
| "pop_scan exclude_version max_count n (r # rs) =
     (if max_count = Some (int n) \<or> exclude_version \<noteq> None \<and> version_eq (rep_version r) exclude_version
      then (let (popped, remaining) = pop_scan exclude_version max_count n rs in (popped, r # remaining))
      else (let (popped, remaining) = pop_scan exclude_version max_count (Suc n) rs
            in (r # popped, remaining)))"

fun pop_states ::
  "deployment_version option \<Rightarrow> int option \<Rightarrow> nat \<Rightarrow> replica_state list \<Rightarrow> replica_container
     \<Rightarrow> deployment_replica list \<times> replica_container" where
  "pop_states exclude_version max_count n [] c = ([], c)"
| "pop_states exclude_version max_count n (st # sts) c =
     (let (popped, remaining) = pop_scan exclude_version max_count n (c st);
          (replicas, c') = pop_states exclude_version max_count (n + length popped) sts (c(st := remaining))
      in (popped @ replicas, c'))"

definition container_pop ::
  "deployment_version option \<Rightarrow> replica_state list option \<Rightarrow> int option \<Rightarrow> replica_container
     \<Rightarrow> deployment_replica list \<times> replica_container" where
  "container_pop exclude_version sts max_count c =
     pop_states exclude_version max_count 0
       (case sts of None \<Rightarrow> ALL_REPLICA_STATES | Some l \<Rightarrow> l) c"

definition container_count ::
  "deployment_version option \<Rightarrow> deployment_version option \<Rightarrow> replica_state list option
     \<Rightarrow> replica_container \<Rightarrow> nat result" where
  "container_count exclude_version ver sts c =
     (let states = (case sts of None \<Rightarrow> ALL_REPLICA_STATES | Some l \<Rightarrow> l) in
      case (exclude_version, ver) of
        (None, None) \<Rightarrow> Inr (sum_list (map (\<lambda>st. length (c st)) states))
      | (None, Some v) \<Rightarrow>
          Inr (sum_list (map (\<lambda>st. length (filter (\<lambda>r. version_eq (rep_version r) (Some v)) (c st))) states))
      | (Some x, None) \<Rightarrow>
          Inr (sum_list (map (\<lambda>st. length (filter (\<lambda>r. \<not> version_eq (rep_version r) (Some x)) (c st))) states))
      | (Some _, Some _) \<Rightarrow> Inl ValueError)"

end
