(* ===== verification/Async_Goals.thy ===== *)
theory Async_Goals
  imports Stateful
begin

text \<open>
  \<open>serve/async_goal_manager.py\<close>: the goals a controller hands to its clients. A goal object
  outlives its entry in \<open>_pending_goals\<close> because clients awaiting it keep a reference, so
  the goals live in a store \<open>gm_objects\<close> indexed by creation and the dictionary holds
  references; \<open>asyncio.Event\<close> is its flag. \<open>uuid4\<close> is an argument.

  The theorems are about every sequence of calls: no assertion of \<open>AsyncGoal\<close> can fail, a
  pending goal is not done, and an awaited goal is finished by its own completion only.
\<close>

type_synonym goal_id = nat

datatype goal_exn = GoalRuntimeError string

record async_goal =
  goal_id :: goal_id
  event_set :: bool
  goal_result :: "goal_id option"
  goal_exception :: "goal_exn option"

definition new_async_goal :: "goal_id \<Rightarrow> async_goal" where
  "new_async_goal g = \<lparr>goal_id = g, event_set = False, goal_result = None, goal_exception = None\<rparr>"

definition goal_done :: "async_goal \<Rightarrow> bool" where
  "goal_done a = event_set a"

definition set_result :: "goal_id \<Rightarrow> async_goal \<Rightarrow> async_goal result" where
  "set_result r a =
     bindE (assertE (\<not> goal_done a)) (\<lambda>_.
     bindE (assertE (goal_result a = None \<and> goal_exception a = None)) (\<lambda>_.
     Inr (a\<lparr>goal_result := Some r, event_set := True\<rparr>)))"

definition set_exception :: "goal_exn \<Rightarrow> async_goal \<Rightarrow> async_goal result" where
  "set_exception e a =
     bindE (assertE (\<not> goal_done a)) (\<lambda>_.
     bindE (assertE (goal_result a = None \<and> goal_exception a = None)) (\<lambda>_.
     Inr (a\<lparr>goal_exception := Some e, event_set := True\<rparr>)))"

record goal_manager =
  gm_objects :: "async_goal list"
  gm_pending :: "(goal_id, nat) dict"

definition init_goal_manager :: goal_manager where
  "init_goal_manager = \<lparr>gm_objects = [], gm_pending = []\<rparr>"

definition num_pending_goals :: "goal_manager \<Rightarrow> nat" where
  "num_pending_goals m = length (gm_pending m)"

text \<open>The caller supplies the fresh identifier \<open>uuid4()\<close> would return when none is given.\<close>

definition create_goal :: "goal_id option \<Rightarrow> goal_id \<Rightarrow> goal_manager \<Rightarrow> goal_id \<times> goal_manager" where
  "create_goal given uuid m =
     (let g = (case given of None \<Rightarrow> uuid | Some g \<Rightarrow> g)
      in (g, \<lparr>gm_objects = gm_objects m @ [new_async_goal g],
              gm_pending = dset (gm_pending m) g (length (gm_objects m))\<rparr>))"

definition get_goal :: "goal_id \<Rightarrow> goal_manager \<Rightarrow> async_goal option" where
  "get_goal g m = map_option (\<lambda>r. gm_objects m ! r) (map_of (gm_pending m) g)"

definition complete_goal :: "goal_id \<Rightarrow> goal_exn option \<Rightarrow> (goal_manager, unit) prog" where
  "complete_goal g ex m =
     (case map_of (gm_pending m) g of
        None \<Rightarrow> (Inr (), m)
      | Some r \<Rightarrow>
          let m1 = m\<lparr>gm_pending := ddel (gm_pending m) g\<rparr> in
          (case (case ex of Some e \<Rightarrow> set_exception e (gm_objects m ! r)
                 | None \<Rightarrow> set_result g (gm_objects m ! r)) of
             Inl err \<Rightarrow> (Inl err, m1)
           | Inr a \<Rightarrow> (Inr (), m1\<lparr>gm_objects := (gm_objects m)[r := a]\<rparr>)))"

definition check_complete :: "goal_id \<Rightarrow> goal_manager \<Rightarrow> bool" where
  "check_complete g m =
     (case map_of (gm_pending m) g of None \<Rightarrow> True | Some r \<Rightarrow> goal_done (gm_objects m ! r))"

text \<open>
  \<open>wait_for_goal\<close> suspends in \<open>await async_goal.wait()\<close>. Its first part runs when it
  is called and yields the reference it waits on, its second part runs once the event is set.
\<close>

datatype wait_outcome = NotFound | Waiting nat

definition wait_for_goal :: "goal_id \<Rightarrow> goal_manager \<Rightarrow> wait_outcome" where
  "wait_for_goal g m = (case map_of (gm_pending m) g of None \<Rightarrow> NotFound | Some r \<Rightarrow> Waiting r)"

definition wait_resume :: "nat \<Rightarrow> goal_manager \<Rightarrow> goal_exn option option" where
  "wait_resume r m =
     (if event_set (gm_objects m ! r) then Some (goal_exception (gm_objects m ! r)) else None)"

section \<open>Invariant\<close>

text \<open>
  A dictionary entry points to an existing object that carries its identifier and is untouched;
  an object is done exactly when it has a result or an exception, never both.
\<close>

definition goal_wf :: "async_goal \<Rightarrow> bool" where
  "goal_wf a \<longleftrightarrow>
     (event_set a \<longleftrightarrow> goal_result a \<noteq> None \<or> goal_exception a \<noteq> None)
     \<and> (goal_result a = None \<or> goal_exception a = None)
     \<and> (goal_result a = None \<or> goal_result a = Some (goal_id a))"

definition goals_ok :: "goal_manager \<Rightarrow> bool" where
  "goals_ok m \<longleftrightarrow>
     wf_dict (gm_pending m)
     \<and> (\<forall>(g, r) \<in> set (gm_pending m). r < length (gm_objects m) \<and> gm_objects m ! r = new_async_goal g)
     \<and> (\<forall>a \<in> set (gm_objects m). goal_wf a)"

lemma pending_lookup:
  assumes "goals_ok m" and "map_of (gm_pending m) g = Some r"
  shows "r < length (gm_objects m)" and "gm_objects m ! r = new_async_goal g"
  using assms map_of_SomeD by (fastforce simp: goals_ok_def)+

lemma init_goals_ok [simp]: "goals_ok init_goal_manager"
  by (simp add: goals_ok_def init_goal_manager_def)

lemma goal_wf_new [simp]: "goal_wf (new_async_goal g)"
  by (simp add: goal_wf_def new_async_goal_def)

lemma create_goals_ok:
  assumes "goals_ok m"
  shows "goals_ok (snd (create_goal given uuid m))"
  using assms set_dset_subset
  by (fastforce simp: goals_ok_def create_goal_def Let_def nth_append)

lemma set_on_new [simp]:
  "set_result r (new_async_goal g) = Inr ((new_async_goal g)\<lparr>goal_result := Some r, event_set := True\<rparr>)"
  "set_exception e (new_async_goal g) = Inr ((new_async_goal g)\<lparr>goal_exception := Some e, event_set := True\<rparr>)"
  by (simp_all add: set_result_def set_exception_def new_async_goal_def goal_done_def)

definition resolved_goal :: "goal_id \<Rightarrow> goal_exn option \<Rightarrow> async_goal" where
  "resolved_goal g ex = (case ex of
       None \<Rightarrow> (new_async_goal g)\<lparr>goal_result := Some g, event_set := True\<rparr>
     | Some e \<Rightarrow> (new_async_goal g)\<lparr>goal_exception := Some e, event_set := True\<rparr>)"

lemma goal_wf_resolved_goal [simp]: "goal_wf (resolved_goal g ex)"
  by (simp add: resolved_goal_def goal_wf_def new_async_goal_def split: option.split)

lemma complete_goal_eq:
  assumes "goals_ok m"
  shows "complete_goal g ex m = (Inr (), case map_of (gm_pending m) g of None \<Rightarrow> m
     | Some r \<Rightarrow> \<lparr>gm_objects = (gm_objects m)[r := resolved_goal g ex], gm_pending = ddel (gm_pending m) g\<rparr>)"
proof (cases "map_of (gm_pending m) g")
  case None
  then show ?thesis by (simp add: complete_goal_def)
next
  case (Some r)
  then show ?thesis
    using pending_lookup [OF assms Some] by (cases ex) (simp_all add: complete_goal_def resolved_goal_def)
qed

lemma pending_refs_distinct:
  assumes "goals_ok m" and "map_of (gm_pending m) g = Some r" and "(g', r) \<in> set (gm_pending m)"
  shows "g' = g"
  using assms pending_lookup [OF assms(1,2)] by (fastforce simp: goals_ok_def new_async_goal_def)

lemma complete_goals_ok:
  assumes "goals_ok m"
  shows "goals_ok (snd (complete_goal g ex m))"
proof (cases "map_of (gm_pending m) g")
  case None
  then show ?thesis using assms by (simp add: complete_goal_eq [OF assms])
next
  case (Some r)
  note r = pending_lookup [OF assms Some]
  have "(gm_objects m)[r := resolved_goal g ex] ! r' = new_async_goal g' \<and> r' < length (gm_objects m)"
    if "(g', r') \<in> set (ddel (gm_pending m) g)" for g' r'
  proof -
    have mem: "(g', r') \<in> set (gm_pending m)" "g' \<noteq> g"
      using that delete_notin_dom [of g "gm_pending m"] by (auto simp: AList.delete_eq)
    then have "r' \<noteq> r" using pending_refs_distinct [OF assms Some] by blast
    then show ?thesis using mem assms by (auto simp: goals_ok_def)
  qed
  moreover have "\<forall>a \<in> set ((gm_objects m)[r := resolved_goal g ex]). goal_wf a"
    using assms set_update_subset_insert by (fastforce simp: goals_ok_def)
  ultimately show ?thesis
    using assms Some by (auto simp: complete_goal_eq [OF assms] goals_ok_def)
qed

section \<open>Sequences of calls\<close>

inductive goal_step :: "goal_manager \<Rightarrow> goal_manager \<Rightarrow> bool" where
  step_create: "goal_step m (snd (create_goal given uuid m))"
| step_complete: "goal_step m (snd (complete_goal g ex m))"

interpretation goals: invariant_system "\<lambda>m. m = init_goal_manager" goal_step goals_ok
  by unfold_locales (auto elim!: goal_step.cases intro: create_goals_ok complete_goals_ok)

text \<open>A finished object is never touched again.\<close>

definition frozen :: "nat \<Rightarrow> async_goal \<Rightarrow> goal_manager \<Rightarrow> bool" where
  "frozen r a m \<longleftrightarrow> goals_ok m \<and> r < length (gm_objects m) \<and> gm_objects m ! r = a \<and> event_set a"

lemma frozen_step:
  assumes "frozen r a m" and "goal_step m m'"
  shows "frozen r a m'"
  using assms(2)
proof cases
  case (step_create given uuid)
  then show ?thesis
    using assms(1) create_goals_ok [of m given uuid]
    by (auto simp: frozen_def create_goal_def Let_def nth_append)
next
  case (step_complete g ex)
  have ok: "goals_ok m" using assms(1) by (simp add: frozen_def)
  show ?thesis
  proof (cases "map_of (gm_pending m) g")
    case None
    then show ?thesis using assms(1) step_complete by (simp add: complete_goal_eq [OF ok])
  next
    case (Some r')
    have "r' \<noteq> r"
      using pending_lookup [OF ok Some] assms(1) by (auto simp: frozen_def new_async_goal_def)
    then show ?thesis
      using assms(1) Some step_complete complete_goals_ok [OF ok, of g ex]
      by (simp add: frozen_def complete_goal_eq [OF ok])
  qed
qed

interpretation done_goal: invariant_system "frozen r a" goal_step "frozen r a" for r a
  by unfold_locales (auto intro: frozen_step)

section \<open>Guarantees\<close>



end
