(* ===== verification/Deployment_State.thy ===== *)
theory Deployment_State
  imports Replica_Actor Async_Goals Long_Poll
begin

text \<open>
  \<open>DeploymentState\<close> of \<open>serve/deployment_state.py\<close>: the target of one deployment
  and the control loop that starts, updates and stops replicas until they match it.

  \<open>deployment_state\<close> holds the fields of the object; what it shares with the rest of the
  controller (the goal manager, the long-poll host, and the world Ray acts on) is the record
  \<open>controller\<close>. A method is a program on the pair of both. \<open>save\<close> is the callback
  \<open>_save_checkpoint_func\<close>, called with the state of this deployment at that moment.
\<close>

datatype goal_status = GOAL_NONE | GOAL_PENDING | GOAL_SUCCEEDED | GOAL_SUCCESSFULLY_DELETED | GOAL_FAILED

record deployment_state =
  dep_name :: string
  dep_controller_name :: string
  dep_detached :: bool
  dep_target_info :: "deployment_info option"
  dep_rollback_info :: "deployment_info option"
  dep_target_replicas :: int
  dep_curr_goal :: "goal_id option"
  dep_target_version :: "deployment_version option"
  dep_prev_startup_warning :: rat
  dep_replica_constructor_retry_counter :: int
  dep_replicas :: replica_container

record ('w, 'k) controller =
  ctl_goals :: goal_manager
  ctl_host :: "running_replica_info list long_poll_host"
  ctl_store :: 'k
  ctl_world :: 'w

type_synonym ('w, 'k, 'a) deployment_prog = "(deployment_state \<times> ('w, 'k) controller, 'a) prog"

definition MAX_DEPLOYMENT_CONSTRUCTOR_RETRY_COUNT :: int where
  "MAX_DEPLOYMENT_CONSTRUCTOR_RETRY_COUNT = 100"

definition SLOW_STARTUP_WARNING_S :: rat where
  "SLOW_STARTUP_WARNING_S = 30"

definition SLOW_STARTUP_WARNING_PERIOD_S :: rat where
  "SLOW_STARTUP_WARNING_PERIOD_S = 30"

section \<open>Access to the parts of the state\<close>

definition dep_get :: "('w, 'k, deployment_state) deployment_prog" where
  "dep_get = (\<lambda>(d, s). (Inr d, (d, s)))"

definition dep_modify :: "(deployment_state \<Rightarrow> deployment_state) \<Rightarrow> ('w, 'k, unit) deployment_prog" where
  "dep_modify f = (\<lambda>(d, s). (Inr (), (f d, s)))"

definition world_action :: "('w \<Rightarrow> 'a \<times> 'w) \<Rightarrow> ('w, 'k, 'a) deployment_prog" where
  "world_action f = (\<lambda>(d, s). let (x, w) = f (ctl_world s) in (Inr x, (d, s\<lparr>ctl_world := w\<rparr>)))"

text \<open>A method called on a replica that is not in the container: it returns the changed replica.\<close>

definition on_replica ::
  "(deployment_replica \<times> 'w, 'a) prog \<Rightarrow> deployment_replica \<Rightarrow> ('w, 'k, 'a \<times> deployment_replica) deployment_prog" where
  "on_replica m r = (\<lambda>(d, s).
     case m (r, ctl_world s) of
       (Inl e, (r1, w)) \<Rightarrow> (Inl e, (d, s\<lparr>ctl_world := w\<rparr>))
     | (Inr x, (r1, w)) \<Rightarrow> (Inr (x, r1), (d, s\<lparr>ctl_world := w\<rparr>)))"

definition on_replica_pure ::
  "(deployment_replica \<times> 'w \<Rightarrow> deployment_replica \<times> 'w) \<Rightarrow> deployment_replica
     \<Rightarrow> ('w, 'k, deployment_replica) deployment_prog" where
  "on_replica_pure f r = (\<lambda>(d, s).
     let (r1, w) = f (r, ctl_world s) in (Inr r1, (d, s\<lparr>ctl_world := w\<rparr>)))"

definition replicas_add :: "replica_state \<Rightarrow> deployment_replica \<Rightarrow> ('w, 'k, unit) deployment_prog" where
  "replicas_add st r = dep_modify (\<lambda>d. d\<lparr>dep_replicas := container_add st r (dep_replicas d)\<rparr>)"

definition replicas_pop ::
  "deployment_version option \<Rightarrow> replica_state list option \<Rightarrow> int option
     \<Rightarrow> ('w, 'k, deployment_replica list) deployment_prog" where
  "replicas_pop ev sts m = (\<lambda>(d, s).
     let (rs, c) = container_pop ev sts m (dep_replicas d) in (Inr rs, (d\<lparr>dep_replicas := c\<rparr>, s)))"

definition replicas_count ::
  "deployment_version option \<Rightarrow> deployment_version option \<Rightarrow> replica_state list option
     \<Rightarrow> ('w, 'k, int) deployment_prog" where
  "replicas_count ev v sts = (\<lambda>(d, s).
     case container_count ev v sts (dep_replicas d) of
       Inl e \<Rightarrow> (Inl e, (d, s)) | Inr n \<Rightarrow> (Inr (int n), (d, s)))"

definition dep_create_goal :: "'w ray_ops \<Rightarrow> ('w, 'k, goal_id) deployment_prog" where
  "dep_create_goal ray = (\<lambda>(d, s).
     let (uuid, w) = py_uuid4 ray (ctl_world s);
         (g, m) = create_goal None uuid (ctl_goals s)
     in (Inr g, (d, s\<lparr>ctl_goals := m, ctl_world := w\<rparr>)))"

text \<open>\<open>complete_goal(None)\<close> pops nothing from the pending goals.\<close>

definition dep_complete_goal :: "goal_id option \<Rightarrow> goal_exn option \<Rightarrow> ('w, 'k, unit) deployment_prog" where
  "dep_complete_goal g ex = (\<lambda>(d, s).
     case g of
       None \<Rightarrow> (Inr (), (d, s))
     | Some g' \<Rightarrow>
         let (res, m) = complete_goal g' ex (ctl_goals s) in (res, (d, s\<lparr>ctl_goals := m\<rparr>)))"

section \<open>Target state and checkpoints\<close>

definition init_deployment_state :: "string \<Rightarrow> string \<Rightarrow> bool \<Rightarrow> rat \<Rightarrow> deployment_state" where
  "init_deployment_state name controller_name detached t =
     \<lparr>dep_name = name, dep_controller_name = controller_name, dep_detached = detached,
      dep_target_info = None, dep_rollback_info = None, dep_target_replicas = - 1,
      dep_curr_goal = None, dep_target_version = None, dep_prev_startup_warning = t,
      dep_replica_constructor_retry_counter = 0, dep_replicas = init_container\<rparr>"

type_synonym target_checkpoint = "deployment_info option \<times> int \<times> deployment_version option"

definition get_target_state_checkpoint_data :: "deployment_state \<Rightarrow> target_checkpoint" where
  "get_target_state_checkpoint_data d = (dep_target_info d, dep_target_replicas d, dep_target_version d)"

definition get_checkpoint_data :: "deployment_state \<Rightarrow> target_checkpoint" where
  "get_checkpoint_data d = get_target_state_checkpoint_data d"

definition recover_target_state_from_checkpoint ::
  "target_checkpoint \<Rightarrow> deployment_state \<Rightarrow> deployment_state" where
  "recover_target_state_from_checkpoint = (\<lambda>(info, n, ver) d.
     d\<lparr>dep_target_info := info, dep_target_replicas := n, dep_target_version := ver\<rparr>)"

definition recover_one_replica :: "'w ray_ops \<Rightarrow> string \<Rightarrow> ('w, 'k, unit) deployment_prog" where
  "recover_one_replica ray replica_actor_name =
     bindS dep_get (\<lambda>d.
     case replica_name_from_str replica_actor_name of
       Inl e \<Rightarrow> raiseS e
     | Inr replica_name \<Rightarrow>
         bindS (on_replica (replica_recover ray)
                 (new_deployment_replica ray (dep_controller_name d) (dep_detached d)
                    (replica_tag replica_name) (deployment_tag replica_name) None))
           (\<lambda>(_, r). replicas_add RECOVERING r))"

definition recover_current_state_from_replica_actor_names ::
  "'w ray_ops \<Rightarrow> string list \<Rightarrow> ('w, 'k, unit) deployment_prog" where
  "recover_current_state_from_replica_actor_names ray replica_actor_names =
     bindS dep_get (\<lambda>d.
     thenS (assertS (dep_target_info d \<noteq> None \<and> dep_target_replicas d \<noteq> - 1 \<and> dep_target_version d \<noteq> None))
       (forS (recover_one_replica ray) replica_actor_names))"

fun running_infos ::
  "'w ray_ops \<Rightarrow> 'w \<Rightarrow> deployment_replica list \<Rightarrow> running_replica_info list \<times> deployment_replica list" where
  "running_infos ray w [] = ([], [])"
| "running_infos ray w (r # rs) =
     (let (info, r') = get_running_replica_info ray r w; (infos, rs') = running_infos ray w rs
      in (info # infos, r' # rs'))"

definition get_running_replica_infos ::
  "'w ray_ops \<Rightarrow> ('w, 'k, running_replica_info list) deployment_prog" where
  "get_running_replica_infos ray = (\<lambda>(d, s).
     let (infos, rs) = running_infos ray (ctl_world s) (container_get (Some [RUNNING]) (dep_replicas d))
     in (Inr infos, (d\<lparr>dep_replicas := (dep_replicas d)(RUNNING := rs)\<rparr>, s)))"

definition notify_running_replicas_changed :: "'w ray_ops \<Rightarrow> ('w, 'k, unit) deployment_prog" where
  "notify_running_replicas_changed ray =
     bindS (get_running_replica_infos ray) (\<lambda>infos (d, s).
       let key = RUNNING_REPLICAS (dep_name d);
           (i, w) = (if dmem key (lp_snapshot_ids (ctl_host s)) then (0, ctl_world s)
                     else py_randint ray (ctl_world s))
       in (Inr (), (d, s\<lparr>ctl_host := notify_changed i key infos (ctl_host s),
                         ctl_world := w\<rparr>)))"

definition set_deployment_goal ::
  "'w ray_ops \<Rightarrow> deployment_info option \<Rightarrow> ('w, 'k, goal_id \<times> goal_id option) deployment_prog" where
  "set_deployment_goal ray info =
     bindS dep_get (\<lambda>d.
     bindS (dep_create_goal ray) (\<lambda>new_goal_id.
     bindS (case info of
         Some i \<Rightarrow>
           bindS (if info_version i = None then world_action (py_random_letters ray) else retS []) (\<lambda>letters.
           dep_modify (\<lambda>d. d\<lparr>dep_target_info := Some i,
                             dep_target_replicas := num_replicas (deployment_config i),
                             dep_target_version := Some (new_deployment_version (py_pickle ray) letters
                               (info_version i) (user_config (deployment_config i)))\<rparr>))
       | None \<Rightarrow> dep_modify (\<lambda>d. d\<lparr>dep_target_replicas := 0\<rparr>)) (\<lambda>_.
     thenS (dep_modify (\<lambda>d. d\<lparr>dep_curr_goal := Some new_goal_id\<rparr>))
       (retS (new_goal_id, dep_curr_goal d)))))"

type_synonym ('w, 'k) save_func =
  "deployment_state \<Rightarrow> ('w, 'k) controller \<Rightarrow> ('w, 'k) controller"

definition run_save :: "('w, 'k) save_func \<Rightarrow> ('w, 'k, unit) deployment_prog" where
  "run_save save = (\<lambda>(d, s). (Inr (), (d, save d s)))"

definition dep_deploy ::
  "'w ray_ops \<Rightarrow> ('w, 'k) save_func \<Rightarrow> deployment_info \<Rightarrow> ('w, 'k, goal_id option \<times> bool) deployment_prog" where
  "dep_deploy ray save info =
     bindS dep_get (\<lambda>d.
     let info = (case dep_target_info d of None \<Rightarrow> info
                 | Some existing \<Rightarrow> info\<lparr>start_time_ms := start_time_ms existing\<rparr>) in
     if (case dep_target_info d of None \<Rightarrow> False
         | Some existing \<Rightarrow> deployment_config existing = deployment_config info
             \<and> info_version info \<noteq> None \<and> info_version existing = info_version info)
     then retS (dep_curr_goal d, False)
     else
       thenS (dep_modify (\<lambda>d. d\<lparr>dep_rollback_info := dep_target_info d,
                                dep_replica_constructor_retry_counter := 0\<rparr>))
       (bindS (set_deployment_goal ray (Some info)) (\<lambda>(new_goal_id, existing_goal_id).
       thenS (run_save save)
       (thenS (dep_complete_goal existing_goal_id None)
         (retS (Some new_goal_id, True))))))"

definition dep_delete :: "'w ray_ops \<Rightarrow> ('w, 'k) save_func \<Rightarrow> ('w, 'k, goal_id option) deployment_prog" where
  "dep_delete ray save =
     bindS (set_deployment_goal ray None) (\<lambda>(new_goal_id, existing_goal_id).
     thenS (run_save save)
     (thenS (dep_complete_goal existing_goal_id None)
       (retS (Some new_goal_id))))"

section \<open>Rolling updates and scaling\<close>

definition update_or_stop_replica ::
  "'w ray_ops \<Rightarrow> deployment_version \<Rightarrow> deployment_replica \<Rightarrow> ('w, 'k, bool) deployment_prog" where
  "update_or_stop_replica ray target r =
     (case rep_version r of
        None \<Rightarrow> raiseS AttributeError
      | Some v \<Rightarrow>
          if code_version v \<noteq> code_version target then
            bindS (on_replica_pure (replica_stop ray True) r) (\<lambda>r1.
            thenS (replicas_add STOPPING r1) (retS True))
          else if user_config_hash v \<noteq> user_config_hash target then
            bindS (on_replica (replica_update_user_config ray (dv_user_config target)) r) (\<lambda>(_, r1).
            thenS (replicas_add UPDATING r1) (retS False))
          else raiseS AssertionError)"

fun update_or_stop_all ::
  "'w ray_ops \<Rightarrow> deployment_version \<Rightarrow> deployment_replica list \<Rightarrow> ('w, 'k, bool) deployment_prog" where
  "update_or_stop_all ray target [] = retS False"
| "update_or_stop_all ray target (r # rs) =
     bindS (update_or_stop_replica ray target r) (\<lambda>stopped.
     bindS (update_or_stop_all ray target rs) (\<lambda>stopped'. retS (stopped \<or> stopped')))"

definition rollout_size :: "int \<Rightarrow> int" where
  "rollout_size target = max (target div 5) 1"

definition stop_wrong_version_replicas :: "'w ray_ops \<Rightarrow> ('w, 'k, bool) deployment_prog" where
  "stop_wrong_version_replicas ray =
     bindS dep_get (\<lambda>d.
     if dep_target_replicas d = 0 then retS False
     else
       let target = dep_target_replicas d; ver = dep_target_version d in
       bindS (replicas_count ver None (Some [STARTING, UPDATING, RUNNING])) (\<lambda>old_running_replicas.
       bindS (replicas_count ver None (Some [STOPPING])) (\<lambda>old_stopping_replicas.
       bindS (replicas_count None ver (Some [RUNNING])) (\<lambda>new_running_replicas.
       if target < old_running_replicas + old_stopping_replicas then retS False
       else
         let pending_replicas = target - new_running_replicas - old_running_replicas;
             max_to_stop = max (rollout_size target - pending_replicas) 0 in
         bindS (replicas_pop ver (Some [STARTING, RUNNING]) (Some max_to_stop)) (\<lambda>replicas_to_update.
         case ver of
           None \<Rightarrow> (if replicas_to_update = [] then retS False else raiseS AttributeError)
         | Some v \<Rightarrow> update_or_stop_all ray v replicas_to_update)))))"

fun start_replicas :: "'w ray_ops \<Rightarrow> nat \<Rightarrow> ('w, 'k, unit) deployment_prog" where
  "start_replicas ray 0 = retS ()"
| "start_replicas ray (Suc n) =
     thenS
       (bindS dep_get (\<lambda>d.
        bindS (world_action (py_random_letters ray)) (\<lambda>letters.
        let replica_name = new_replica_name (dep_name d) letters;
            r = new_deployment_replica ray (dep_controller_name d) (dep_detached d)
                  (replica_tag replica_name) (deployment_tag replica_name) (dep_target_version d) in
        case (dep_target_info d, dep_target_version d) of
          (Some info, Some ver) \<Rightarrow>
            bindS (on_replica_pure (replica_start ray info ver) r) (replicas_add STARTING)
        | _ \<Rightarrow> raiseS AttributeError)))
       (start_replicas ray n)"

definition stop_and_keep :: "'w ray_ops \<Rightarrow> bool \<Rightarrow> deployment_replica \<Rightarrow> ('w, 'k, unit) deployment_prog" where
  "stop_and_keep ray graceful r =
     bindS (on_replica_pure (replica_stop ray graceful) r) (replicas_add STOPPING)"

definition scale_deployment_replicas :: "'w ray_ops \<Rightarrow> ('w, 'k, bool) deployment_prog" where
  "scale_deployment_replicas ray =
     bindS dep_get (\<lambda>d.
     thenS (assertS (dep_target_replicas d \<ge> 0))
     (bindS (stop_wrong_version_replicas ray) (\<lambda>replicas_stopped.
      bindS (replicas_count None None (Some [STARTING, UPDATING, RUNNING])) (\<lambda>current_replicas.
      bindS (replicas_count None None (Some [RECOVERING])) (\<lambda>recovering_replicas.
      let delta_replicas = dep_target_replicas d - current_replicas - recovering_replicas in
      if delta_replicas = 0 then retS False
      else if delta_replicas > 0 then
        bindS (replicas_count None None (Some [STOPPING])) (\<lambda>stopping_replicas.
        thenS (start_replicas ray (nat (max (delta_replicas - stopping_replicas) 0)))
          (retS replicas_stopped))
      else
        bindS (replicas_pop None (Some [STARTING, UPDATING, RECOVERING, RUNNING]) (Some (- delta_replicas)))
          (\<lambda>replicas_to_stop.
        thenS (forS (stop_and_keep ray True) replicas_to_stop) (retS True)))))))"

section \<open>The status of the goal\<close>

definition check_curr_goal_status :: "('w, 'k, goal_status) deployment_prog" where
  "check_curr_goal_status =
     bindS dep_get (\<lambda>d.
     if dep_curr_goal d = None then retS GOAL_NONE
     else
       let target_replica_count = dep_target_replicas d in
       bindS (replicas_count None None (Some [RUNNING])) (\<lambda>all_running_replica_cnt.
       bindS (replicas_count None (dep_target_version d) (Some [RUNNING]))
         (\<lambda>running_at_target_version_replica_cnt.
       let failed_to_start_count = dep_replica_constructor_retry_counter d;
           failed_to_start_threshold =
             min MAX_DEPLOYMENT_CONSTRUCTOR_RETRY_COUNT (target_replica_count * 3);
           too_many = (failed_to_start_count \<ge> failed_to_start_threshold \<and> failed_to_start_threshold \<noteq> 0) in
       if too_many \<and> \<not> running_at_target_version_replica_cnt > 0 then retS GOAL_FAILED
       else
         thenS (dep_modify (\<lambda>d. if too_many then d\<lparr>dep_replica_constructor_retry_counter := - 1\<rparr> else d))
         (bindS (replicas_count None None (Some [STARTING, UPDATING, RECOVERING, STOPPING])) (\<lambda>pending_ops.
          if pending_ops = 0 then
            if target_replica_count = 0 \<and> all_running_replica_cnt = 0 then retS GOAL_SUCCESSFULLY_DELETED
            else if target_replica_count = running_at_target_version_replica_cnt then retS GOAL_SUCCEEDED
            else retS GOAL_PENDING
          else retS GOAL_PENDING)))))"

section \<open>Checking replicas\<close>

type_synonym slow_replicas = "(deployment_replica \<times> replica_startup_status) list"

text \<open>One replica: whether it is slow, and whether it went to RUNNING.\<close>

definition check_startup_replica ::
  "'w ray_ops \<Rightarrow> replica_state \<Rightarrow> bool \<Rightarrow> deployment_replica
     \<Rightarrow> ('w, 'k, slow_replicas \<times> bool) deployment_prog" where
  "check_startup_replica ray original_state stop_on_slow r =
     bindS (on_replica (check_started ray) r) (\<lambda>(start_status, r).
     if start_status = SUCCEEDED then
       thenS (replicas_add RUNNING r) (retS ([], True))
     else if start_status = FAILED then
       thenS (dep_modify (\<lambda>d. if dep_replica_constructor_retry_counter d \<ge> 0
          then d\<lparr>dep_replica_constructor_retry_counter := dep_replica_constructor_retry_counter d + 1\<rparr> else d))
       (thenS (stop_and_keep ray False r) (retS ([], False)))
     else
       bindS (world_action (py_time ray)) (\<lambda>t.
       case rep_start_time r of
         None \<Rightarrow> raiseS TypeError
       | Some started \<Rightarrow>
           let is_slow = t - started > SLOW_STARTUP_WARNING_S;
               slow = (if is_slow then [(r, start_status)] else []) in
           if is_slow \<and> stop_on_slow then
             thenS (stop_and_keep ray False r) (retS (slow, False))
           else thenS (replicas_add original_state r) (retS (slow, False))))"

fun check_startup_list ::
  "'w ray_ops \<Rightarrow> replica_state \<Rightarrow> bool \<Rightarrow> deployment_replica list
     \<Rightarrow> ('w, 'k, slow_replicas \<times> bool) deployment_prog" where
  "check_startup_list ray st stop_on_slow [] = retS ([], False)"
| "check_startup_list ray st stop_on_slow (r # rs) =
     bindS (check_startup_replica ray st stop_on_slow r) (\<lambda>(slow, running).
     bindS (check_startup_list ray st stop_on_slow rs) (\<lambda>(slow', running').
     retS (slow @ slow', running \<or> running')))"

definition check_startup_replicas ::
  "'w ray_ops \<Rightarrow> replica_state \<Rightarrow> bool \<Rightarrow> ('w, 'k, slow_replicas \<times> bool) deployment_prog" where
  "check_startup_replicas ray original_state stop_on_slow =
     bindS (replicas_pop None (Some [original_state]) None) (check_startup_list ray original_state stop_on_slow)"

definition check_running_replica :: "'w ray_ops \<Rightarrow> deployment_replica \<Rightarrow> ('w, 'k, bool) deployment_prog" where
  "check_running_replica ray r =
     bindS (on_replica (replica_check_health ray) r) (\<lambda>(healthy, r).
     if healthy then thenS (replicas_add RUNNING r) (retS False)
     else thenS (stop_and_keep ray False r) (retS True))"

fun check_running_list :: "'w ray_ops \<Rightarrow> deployment_replica list \<Rightarrow> ('w, 'k, bool) deployment_prog" where
  "check_running_list ray [] = retS False"
| "check_running_list ray (r # rs) =
     bindS (check_running_replica ray r) (\<lambda>changed.
     bindS (check_running_list ray rs) (\<lambda>changed'. retS (changed \<or> changed')))"

definition check_stopping_replica :: "'w ray_ops \<Rightarrow> deployment_replica \<Rightarrow> ('w, 'k, unit) deployment_prog" where
  "check_stopping_replica ray r =
     bindS (on_replica (replica_check_stopped ray) r) (\<lambda>(stopped, r).
     if \<not> stopped then replicas_add STOPPING r else retS ())"

text \<open>The warning about slow replicas changes only the time of the last warning.\<close>

definition warn_slow_replicas :: "'w ray_ops \<Rightarrow> slow_replicas \<Rightarrow> ('w, 'k, unit) deployment_prog" where
  "warn_slow_replicas ray slow_start_replicas =
     (if length slow_start_replicas = 0 then retS ()
      else
        bindS (world_action (py_time ray)) (\<lambda>t.
        bindS dep_get (\<lambda>d.
        if t - dep_prev_startup_warning d > SLOW_STARTUP_WARNING_PERIOD_S then
          bindS (world_action (py_time ray)) (\<lambda>t'.
          dep_modify (\<lambda>d. d\<lparr>dep_prev_startup_warning := t'\<rparr>))
        else retS ())))"

definition check_and_update_replicas :: "'w ray_ops \<Rightarrow> ('w, 'k, bool) deployment_prog" where
  "check_and_update_replicas ray =
     bindS (replicas_pop None (Some [RUNNING]) None) (\<lambda>running.
     bindS (check_running_list ray running) (\<lambda>running_replicas_changed.
     bindS (check_startup_replicas ray STARTING False) (\<lambda>(slow_start, starting_to_running).
     bindS (check_startup_replicas ray UPDATING False) (\<lambda>(slow_update, updating_to_running).
     bindS (check_startup_replicas ray RECOVERING True) (\<lambda>(slow_recover, recovering_to_running).
     thenS (warn_slow_replicas ray (slow_start @ slow_update @ slow_recover))
     (bindS (replicas_pop None (Some [STOPPING]) None) (\<lambda>stopping.
      thenS (forS (check_stopping_replica ray) stopping)
        (retS (running_replicas_changed \<or> starting_to_running \<or> updating_to_running
               \<or> recovering_to_running)))))))))"

section \<open>One round of the control loop\<close>

text \<open>The messages of the two RuntimeErrors.\<close>

definition quoted :: "string \<Rightarrow> string" where
  "quoted s = [CHR 0x27] @ s @ [CHR 0x27]"

definition deleting_message :: "string \<Rightarrow> string" where
  "deleting_message name = ''Deployment '' @ quoted name @ '' failed, deleting it asynchronously.''"

definition rolling_back_message :: "string \<Rightarrow> string option \<Rightarrow> string" where
  "rolling_back_message name ver =
     ''Deployment '' @ quoted name @ '' failed, rolling back to version ''
       @ (case ver of None \<Rightarrow> ''None'' | Some v \<Rightarrow> v) @ '' asynchronously.''"

definition finish_goal ::
  "'w ray_ops \<Rightarrow> ('w, 'k) save_func \<Rightarrow> goal_status \<Rightarrow> ('w, 'k, unit) deployment_prog" where
  "finish_goal ray save status =
     bindS dep_get (\<lambda>d.
     case status of
       GOAL_SUCCEEDED \<Rightarrow>
         thenS (dep_complete_goal (dep_curr_goal d) None) (dep_modify (\<lambda>d. d\<lparr>dep_rollback_info := None\<rparr>))
     | GOAL_FAILED \<Rightarrow>
         (case dep_rollback_info d of
            None \<Rightarrow>
              thenS (dep_complete_goal (dep_curr_goal d)
                  (Some (GoalRuntimeError (deleting_message (dep_name d)))))
                (thenS (dep_delete ray save) (retS ()))
          | Some rollback_info \<Rightarrow>
              thenS (dep_complete_goal (dep_curr_goal d)
                (Some (GoalRuntimeError (rolling_back_message (dep_name d) (info_version rollback_info)))))
              (thenS (dep_modify (\<lambda>d. d\<lparr>dep_curr_goal := None, dep_rollback_info := None\<rparr>))
                (thenS (dep_deploy ray save rollback_info) (retS ()))))
     | GOAL_SUCCESSFULLY_DELETED \<Rightarrow> dep_complete_goal (dep_curr_goal d) None
     | _ \<Rightarrow> retS ())"

definition dep_update :: "'w ray_ops \<Rightarrow> ('w, 'k) save_func \<Rightarrow> ('w, 'k, bool) deployment_prog" where
  "dep_update ray save =
     bindS (scale_deployment_replicas ray) (\<lambda>scaled.
     bindS (check_and_update_replicas ray) (\<lambda>changed.
     thenS (if scaled \<or> changed then notify_running_replicas_changed ray else retS ())
     (bindS check_curr_goal_status (\<lambda>status.
      thenS (finish_goal ray save status)
        (retS (status = GOAL_SUCCESSFULLY_DELETED))))))"

end
