(* ===== verification/Replica_Container.thy ===== *)
theory Replica_Container
  imports Replica_Actor
begin

text \<open>
  Accounting for replicas. Every statement about how many replicas are in which state is a
  \<open>weight\<close> of the container: a number per state and replica, summed up. Adding a replica
  adds its weight, popping takes weights out, and the loops of the control loop that pop replicas
  and put each one back in some state, changed or not, are instances of the relation
  \<open>placed\<close>. The counts the code computes are weights, so the properties of the control loop
  reduce to linear arithmetic.
\<close>

section \<open>Weights\<close>

definition weight :: "(replica_state \<Rightarrow> deployment_replica \<Rightarrow> nat) \<Rightarrow> replica_container \<Rightarrow> nat" where
  "weight g c = sum_list (map (\<lambda>st. sum_list (map (g st) (c st))) ALL_REPLICA_STATES)"

definition in_states :: "replica_state list \<Rightarrow> (deployment_replica \<Rightarrow> bool) \<Rightarrow> replica_state \<Rightarrow> deployment_replica \<Rightarrow> nat" where
  "in_states sts P st r = (if st \<in> set sts \<and> P r then 1 else 0)"

abbreviation num :: "replica_state list \<Rightarrow> (deployment_replica \<Rightarrow> bool) \<Rightarrow> replica_container \<Rightarrow> nat" where
  "num sts P c \<equiv> weight (in_states sts P) c"

definition all_in :: "(replica_state \<Rightarrow> deployment_replica \<Rightarrow> bool) \<Rightarrow> replica_container \<Rightarrow> bool" where
  "all_in ok c \<longleftrightarrow> (\<forall>st. \<forall>r \<in> set (c st). ok st r)"

lemma weight_eq:
  "weight g c = sum_list (map (g STARTING) (c STARTING)) + sum_list (map (g UPDATING) (c UPDATING))
     + sum_list (map (g RECOVERING) (c RECOVERING)) + sum_list (map (g RUNNING) (c RUNNING))
     + sum_list (map (g STOPPING) (c STOPPING))"
  by (simp add: weight_def ALL_REPLICA_STATES_def)

lemma weight_update:
  "weight g (c(st := rs)) + sum_list (map (g st) (c st)) = weight g c + sum_list (map (g st) rs)"
  by (cases st) (simp_all add: weight_eq)

lemma weight_add [simp]: "weight g (container_add st r c) = weight g c + g st r"
  using weight_update [of g c st "c st @ [r]"] by (simp add: container_add_def)

lemma weight_init [simp]: "weight g init_container = 0"
  by (simp add: weight_eq init_container_def)

lemma weight_plus: "weight (\<lambda>st r. g st r + h st r) c = weight g c + weight h c"
  by (simp add: weight_eq sum_list_addf)

lemma weight_mono: "(\<And>st r. r \<in> set (c st) \<Longrightarrow> g st r \<le> h st r) \<Longrightarrow> weight g c \<le> weight h c"
  by (simp add: weight_eq add_mono sum_list_mono)

lemma weight_cong: "(\<And>st r. r \<in> set (c st) \<Longrightarrow> g st r = h st r) \<Longrightarrow> weight g c = weight h c"
  by (simp add: weight_eq cong: map_cong)

lemma weight_0_iff: "weight g c = 0 \<longleftrightarrow> (\<forall>st. \<forall>r \<in> set (c st). g st r = 0)"
proof
  assume "weight g c = 0"
  then show "\<forall>st. \<forall>r \<in> set (c st). g st r = 0"
    by (intro allI) (case_tac st; simp add: weight_eq)
next
  assume "\<forall>st. \<forall>r \<in> set (c st). g st r = 0"
  then have "weight g c = weight (\<lambda>_ _. 0) c" by (intro weight_cong) simp
  then show "weight g c = 0" by (simp add: weight_eq)
qed

lemma all_in_add [simp]: "all_in ok (container_add st r c) \<longleftrightarrow> all_in ok c \<and> ok st r"
  by (auto simp: all_in_def container_add_def)

lemma all_in_init [simp]: "all_in ok init_container"
  by (simp add: all_in_def init_container_def)

lemma all_in_mono: "all_in ok c \<Longrightarrow> (\<And>st r. ok st r \<Longrightarrow> ok' st r) \<Longrightarrow> all_in ok' c"
  by (auto simp: all_in_def)

section \<open>The counts of the code\<close>

lemma filter_length_in_states:
  "sum_list (map (in_states sts P st) rs) = (if st \<in> set sts then length (filter P rs) else 0)"
  by (induction rs) (simp_all add: in_states_def)

lemma num_Nil [simp]: "num [] P c = 0"
  by (simp add: weight_eq filter_length_in_states)

lemma num_distinct:
  assumes "distinct sts"
  shows "sum_list (map (\<lambda>st. length (filter P (c st))) sts) = num sts P c"
proof -
  have UNIV: "(UNIV :: replica_state set) = {STARTING, UPDATING, RECOVERING, RUNNING, STOPPING}"
    using replica_state.exhaust by blast
  have "sum_list (map (\<lambda>st. length (filter P (c st))) sts) = (\<Sum>st\<in>set sts. length (filter P (c st)))"
    by (simp add: assms sum_list_distinct_conv_sum_set)
  also have "\<dots> = (\<Sum>st\<in>UNIV. if st \<in> set sts then length (filter P (c st)) else 0)"
  proof (rule sum.mono_neutral_cong_left)
    show "finite (UNIV :: replica_state set)" by (simp add: UNIV)
  qed simp_all
  also have "\<dots> = (\<Sum>st\<in>UNIV. sum_list (map (in_states sts P st) (c st)))"
    by (rule sum.cong) (auto simp: filter_length_in_states)
  also have "\<dots> = num sts P c" by (simp add: UNIV weight_eq)
  finally show ?thesis .
qed

lemma count_all:
  "distinct sts \<Longrightarrow> container_count None None (Some sts) c = Inr (num sts (\<lambda>_. True) c)"
  using num_distinct [of sts "\<lambda>_. True" c] by (simp add: container_count_def)

lemma count_version:
  "distinct sts \<Longrightarrow> container_count None (Some v) (Some sts) c
     = Inr (num sts (\<lambda>r. version_eq (rep_version r) (Some v)) c)"
  by (simp add: container_count_def num_distinct)

lemma count_exclude:
  "distinct sts \<Longrightarrow> container_count (Some v) None (Some sts) c
     = Inr (num sts (\<lambda>r. \<not> version_eq (rep_version r) (Some v)) c)"
  by (simp add: container_count_def num_distinct)

section \<open>Popping\<close>

definition excluded :: "deployment_version option \<Rightarrow> deployment_replica \<Rightarrow> bool" where
  "excluded ev r \<longleftrightarrow> ev \<noteq> None \<and> version_eq (rep_version r) ev"

lemma pop_scan_sum:
  assumes "pop_scan ev m n rs = (p, q)"
  shows "sum_list (map g rs) = sum_list (map g p) + (sum_list (map g q) :: nat)"
  using assms by (induction ev m n rs arbitrary: p q rule: pop_scan.induct)
    (auto split: if_splits prod.splits simp: Let_def)

lemma pop_scan_set:
  assumes "pop_scan ev m n rs = (p, q)"
  shows "set p \<subseteq> {r \<in> set rs. \<not> excluded ev r}" and "set q \<subseteq> set rs"
  using assms by (induction ev m n rs arbitrary: p q rule: pop_scan.induct)
    (auto split: if_splits prod.splits simp: Let_def excluded_def)

lemma pop_scan_length:
  assumes "pop_scan ev m n rs = (p, q)" and "\<And>k. m = Some k \<Longrightarrow> int n \<le> k"
  shows "int (n + length p) = (case m of None \<Rightarrow> int (n + length (filter (\<lambda>r. \<not> excluded ev r) rs))
     | Some k \<Rightarrow> min k (int (n + length (filter (\<lambda>r. \<not> excluded ev r) rs))))"
  using assms
proof (induction ev m n rs arbitrary: p q rule: pop_scan.induct)
  case (1 ev m n)
  then show ?case by (auto split: option.splits)
next
  case (2 ev m n r rs)
  show ?case
  proof (cases "m = Some (int n) \<or> ev \<noteq> None \<and> version_eq (rep_version r) ev")
    case True
    then obtain q' where "pop_scan ev m n rs = (p, q')"
      using 2(3) by (auto simp: Let_def split: prod.splits)
    from 2(1) [OF True this 2(4)] show ?thesis
      using True 2(4) by (auto simp: excluded_def split: option.splits)
  next
    case False
    then obtain p' where p': "pop_scan ev m (Suc n) rs = (p', q)" "p = r # p'"
      using 2(3) by (auto simp: Let_def split: prod.splits)
    have le: "\<And>k. m = Some k \<Longrightarrow> int (Suc n) \<le> k" using False 2(4) by fastforce
    from 2(2) [OF False p'(1) le] show ?thesis
      using False p'(2) by (auto simp: excluded_def split: option.splits)
  qed
qed

lemma pop_states_weight:
  assumes "pop_states ev m n sts c = (ps, c')"
    and "\<And>st r. st \<in> set sts \<Longrightarrow> r \<in> set ps \<Longrightarrow> g st r = g0 r"
  shows "weight g c = weight g c' + sum_list (map g0 ps)"
  using assms
proof (induction ev m n sts c arbitrary: ps c' rule: pop_states.induct)
  case (1 ev m n c)
  then show ?case by simp
next
  case (2 ev m n st sts c)
  obtain p q where pq: "pop_scan ev m n (c st) = (p, q)" by fastforce
  obtain ps1 where ps1: "pop_states ev m (n + length p) sts (c(st := q)) = (ps1, c')" "ps = p @ ps1"
    using 2(2) pq by (auto simp: Let_def split: prod.splits)
  have "weight g (c(st := q)) = weight g c' + sum_list (map g0 ps1)"
    using 2(1) [OF pq [symmetric] refl ps1(1)] 2(3) ps1(2) by (simp add: fun_upd_def)
  moreover have "weight g (c(st := q)) + sum_list (map (g st) p) = weight g c"
    using weight_update [of g c st q] pop_scan_sum [OF pq, of "g st"] by simp
  moreover have "map (g st) p = map g0 p" using 2(3) ps1(2) by simp
  ultimately show ?case using ps1(2) by simp
qed

lemma pop_states_all_in:
  assumes "pop_states ev m n sts c = (ps, c')" and "all_in ok c"
  shows "all_in ok c'" and "\<forall>r \<in> set ps. \<not> excluded ev r \<and> (\<exists>st \<in> set sts. ok st r)"
  using assms
proof (induction ev m n sts c arbitrary: ps c' rule: pop_states.induct)
  case (1 ev m n c)
  {
    case 1
    then show ?case by simp
  next
    case 2
    then show ?case using 1 by simp
  }
next
  case (2 ev m n st sts c)
  obtain p q where pq: "pop_scan ev m n (c st) = (p, q)" by fastforce
  note sub = pop_scan_set [OF pq]
  have q: "all_in ok (c(st := q))" if "all_in ok c"
    using that sub by (auto simp: all_in_def)
  {
    case 1
    then obtain ps1 where "pop_states ev m (n + length p) sts (c(st := q)) = (ps1, c')"
      using pq by (auto simp: Let_def split: prod.splits)
    then show ?case using 2(1) [OF pq [symmetric] refl] q 1(2) by blast
  next
    case 2
    then obtain ps1 where ps1: "pop_states ev m (n + length p) sts (c(st := q)) = (ps1, c')" "ps = p @ ps1"
      using pq by (auto simp: Let_def split: prod.splits)
    have "\<forall>r \<in> set ps1. \<not> excluded ev r \<and> (\<exists>st \<in> set sts. ok st r)"
      using "2.IH"(2) [OF pq [symmetric] refl ps1(1)] q 2(2) by blast
    moreover have "\<forall>r \<in> set p. \<not> excluded ev r \<and> ok st r" using sub(1) 2(2) by (auto simp: all_in_def)
    ultimately show ?case using ps1(2) by auto
  }
qed

lemma pop_states_length:
  assumes "pop_states ev m n sts c = (ps, c')" and "\<And>k. m = Some k \<Longrightarrow> int n \<le> k" and "distinct sts"
  shows "int (n + length ps) = (case m of None \<Rightarrow> int (n + num sts (\<lambda>r. \<not> excluded ev r) c)
     | Some k \<Rightarrow> min k (int (n + num sts (\<lambda>r. \<not> excluded ev r) c)))"
  using assms
proof (induction ev m n sts c arbitrary: ps c' rule: pop_states.induct)
  case (1 ev m n c)
  then show ?case by (auto split: option.splits)
next
  case (2 ev m n st sts c)
  let ?ne = "\<lambda>r. \<not> excluded ev r"
  obtain p q where pq: "pop_scan ev m n (c st) = (p, q)" by fastforce
  obtain ps1 where ps1: "pop_states ev m (n + length p) sts (c(st := q)) = (ps1, c')" "ps = p @ ps1"
    using 2(2) pq by (auto simp: Let_def split: prod.splits)
  note len = pop_scan_length [OF pq 2(3)]
  have le: "int (n + length p) \<le> k" if "m = Some k" for k using len that by simp
  have "int (n + length p + length ps1) = (case m of None \<Rightarrow> int (n + length p + num sts ?ne (c(st := q)))
     | Some k \<Rightarrow> min k (int (n + length p + num sts ?ne (c(st := q)))))"
    using 2(1) [OF pq [symmetric] refl ps1(1) le] 2(4) by (simp add: fun_upd_def)
  moreover have "num sts ?ne (c(st := q)) = num sts ?ne c"
    using weight_update [of "in_states sts ?ne" c st q] 2(4) by (simp add: filter_length_in_states)
  moreover have "num (st # sts) ?ne c = length (filter ?ne (c st)) + num sts ?ne c"
  proof -
    have "num (st # sts) ?ne c = weight (\<lambda>s r. in_states [st] ?ne s r + in_states sts ?ne s r) c"
      by (rule weight_cong) (use 2(4) in \<open>auto simp: in_states_def\<close>)
    also have "\<dots> = num [st] ?ne c + num sts ?ne c" by (rule weight_plus)
    also have "num [st] ?ne c = length (filter ?ne (c st))" using num_distinct [of "[st]" ?ne c] by simp
    finally show ?thesis .
  qed
  ultimately show ?case using len ps1(2) by (auto split: option.splits)
qed

lemmas container_pop_facts = pop_states_weight pop_states_all_in pop_states_length

lemma pop_rest:
  assumes "pop_states ev m n sts c = (ps, c')" and "st \<notin> set sts"
  shows "c' st = c st"
  using assms
proof (induction ev m n sts c arbitrary: ps c' rule: pop_states.induct)
  case (2 ev m n st' sts c)
  then show ?case by (auto simp: Let_def fun_upd_def split: prod.splits)
qed simp

text \<open>Without a limit and without a version everything in the states is taken.\<close>

lemma pop_everything:
  "container_pop None (Some [st]) None c = (c st, c(st := []))"
proof -
  have "pop_scan None None n rs = (rs, [])" for n rs
    by (induction "None :: deployment_version option" "None :: int option" n rs rule: pop_scan.induct) auto
  then show ?thesis by (simp add: container_pop_def)
qed

section \<open>Replicas put back one by one\<close>

definition put_back :: "(replica_state \<times> deployment_replica) option \<Rightarrow> replica_container \<Rightarrow> replica_container" where
  "put_back x c = (case x of None \<Rightarrow> c | Some (st, r) \<Rightarrow> container_add st r c)"

inductive placed ::
  "(deployment_replica \<Rightarrow> (replica_state \<times> deployment_replica) option \<Rightarrow> bool)
     \<Rightarrow> deployment_replica list \<Rightarrow> replica_container \<Rightarrow> replica_container \<Rightarrow> bool" for P where
  placed_Nil: "placed P [] c c"
| placed_Cons: "P r x \<Longrightarrow> placed P rs (put_back x c) c' \<Longrightarrow> placed P (r # rs) c c'"

inductive_cases placed_NilE: "placed P [] c c'"
inductive_cases placed_ConsE: "placed P (r # rs) c c'"

lemma weight_put_back:
  "weight g (put_back x c) = weight g c + (case x of None \<Rightarrow> 0 | Some (st, r) \<Rightarrow> g st r)"
  by (simp add: put_back_def split: option.splits)

lemma placed_weight:
  assumes "placed P rs c c'" and "\<And>r st r'. r \<in> set rs \<Longrightarrow> P r (Some (st, r')) \<Longrightarrow> g st r' = g0 r"
    and "\<And>r. r \<in> set rs \<Longrightarrow> P r None \<Longrightarrow> g0 r = 0"
  shows "weight g c' = weight g c + sum_list (map g0 rs)"
  using assms
proof (induction rule: placed.induct)
  case (placed_Cons r x rs c c')
  then show ?case by (cases x) (auto simp: weight_put_back)
qed simp

lemma placed_weight_le:
  assumes "placed P rs c c'" and "\<And>r st r'. r \<in> set rs \<Longrightarrow> P r (Some (st, r')) \<Longrightarrow> g st r' \<le> g0 r"
  shows "weight g c \<le> weight g c' \<and> weight g c' \<le> weight g c + sum_list (map g0 rs)"
  using assms
proof (induction rule: placed.induct)
  case (placed_Cons r x rs c c')
  have "weight g (put_back x c) \<le> weight g c + g0 r"
    using placed_Cons.hyps(1) placed_Cons.prems by (cases x) (auto simp: weight_put_back)
  moreover have "weight g c \<le> weight g (put_back x c)" by (simp add: weight_put_back)
  ultimately show ?case using placed_Cons.IH placed_Cons.prems by fastforce
qed simp

lemma placed_all_in:
  assumes "placed P rs c c'" and "all_in ok c"
    and "\<And>r st r'. r \<in> set rs \<Longrightarrow> P r (Some (st, r')) \<Longrightarrow> ok st r'"
  shows "all_in ok c'"
  using assms
proof (induction rule: placed.induct)
  case (placed_Cons r x rs c c')
  have "all_in ok (put_back x c)"
    using placed_Cons.hyps(1) placed_Cons.prems(1) placed_Cons.prems(2) [of r]
    by (cases x) (auto simp: put_back_def)
  then show ?case by (rule placed_Cons.IH) (rule placed_Cons.prems(2), simp_all)
qed simp

lemma placed_mono:
  assumes "placed P rs c c'" and "\<And>r x. r \<in> set rs \<Longrightarrow> P r x \<Longrightarrow> P' r x"
  shows "placed P' rs c c'"
  using assms by (induction rule: placed.induct) (auto intro: placed.intros)

lemma placed_state:
  assumes "placed P rs c c'" and "\<And>r st' r'. r \<in> set rs \<Longrightarrow> P r (Some (st', r')) \<Longrightarrow> st' \<noteq> st"
  shows "c' st = c st"
  using assms
proof (induction rule: placed.induct)
  case (placed_Cons r x rs c c')
  have "put_back x c st = c st"
  proof (cases x)
    case (Some y)
    then have "fst y \<noteq> st" using placed_Cons.hyps(1) placed_Cons.prems [of r "fst y" "snd y"] by simp
    then show ?thesis using Some by (simp add: put_back_def container_add_def case_prod_unfold)
  qed (simp add: put_back_def)
  moreover have "c' st = put_back x c st"
    by (rule placed_Cons.IH) (use placed_Cons.prems in auto)
  ultimately show ?case by simp
qed simp

end
