(* ===== verification/Deployment_Loops.thy ===== *)
theory Deployment_Loops
  imports Deployment_State Replica_Container
begin

text \<open>
  What the methods of a replica keep, and what the loops of \<open>DeploymentState\<close> do to the
  container: weakest preconditions of the primitive steps, then one lemma per loop stating that it
  returns and where each popped replica ends up (\<open>placed\<close>).
\<close>

section \<open>Weakest preconditions of the primitive steps\<close>

lemma wp_dep_get [wp_simps]: "wp dep_get Q E (d, s) \<longleftrightarrow> Q d (d, s)"
  by (simp add: wp_def dep_get_def)

lemma wp_dep_modify [wp_simps]: "wp (dep_modify f) Q E (d, s) \<longleftrightarrow> Q () (f d, s)"
  by (simp add: wp_def dep_modify_def)

lemma wp_world_action [wp_simps]:
  "wp (world_action f) Q E (d, s) \<longleftrightarrow>
     Q (fst (f (ctl_world s))) (d, s\<lparr>ctl_world := snd (f (ctl_world s))\<rparr>)"
  by (simp add: wp_def world_action_def case_prod_unfold Let_def)

lemma wp_on_replica [wp_simps]:
  "wp (on_replica m r) Q E (d, s) \<longleftrightarrow>
     wp m (\<lambda>x (r1, w). Q (x, r1) (d, s\<lparr>ctl_world := w\<rparr>)) (\<lambda>e (r1, w). E e (d, s\<lparr>ctl_world := w\<rparr>))
       (r, ctl_world s)"
  by (auto simp: wp_def on_replica_def split: prod.splits sum.splits)

lemma wp_on_replica_pure [wp_simps]:
  "wp (on_replica_pure f r) Q E (d, s) \<longleftrightarrow>
     Q (fst (f (r, ctl_world s))) (d, s\<lparr>ctl_world := snd (f (r, ctl_world s))\<rparr>)"
  by (simp add: wp_def on_replica_pure_def case_prod_unfold Let_def)

lemma wp_replicas_add [wp_simps]:
  "wp (replicas_add st r) Q E (d, s) \<longleftrightarrow>
     Q () (d\<lparr>dep_replicas := container_add st r (dep_replicas d)\<rparr>, s)"
  by (simp add: replicas_add_def wp_simps)

lemma wp_replicas_pop [wp_simps]:
  "wp (replicas_pop ev sts m) Q E (d, s) \<longleftrightarrow>
     Q (fst (container_pop ev sts m (dep_replicas d)))
       (d\<lparr>dep_replicas := snd (container_pop ev sts m (dep_replicas d))\<rparr>, s)"
  by (simp add: wp_def replicas_pop_def case_prod_unfold Let_def)

lemma wp_count_all [wp_simps]:
  "distinct sts \<Longrightarrow> wp (replicas_count None None (Some sts)) Q E (d, s) \<longleftrightarrow>
     Q (int (num sts (\<lambda>_. True) (dep_replicas d))) (d, s)"
  by (simp add: wp_def replicas_count_def count_all)

lemma wp_count_version [wp_simps]:
  "distinct sts \<Longrightarrow> wp (replicas_count None (Some v) (Some sts)) Q E (d, s) \<longleftrightarrow>
     Q (int (num sts (\<lambda>r. version_eq (rep_version r) (Some v)) (dep_replicas d))) (d, s)"
  by (simp add: wp_def replicas_count_def count_version)

lemma wp_count_exclude [wp_simps]:
  "distinct sts \<Longrightarrow> wp (replicas_count (Some v) None (Some sts)) Q E (d, s) \<longleftrightarrow>
     Q (int (num sts (\<lambda>r. \<not> version_eq (rep_version r) (Some v)) (dep_replicas d))) (d, s)"
  by (simp add: wp_def replicas_count_def count_exclude)

lemma wp_run_save [wp_simps]: "wp (run_save save) Q E (d, s) \<longleftrightarrow> Q () (d, save d s)"
  by (simp add: wp_def run_save_def)

section \<open>Replicas\<close>

text \<open>A replica that has been started or recovered, one with a version, and one told to stop.\<close>

definition live :: "deployment_replica \<Rightarrow> bool" where
  "live r \<longleftrightarrow> aw_actor_handle (rep_actor r) \<noteq> None \<and> aw_allocated_obj_ref (rep_actor r) \<noteq> None
     \<and> aw_ready_obj_ref (rep_actor r) \<noteq> None \<and> rep_start_time r \<noteq> None"

definition versioned :: "'w ray_ops \<Rightarrow> deployment_replica \<Rightarrow> bool" where
  "versioned ray r \<longleftrightarrow> (\<exists>v. rep_version r = Some v \<and> version_wf (py_pickle ray) v)"

fun replica_ok :: "'w ray_ops \<Rightarrow> replica_state \<Rightarrow> deployment_replica \<Rightarrow> bool" where
  "replica_ok ray STOPPING r \<longleftrightarrow> rep_shutdown_deadline r \<noteq> None"
| "replica_ok ray RECOVERING r \<longleftrightarrow> live r"
| "replica_ok ray _ r \<longleftrightarrow> live r \<and> versioned ray r"

text \<open>
  What Ray is relied on for: the metadata a replica actor returns carries a version computed by
  \<open>DeploymentVersion\<close>, as \<open>RayServeWrappedReplica.get_metadata\<close> does.
\<close>

definition reports_versions :: "'w ray_ops \<Rightarrow> bool" where
  "reports_versions ray \<longleftrightarrow> (\<forall>ref w conf ver. ray_get ray ref w = Some (conf, ver) \<longrightarrow>
     (\<exists>v. ver = Some v \<and> version_wf (py_pickle ray) v))"

lemma start_facts:
  assumes "replica_start ray info ver (r, w) = (r', w')"
  shows "live r'" and "rep_version r' = Some ver" and "rep_tag r' = rep_tag r"
  using assms
  by (auto simp: replica_start_def wrapper_start_def live_def Let_def split: prod.splits if_splits)

lemma stop_facts:
  "rep_tag (fst (replica_stop ray g (r, w))) = rep_tag r"
  "rep_version (fst (replica_stop ray g (r, w))) = rep_version r"
  "rep_shutdown_deadline (fst (replica_stop ray g (r, w))) \<noteq> None"
  by (simp_all add: replica_stop_def Let_def case_prod_unfold)

lemma on_actor_wp [wp_simps]:
  "wp (on_actor m) Q E (r, w) \<longleftrightarrow>
     wp m (\<lambda>x (a, w1). Q x (r\<lparr>rep_actor := a\<rparr>, w1)) (\<lambda>e (a, w1). E e (r\<lparr>rep_actor := a\<rparr>, w1)) (rep_actor r, w)"
  by (auto simp: wp_def on_actor_def Let_def split: prod.splits sum.splits)

lemma update_user_config_returns:
  assumes "live r" and "rep_version r = Some v"
  shows "returns (replica_update_user_config ray u) (\<lambda>_ (r', w'). live r' \<and> rep_tag r' = rep_tag r
     \<and> rep_version r' = Some (new_deployment_version (py_pickle ray) [] (Some (code_version v)) u)) (r, w)"
  using assms
  by (auto simp: replica_update_user_config_def bindS_def thenS_def on_actor_def wrapper_update_user_config_def wp_def live_def
      Let_def split: prod.splits option.splits)

lemma check_started_returns:
  assumes "live r"
  shows "returns (check_started ray) (\<lambda>status (r', w'). live r' \<and> rep_tag r' = rep_tag r
     \<and> (status = SUCCEEDED \<longrightarrow> reports_versions ray \<longrightarrow> versioned ray r')
     \<and> (status \<noteq> SUCCEEDED \<longrightarrow> rep_version r' = rep_version r)) (r, w)"
  using assms
  by (auto simp: check_started_def bindS_def thenS_def on_actor_def check_ready_def wp_def live_def versioned_def reports_versions_def
      split: prod.splits option.splits if_splits) blast+

lemma check_health_returns:
  assumes "live r"
  shows "returns (replica_check_health ray) (\<lambda>_ (r', w'). live r' \<and> rep_tag r' = rep_tag r
     \<and> rep_version r' = rep_version r) (r, w)"
  using assms
  by (auto simp: replica_check_health_def bindS_def thenS_def on_actor_def wrapper_check_health_def wp_def live_def Let_def
      split: prod.splits option.splits)

lemma check_stopped_wp:
  assumes "rep_shutdown_deadline r \<noteq> None"
  shows "wp (replica_check_stopped ray) (\<lambda>_ (r', w'). rep_shutdown_deadline r' \<noteq> None \<and> rep_tag r' = rep_tag r
     \<and> rep_version r' = rep_version r) (\<lambda>e _. e = TypeError) (r, w)"
  using assms
  by (auto simp: replica_check_stopped_def bindS_def thenS_def on_actor_def wrapper_check_stopped_def wp_def Let_def
      split: prod.splits option.splits if_splits)

section \<open>The loops\<close>

text \<open>
  The state after a loop: only the container, the counter of failed starts and the world changed,
  and the container as described by \<open>placed\<close>.
\<close>

definition loop_post ::
  "(deployment_replica \<Rightarrow> (replica_state \<times> deployment_replica) option \<Rightarrow> bool) \<Rightarrow> deployment_replica list
     \<Rightarrow> deployment_state \<Rightarrow> ('w, 'k) controller \<Rightarrow> deployment_state \<times> ('w, 'k) controller \<Rightarrow> bool" where
  "loop_post P rs d s = (\<lambda>(d', s'). \<exists>c k w.
     d' = d\<lparr>dep_replicas := c, dep_replica_constructor_retry_counter := k\<rparr>
     \<and> s' = s\<lparr>ctl_world := w\<rparr> \<and> placed P rs (dep_replicas d) c)"

lemma loop_post_Nil [simp]: "loop_post P [] d s (d, s)"
  unfolding loop_post_def
  by (simp, rule exI [of _ "dep_replicas d"], rule conjI,
      rule exI [of _ "dep_replica_constructor_retry_counter d"], simp,
      rule conjI, rule exI [of _ "ctl_world s"], simp, rule placed_Nil)

lemma placed_one: "P r x \<Longrightarrow> placed P [r] c (put_back x c)"
  by (rule placed_Cons [where x = x]) (simp_all add: placed_Nil)

lemma loop_post_one:
  assumes "P r x"
  shows "loop_post P [r] d s
    (d\<lparr>dep_replicas := put_back x (dep_replicas d), dep_replica_constructor_retry_counter := k\<rparr>, s\<lparr>ctl_world := w\<rparr>)"
  unfolding loop_post_def using placed_one [of P r x "dep_replicas d"] assms by auto

lemma placed_append:
  "placed P rs c c1 \<Longrightarrow> placed P rs' c1 c2 \<Longrightarrow> placed P (rs @ rs') c c2"
  by (induction rule: placed.induct) (auto intro: placed.intros)

lemma loop_post_trans:
  assumes "loop_post P rs d s (d1, s1)" and "loop_post P rs' d1 s1 t"
  shows "loop_post P (rs @ rs') d s t"
  using assms placed_append unfolding loop_post_def by fastforce

text \<open>A loop whose body places one replica places them all.\<close>

lemma forS_placed:
  assumes "\<And>d s r. r \<in> set rs \<Longrightarrow> wp (body r) (\<lambda>_. loop_post P [r] d s) E (d, s)"
  shows "wp (forS body rs) (\<lambda>_. loop_post P rs d s) E (d, s)"
proof (rule wp_forS [where I = "\<lambda>ys. loop_post P ys d s"])
  fix ys r zs t
  assume rs: "rs = ys @ r # zs" and "loop_post P ys d s t"
  then show "wp (body r) (\<lambda>_. loop_post P (ys @ [r]) d s) E t"
    using assms [of r "fst t" "snd t"] loop_post_trans [of P ys d s "fst t" "snd t"]
    by (auto elim!: wp_mono)
qed simp_all

definition stopped_as :: "deployment_replica \<Rightarrow> (replica_state \<times> deployment_replica) option \<Rightarrow> bool" where
  "stopped_as r x \<longleftrightarrow> (\<exists>r'. x = Some (STOPPING, r') \<and> rep_tag r' = rep_tag r
     \<and> rep_version r' = rep_version r \<and> rep_shutdown_deadline r' \<noteq> None)"

lemma stopped_as_stop: "stopped_as r (Some (STOPPING, fst (replica_stop ray g (r, w))))"
  using stop_facts(3) [of ray g r w] by (simp add: stopped_as_def stop_facts(1,2))

lemma stop_and_keep_returns:
  "returns (stop_and_keep ray g r) (\<lambda>_ (d', s'). \<exists>r' w. d' = d\<lparr>dep_replicas := container_add STOPPING r' (dep_replicas d)\<rparr>
     \<and> s' = s\<lparr>ctl_world := w\<rparr> \<and> stopped_as r (Some (STOPPING, r'))) (d, s)"
  using stopped_as_stop [of r ray g "ctl_world s"] by (auto simp: stop_and_keep_def wp_simps)

lemma loop_post_add:
  assumes "P r (Some (st, r'))"
  shows "loop_post P [r] d s (d\<lparr>dep_replicas := container_add st r' (dep_replicas d)\<rparr>, s\<lparr>ctl_world := w\<rparr>)"
proof -
  have "d\<lparr>dep_replicas := container_add st r' (dep_replicas d)\<rparr>
      = d\<lparr>dep_replicas := put_back (Some (st, r')) (dep_replicas d),
          dep_replica_constructor_retry_counter := dep_replica_constructor_retry_counter d\<rparr>"
    by (cases d) (simp add: put_back_def)
  then show ?thesis
    using loop_post_one [where P = P and r = r and x = "Some (st, r')" and d = d and s = s and w = w
        and k = "dep_replica_constructor_retry_counter d"] assms by metis
qed

lemma stop_list_returns:
  "returns (forS (stop_and_keep ray g) rs) (\<lambda>_. loop_post stopped_as rs d s) (d, s)"
proof (rule forS_placed)
  fix d s r
  show "returns (stop_and_keep ray g r) (\<lambda>_. loop_post stopped_as [r] d s) (d, s)"
    by (rule wp_mono [OF stop_and_keep_returns]) (auto intro: loop_post_add)
qed

text \<open>Rolling update: a replica is stopped, or updated in place to the target version.\<close>

definition updated_as ::
  "'w ray_ops \<Rightarrow> deployment_version \<Rightarrow> deployment_replica \<Rightarrow> (replica_state \<times> deployment_replica) option \<Rightarrow> bool" where
  "updated_as ray target r x \<longleftrightarrow> stopped_as r x
     \<or> (\<exists>r'. x = Some (UPDATING, r') \<and> rep_tag r' = rep_tag r \<and> live r' \<and> versioned ray r'
          \<and> version_eq (rep_version r') (Some target))"

lemma update_or_stop_replica_returns:
  fixes ray :: "'w ray_ops" and s :: "('w, 'k) controller"
  assumes "live r" and "versioned ray r" and "version_wf (py_pickle ray) target"
    and "\<not> version_eq (rep_version r) (Some target)"
  shows "returns (update_or_stop_replica ray target r) (\<lambda>_. loop_post (updated_as ray target) [r] d s) (d, s)"
proof -
  obtain v where v: "rep_version r = Some v" "version_wf (py_pickle ray) v"
    using assms(2) by (auto simp: versioned_def)
  have parts: "code_version v \<noteq> code_version target \<or> user_config_hash v \<noteq> user_config_hash target"
    using same_parts_same_version [OF v(2) assms(3)] assms(4) v(1) by auto
  show ?thesis
  proof (cases "code_version v = code_version target")
    case False
    have "updated_as ray target r (Some (STOPPING, fst (replica_stop ray True (r, ctl_world s))))"
      using stopped_as_stop by (simp add: updated_as_def)
    then show ?thesis
      using False v(1) loop_post_add by (fastforce simp: update_or_stop_replica_def wp_simps)
  next
    case True
    let ?v = "new_deployment_version (py_pickle ray) [] (Some (code_version v)) (dv_user_config target)"
    have same: "version_hash ?v = version_hash target"
      using True assms(3) by (simp add: version_wf_def new_deployment_version_def Let_def)
    have "returns (replica_update_user_config ray (dv_user_config target))
      (\<lambda>x (r', w). loop_post (updated_as ray target) [r] d s
        (d\<lparr>dep_replicas := container_add UPDATING r' (dep_replicas d)\<rparr>, s\<lparr>ctl_world := w\<rparr>)) (r, ctl_world s)"
    proof (rule wp_mono [OF update_user_config_returns [OF assms(1) v(1)]])
      fix t :: "deployment_replica \<times> 'w"
      assume t: "case t of (r', w') \<Rightarrow> live r' \<and> rep_tag r' = rep_tag r \<and> rep_version r' = Some ?v"
      obtain r' w where rw: "t = (r', w)" by (cases t)
      have "updated_as ray target r (Some (UPDATING, r'))"
        using t same unfolding rw updated_as_def versioned_def by simp
      then show "case t of (r', w) \<Rightarrow> loop_post (updated_as ray target) [r] d s
        (d\<lparr>dep_replicas := container_add UPDATING r' (dep_replicas d)\<rparr>, s\<lparr>ctl_world := w\<rparr>)"
        unfolding rw by (simp add: loop_post_add)
    qed simp
    then show ?thesis
      using True v(1) parts by (simp add: update_or_stop_replica_def wp_simps case_prod_unfold)
  qed
qed

text \<open>Loops that collect a value from every replica.\<close>

lemma collect_placed:
  assumes "loop [] = retS z"
    and "\<And>r rs. loop (r # rs) = bindS (body r) (\<lambda>x. bindS (loop rs) (\<lambda>y. retS (h x y)))"
    and "\<And>d s r. r \<in> set rs \<Longrightarrow> wp (body r) (\<lambda>_. loop_post P [r] d s) E (d, s)"
  shows "wp (loop rs) (\<lambda>_. loop_post P rs d s) E (d, s)"
  using assms(3)
proof (induction rs arbitrary: d s)
  case Nil
  then show ?case by (simp add: assms(1) wp_simps)
next
  case (Cons r rs)
  have "wp (body r) (\<lambda>_. loop_post P [r] d s) E (d, s)" using Cons.prems by simp
  then have "wp (body r) (\<lambda>_. wp (loop rs) (\<lambda>_. loop_post P (r # rs) d s) E) E (d, s)"
  proof (rule wp_mono)
    fix t assume one: "loop_post P [r] d s t"
    show "wp (loop rs) (\<lambda>_. loop_post P (r # rs) d s) E t"
    proof (cases t)
      case (Pair d1 s1)
      have "wp (loop rs) (\<lambda>_. loop_post P rs d1 s1) E (d1, s1)"
        by (rule Cons.IH) (use Cons.prems in simp)
      then show ?thesis
        unfolding Pair by (rule wp_mono) (use loop_post_trans [OF one [unfolded Pair]] in simp_all)
    qed
  qed simp
  then show ?case by (simp add: assms(2) wp_simps)
qed

lemma update_or_stop_all_returns:
  assumes "\<forall>r \<in> set rs. live r \<and> versioned ray r \<and> \<not> version_eq (rep_version r) (Some target)"
    and "version_wf (py_pickle ray) target"
  shows "returns (update_or_stop_all ray target rs) (\<lambda>_. loop_post (updated_as ray target) rs d s) (d, s)"
  by (rule collect_placed [where body = "update_or_stop_replica ray target" and h = "(\<or>)"])
    (use assms in \<open>auto intro: update_or_stop_replica_returns\<close>)

text \<open>Health checks.\<close>

definition health_as :: "deployment_replica \<Rightarrow> (replica_state \<times> deployment_replica) option \<Rightarrow> bool" where
  "health_as r x \<longleftrightarrow> stopped_as r x
     \<or> (\<exists>r'. x = Some (RUNNING, r') \<and> rep_tag r' = rep_tag r \<and> rep_version r' = rep_version r \<and> live r')"

text \<open>A replica that was checked and is then stopped, after the counter of failures changed.\<close>

lemma retry_then_replicas:
  "d\<lparr>dep_replica_constructor_retry_counter := k, dep_replicas := c\<rparr>
    = d\<lparr>dep_replicas := c, dep_replica_constructor_retry_counter := k\<rparr>"
  by (cases d) simp

lemma stop_after:
  fixes ray :: "'w ray_ops" and s :: "('w, 'k) controller"
  assumes "\<And>x. stopped_as r' x \<Longrightarrow> P r x"
  shows "returns (stop_and_keep ray g r') (\<lambda>_. loop_post P [r] d s)
    (d\<lparr>dep_replica_constructor_retry_counter := k\<rparr>, s\<lparr>ctl_world := w\<rparr>)"
proof (rule wp_mono [OF stop_and_keep_returns])
  fix u :: unit and st :: "deployment_state \<times> ('w, 'k) controller"
  assume "case st of (d', s') \<Rightarrow> \<exists>r'' w'. d' = d\<lparr>dep_replica_constructor_retry_counter := k,
       dep_replicas := container_add STOPPING r'' (dep_replicas (d\<lparr>dep_replica_constructor_retry_counter := k\<rparr>))\<rparr>
     \<and> s' = s\<lparr>ctl_world := w, ctl_world := w'\<rparr> \<and> stopped_as r' (Some (STOPPING, r''))"
  then obtain r'' w' where st: "st = (d\<lparr>dep_replicas := put_back (Some (STOPPING, r'')) (dep_replicas d),
      dep_replica_constructor_retry_counter := k\<rparr>, s\<lparr>ctl_world := w'\<rparr>)"
    and "stopped_as r' (Some (STOPPING, r''))" by (auto simp: put_back_def retry_then_replicas)
  then have "P r (Some (STOPPING, r''))" using assms by blast
  then show "loop_post P [r] d s st" unfolding st by (rule loop_post_one)
qed simp

lemma retry_same: "d\<lparr>dep_replica_constructor_retry_counter := dep_replica_constructor_retry_counter d\<rparr> = d"
  by simp

lemma stop_after_same:
  fixes ray :: "'w ray_ops" and s :: "('w, 'k) controller"
  assumes "\<And>x. stopped_as r' x \<Longrightarrow> P r x"
  shows "returns (stop_and_keep ray g r') (\<lambda>_. loop_post P [r] d s) (d, s\<lparr>ctl_world := w\<rparr>)"
  using stop_after [of r' P r ray g d s "dep_replica_constructor_retry_counter d" w] assms
  by (simp only: retry_same)

lemma check_running_replica_returns:
  fixes ray :: "'w ray_ops" and s :: "('w, 'k) controller"
  assumes "live r"
  shows "returns (check_running_replica ray r) (\<lambda>_. loop_post health_as [r] d s) (d, s)"
proof -
  have "returns (replica_check_health ray) (\<lambda>healthy (r', w).
      (healthy \<longrightarrow> loop_post health_as [r] d s
        (d\<lparr>dep_replicas := container_add RUNNING r' (dep_replicas d)\<rparr>, s\<lparr>ctl_world := w\<rparr>))
      \<and> (\<not> healthy \<longrightarrow> returns (stop_and_keep ray False r') (\<lambda>_. loop_post health_as [r] d s) (d, s\<lparr>ctl_world := w\<rparr>)))
    (r, ctl_world s)"
  proof (rule wp_mono [OF check_health_returns [OF assms]])
    fix healthy and t :: "deployment_replica \<times> 'w"
    assume t: "case t of (r', w') \<Rightarrow> live r' \<and> rep_tag r' = rep_tag r \<and> rep_version r' = rep_version r"
    obtain r' w where rw: "t = (r', w)" by (cases t)
    have "health_as r (Some (RUNNING, r'))" using t rw by (simp add: health_as_def)
    moreover have "stopped_as r' x \<Longrightarrow> health_as r x" for x
      using t rw by (simp add: health_as_def stopped_as_def)
    ultimately show "case t of (r', w) \<Rightarrow> (healthy \<longrightarrow> loop_post health_as [r] d s
        (d\<lparr>dep_replicas := container_add RUNNING r' (dep_replicas d)\<rparr>, s\<lparr>ctl_world := w\<rparr>))
      \<and> (\<not> healthy \<longrightarrow> returns (stop_and_keep ray False r') (\<lambda>_. loop_post health_as [r] d s) (d, s\<lparr>ctl_world := w\<rparr>))"
      unfolding rw by (simp add: loop_post_add stop_after_same)
  qed simp
  then show ?thesis by (simp add: check_running_replica_def wp_simps case_prod_unfold)
qed

lemma check_running_list_returns:
  assumes "\<forall>r \<in> set rs. live r"
  shows "returns (check_running_list ray rs) (\<lambda>_. loop_post health_as rs d s) (d, s)"
  by (rule collect_placed [where body = "check_running_replica ray" and h = "(\<or>)"])
    (use assms in \<open>auto intro: check_running_replica_returns\<close>)

text \<open>Replicas that are starting, updating or recovering.\<close>

definition startup_as ::
  "'w ray_ops \<Rightarrow> replica_state \<Rightarrow> deployment_replica \<Rightarrow> (replica_state \<times> deployment_replica) option \<Rightarrow> bool" where
  "startup_as ray st r x \<longleftrightarrow> (\<exists>r'. rep_tag r' = rep_tag r
     \<and> (x = Some (RUNNING, r') \<and> live r' \<and> (reports_versions ray \<longrightarrow> versioned ray r')
        \<or> x = Some (STOPPING, r') \<and> rep_shutdown_deadline r' \<noteq> None
        \<or> x = Some (st, r') \<and> live r' \<and> rep_version r' = rep_version r))"

lemma startup_as_intros:
  "rep_tag r' = rep_tag r \<Longrightarrow> live r' \<Longrightarrow> (reports_versions ray \<longrightarrow> versioned ray r')
     \<Longrightarrow> startup_as ray st r (Some (RUNNING, r'))"
  "rep_tag r' = rep_tag r \<Longrightarrow> live r' \<Longrightarrow> rep_version r' = rep_version r \<Longrightarrow> startup_as ray st r (Some (st, r'))"
  "rep_tag r' = rep_tag r \<Longrightarrow> stopped_as r' x \<Longrightarrow> startup_as ray st r x"
  by (auto simp: startup_as_def stopped_as_def)

lemma check_startup_replica_returns:
  fixes ray :: "'w ray_ops" and s :: "('w, 'k) controller"
  assumes "live r"
  shows "returns (check_startup_replica ray st stop_on_slow r) (\<lambda>_. loop_post (startup_as ray st) [r] d s) (d, s)"
proof -
  let ?P = "startup_as ray st"
  have "returns (check_started ray) (\<lambda>status (r', w).
      (status = SUCCEEDED \<longrightarrow> ?P r (Some (RUNNING, r')))
      \<and> (status \<noteq> SUCCEEDED \<longrightarrow> ?P r (Some (st, r')))
      \<and> (\<forall>x. stopped_as r' x \<longrightarrow> ?P r x) \<and> rep_start_time r' \<noteq> None) (r, ctl_world s)"
  proof (rule wp_mono [OF check_started_returns [OF assms]])
    fix status and t :: "deployment_replica \<times> 'w"
    assume t: "case t of (r', w') \<Rightarrow> live r' \<and> rep_tag r' = rep_tag r
      \<and> (status = SUCCEEDED \<longrightarrow> reports_versions ray \<longrightarrow> versioned ray r')
      \<and> (status \<noteq> SUCCEEDED \<longrightarrow> rep_version r' = rep_version r)"
    obtain r' w where rw: "t = (r', w)" by (cases t)
    have "rep_start_time r' \<noteq> None" using t rw by (simp add: live_def)
    then show "case t of (r', w) \<Rightarrow> (status = SUCCEEDED \<longrightarrow> ?P r (Some (RUNNING, r')))
      \<and> (status \<noteq> SUCCEEDED \<longrightarrow> ?P r (Some (st, r')))
      \<and> (\<forall>x. stopped_as r' x \<longrightarrow> ?P r x) \<and> rep_start_time r' \<noteq> None"
      using t unfolding rw by (auto intro: startup_as_intros)
  qed simp
  then have "returns (check_started ray) (\<lambda>status (r', w).
      returns (if status = SUCCEEDED then thenS (replicas_add RUNNING r') (retS ([], True))
        else if status = FAILED then
          thenS (dep_modify (\<lambda>d. if dep_replica_constructor_retry_counter d \<ge> 0
            then d\<lparr>dep_replica_constructor_retry_counter := dep_replica_constructor_retry_counter d + 1\<rparr> else d))
          (thenS (stop_and_keep ray False r') (retS ([], False)))
        else
          bindS (world_action (py_time ray)) (\<lambda>t.
          case rep_start_time r' of
            None \<Rightarrow> raiseS TypeError
          | Some started \<Rightarrow>
              let is_slow = t - started > SLOW_STARTUP_WARNING_S;
                  slow = (if is_slow then [(r', status)] else []) in
              if is_slow \<and> stop_on_slow then
                thenS (stop_and_keep ray False r') (retS (slow, False))
              else thenS (replicas_add st r') (retS (slow, False))))
        (\<lambda>_. loop_post ?P [r] d s) (d, s\<lparr>ctl_world := w\<rparr>)) (r, ctl_world s)"
  proof (rule wp_mono)
    fix status and t :: "deployment_replica \<times> 'w"
    assume t: "case t of (r', w) \<Rightarrow> (status = SUCCEEDED \<longrightarrow> ?P r (Some (RUNNING, r')))
      \<and> (status \<noteq> SUCCEEDED \<longrightarrow> ?P r (Some (st, r')))
      \<and> (\<forall>x. stopped_as r' x \<longrightarrow> ?P r x) \<and> rep_start_time r' \<noteq> None"
    obtain r' w where rw: "t = (r', w)" by (cases t)
    have stop: "\<And>x. stopped_as r' x \<Longrightarrow> ?P r x" using t rw by simp
    obtain started where started: "rep_start_time r' = Some started" using t rw by auto
    have run: "status = SUCCEEDED \<Longrightarrow> ?P r (Some (RUNNING, r'))"
      and keep: "status \<noteq> SUCCEEDED \<Longrightarrow> ?P r (Some (st, r'))" using t rw by simp_all
    show "case t of (r', w) \<Rightarrow> returns (if status = SUCCEEDED then thenS (replicas_add RUNNING r') (retS ([], True))
        else if status = FAILED then
          thenS (dep_modify (\<lambda>d. if dep_replica_constructor_retry_counter d \<ge> 0
            then d\<lparr>dep_replica_constructor_retry_counter := dep_replica_constructor_retry_counter d + 1\<rparr> else d))
          (thenS (stop_and_keep ray False r') (retS ([], False)))
        else
          bindS (world_action (py_time ray)) (\<lambda>t.
          case rep_start_time r' of
            None \<Rightarrow> raiseS TypeError
          | Some started \<Rightarrow>
              let is_slow = t - started > SLOW_STARTUP_WARNING_S;
                  slow = (if is_slow then [(r', status)] else []) in
              if is_slow \<and> stop_on_slow then
                thenS (stop_and_keep ray False r') (retS (slow, False))
              else thenS (replicas_add st r') (retS (slow, False))))
        (\<lambda>_. loop_post ?P [r] d s) (d, s\<lparr>ctl_world := w\<rparr>)"
      unfolding rw
      using run keep stop_after [where P = ?P and r = r and r' = r', OF stop]
        stop_after_same [where P = ?P and r = r and r' = r', OF stop]
      by (auto simp: wp_simps started Let_def loop_post_add)
  qed simp
  then show ?thesis
    by (simp only: check_startup_replica_def wp_bindS wp_on_replica case_prod_unfold fst_conv snd_conv)
qed

lemma check_startup_list_returns:
  assumes "\<forall>r \<in> set rs. live r"
  shows "returns (check_startup_list ray st stop_on_slow rs) (\<lambda>_. loop_post (startup_as ray st) rs d s) (d, s)"
  by (rule collect_placed [where body = "check_startup_replica ray st stop_on_slow"
        and h = "\<lambda>x y. (fst x @ fst y, snd x \<or> snd y)"])
    (use assms in \<open>auto simp: case_prod_unfold intro: check_startup_replica_returns\<close>)

text \<open>Replicas that are stopping: they stay, or they are gone.\<close>

definition gone_or_stopping :: "deployment_replica \<Rightarrow> (replica_state \<times> deployment_replica) option \<Rightarrow> bool" where
  "gone_or_stopping r x \<longleftrightarrow> x = None \<or> stopped_as r x"

lemma loop_post_drop: "P r None \<Longrightarrow> loop_post P [r] d s (d, s\<lparr>ctl_world := w\<rparr>)"
  using loop_post_one [of P r None d s "dep_replica_constructor_retry_counter d" w]
  by (simp add: put_back_def)

lemma check_stopping_replica_wp:
  fixes ray :: "'w ray_ops" and s :: "('w, 'k) controller"
  assumes "rep_shutdown_deadline r \<noteq> None"
  shows "wp (check_stopping_replica ray r) (\<lambda>_. loop_post gone_or_stopping [r] d s) (\<lambda>e _. e = TypeError) (d, s)"
proof -
  have "wp (replica_check_stopped ray) (\<lambda>stopped (r', w).
      (\<not> stopped \<longrightarrow> loop_post gone_or_stopping [r] d s
        (d\<lparr>dep_replicas := container_add STOPPING r' (dep_replicas d)\<rparr>, s\<lparr>ctl_world := w\<rparr>))
      \<and> (stopped \<longrightarrow> loop_post gone_or_stopping [r] d s (d, s\<lparr>ctl_world := w\<rparr>)))
    (\<lambda>e _. e = TypeError) (r, ctl_world s)"
    by (rule wp_mono [OF check_stopped_wp [OF assms]])
      (auto intro!: loop_post_add loop_post_drop simp: gone_or_stopping_def stopped_as_def)
  then show ?thesis
    by (simp add: check_stopping_replica_def wp_simps case_prod_unfold)
qed

lemma check_stopping_list_wp:
  assumes "\<forall>r \<in> set rs. rep_shutdown_deadline r \<noteq> None"
  shows "wp (forS (check_stopping_replica ray) rs) (\<lambda>_. loop_post gone_or_stopping rs d s) (\<lambda>e _. e = TypeError) (d, s)"
  by (rule forS_placed) (use assms in \<open>auto intro: check_stopping_replica_wp\<close>)

text \<open>New replicas.\<close>

definition started_as ::
  "deployment_version \<Rightarrow> string \<Rightarrow> deployment_replica \<Rightarrow> (replica_state \<times> deployment_replica) option \<Rightarrow> bool" where
  "started_as v name r x \<longleftrightarrow> (\<exists>r' letters. x = Some (STARTING, r') \<and> live r' \<and> rep_version r' = Some v
     \<and> rep_tag r' = replica_tag (new_replica_name name letters))"

lemma start_replicas_returns:
  assumes "dep_target_info d = Some info" and "dep_target_version d = Some v"
  shows "returns (start_replicas ray n)
    (\<lambda>_ t. \<exists>rs. length rs = n \<and> loop_post (started_as v (dep_name d)) rs d s t) (d, s)"
  using assms
proof (induction n arbitrary: d s)
  case 0
  then show ?case by (simp add: wp_simps)
next
  case (Suc n)
  obtain letters w1 where l: "py_random_letters ray (ctl_world s) = (letters, w1)" by fastforce
  let ?r = "new_deployment_replica ray (dep_controller_name d) (dep_detached d)
    (replica_tag (new_replica_name (dep_name d) letters)) (deployment_tag (new_replica_name (dep_name d) letters)) (Some v)"
  obtain r' w2 where r': "replica_start ray info v (?r, w1) = (r', w2)" by fastforce
  let ?d = "d\<lparr>dep_replicas := container_add STARTING r' (dep_replicas d)\<rparr>"
  have "started_as v (dep_name d) r (Some (STARTING, r'))" for r
    using start_facts [OF r'] by (auto simp: started_as_def new_deployment_replica_def)
  then have one: "loop_post (started_as v (dep_name d)) [r] d s (?d, s\<lparr>ctl_world := w2\<rparr>)" for r
    by (rule loop_post_add)
  have "returns (start_replicas ray n) (\<lambda>_ t. \<exists>rs. length rs = n
      \<and> loop_post (started_as v (dep_name ?d)) rs ?d (s\<lparr>ctl_world := w2\<rparr>) t) (?d, s\<lparr>ctl_world := w2\<rparr>)"
    by (rule Suc.IH) (use Suc.prems in simp_all)
  then have "returns (start_replicas ray n) (\<lambda>_ t. \<exists>rs. length rs = Suc n
      \<and> loop_post (started_as v (dep_name d)) rs d s t) (?d, s\<lparr>ctl_world := w2\<rparr>)"
  proof (rule wp_mono)
    fix t assume "\<exists>rs. length rs = n \<and> loop_post (started_as v (dep_name ?d)) rs ?d (s\<lparr>ctl_world := w2\<rparr>) t"
    then obtain rs where rs: "length rs = n" "loop_post (started_as v (dep_name d)) rs ?d (s\<lparr>ctl_world := w2\<rparr>) t"
      by auto
    have "loop_post (started_as v (dep_name d)) ([?r] @ rs) d s t"
      by (rule loop_post_trans [OF one rs(2)])
    then show "\<exists>rs. length rs = Suc n \<and> loop_post (started_as v (dep_name d)) rs d s t"
      using rs(1) by (intro exI [of _ "[?r] @ rs"]) simp
  qed simp
  then show ?case using Suc.prems l r' by (simp add: wp_simps Let_def)
qed

end
