(* ===== verification/Deployment_Rollout.thy ===== *)
theory Deployment_Rollout
  imports Deployment_Loops
begin

text \<open>
  Rolling updates and scaling: what \<open>_stop_wrong_version_replicas\<close> and
  \<open>_scale_deployment_replicas\<close> do to the number of replicas in each state. Both return on
  every well-formed state, whatever Ray does.
\<close>

definition dep_ok :: "'w ray_ops \<Rightarrow> deployment_state \<Rightarrow> bool" where
  "dep_ok ray d \<longleftrightarrow> all_in (replica_ok ray) (dep_replicas d)
     \<and> (0 \<le> dep_target_replicas d \<longrightarrow> (\<exists>info v. dep_target_info d = Some info
          \<and> dep_target_version d = Some v \<and> version_wf (py_pickle ray) v))"

abbreviation at_version :: "deployment_version \<Rightarrow> deployment_replica \<Rightarrow> bool" where
  "at_version v r \<equiv> version_eq (rep_version r) (Some v)"

text \<open>The counts of the code: active replicas, stopping ones, all of them, and those with a tag.\<close>

definition active :: "replica_container \<Rightarrow> nat" where
  "active c = num [STARTING, UPDATING, RECOVERING, RUNNING] (\<lambda>_. True) c"

definition stopping :: "replica_container \<Rightarrow> nat" where
  "stopping c = num [STOPPING] (\<lambda>_. True) c"

definition total_replicas :: "replica_container \<Rightarrow> nat" where
  "total_replicas c = weight (\<lambda>_ _. 1) c"

definition tagged :: "string \<Rightarrow> replica_container \<Rightarrow> nat" where
  "tagged t c = weight (\<lambda>_ r. if rep_tag r = t then 1 else 0) c"

text \<open>Old replicas that serve or are about to, and replicas running the target version.\<close>

definition available :: "deployment_version \<Rightarrow> replica_container \<Rightarrow> nat" where
  "available v c = num [STARTING, UPDATING, RUNNING] (\<lambda>r. \<not> at_version v r) c + num [RUNNING] (at_version v) c"

lemma total_split: "total_replicas c = active c + stopping c"
proof -
  have "total_replicas c = weight (\<lambda>st r. in_states [STARTING, UPDATING, RECOVERING, RUNNING] (\<lambda>_. True) st r
      + in_states [STOPPING] (\<lambda>_. True) st r) c"
    unfolding total_replicas_def by (rule weight_cong) (case_tac st; simp add: in_states_def)
  then show ?thesis by (simp add: weight_plus active_def stopping_def)
qed

lemma active_split:
  "active c = num [STARTING, UPDATING, RUNNING] (\<lambda>_. True) c + num [RECOVERING] (\<lambda>_. True) c"
proof -
  have "active c = weight (\<lambda>st r. in_states [STARTING, UPDATING, RUNNING] (\<lambda>_. True) st r
      + in_states [RECOVERING] (\<lambda>_. True) st r) c"
    unfolding active_def by (rule weight_cong) (case_tac st; simp add: in_states_def)
  then show ?thesis by (simp add: weight_plus)
qed

section \<open>Rolling updates\<close>

text \<open>What a rolling update keeps: every replica, with its tag; the recovering ones; and enough available replicas.\<close>

definition rolled :: "'w ray_ops \<Rightarrow> deployment_version \<Rightarrow> int \<Rightarrow> replica_container \<Rightarrow> replica_container \<Rightarrow> bool" where
  "rolled ray v target c c' \<longleftrightarrow>
     all_in (replica_ok ray) c' \<and> total_replicas c' = total_replicas c \<and> (\<forall>t. tagged t c' = tagged t c)
     \<and> active c' \<le> active c
     \<and> min (int (available v c)) (target - rollout_size target) \<le> int (available v c')"

lemma rolled_refl [simp]: "all_in (replica_ok ray) c \<Longrightarrow> rolled ray v target c c"
  by (simp add: rolled_def)

lemma replica_ok_live: "replica_ok ray st r \<Longrightarrow> st \<noteq> STOPPING \<Longrightarrow> live r"
  by (cases st) auto

lemma pop_update_rolled:
  assumes ok: "all_in (replica_ok ray) c"
    and pop: "container_pop (Some v) (Some [STARTING, RUNNING])
      (Some (max (rollout_size target - (target - int (num [RUNNING] (at_version v) c)
        - int (num [STARTING, UPDATING, RUNNING] (\<lambda>r. \<not> at_version v r) c))) 0)) c = (rs, c1)"
    and placed: "placed (updated_as ray v) rs c1 c2"
  shows "rolled ray v target c c2"
proof -
  let ?old = "\<lambda>r. \<not> at_version v r"
  note pop' = pop [unfolded container_pop_def option.case]
  have old: "?old r" and okr: "live r" if "r \<in> set rs" for r
    using pop_states_all_in(2) [OF pop' ok] that by (auto simp: excluded_def)
  have upd: "?old r \<and> st = STOPPING \<and> rep_version r' = rep_version r \<and> rep_tag r' = rep_tag r \<and> replica_ok ray st r'
      \<or> st = UPDATING \<and> at_version v r' \<and> rep_tag r' = rep_tag r \<and> replica_ok ray st r'"
    if "r \<in> set rs" "updated_as ray v r (Some (st, r'))" for r st r'
    using that old by (auto simp: updated_as_def stopped_as_def)
  have "all_in (replica_ok ray) c2"
    by (rule placed_all_in [OF placed pop_states_all_in(1) [OF pop' ok]]) (use upd in blast)
  moreover have "total_replicas c2 = total_replicas c"
    using pop_states_weight [OF pop', where g = "\<lambda>_ _. 1" and ?g0.0 = "\<lambda>_. 1"]
      placed_weight [OF placed, where g = "\<lambda>_ _. 1" and ?g0.0 = "\<lambda>_. 1"]
    by (auto simp: total_replicas_def updated_as_def stopped_as_def)
  moreover have "tagged t c2 = tagged t c" for t
  proof -
    let ?g = "\<lambda>r. if rep_tag r = t then 1 else 0 :: nat"
    have "weight (\<lambda>_ r. ?g r) c = weight (\<lambda>_ r. ?g r) c1 + sum_list (map ?g rs)"
      by (rule pop_states_weight [OF pop']) simp
    moreover have "weight (\<lambda>_ r. ?g r) c2 = weight (\<lambda>_ r. ?g r) c1 + sum_list (map ?g rs)"
      by (rule placed_weight [OF placed]) (auto simp: updated_as_def stopped_as_def)
    ultimately show ?thesis by (simp add: tagged_def)
  qed
  moreover have "active c2 \<le> active c"
  proof -
    have "active c = active c1 + sum_list (map (\<lambda>_. 1) rs)" unfolding active_def
      by (rule pop_states_weight [OF pop']) (auto simp: in_states_def)
    moreover have "active c2 \<le> active c1 + sum_list (map (\<lambda>_. 1) rs)" unfolding active_def
      using placed_weight_le [OF placed, where g = "in_states [STARTING, UPDATING, RECOVERING, RUNNING] (\<lambda>_. True)"
          and ?g0.0 = "\<lambda>_. 1"] by (simp add: in_states_def)
    ultimately show ?thesis by simp
  qed
  moreover have "min (int (available v c)) (target - rollout_size target) \<le> int (available v c2)"
  proof -
    let ?X = "\<lambda>c. num [STARTING, UPDATING, RUNNING] ?old c" and ?N = "\<lambda>c. num [RUNNING] (at_version v) c"
    have "?X c = ?X c1 + sum_list (map (\<lambda>_. 1) rs)"
      by (rule pop_states_weight [OF pop']) (use old in \<open>auto simp: in_states_def\<close>)
    moreover have "?N c = ?N c1 + sum_list (map (\<lambda>_. 0) rs)"
      by (rule pop_states_weight [OF pop']) (use old in \<open>auto simp: in_states_def\<close>)
    moreover have "?X c2 = ?X c1 + sum_list (map (\<lambda>_. 0) rs)"
      by (rule placed_weight [OF placed]) (use upd in \<open>fastforce simp: in_states_def\<close>)+
    moreover have "?N c2 = ?N c1 + sum_list (map (\<lambda>_. 0) rs)"
      by (rule placed_weight [OF placed]) (use upd in \<open>fastforce simp: in_states_def\<close>)+
    moreover have "int (length rs) \<le> max (rollout_size target - (target - int (?N c) - int (?X c))) 0"
      using pop_states_length [OF pop'] by simp
    ultimately show ?thesis by (simp add: available_def sum_list_triv)
  qed
  ultimately show ?thesis by (simp add: rolled_def)
qed

lemma stop_wrong_version_returns:
  assumes ok: "dep_ok ray d" and target: "0 \<le> dep_target_replicas d" and v: "dep_target_version d = Some v"
  shows "returns (stop_wrong_version_replicas ray) (\<lambda>_ (d', s'). \<exists>c k w.
      d' = d\<lparr>dep_replicas := c, dep_replica_constructor_retry_counter := k\<rparr> \<and> s' = s\<lparr>ctl_world := w\<rparr>
      \<and> rolled ray v (dep_target_replicas d) (dep_replicas d) c) (d, s)"
proof -
  let ?post = "\<lambda>(d', s'). \<exists>c k w. d' = d\<lparr>dep_replicas := c, dep_replica_constructor_retry_counter := k\<rparr>
      \<and> s' = s\<lparr>ctl_world := w\<rparr> \<and> rolled ray v (dep_target_replicas d) (dep_replicas d) c"
  let ?X = "int (num [STARTING, UPDATING, RUNNING] (\<lambda>r. \<not> at_version v r) (dep_replicas d))"
  let ?N = "int (num [RUNNING] (at_version v) (dep_replicas d))"
  let ?m = "max (rollout_size (dep_target_replicas d) - (dep_target_replicas d - ?N - ?X)) 0"
  have all: "all_in (replica_ok ray) (dep_replicas d)" using ok by (simp add: dep_ok_def)
  have wf: "version_wf (py_pickle ray) v" using ok target v by (auto simp: dep_ok_def)
  have same: "?post (d, s)"
    using all by (auto intro!: exI [of _ "dep_replicas d"] exI [of _ "ctl_world s"]
        exI [of _ "dep_replica_constructor_retry_counter d"])
  obtain rs c1 where pop: "container_pop (Some v) (Some [STARTING, RUNNING]) (Some ?m) (dep_replicas d) = (rs, c1)"
    by fastforce
  note pop' = pop [unfolded container_pop_def option.case]
  have good: "\<forall>r \<in> set rs. live r \<and> versioned ray r \<and> \<not> at_version v r"
    using pop_states_all_in(2) [OF pop' all] by (auto simp: excluded_def)
  have "returns (update_or_stop_all ray v rs) (\<lambda>_. ?post) (d\<lparr>dep_replicas := c1\<rparr>, s)"
  proof (rule wp_mono [OF update_or_stop_all_returns [OF good wf]])
    fix t assume "loop_post (updated_as ray v) rs (d\<lparr>dep_replicas := c1\<rparr>) s t"
    then show "?post t"
      using pop_update_rolled [OF all pop] by (fastforce simp: loop_post_def)
  qed simp
  then show ?thesis
    using same by (auto simp: stop_wrong_version_replicas_def wp_simps v Let_def pop)
qed

section \<open>Scaling\<close>

text \<open>
  The container after scaling: well-formed, at most the target number of active replicas, and in
  all as many as there were, or the target if that is more; no replica disappears.
\<close>

definition scaled :: "'w ray_ops \<Rightarrow> int \<Rightarrow> replica_container \<Rightarrow> replica_container \<Rightarrow> bool" where
  "scaled ray target c c' \<longleftrightarrow>
     all_in (replica_ok ray) c' \<and> int (active c') \<le> target
     \<and> int (total_replicas c') = max (int (total_replicas c)) target
     \<and> (\<forall>t. tagged t c \<le> tagged t c')"

lemma start_scaled:
  assumes "rolled ray v target c c1" and "placed (started_as v' name) rs c1 c2"
    and "version_wf (py_pickle ray) v'"
    and "int (length rs) = max (target - int (active c1) - int (stopping c1)) 0" and "int (active c1) \<le> target"
  shows "scaled ray target c c2"
proof -
  have "all_in (replica_ok ray) c2"
    by (rule placed_all_in [OF assms(2)])
      (use assms(1,3) in \<open>auto simp: rolled_def started_as_def versioned_def\<close>)
  moreover have "total_replicas c2 = total_replicas c1 + sum_list (map (\<lambda>_. 1) rs)"
    unfolding total_replicas_def by (rule placed_weight [OF assms(2)]) (auto simp: started_as_def)
  moreover have "active c2 = active c1 + sum_list (map (\<lambda>_. 1) rs)"
    unfolding active_def by (rule placed_weight [OF assms(2)]) (auto simp: started_as_def in_states_def)
  moreover have "tagged t c1 \<le> tagged t c2" for t
    unfolding tagged_def using placed_weight_le [OF assms(2), where g = "\<lambda>_ r. if rep_tag r = t then 1 else 0"
        and ?g0.0 = "\<lambda>_. 1"] by simp
  ultimately show ?thesis
    using assms(1,4,5) total_split [of c1] by (auto simp: scaled_def rolled_def sum_list_triv)
qed

lemma stop_scaled:
  assumes "rolled ray v target c c1" and "0 \<le> target" and "target < int (active c1)"
    and pop: "container_pop None (Some [STARTING, UPDATING, RECOVERING, RUNNING])
      (Some (int (active c1) - target)) c1 = (rs, c2)"
    and placed: "placed stopped_as rs c2 c3"
  shows "scaled ray target c c3"
proof -
  have ok: "all_in (replica_ok ray) c1" using assms(1) by (simp add: rolled_def)
  note pop' = pop [unfolded container_pop_def option.case]
  have len: "int (length rs) = int (active c1) - target"
    using pop_states_length [OF pop'] assms(2,3) by (simp add: excluded_def active_def)
  have "all_in (replica_ok ray) c3"
    by (rule placed_all_in [OF placed pop_states_all_in(1) [OF pop' ok]]) (auto simp: stopped_as_def)
  moreover have "total_replicas c3 = total_replicas c1"
    using pop_states_weight [OF pop', where g = "\<lambda>_ _. 1" and ?g0.0 = "\<lambda>_. 1"]
      placed_weight [OF placed, where g = "\<lambda>_ _. 1" and ?g0.0 = "\<lambda>_. 1"]
    by (auto simp: total_replicas_def stopped_as_def)
  moreover have "tagged t c3 = tagged t c1" for t
  proof -
    let ?g = "\<lambda>r. if rep_tag r = t then 1 else 0 :: nat"
    have "weight (\<lambda>_ r. ?g r) c1 = weight (\<lambda>_ r. ?g r) c2 + sum_list (map ?g rs)"
      by (rule pop_states_weight [OF pop']) simp
    moreover have "weight (\<lambda>_ r. ?g r) c3 = weight (\<lambda>_ r. ?g r) c2 + sum_list (map ?g rs)"
      by (rule placed_weight [OF placed]) (auto simp: stopped_as_def)
    ultimately show ?thesis by (simp add: tagged_def)
  qed
  moreover have "int (active c3) = target"
  proof -
    have "active c1 = active c2 + sum_list (map (\<lambda>_. 1) rs)"
      unfolding active_def by (rule pop_states_weight [OF pop']) (auto simp: in_states_def)
    moreover have "active c3 = active c2 + sum_list (map (\<lambda>_. 0) rs)"
      unfolding active_def by (rule placed_weight [OF placed]) (auto simp: stopped_as_def in_states_def)
    ultimately show ?thesis using len by (simp add: sum_list_triv)
  qed
  ultimately show ?thesis
    using assms(1,3) total_split [of c1] by (auto simp: scaled_def rolled_def)
qed

lemma same_scaled:
  assumes "rolled ray v target c c1" and "int (active c1) = target"
  shows "scaled ray target c c1"
  using assms total_split [of c1] by (auto simp: scaled_def rolled_def)

definition container_post ::
  "(replica_container \<Rightarrow> bool) \<Rightarrow> deployment_state \<Rightarrow> ('w, 'k) controller
     \<Rightarrow> deployment_state \<times> ('w, 'k) controller \<Rightarrow> bool" where
  "container_post R d s = (\<lambda>(d', s'). \<exists>c k w.
     d' = d\<lparr>dep_replicas := c, dep_replica_constructor_retry_counter := k\<rparr> \<and> s' = s\<lparr>ctl_world := w\<rparr> \<and> R c)"

lemma container_postI:
  "R c \<Longrightarrow> container_post R d s
     (d\<lparr>dep_replicas := c, dep_replica_constructor_retry_counter := k\<rparr>, s\<lparr>ctl_world := w\<rparr>)"
  by (auto simp: container_post_def)

lemma container_post_loop:
  assumes "loop_post P rs (d\<lparr>dep_replicas := c, dep_replica_constructor_retry_counter := k\<rparr>) (s\<lparr>ctl_world := w\<rparr>) t"
    and "\<And>c'. placed P rs c c' \<Longrightarrow> R c'"
  shows "container_post R d s t"
  using assms by (fastforce simp: loop_post_def container_post_def)

lemma scale_returns:
  assumes ok: "dep_ok ray d" and target: "0 \<le> dep_target_replicas d"
  shows "returns (scale_deployment_replicas ray)
    (\<lambda>_. container_post (scaled ray (dep_target_replicas d) (dep_replicas d)) d s) (d, s)"
proof -
  obtain info v where v: "dep_target_info d = Some info" "dep_target_version d = Some v"
    "version_wf (py_pickle ray) v" using ok target by (auto simp: dep_ok_def)
  let ?T = "dep_target_replicas d" and ?c = "dep_replicas d"
  let ?post = "container_post (scaled ray ?T ?c) d s"
  let ?rest = "\<lambda>stopped. bindS (replicas_count None None (Some [STARTING, UPDATING, RUNNING])) (\<lambda>current_replicas.
      bindS (replicas_count None None (Some [RECOVERING])) (\<lambda>recovering_replicas.
      let delta_replicas = ?T - current_replicas - recovering_replicas in
      if delta_replicas = 0 then retS False
      else if delta_replicas > 0 then
        bindS (replicas_count None None (Some [STOPPING])) (\<lambda>stopping_replicas.
        thenS (start_replicas ray (nat (max (delta_replicas - stopping_replicas) 0))) (retS stopped))
      else
        bindS (replicas_pop None (Some [STARTING, UPDATING, RECOVERING, RUNNING]) (Some (- delta_replicas)))
          (\<lambda>replicas_to_stop.
        thenS (forS (stop_and_keep ray True) replicas_to_stop) (retS True))))"
  have rest: "returns (?rest stopped) (\<lambda>_. ?post) (d1, s1)"
    if r: "rolled ray v ?T ?c c1"
      and d1: "d1 = d\<lparr>dep_replicas := c1, dep_replica_constructor_retry_counter := k\<rparr>" "s1 = s\<lparr>ctl_world := w\<rparr>"
    for stopped d1 s1 c1 k w
  proof -
    have cnt: "?T - int (num [STARTING, UPDATING, RUNNING] (\<lambda>_. True) c1) - int (num [RECOVERING] (\<lambda>_. True) c1)
        = ?T - int (active c1)" by (simp add: active_split)
    consider "int (active c1) = ?T" | "int (active c1) < ?T" | "?T < int (active c1)" by linarith
    then show ?thesis
    proof cases
      case 1
      then have "?post (d1, s1)" unfolding d1 by (intro container_postI same_scaled [OF r])
      then show ?thesis using 1 cnt by (simp add: wp_simps d1)
    next
      case 2
      let ?n = "nat (max (?T - int (active c1) - int (stopping c1)) 0)"
      have "returns (start_replicas ray ?n) (\<lambda>_. ?post) (d1, s1)"
      proof (rule wp_mono [OF start_replicas_returns [of d1 info v]])
        show "dep_target_info d1 = Some info" "dep_target_version d1 = Some v" using v d1 by simp_all
        fix t assume "\<exists>rs. length rs = ?n \<and> loop_post (started_as v (dep_name d1)) rs d1 s1 t"
        then obtain rs where rs: "length rs = ?n" "loop_post (started_as v (dep_name d1)) rs d1 s1 t" by blast
        show "?post t"
          by (rule container_post_loop [OF rs(2) [unfolded d1]], rule start_scaled [OF r _ v(3)])
            (use rs(1) 2 in auto)
      qed simp
      moreover have "int (stopping c1) = int (num [STOPPING] (\<lambda>_. True) (dep_replicas d1))"
        by (simp add: d1 stopping_def)
      ultimately show ?thesis
        using 2 by (simp add: wp_simps d1 active_split algebra_simps)
    next
      case 3
      obtain rs c2 where pop: "container_pop None (Some [STARTING, UPDATING, RECOVERING, RUNNING])
          (Some (int (active c1) - ?T)) c1 = (rs, c2)" by fastforce
      let ?d2 = "d\<lparr>dep_replicas := c2, dep_replica_constructor_retry_counter := k\<rparr>"
      have "returns (forS (stop_and_keep ray True) rs) (\<lambda>_. ?post) (?d2, s1)"
      proof (rule wp_mono [OF stop_list_returns])
        fix t assume l: "loop_post stopped_as rs ?d2 s1 t"
        show "?post t"
          by (rule container_post_loop [OF l [unfolded d1]], rule stop_scaled [OF r target 3 pop])
      qed simp
      moreover have "d1\<lparr>dep_replicas := c2\<rparr> = ?d2" by (simp add: d1 retry_then_replicas)
      moreover have "int (num [STARTING, UPDATING, RUNNING] (\<lambda>_. True) c1) + int (num [RECOVERING] (\<lambda>_. True) c1) - ?T
        = int (active c1) - ?T" by (simp add: active_split)
      ultimately show ?thesis
        using 3 pop by (simp add: wp_simps d1 active_split algebra_simps retry_then_replicas)
    qed
  qed
  have "returns (stop_wrong_version_replicas ray) (\<lambda>stopped. returns (?rest stopped) (\<lambda>_. ?post)) (d, s)"
    by (rule wp_mono [OF stop_wrong_version_returns [OF ok target v(2)]]) (use rest in auto)
  then show ?thesis
    using target by (simp add: scale_deployment_replicas_def wp_simps)
qed

end
