(* ===== verification/Deployment_Rounds.thy ===== *)
theory Deployment_Rounds
  imports Deployment_Rollout
begin

text \<open>
  A whole round of the control loop, \<open>DeploymentState.update\<close>: the checks of the replicas,
  the notification, the status of the goal and its completion.
\<close>

section \<open>Checking replicas\<close>

definition checked :: "'w ray_ops \<Rightarrow> replica_container \<Rightarrow> replica_container \<Rightarrow> bool" where
  "checked ray c c' \<longleftrightarrow> all_in (replica_ok ray) c' \<and> active c' \<le> active c
     \<and> total_replicas c' \<le> total_replicas c \<and> (\<forall>t. tagged t c' \<le> tagged t c)"

lemma checked_trans: "checked ray c c1 \<Longrightarrow> checked ray c1 c2 \<Longrightarrow> checked ray c c2"
  by (auto simp: checked_def intro: order_trans)

lemma checked_refl: "all_in (replica_ok ray) c \<Longrightarrow> checked ray c c"
  by (simp add: checked_def)

lemma pop_place_weight:
  assumes "placed P (c st) (c(st := [])) c'"
    and "\<And>r st' r'. r \<in> set (c st) \<Longrightarrow> P r (Some (st', r')) \<Longrightarrow> g st' r' \<le> g st r"
  shows "weight g c' \<le> weight g c"
  using placed_weight_le [OF assms(1), where g = g and ?g0.0 = "g st"] assms(2)
    weight_update [of g c st "[]"] by simp

lemma checked_step:
  assumes ok: "all_in (replica_ok ray) c" and placed: "placed P (c st) (c(st := [])) c'"
    and P: "\<And>r st' r'. r \<in> set (c st) \<Longrightarrow> P r (Some (st', r')) \<Longrightarrow>
      rep_tag r' = rep_tag r \<and> replica_ok ray st' r' \<and> (st = STOPPING \<longrightarrow> st' = STOPPING)"
  shows "checked ray c c'"
proof -
  have "all_in (replica_ok ray) (c(st := []))" using ok by (simp add: all_in_def)
  then have "all_in (replica_ok ray) c'" by (rule placed_all_in [OF placed]) (use P in blast)
  moreover have "active c' \<le> active c" unfolding active_def
  proof (rule pop_place_weight [OF placed])
    fix r st' r' assume "r \<in> set (c st)" "P r (Some (st', r'))"
    then have "st = STOPPING \<longrightarrow> st' = STOPPING" using P by blast
    then show "in_states [STARTING, UPDATING, RECOVERING, RUNNING] (\<lambda>_. True) st' r'
        \<le> in_states [STARTING, UPDATING, RECOVERING, RUNNING] (\<lambda>_. True) st r"
      by (cases st; cases st') (simp_all add: in_states_def)
  qed
  moreover have "total_replicas c' \<le> total_replicas c" unfolding total_replicas_def
    by (rule pop_place_weight [OF placed]) simp
  moreover have "tagged t c' \<le> tagged t c" for t unfolding tagged_def
    by (rule pop_place_weight [OF placed]) (use P in fastforce)
  ultimately show ?thesis by (simp add: checked_def)
qed

text \<open>The state after the checks: also the time of the last warning may have changed.\<close>

definition round_post ::
  "(replica_container \<Rightarrow> bool) \<Rightarrow> deployment_state \<Rightarrow> ('w, 'k) controller
     \<Rightarrow> deployment_state \<times> ('w, 'k) controller \<Rightarrow> bool" where
  "round_post R d s = (\<lambda>(d', s'). \<exists>c k t w.
     d' = d\<lparr>dep_replicas := c, dep_replica_constructor_retry_counter := k, dep_prev_startup_warning := t\<rparr>
     \<and> s' = s\<lparr>ctl_world := w\<rparr> \<and> R c)"

lemma round_postI:
  "R c \<Longrightarrow> round_post R d s (d\<lparr>dep_replicas := c, dep_replica_constructor_retry_counter := k,
     dep_prev_startup_warning := u\<rparr>, s\<lparr>ctl_world := w\<rparr>)"
  unfolding round_post_def by blast

lemma round_post_mono: "round_post R d s t \<Longrightarrow> (\<And>c. R c \<Longrightarrow> R' c) \<Longrightarrow> round_post R' d s t"
  unfolding round_post_def by (cases t) blast

lemma container_round_post:
  assumes "container_post R d s t"
  shows "round_post R d s t"
proof -
  obtain c k w where t: "t = (d\<lparr>dep_replicas := c, dep_replica_constructor_retry_counter := k\<rparr>, s\<lparr>ctl_world := w\<rparr>)" "R c"
    using assms by (auto simp: container_post_def)
  have "dep_prev_startup_warning (d\<lparr>dep_replicas := c, dep_replica_constructor_retry_counter := k\<rparr>)
      = dep_prev_startup_warning d" by simp
  then have "d\<lparr>dep_replicas := c, dep_replica_constructor_retry_counter := k,
      dep_prev_startup_warning := dep_prev_startup_warning d\<rparr>
    = d\<lparr>dep_replicas := c, dep_replica_constructor_retry_counter := k\<rparr>" by (cases d) simp
  then show ?thesis
    using round_postI [where R = R and c = c and d = d and s = s and k = k and w = w
        and u = "dep_prev_startup_warning d"] t by metis
qed

lemma round_post_trans:
  assumes "round_post R d s (d1, s1)" and "round_post R' d1 s1 t"
    and "\<And>c. R (dep_replicas d1) \<Longrightarrow> R' c \<Longrightarrow> R'' c"
  shows "round_post R'' d s t"
proof -
  obtain c k u w where 1: "d1 = d\<lparr>dep_replicas := c, dep_replica_constructor_retry_counter := k, dep_prev_startup_warning := u\<rparr>"
    "s1 = s\<lparr>ctl_world := w\<rparr>" "R c" using assms(1) by (auto simp: round_post_def)
  obtain c' k' u' w' where 2: "t = (d1\<lparr>dep_replicas := c', dep_replica_constructor_retry_counter := k', dep_prev_startup_warning := u'\<rparr>,
    s1\<lparr>ctl_world := w'\<rparr>)" "R' c'" using assms(2) by (auto simp: round_post_def)
  have "R'' c'" using assms(3) 1 2(2) by simp
  moreover have "t = (d\<lparr>dep_replicas := c', dep_replica_constructor_retry_counter := k', dep_prev_startup_warning := u'\<rparr>,
    s\<lparr>ctl_world := w'\<rparr>)" using 1 2 by (cases d) simp
  ultimately show ?thesis by (auto simp: round_post_def)
qed

lemma loop_round_post:
  assumes "loop_post P (dep_replicas d st) (d\<lparr>dep_replicas := (dep_replicas d)(st := [])\<rparr>) s t"
    and "\<And>c'. placed P (dep_replicas d st) ((dep_replicas d)(st := [])) c' \<Longrightarrow> R c'"
  shows "round_post R d s t"
proof (rule container_round_post)
  show "container_post R d s t" using assms by (fastforce simp: loop_post_def container_post_def)
qed

lemma warn_round_post:
  "returns (warn_slow_replicas ray slow) (\<lambda>_. round_post (\<lambda>c. c = dep_replicas d) d s) (d, s)"
proof -
  have same: "round_post (\<lambda>c. c = dep_replicas d) d s (d\<lparr>dep_prev_startup_warning := u\<rparr>, s\<lparr>ctl_world := w\<rparr>)" for u w
  proof -
    have "d\<lparr>dep_prev_startup_warning := u\<rparr> = d\<lparr>dep_replicas := dep_replicas d,
      dep_replica_constructor_retry_counter := dep_replica_constructor_retry_counter d, dep_prev_startup_warning := u\<rparr>"
      by (cases d) simp
    then show ?thesis unfolding round_post_def by blast
  qed
  have "round_post (\<lambda>c. c = dep_replicas d) d s (d, s\<lparr>ctl_world := w\<rparr>)" for w
    using same [of "dep_prev_startup_warning d" w] by simp
  moreover have "round_post (\<lambda>c. c = dep_replicas d) d s (d, s)"
    using same [of "dep_prev_startup_warning d" "ctl_world s"] by simp
  ultimately show ?thesis using same by (simp add: warn_slow_replicas_def wp_simps)
qed

lemma startup_checked:
  assumes "reports_versions ray" and "replica_ok ray st r" and "st \<in> {STARTING, UPDATING, RECOVERING}"
    and "startup_as ray st r (Some (st', r'))"
  shows "rep_tag r' = rep_tag r \<and> replica_ok ray st' r' \<and> (st = STOPPING \<longrightarrow> st' = STOPPING)"
  using assms by (auto simp: startup_as_def versioned_def)

lemma health_checked:
  assumes "replica_ok ray RUNNING r" and "health_as r (Some (st', r'))"
  shows "rep_tag r' = rep_tag r \<and> replica_ok ray st' r' \<and> (RUNNING = STOPPING \<longrightarrow> st' = STOPPING)"
  using assms by (auto simp: health_as_def stopped_as_def versioned_def)

lemma check_startup_round:
  fixes ray :: "'w ray_ops" and s :: "('w, 'k) controller"
  assumes rv: "reports_versions ray" and ok: "all_in (replica_ok ray) (dep_replicas d)"
    and st: "st \<in> {STARTING, UPDATING, RECOVERING}"
  shows "wp (check_startup_replicas ray st slow) (\<lambda>_. round_post (checked ray (dep_replicas d)) d s) E (d, s)"
proof -
  let ?rs = "dep_replicas d st"
  have okr: "\<forall>r \<in> set ?rs. replica_ok ray st r" using ok by (simp add: all_in_def)
  then have "\<forall>r \<in> set ?rs. live r" using st by auto
  then have "returns (check_startup_list ray st slow ?rs)
      (\<lambda>_. loop_post (startup_as ray st) ?rs (d\<lparr>dep_replicas := (dep_replicas d)(st := [])\<rparr>) s)
      (d\<lparr>dep_replicas := (dep_replicas d)(st := [])\<rparr>, s)" by (rule check_startup_list_returns)
  then have "wp (check_startup_list ray st slow ?rs) (\<lambda>_. round_post (checked ray (dep_replicas d)) d s) E
      (d\<lparr>dep_replicas := (dep_replicas d)(st := [])\<rparr>, s)"
  proof (rule wp_mono)
    fix t assume l: "loop_post (startup_as ray st) ?rs (d\<lparr>dep_replicas := (dep_replicas d)(st := [])\<rparr>) s t"
    show "round_post (checked ray (dep_replicas d)) d s t"
    proof (rule loop_round_post [OF l])
      fix c' assume "placed (startup_as ray st) ?rs ((dep_replicas d)(st := [])) c'"
      then show "checked ray (dep_replicas d) c'"
        by (rule checked_step [OF ok]) (use startup_checked [OF rv _ st] okr in blast)
    qed
  qed simp
  then show ?thesis by (simp add: check_startup_replicas_def wp_simps pop_everything)
qed

lemma check_running_round:
  fixes ray :: "'w ray_ops" and s :: "('w, 'k) controller"
  assumes ok: "all_in (replica_ok ray) (dep_replicas d)"
  shows "wp (bindS (replicas_pop None (Some [RUNNING]) None) (check_running_list ray))
    (\<lambda>_. round_post (checked ray (dep_replicas d)) d s) E (d, s)"
proof -
  let ?rs = "dep_replicas d RUNNING"
  have okr: "\<forall>r \<in> set ?rs. replica_ok ray RUNNING r" using ok unfolding all_in_def by blast
  then have "\<forall>r \<in> set ?rs. live r" by auto
  then have "returns (check_running_list ray ?rs)
      (\<lambda>_. loop_post health_as ?rs (d\<lparr>dep_replicas := (dep_replicas d)(RUNNING := [])\<rparr>) s)
      (d\<lparr>dep_replicas := (dep_replicas d)(RUNNING := [])\<rparr>, s)" by (rule check_running_list_returns)
  then have "wp (check_running_list ray ?rs) (\<lambda>_. round_post (checked ray (dep_replicas d)) d s) E
      (d\<lparr>dep_replicas := (dep_replicas d)(RUNNING := [])\<rparr>, s)"
  proof (rule wp_mono)
    fix t assume l: "loop_post health_as ?rs (d\<lparr>dep_replicas := (dep_replicas d)(RUNNING := [])\<rparr>) s t"
    show "round_post (checked ray (dep_replicas d)) d s t"
    proof (rule loop_round_post [OF l])
      fix c' assume "placed health_as ?rs ((dep_replicas d)(RUNNING := [])) c'"
      then show "checked ray (dep_replicas d) c'"
        by (rule checked_step [OF ok]) (use health_checked okr in blast)
    qed
  qed simp
  then show ?thesis by (simp add: wp_simps pop_everything)
qed

lemma check_stopping_round:
  fixes ray :: "'w ray_ops" and s :: "('w, 'k) controller"
  assumes ok: "all_in (replica_ok ray) (dep_replicas d)"
  shows "wp (bindS (replicas_pop None (Some [STOPPING]) None) (forS (check_stopping_replica ray)))
    (\<lambda>_. round_post (checked ray (dep_replicas d)) d s) (\<lambda>e _. e = TypeError) (d, s)"
proof -
  let ?rs = "dep_replicas d STOPPING"
  have okr: "\<forall>r \<in> set ?rs. replica_ok ray STOPPING r" using ok unfolding all_in_def by blast
  then have "\<forall>r \<in> set ?rs. rep_shutdown_deadline r \<noteq> None" by simp
  then have "wp (forS (check_stopping_replica ray) ?rs)
      (\<lambda>_. loop_post gone_or_stopping ?rs (d\<lparr>dep_replicas := (dep_replicas d)(STOPPING := [])\<rparr>) s)
      (\<lambda>e _. e = TypeError) (d\<lparr>dep_replicas := (dep_replicas d)(STOPPING := [])\<rparr>, s)"
    by (rule check_stopping_list_wp)
  then have "wp (forS (check_stopping_replica ray) ?rs) (\<lambda>_. round_post (checked ray (dep_replicas d)) d s)
      (\<lambda>e _. e = TypeError) (d\<lparr>dep_replicas := (dep_replicas d)(STOPPING := [])\<rparr>, s)"
  proof (rule wp_mono)
    fix t assume l: "loop_post gone_or_stopping ?rs (d\<lparr>dep_replicas := (dep_replicas d)(STOPPING := [])\<rparr>) s t"
    show "round_post (checked ray (dep_replicas d)) d s t"
    proof (rule loop_round_post [OF l])
      fix c' assume "placed gone_or_stopping ?rs ((dep_replicas d)(STOPPING := [])) c'"
      then show "checked ray (dep_replicas d) c'"
        by (rule checked_step [OF ok]) (auto simp: gone_or_stopping_def stopped_as_def)
    qed
  qed simp
  then show ?thesis by (simp add: wp_simps pop_everything)
qed

text \<open>Composition of steps that keep \<open>checked\<close>.\<close>

lemma checked_bind:
  assumes "wp m (\<lambda>_. round_post (checked ray (dep_replicas d)) d s) E (d, s)"
    and "\<And>x d1 s1. all_in (replica_ok ray) (dep_replicas d1) \<Longrightarrow>
      wp (f x) (\<lambda>_. round_post (checked ray (dep_replicas d1)) d1 s1) E (d1, s1)"
  shows "wp (bindS m f) (\<lambda>_. round_post (checked ray (dep_replicas d)) d s) E (d, s)"
  unfolding wp_bindS
proof (rule wp_mono [OF assms(1)])
  fix x t assume one: "round_post (checked ray (dep_replicas d)) d s t"
  show "wp (f x) (\<lambda>_. round_post (checked ray (dep_replicas d)) d s) E t"
  proof (cases t)
    case (Pair d1 s1)
    have c1: "checked ray (dep_replicas d) (dep_replicas d1)"
      using one unfolding Pair by (auto simp: round_post_def)
    then have "all_in (replica_ok ray) (dep_replicas d1)" by (simp add: checked_def)
    then have "wp (f x) (\<lambda>_. round_post (checked ray (dep_replicas d1)) d1 s1) E (d1, s1)" by (rule assms(2))
    then show ?thesis unfolding Pair
      by (rule wp_mono) (use round_post_trans [OF one [unfolded Pair]] checked_trans [OF c1] in auto)
  qed
qed simp

lemma checked_ret:
  "all_in (replica_ok ray) (dep_replicas d) \<Longrightarrow> wp (retS x) (\<lambda>_. round_post (checked ray (dep_replicas d)) d s) E (d, s)"
  using warn_round_post [of undefined "[]" d s]
  by (auto simp: wp_simps warn_slow_replicas_def elim!: round_post_mono intro: checked_refl)

lemma check_and_update_wp:
  fixes ray :: "'w ray_ops" and s :: "('w, 'k) controller"
  assumes rv: "reports_versions ray" and ok: "all_in (replica_ok ray) (dep_replicas d)"
  shows "wp (check_and_update_replicas ray) (\<lambda>_. round_post (checked ray (dep_replicas d)) d s)
    (\<lambda>e _. e = TypeError) (d, s)"
proof -
  have assoc: "bindS (bindS m f) g = bindS m (\<lambda>x. bindS (f x) g)" for m f g
    by (rule ext) (simp add: bindS_def split: prod.splits sum.splits)
  have warn: "wp (warn_slow_replicas ray slow) (\<lambda>_. round_post (checked ray (dep_replicas d1)) d1 s1)
      (\<lambda>e _. e = TypeError) (d1, s1)" if "all_in (replica_ok ray) (dep_replicas d1)"
    for slow d1 and s1 :: "('w, 'k) controller"
    by (rule wp_mono [OF warn_round_post]) (auto elim!: round_post_mono simp: checked_refl that)
  have eq: "check_and_update_replicas ray =
     bindS (bindS (replicas_pop None (Some [RUNNING]) None) (check_running_list ray)) (\<lambda>running_replicas_changed.
     bindS (check_startup_replicas ray STARTING False) (\<lambda>start.
     bindS (check_startup_replicas ray UPDATING False) (\<lambda>upd.
     bindS (check_startup_replicas ray RECOVERING True) (\<lambda>recov.
     bindS (warn_slow_replicas ray (fst start @ fst upd @ fst recov)) (\<lambda>_.
     bindS (bindS (replicas_pop None (Some [STOPPING]) None) (forS (check_stopping_replica ray))) (\<lambda>_.
     retS (running_replicas_changed \<or> snd start \<or> snd upd \<or> snd recov)))))))"
    by (simp add: check_and_update_replicas_def assoc thenS_def case_prod_unfold)
  show ?thesis unfolding eq
    by (intro checked_bind check_running_round check_startup_round check_stopping_round warn checked_ret)
      (use rv ok in simp_all)
qed

section \<open>Notification\<close>

lemma running_infos_map:
  "running_infos ray w rs = (map (\<lambda>r. fst (get_running_replica_info ray r w)) rs,
     map (\<lambda>r. r\<lparr>rep_actor := wrapper_actor_handle ray (rep_actor r) w\<rparr>) rs)"
  by (induction rs) (simp_all add: get_running_replica_info_def Let_def)

lemma wrapper_actor_handle_live: "live r \<Longrightarrow> r\<lparr>rep_actor := wrapper_actor_handle ray (rep_actor r) w\<rparr> = r"
  by (auto simp: live_def wrapper_actor_handle_def)

text \<open>Replicas in a well-formed container have their handle, so building the infos changes nothing.\<close>

lemma notify_returns:
  assumes "all_in (replica_ok ray) (dep_replicas d)"
  shows "returns (notify_running_replicas_changed ray) (\<lambda>_ (d', s'). d' = d \<and> ctl_goals s' = ctl_goals s
     \<and> map_of (lp_object_snapshots (ctl_host s')) (RUNNING_REPLICAS (dep_name d))
       = Some (map (\<lambda>r. fst (get_running_replica_info ray r (ctl_world s))) (dep_replicas d RUNNING))) (d, s)"
proof -
  have "\<forall>r \<in> set (dep_replicas d RUNNING). live r" using assms unfolding all_in_def by fastforce
  then have "map (\<lambda>r. r\<lparr>rep_actor := wrapper_actor_handle ray (rep_actor r) (ctl_world s)\<rparr>) (dep_replicas d RUNNING)
      = dep_replicas d RUNNING"
    by (simp add: wrapper_actor_handle_live map_idI)
  then show ?thesis
    by (simp add: notify_running_replicas_changed_def wp_simps get_running_replica_infos_def running_infos_map
        container_get_def wp_def Let_def case_prod_unfold)
qed

section \<open>The status of the goal\<close>

definition pending_ops :: "replica_container \<Rightarrow> nat" where
  "pending_ops c = num [STARTING, UPDATING, RECOVERING, STOPPING] (\<lambda>_. True) c"

lemma total_pending: "total_replicas c = pending_ops c + num [RUNNING] (\<lambda>_. True) c"
proof -
  have "total_replicas c = weight (\<lambda>st r. in_states [STARTING, UPDATING, RECOVERING, STOPPING] (\<lambda>_. True) st r
      + in_states [RUNNING] (\<lambda>_. True) st r) c"
    unfolding total_replicas_def by (rule weight_cong) (case_tac st; simp add: in_states_def)
  then show ?thesis by (simp add: weight_plus pending_ops_def)
qed

lemma status_returns:
  assumes "dep_target_version d = Some v"
  shows "returns check_curr_goal_status (\<lambda>status (d', s'). s' = s
     \<and> (\<exists>k. d' = d\<lparr>dep_replica_constructor_retry_counter := k\<rparr>)
     \<and> (status = GOAL_NONE \<longleftrightarrow> dep_curr_goal d = None)
     \<and> (status = GOAL_SUCCEEDED \<longrightarrow> pending_ops (dep_replicas d) = 0
          \<and> dep_target_replicas d = int (num [RUNNING] (at_version v) (dep_replicas d)))
     \<and> (status = GOAL_SUCCESSFULLY_DELETED \<longrightarrow> pending_ops (dep_replicas d) = 0
          \<and> dep_target_replicas d = 0 \<and> num [RUNNING] (\<lambda>_. True) (dep_replicas d) = 0)) (d, s)"
proof -
  have k: "\<exists>k. d = d\<lparr>dep_replica_constructor_retry_counter := k\<rparr>"
    "\<exists>k. d\<lparr>dep_replica_constructor_retry_counter := - 1\<rparr> = d\<lparr>dep_replica_constructor_retry_counter := k\<rparr>"
    by (rule exI [of _ "dep_replica_constructor_retry_counter d"], simp) blast
  let ?th = "min MAX_DEPLOYMENT_CONSTRUCTOR_RETRY_COUNT (dep_target_replicas d * 3)"
  let ?too = "dep_replica_constructor_retry_counter d \<ge> ?th \<and> ?th \<noteq> 0"
  let ?run = "int (num [RUNNING] (at_version v) (dep_replicas d))"
  show ?thesis
  proof (cases "dep_curr_goal d = None")
    case True
    then show ?thesis using k(1) by (simp add: check_curr_goal_status_def wp_simps)
  next
    case goal: False
    show ?thesis
    proof (cases "?too \<and> \<not> ?run > 0")
      case True
      then show ?thesis
        using goal k(1) assms by (simp add: check_curr_goal_status_def wp_simps Let_def)
    next
      case False
      define d1 where "d1 = (if ?too then d\<lparr>dep_replica_constructor_retry_counter := - 1\<rparr> else d)"
      have d1: "\<exists>k. d1 = d\<lparr>dep_replica_constructor_retry_counter := k\<rparr>" "dep_replicas d1 = dep_replicas d"
        unfolding d1_def using k by (simp_all split: if_split)
      from False goal assms d1 k(1) show ?thesis
        unfolding check_curr_goal_status_def wp_bindS wp_dep_get Let_def
        apply (simp only: if_False wp_count_all wp_count_version distinct.simps list.set insert_iff empty_iff
            replica_state.distinct simp_thms)
        by (simp add: wp_simps pending_ops_def d1_def [symmetric] split: if_split)
    qed
  qed
qed

lemma running_le_active: "num [RUNNING] P c \<le> active c"
  unfolding active_def by (rule weight_mono) (auto simp: in_states_def)

lemma num_mono: "(\<And>r. P r \<Longrightarrow> Q r) \<Longrightarrow> num sts P c \<le> num sts Q c"
  by (rule weight_mono) (auto simp: in_states_def)

text \<open>No pending operation, at most the target active, and the target reached: exactly the target runs.\<close>

lemma succeeded_exact:
  assumes "pending_ops c = 0" and "int (active c) \<le> target" and "target = int (num [RUNNING] (at_version v) c)"
  shows "int (total_replicas c) = target"
proof -
  have "num [RUNNING] (at_version v) c \<le> num [RUNNING] (\<lambda>_. True) c" by (rule num_mono) simp
  then show ?thesis
    using assms running_le_active [of "\<lambda>_. True" c] total_pending [of c] by simp
qed

section \<open>Completing goals\<close>

definition keeps_goals :: "('w, 'k) save_func \<Rightarrow> bool" where
  "keeps_goals save \<longleftrightarrow> (\<forall>d s. ctl_goals (save d s) = ctl_goals s)"

abbreviation told :: "nat \<Rightarrow> async_goal \<Rightarrow> deployment_state \<times> ('w, 'k) controller \<Rightarrow> bool" where
  "told r a t \<equiv> frozen r a (ctl_goals (snd t))"

lemma told_create:
  assumes "told r a (d, s)"
  shows "wp (dep_create_goal ray) (\<lambda>_. told r a) E (d, s)"
proof -
  obtain uuid w where u: "py_uuid4 ray (ctl_world s) = (uuid, w)" by fastforce
  have "frozen r a (snd (create_goal None uuid (ctl_goals s)))"
    using frozen_step [OF _ step_create] assms by simp
  then show ?thesis by (simp add: dep_create_goal_def wp_def u case_prod_unfold Let_def)
qed

lemma told_complete:
  assumes "told r a (d, s)"
  shows "wp (dep_complete_goal g ex) (\<lambda>_. told r a) (\<lambda>_. told r a) (d, s)"
proof (cases g)
  case None
  then show ?thesis using assms by (simp add: dep_complete_goal_def wp_def)
next
  case (Some g')
  obtain res m where m: "complete_goal g' ex (ctl_goals s) = (res, m)" by fastforce
  have "frozen r a m" using frozen_step [OF _ step_complete, of r a "ctl_goals s" g' ex] assms m by simp
  then show ?thesis using Some m by (auto simp: dep_complete_goal_def wp_def split: sum.splits)
qed

lemma wp_told_bind:
  assumes "wp m (\<lambda>_. told r a) (\<lambda>_. told r a) t"
    and "\<And>x d s. told r a (d, s) \<Longrightarrow> wp (f x) (\<lambda>_. told r a) (\<lambda>_. told r a) (d, s)"
  shows "wp (bindS m f) (\<lambda>_. told r a) (\<lambda>_. told r a) t"
  unfolding wp_bindS by (rule wp_mono [OF assms(1)]) (use assms(2) in auto)

lemmas told_intros = told_complete

lemma told_simple:
  assumes "told r a (d, s)"
  shows "wp (dep_modify f) (\<lambda>_. told r a) E (d, s)" "wp (retS x) (\<lambda>_. told r a) E (d, s)"
    "wp (world_action h) (\<lambda>_. told r a) E (d, s)"
  using assms by (simp_all add: wp_simps)

lemma told_set_goal:
  assumes "told r a (d, s)"
  shows "wp (set_deployment_goal ray info) (\<lambda>_. told r a) (\<lambda>_. told r a) (d, s)"
proof -
  have "wp (case info of
         Some i \<Rightarrow>
           bindS (if info_version i = None then world_action (py_random_letters ray) else retS []) (\<lambda>letters.
           dep_modify (\<lambda>d. d\<lparr>dep_target_info := Some i,
                             dep_target_replicas := num_replicas (deployment_config i),
                             dep_target_version := Some (new_deployment_version (py_pickle ray) letters
                               (info_version i) (user_config (deployment_config i)))\<rparr>))
       | None \<Rightarrow> dep_modify (\<lambda>d. d\<lparr>dep_target_replicas := 0\<rparr>)) (\<lambda>_. told r a) (\<lambda>_. told r a) (d1, s1)"
    if "told r a (d1, s1)" for d1 and s1 :: "('a, 'b) controller"
    using that by (cases info) (simp_all add: wp_simps)
  then show ?thesis
    unfolding set_deployment_goal_def thenS_def using assms
    by (intro wp_told_bind) (auto simp: wp_simps intro: told_create)
qed

lemma told_save:
  assumes "keeps_goals save" and "told r a (d, s)"
  shows "wp (run_save save) (\<lambda>_. told r a) E (d, s)"
  using assms by (simp add: wp_simps keeps_goals_def)

lemma told_delete:
  assumes "keeps_goals save" and "told r a (d, s)"
  shows "wp (dep_delete ray save) (\<lambda>_. told r a) (\<lambda>_. told r a) (d, s)"
  unfolding dep_delete_def thenS_def case_prod_unfold using assms
  by (intro wp_told_bind told_set_goal told_save told_complete told_simple)

lemma told_deploy:
  assumes "keeps_goals save" and "told r a (d, s)"
  shows "wp (dep_deploy ray save info) (\<lambda>_. told r a) (\<lambda>_. told r a) (d, s)"
proof -
  have go: "wp (thenS (dep_modify h) (bindS (set_deployment_goal ray (Some i)) (\<lambda>(new_goal_id, existing_goal_id).
       thenS (run_save save) (thenS (dep_complete_goal existing_goal_id None)
         (retS (Some new_goal_id, True)))))) (\<lambda>_. told r a) (\<lambda>_. told r a) (d, s)" for h i
    unfolding thenS_def case_prod_unfold using assms
    by (intro wp_told_bind told_set_goal told_save told_complete told_simple)
  then show ?thesis using assms(2)
    by (simp add: dep_deploy_def wp_bindS wp_dep_get Let_def wp_if wp_retS)
qed

end
