(* ===== verification/Deployment_Manager.thy ===== *)
theory Deployment_Manager
  imports Deployment_State Serve_Storage
begin

text \<open>
  \<open>DeploymentStateManager\<close> of \<open>serve/deployment_state.py\<close>: all deployments, the
  metadata of deleted ones, and the checkpoint both are recovered from after a crash of the
  controller. The methods of one deployment are run by \<open>on_deployment\<close>, which supplies the
  callback that saves all deployments, this one in its current state.
\<close>

definition DEPLOYMENT_CHECKPOINT_KEY :: string where
  "DEPLOYMENT_CHECKPOINT_KEY = ''serve-deployment-state-checkpoint''"

definition MAX_NUM_DELETED_DEPLOYMENTS :: nat where
  "MAX_NUM_DELETED_DEPLOYMENTS = 1000"

type_synonym checkpoint = "(string, target_checkpoint) dict \<times> (string, deployment_info) dict"

record ('w, 'k) deployment_manager =
  dsm_controller_name :: string
  dsm_detached :: bool
  dsm_states :: "(string, deployment_state) dict"
  dsm_deleted_metadata :: "(string, deployment_info) dict"
  dsm_controller :: "('w, 'k) controller"

type_synonym ('w, 'k, 'a) manager_prog = "(('w, 'k) deployment_manager, 'a) prog"

definition save_checkpoint ::
  "('k, 'b) kv_ops \<Rightarrow> (checkpoint, 'b) pickle \<Rightarrow> (string, deployment_state) dict \<Rightarrow> (string, deployment_info) dict
     \<Rightarrow> ('w, 'k) controller \<Rightarrow> ('w, 'k) controller" where
  "save_checkpoint kv pk states deleted s =
     s\<lparr>ctl_store := kv_put kv DEPLOYMENT_CHECKPOINT_KEY
         (dumps pk (map (\<lambda>(name, d). (name, get_checkpoint_data d)) states, deleted)) (ctl_store s)\<rparr>"

definition on_deployment ::
  "('k, 'b) kv_ops \<Rightarrow> (checkpoint, 'b) pickle \<Rightarrow> string \<Rightarrow> (('w, 'k) save_func \<Rightarrow> ('w, 'k, 'a) deployment_prog)
     \<Rightarrow> ('w, 'k, 'a) manager_prog" where
  "on_deployment kv pk name f m =
     (case map_of (dsm_states m) name of
        None \<Rightarrow> (Inl KeyError, m)
      | Some d \<Rightarrow>
          let save = (\<lambda>d' s. save_checkpoint kv pk (dset (dsm_states m) name d') (dsm_deleted_metadata m) s);
              (res, (d', s')) = f save (d, dsm_controller m)
          in (res, m\<lparr>dsm_states := dset (dsm_states m) name d', dsm_controller := s'\<rparr>))"

section \<open>Recovery\<close>

fun group_by_deployment ::
  "string list \<Rightarrow> (string, string list) dict \<Rightarrow> (string, string list) dict result" where
  "group_by_deployment [] acc = Inr acc"
| "group_by_deployment (replica_name # names) acc =
     bindE (replica_name_from_str replica_name) (\<lambda>rn.
     group_by_deployment names
       (dset acc (deployment_tag rn) (dget_or acc (deployment_tag rn) [] @ [replica_name])))"

definition map_actor_names_to_deployment :: "string list \<Rightarrow> (string, string list) dict result" where
  "map_actor_names_to_deployment all_current_actor_names =
     group_by_deployment (filter is_replica_name all_current_actor_names) []"

text \<open>Creating a deployment state reads the clock.\<close>

definition create_deployment_state ::
  "'w ray_ops \<Rightarrow> string \<Rightarrow> ('w, 'k, deployment_state) manager_prog" where
  "create_deployment_state ray name m =
     (let s = dsm_controller m; (t, w) = py_time ray (ctl_world s)
      in (Inr (init_deployment_state name (dsm_controller_name m) (dsm_detached m) t),
          m\<lparr>dsm_controller := s\<lparr>ctl_world := w\<rparr>\<rparr>))"

definition recover_deployment ::
  "'w ray_ops \<Rightarrow> (string, string list) dict \<Rightarrow> string \<times> target_checkpoint \<Rightarrow> ('w, 'k, unit) manager_prog" where
  "recover_deployment ray deployment_to_current_replicas = (\<lambda>(deployment_tag, checkpoint_data).
     bindS (create_deployment_state ray deployment_tag) (\<lambda>d m.
       let d1 = recover_target_state_from_checkpoint checkpoint_data d;
           names = dget_or deployment_to_current_replicas deployment_tag [];
           (res, (d2, s)) = (if length names > 0
              then recover_current_state_from_replica_actor_names ray names (d1, dsm_controller m)
              else (Inr (), (d1, dsm_controller m)))
       in case res of
            Inl e \<Rightarrow> (Inl e, m\<lparr>dsm_controller := s\<rparr>)
          | Inr u \<Rightarrow> (Inr (), m\<lparr>dsm_states := dset (dsm_states m) deployment_tag d2, dsm_controller := s\<rparr>)))"

definition recover_from_checkpoint ::
  "'w ray_ops \<Rightarrow> ('k, 'b) kv_ops \<Rightarrow> (checkpoint, 'b) pickle \<Rightarrow> string list \<Rightarrow> ('w, 'k, unit) manager_prog" where
  "recover_from_checkpoint ray kv pk all_current_actor_names m =
     (case map_actor_names_to_deployment all_current_actor_names of
        Inl e \<Rightarrow> (Inl e, m)
      | Inr deployment_to_current_replicas \<Rightarrow>
          (case kv_get kv DEPLOYMENT_CHECKPOINT_KEY (ctl_store (dsm_controller m)) of
             None \<Rightarrow> (Inr (), m)
           | Some saved \<Rightarrow>
               let (deployment_state_info, deleted) = loads pk saved
               in forS (recover_deployment ray deployment_to_current_replicas) deployment_state_info
                    (m\<lparr>dsm_deleted_metadata := deleted\<rparr>)))"

definition init_deployment_manager ::
  "'w ray_ops \<Rightarrow> ('k, 'b) kv_ops \<Rightarrow> (checkpoint, 'b) pickle \<Rightarrow> string \<Rightarrow> bool \<Rightarrow> string list
     \<Rightarrow> ('w, 'k) controller \<Rightarrow> unit result \<times> ('w, 'k) deployment_manager" where
  "init_deployment_manager ray kv pk controller_name detached all_current_actor_names s =
     recover_from_checkpoint ray kv pk all_current_actor_names
       \<lparr>dsm_controller_name = controller_name, dsm_detached = detached, dsm_states = [],
        dsm_deleted_metadata = [], dsm_controller = s\<rparr>"

section \<open>Operations\<close>

fun shutdown_all ::
  "'w ray_ops \<Rightarrow> ('k, 'b) kv_ops \<Rightarrow> (checkpoint, 'b) pickle \<Rightarrow> string list \<Rightarrow> ('w, 'k, goal_id list) manager_prog" where
  "shutdown_all ray kv pk [] = retS []"
| "shutdown_all ray kv pk (name # names) =
     bindS (on_deployment kv pk name (dep_delete ray)) (\<lambda>goal.
     bindS (shutdown_all ray kv pk names) (\<lambda>goals.
     retS (case goal of None \<Rightarrow> goals | Some g \<Rightarrow> g # goals)))"

definition dsm_shutdown ::
  "'w ray_ops \<Rightarrow> ('k, 'b) kv_ops \<Rightarrow> (checkpoint, 'b) pickle \<Rightarrow> ('w, 'k, goal_id list) manager_prog" where
  "dsm_shutdown ray kv pk m =
     bindS (shutdown_all ray kv pk (dkeys (dsm_states m))) (\<lambda>goals m'.
       (Inr goals, m'\<lparr>dsm_controller := (dsm_controller m')\<lparr>ctl_store :=
          kv_delete kv DEPLOYMENT_CHECKPOINT_KEY (ctl_store (dsm_controller m'))\<rparr>\<rparr>)) m"

fun running_infos_of ::
  "'w ray_ops \<Rightarrow> ('k, 'b) kv_ops \<Rightarrow> (checkpoint, 'b) pickle \<Rightarrow> string option \<Rightarrow> string list
     \<Rightarrow> ('w, 'k, (string, running_replica_info list) dict) manager_prog" where
  "running_infos_of ray kv pk filter_tag [] = retS []"
| "running_infos_of ray kv pk filter_tag (name # names) =
     (if filter_tag = None \<or> filter_tag = Some name then
        bindS (on_deployment kv pk name (\<lambda>_. get_running_replica_infos ray)) (\<lambda>infos.
        bindS (running_infos_of ray kv pk filter_tag names) (\<lambda>rest. retS ((name, infos) # rest)))
      else running_infos_of ray kv pk filter_tag names)"

definition dsm_get_running_replica_infos ::
  "'w ray_ops \<Rightarrow> ('k, 'b) kv_ops \<Rightarrow> (checkpoint, 'b) pickle \<Rightarrow> string option
     \<Rightarrow> ('w, 'k, (string, running_replica_info list) dict) manager_prog" where
  "dsm_get_running_replica_infos ray kv pk filter_tag m =
     running_infos_of ray kv pk filter_tag (dkeys (dsm_states m)) m"

fun add_configs ::
  "string option \<Rightarrow> (string, deployment_info option) dict \<Rightarrow> (string, deployment_config) dict
     \<Rightarrow> (string, deployment_config) dict result" where
  "add_configs filter_tag [] acc = Inr acc"
| "add_configs filter_tag ((name, info) # rest) acc =
     (if filter_tag = None \<or> filter_tag = Some name then
        (case info of
           None \<Rightarrow> Inl AttributeError
         | Some i \<Rightarrow> add_configs filter_tag rest (dset acc name (deployment_config i)))
      else add_configs filter_tag rest acc)"

definition get_deployment_configs ::
  "string option \<Rightarrow> bool \<Rightarrow> ('w, 'k) deployment_manager \<Rightarrow> (string, deployment_config) dict result" where
  "get_deployment_configs filter_tag include_deleted m =
     bindE (add_configs filter_tag (map (\<lambda>(name, d). (name, dep_target_info d)) (dsm_states m)) []) (\<lambda>configs.
     if include_deleted
     then add_configs filter_tag (map (\<lambda>(name, info). (name, Some info)) (dsm_deleted_metadata m)) configs
     else Inr configs)"

definition get_deployment ::
  "string \<Rightarrow> bool \<Rightarrow> ('w, 'k) deployment_manager \<Rightarrow> deployment_info option" where
  "get_deployment deployment_name include_deleted m =
     (case map_of (dsm_states m) deployment_name of
        Some d \<Rightarrow> dep_target_info d
      | None \<Rightarrow> if include_deleted then map_of (dsm_deleted_metadata m) deployment_name else None)"

definition dsm_deploy ::
  "'w ray_ops \<Rightarrow> ('k, 'b) kv_ops \<Rightarrow> (checkpoint, 'b) pickle \<Rightarrow> string \<Rightarrow> deployment_info
     \<Rightarrow> ('w, 'k, goal_id option \<times> bool) manager_prog" where
  "dsm_deploy ray kv pk deployment_name info =
     thenS (modifyS (\<lambda>m. m\<lparr>dsm_deleted_metadata := ddel (dsm_deleted_metadata m) deployment_name\<rparr>))
     (bindS getS (\<lambda>m.
      thenS
        (if \<not> dmem deployment_name (dsm_states m) then
           bindS (create_deployment_state ray deployment_name) (\<lambda>d.
           modifyS (\<lambda>m. m\<lparr>dsm_states := dset (dsm_states m) deployment_name d\<rparr>))
         else retS ())
        (on_deployment kv pk deployment_name (\<lambda>save. dep_deploy ray save info))))"

definition delete_deployment ::
  "'w ray_ops \<Rightarrow> ('k, 'b) kv_ops \<Rightarrow> (checkpoint, 'b) pickle \<Rightarrow> string \<Rightarrow> ('w, 'k, goal_id option) manager_prog" where
  "delete_deployment ray kv pk deployment_name m =
     (if \<not> dmem deployment_name (dsm_states m) then (Inr None, m)
      else on_deployment kv pk deployment_name (dep_delete ray) m)"

text \<open>\<open>int(time.time() * 1000)\<close>, and \<open>OrderedDict.popitem(last=False)\<close>.\<close>

definition remember_deleted ::
  "string \<Rightarrow> deployment_info \<Rightarrow> (string, deployment_info) dict \<Rightarrow> (string, deployment_info) dict" where
  "remember_deleted name info deleted =
     (let deleted' = (if length deleted > MAX_NUM_DELETED_DEPLOYMENTS then tl deleted else deleted)
      in dset deleted' name info)"

definition update_one ::
  "'w ray_ops \<Rightarrow> ('k, 'b) kv_ops \<Rightarrow> (checkpoint, 'b) pickle \<Rightarrow> string \<Rightarrow> ('w, 'k, bool) manager_prog" where
  "update_one ray kv pk name =
     bindS (on_deployment kv pk name (dep_update ray)) (\<lambda>deleted m.
       if \<not> deleted then (Inr False, m)
       else
         let s = dsm_controller m; (t, w) = py_time ray (ctl_world s);
             m1 = m\<lparr>dsm_controller := s\<lparr>ctl_world := w\<rparr>\<rparr>
         in case map_of (dsm_states m) name of
              None \<Rightarrow> (Inl KeyError, m1)
            | Some d \<Rightarrow>
                (case dep_target_info d of
                   None \<Rightarrow> (Inl AttributeError, m1)
                 | Some info \<Rightarrow>
                     let info = info\<lparr>end_time_ms := Some \<lfloor>t * 1000\<rfloor>\<rparr>
                     in (Inr True,
                         m1\<lparr>dsm_states := dset (dsm_states m) name (d\<lparr>dep_target_info := Some info\<rparr>),
                            dsm_deleted_metadata := remember_deleted name info (dsm_deleted_metadata m)\<rparr>)))"

fun update_all ::
  "'w ray_ops \<Rightarrow> ('k, 'b) kv_ops \<Rightarrow> (checkpoint, 'b) pickle \<Rightarrow> string list \<Rightarrow> ('w, 'k, string list) manager_prog" where
  "update_all ray kv pk [] = retS []"
| "update_all ray kv pk (name # names) =
     bindS (update_one ray kv pk name) (\<lambda>deleted.
     bindS (update_all ray kv pk names) (\<lambda>tags. retS (if deleted then name # tags else tags)))"

definition dsm_update ::
  "'w ray_ops \<Rightarrow> ('k, 'b) kv_ops \<Rightarrow> (checkpoint, 'b) pickle \<Rightarrow> ('w, 'k, unit) manager_prog" where
  "dsm_update ray kv pk m =
     bindS (update_all ray kv pk (dkeys (dsm_states m))) (\<lambda>deleted_tags.
       modifyS (\<lambda>m. m\<lparr>dsm_states := fold (\<lambda>tag d. ddel d tag) deleted_tags (dsm_states m)\<rparr>)) m"

end
