(* ===== verification/Deployment_Recovery.thy ===== *)
theory Deployment_Recovery
  imports Deployment_Guarantees Deployment_Manager
begin

text \<open>
  Crash recovery of the controller: what is saved is what is recovered, and what is not saved (the
  goal of a deletion) is lost. The frame rules of the first section show which parts of a
  deployment a program leaves alone, on every path, exceptions included.
\<close>

section \<open>Frame rules\<close>

text \<open>A program frames a component of the deployment if it never changes it.\<close>

definition frames :: "(deployment_state \<Rightarrow> 'x) \<Rightarrow> ('w, 'k, 'a) deployment_prog \<Rightarrow> bool" where
  "frames f m \<longleftrightarrow> (\<forall>t. f (fst (snd (m t))) = f (fst t))"

named_theorems frame_intros \<open>programs that do not change the goal of a deployment\<close>

lemma frames_ret [frame_intros]: "frames f (retS x)"
  by (simp add: frames_def retS_def)

lemma frames_raise [frame_intros]: "frames f (raiseS e)"
  by (simp add: frames_def raiseS_def)

lemma frames_bind [frame_intros]: "frames f m \<Longrightarrow> (\<And>x. frames f (g x)) \<Longrightarrow> frames f (bindS m g)"
  by (auto simp: frames_def bindS_def split: prod.split sum.split) (metis fst_conv snd_conv)+

lemma frames_then [frame_intros]: "frames f m \<Longrightarrow> frames f n \<Longrightarrow> frames f (thenS m n)"
  unfolding thenS_def by (rule frames_bind)

lemma frames_assert [frame_intros]: "frames f (assertS b)"
  by (simp add: assertS_def frames_ret frames_raise)

lemma frames_for [frame_intros]: "(\<And>x. frames f (g x)) \<Longrightarrow> frames f (forS g xs)"
  by (induction xs) (auto intro: frame_intros)

lemma frames_if [frame_intros]: "frames f m \<Longrightarrow> frames f n \<Longrightarrow> frames f (if b then m else n)"
  by simp

lemma frames_prod [frame_intros]: "(\<And>a b. frames f (g a b)) \<Longrightarrow> frames f (case p of (a, b) \<Rightarrow> g a b)"
  by (cases p) simp

lemma frames_option [frame_intros]: "frames f m \<Longrightarrow> (\<And>x. frames f (g x)) \<Longrightarrow> frames f (case q of None \<Rightarrow> m | Some x \<Rightarrow> g x)"
  by (cases q) simp_all

lemma frames_get [frame_intros]: "frames f dep_get"
  by (simp add: frames_def dep_get_def case_prod_unfold)

lemma frames_modify: "(\<And>d. f (g d) = f d) \<Longrightarrow> frames f (dep_modify g)"
  by (simp add: frames_def dep_modify_def case_prod_unfold)

lemma frames_world [frame_intros]: "frames f (world_action h)"
  by (simp add: frames_def world_action_def case_prod_unfold Let_def)

lemma frames_on_replica [frame_intros]: "frames f (on_replica m r)" "frames f (on_replica_pure h r)"
  by (auto simp: frames_def on_replica_def on_replica_pure_def case_prod_unfold Let_def split: sum.split)

lemma frames_count [frame_intros]: "frames f (replicas_count ev v sts)"
  by (auto simp: frames_def replicas_count_def split: sum.split)

lemma frames_goal_replicas [frame_intros]:
  "frames dep_curr_goal (replicas_add st r)" "frames dep_curr_goal (replicas_pop ev sts n)"
  by (simp_all add: frames_def replicas_add_def dep_modify_def replicas_pop_def case_prod_unfold Let_def)

lemma frames_goal_stop [frame_intros]: "frames dep_curr_goal (stop_and_keep ray b r)"
  unfolding stop_and_keep_def by (intro frame_intros)

lemma frames_update_or_stop [frame_intros]: "frames dep_curr_goal (update_or_stop_all ray v rs)"
proof (induction rs)
  case (Cons r rs)
  have "frames dep_curr_goal (update_or_stop_replica ray v r)"
    unfolding update_or_stop_replica_def by (intro frame_intros)
  then show ?case using Cons by (auto intro: frame_intros)
qed (simp add: frames_ret)

lemma frames_start [frame_intros]: "frames dep_curr_goal (start_replicas ray n)"
proof (induction n)
  case (Suc n)
  then show ?case unfolding start_replicas.simps Let_def by (intro frame_intros)
qed (simp add: frames_ret)

lemma frames_scale [frame_intros]: "frames dep_curr_goal (scale_deployment_replicas ray)"
  unfolding scale_deployment_replicas_def stop_wrong_version_replicas_def Let_def
  by (intro frame_intros)

lemma frames_running [frame_intros]: "frames dep_curr_goal (check_running_list ray rs)"
proof (induction rs)
  case (Cons r rs)
  then show ?case
    unfolding check_running_list.simps check_running_replica_def by (intro frame_intros)
qed (simp add: frames_ret)

lemma frames_startup [frame_intros]: "frames dep_curr_goal (check_startup_list ray st b rs)"
proof (induction rs)
  case (Cons r rs)
  then show ?case
    unfolding check_startup_list.simps check_startup_replica_def Let_def
    by (intro frame_intros frames_modify) simp_all
qed (simp add: frames_ret)

lemma frames_check [frame_intros]: "frames dep_curr_goal (check_and_update_replicas ray)"
  unfolding check_and_update_replicas_def check_startup_replicas_def check_stopping_replica_def
    warn_slow_replicas_def
  by (intro frame_intros frames_modify) simp_all

lemma frames_notify [frame_intros]: "frames dep_curr_goal (notify_running_replicas_changed ray)"
  by (simp add: frames_def notify_running_replicas_changed_def get_running_replica_infos_def bindS_def
      case_prod_unfold Let_def)

lemma frames_status [frame_intros]: "frames dep_curr_goal check_curr_goal_status"
  unfolding check_curr_goal_status_def Let_def by (intro frame_intros frames_modify) simp_all

text \<open>A program that cannot return a value, on states without a goal.\<close>

lemma frames_wp:
  assumes "frames dep_curr_goal m" and "dep_curr_goal (fst t) = None"
  shows "wp m (\<lambda>_ t. dep_curr_goal (fst t) = None) (\<lambda>_ t. dep_curr_goal (fst t) = None) t"
proof -
  obtain res t' where "m t = (res, t')" by (cases "m t") blast
  moreover from this have "dep_curr_goal (fst t') = None" 
    using assms(1) [unfolded frames_def, rule_format, of t] assms(2) by simp
  ultimately show ?thesis by (simp add: wp_def split: sum.split)
qed

lemma no_goal_status:
  "dep_curr_goal (fst t) = None \<Longrightarrow> check_curr_goal_status t = (Inr GOAL_NONE, t)"
  by (cases t) (simp add: check_curr_goal_status_def bindS_def dep_get_def retS_def)

lemma no_goal_update:
  assumes "dep_curr_goal (fst t) = None"
  shows "wp (dep_update ray save) (\<lambda>deleted t. \<not> deleted \<and> dep_curr_goal (fst t) = None)
    (\<lambda>_ t. dep_curr_goal (fst t) = None) t"
proof -
  let ?E = "\<lambda>_ t. dep_curr_goal (fst t) = None"
  let ?Q = "\<lambda>deleted t. \<not> deleted \<and> dep_curr_goal (fst t) = None"
  let ?rest = "bindS check_curr_goal_status (\<lambda>status. thenS (finish_goal ray save status)
    (retS (status = GOAL_SUCCESSFULLY_DELETED)))"
  have rest: "wp ?rest ?Q ?E t" if "dep_curr_goal (fst t) = None" for t
    using that no_goal_status [OF that]
    by (cases t) (simp add: wp_def bindS_def thenS_def finish_goal_def dep_get_def retS_def)
  have seq: "wp (bindS m g) ?Q ?E t"
    if "frames dep_curr_goal m" "dep_curr_goal (fst t) = None"
      "\<And>x t. dep_curr_goal (fst t) = None \<Longrightarrow> wp (g x) ?Q ?E t"
    for m :: "('a, 'b, 'c) deployment_prog" and g t
    unfolding wp_bindS by (rule wp_mono [OF frames_wp [OF that(1,2)]]) (use that(3) in auto)
  show ?thesis
    unfolding dep_update_def
  proof (rule seq [OF frames_scale assms], rule seq [OF frames_check], assumption)
    fix b c t assume t: "dep_curr_goal (fst (t :: deployment_state \<times> ('a, 'b) controller)) = None"
    show "wp (thenS (if b \<or> c then notify_running_replicas_changed ray else retS ()) ?rest) ?Q ?E t"
      unfolding thenS_def [of "if b \<or> c then _ else _"] by (rule seq [OF _ t rest]) (intro frame_intros)
  qed
qed

section \<open>Recovered deployments have no goal\<close>

definition no_goals :: "(string \<times> deployment_state) list \<Rightarrow> bool" where
  "no_goals states \<longleftrightarrow> (\<forall>(name, d) \<in> set states. dep_curr_goal d = None)"

lemma no_goals_dset: "no_goals states \<Longrightarrow> dep_curr_goal d = None \<Longrightarrow> no_goals (dset states name d)"
  using set_dset_subset [where d = states and k = name and v = d] by (auto simp: no_goals_def)

lemma update_one_no_goals:
  assumes "no_goals (dsm_states m)"
  shows "wp (update_one ray kv pk name)
    (\<lambda>deleted m'. \<not> deleted \<and> no_goals (dsm_states m') \<and> dkeys (dsm_states m') = dkeys (dsm_states m))
    (\<lambda>_ m'. no_goals (dsm_states m') \<and> dkeys (dsm_states m') = dkeys (dsm_states m)) m"
proof (cases "map_of (dsm_states m) name")
  case None
  then show ?thesis using assms by (simp add: update_one_def wp_def bindS_def on_deployment_def)
next
  case (Some d)
  then have "dep_curr_goal d = None" using assms map_of_SomeD by (fastforce simp: no_goals_def)
  let ?save = "\<lambda>d' s. save_checkpoint kv pk (dset (dsm_states m) name d') (dsm_deleted_metadata m) s"
  obtain res d' s' where u: "dep_update ray ?save (d, dsm_controller m) = (res, (d', s'))"
    by (cases "dep_update ray ?save (d, dsm_controller m)") auto
  have r: "dep_curr_goal d' = None \<and> (\<forall>b. res = Inr b \<longrightarrow> \<not> b)"
    using no_goal_update [of "(d, dsm_controller m)" ray ?save] \<open>dep_curr_goal d = None\<close> u
    by (cases res) (simp_all add: wp_def)
  have "name \<in> set (dkeys (dsm_states m))" using Some by (force dest: map_of_SomeD)
  then have "dkeys (dset (dsm_states m) name d') = dkeys (dsm_states m)" by (rule dset_same_keys)
  then show ?thesis
    using Some u r no_goals_dset [OF assms, where d = d' and name = name]
    by (cases res) (simp_all add: update_one_def wp_def bindS_def on_deployment_def Let_def)
qed

lemma update_all_no_goals:
  assumes "no_goals (dsm_states m)"
  shows "wp (update_all ray kv pk names)
    (\<lambda>deleted m'. deleted = [] \<and> no_goals (dsm_states m') \<and> dkeys (dsm_states m') = dkeys (dsm_states m))
    (\<lambda>_ m'. no_goals (dsm_states m') \<and> dkeys (dsm_states m') = dkeys (dsm_states m)) m"
  using assms
proof (induction names arbitrary: m)
  case (Cons name names)
  have rest: "wp (bindS (update_all ray kv pk names) (\<lambda>tags. retS (if b then name # tags else tags)))
      (\<lambda>deleted m'. deleted = [] \<and> no_goals (dsm_states m') \<and> dkeys (dsm_states m') = dkeys (dsm_states m))
      (\<lambda>_ m'. no_goals (dsm_states m') \<and> dkeys (dsm_states m') = dkeys (dsm_states m)) m1"
    if "\<not> b" "no_goals (dsm_states m1)" "dkeys (dsm_states m1) = dkeys (dsm_states m)" for b m1
    using Cons.IH [OF that(2)] that by (simp add: wp_bindS wp_retS)
  show ?case
    unfolding update_all.simps wp_bindS [of "update_one ray kv pk name"]
    by (rule wp_mono [OF update_one_no_goals [OF Cons.prems]]) (use rest in auto)
qed (simp add: wp_retS)

lemma dsm_update_no_goals:
  assumes "no_goals (dsm_states m)"
  shows "no_goals (dsm_states (snd (dsm_update ray kv pk m)))"
    and "dkeys (dsm_states (snd (dsm_update ray kv pk m))) = dkeys (dsm_states m)"
  using update_all_no_goals [OF assms, of ray kv pk "dkeys (dsm_states m)"]
  by (auto simp: dsm_update_def wp_def bindS_def split: prod.splits sum.splits)

text \<open>
  Rounds of the control loop. An exception of one round is logged by
  \<open>run_control_loop\<close> and the next round goes on from the state it left.
\<close>

fun control_rounds ::
  "'w ray_ops \<Rightarrow> ('k, 'b) kv_ops \<Rightarrow> (checkpoint, 'b) pickle \<Rightarrow> nat
     \<Rightarrow> ('w, 'k) deployment_manager \<Rightarrow> ('w, 'k) deployment_manager" where
  "control_rounds ray kv pk 0 m = m"
| "control_rounds ray kv pk (Suc n) m = control_rounds ray kv pk n (snd (dsm_update ray kv pk m))"

lemma control_rounds_no_goals:
  "no_goals (dsm_states m) \<Longrightarrow> dkeys (dsm_states (control_rounds ray kv pk n m)) = dkeys (dsm_states m)"
  by (induction n arbitrary: m) (simp_all add: dsm_update_no_goals)

lemma frames_recover [frame_intros]: "frames dep_curr_goal (recover_current_state_from_replica_actor_names ray names)"
proof -
  have "frames dep_curr_goal (recover_one_replica ray n)" for n
    unfolding recover_one_replica_def
    by (intro frame_intros; auto split: sum.split intro!: frame_intros)
  then show ?thesis unfolding recover_current_state_from_replica_actor_names_def by (intro frame_intros)
qed

abbreviation restored :: "string \<Rightarrow> target_checkpoint \<Rightarrow> ('w, 'k) deployment_manager \<Rightarrow> rat \<Rightarrow> deployment_state" where
  "restored name cp m t \<equiv>
     recover_target_state_from_checkpoint cp (init_deployment_state name (dsm_controller_name m) (dsm_detached m) t)"

lemma wp_recover_deployment:
  assumes "py_time ray (ctl_world (dsm_controller m)) = (t, w)"
    and "wp (if length (dget_or groups name []) > 0
          then recover_current_state_from_replica_actor_names ray (dget_or groups name []) else retS ())
        (\<lambda>_ (d, s). Q () (m\<lparr>dsm_states := dset (dsm_states m) name d, dsm_controller := s\<rparr>)) (\<lambda>_ _. E)
        (restored name cp m t, (dsm_controller m)\<lparr>ctl_world := w\<rparr>)"
  shows "wp (recover_deployment ray groups (name, cp)) Q (\<lambda>_ _. E) m"
  using assms
  by (cases m; cases "length (dget_or groups name []) > 0")
    (auto simp: recover_deployment_def create_deployment_state_def bindS_def wp_def retS_def
      split: prod.splits sum.splits)

lemma recover_deployment_no_goals:
  assumes "no_goals (dsm_states m)"
  shows "wp (recover_deployment ray groups p) (\<lambda>_ m'. no_goals (dsm_states m')) (\<lambda>_ m'. True) m"
proof -
  obtain name cp where p: "p = (name, cp)" by (cases p)
  obtain t w where t: "py_time ray (ctl_world (dsm_controller m)) = (t, w)" by fastforce
  have frame: "frames dep_curr_goal (if length (dget_or groups name []) > 0
      then recover_current_state_from_replica_actor_names ray (dget_or groups name []) else retS ())"
    by (intro frame_intros)
  show ?thesis
    unfolding p
    by (rule wp_recover_deployment [OF t], rule wp_mono [OF frames_wp [OF frame]])
      (use no_goals_dset [OF assms] in \<open>auto simp: recover_target_state_from_checkpoint_def
        init_deployment_state_def split: prod.splits\<close>)
qed

lemma recovered_no_goals:
  assumes "init_deployment_manager ray kv pk controller_name detached names s = (Inr (), m)"
  shows "no_goals (dsm_states m)"
proof -
  have loop: "wp (forS (recover_deployment ray groups) xs) (\<lambda>_ m'. no_goals (dsm_states m')) (\<lambda>_ _. True) m0"
    if "no_goals (dsm_states m0)" for groups xs m0
    by (rule wp_forS [where I = "\<lambda>_ m'. no_goals (dsm_states m')"])
      (use that recover_deployment_no_goals in auto)
  have nil: "no_goals []" by (simp add: no_goals_def)
  show ?thesis
  proof (cases "map_actor_names_to_deployment names")
    case (Inr groups)
    let ?m0 = "\<lambda>deleted. \<lparr>dsm_controller_name = controller_name, dsm_detached = detached,
      dsm_states = [], dsm_deleted_metadata = deleted, dsm_controller = s\<rparr>"
    show ?thesis
    proof (cases "kv_get kv DEPLOYMENT_CHECKPOINT_KEY (ctl_store s)")
      case None
      then show ?thesis
        using assms Inr nil by (auto simp: init_deployment_manager_def recover_from_checkpoint_def)
    next
      case (Some saved)
      obtain states deleted where l: "loads pk saved = (states, deleted)" by fastforce
      then have "forS (recover_deployment ray groups) states (?m0 deleted) = (Inr (), m)"
        using assms Inr Some by (simp add: init_deployment_manager_def recover_from_checkpoint_def)
      then show ?thesis using loop [of "?m0 deleted" groups states] nil by (simp add: wp_def)
    qed
  qed (use assms in \<open>simp add: init_deployment_manager_def recover_from_checkpoint_def\<close>)
qed

section \<open>Recovery restores what was saved\<close>

text \<open>The actor names that recovery attributes to a deployment.\<close>

definition belongs :: "string \<Rightarrow> string \<Rightarrow> bool" where
  "belongs name actor \<longleftrightarrow> is_replica_name actor
     \<and> (case replica_name_from_str actor of Inl _ \<Rightarrow> False | Inr rn \<Rightarrow> deployment_tag rn = name)"

definition parses :: "string \<Rightarrow> bool" where
  "parses actor \<longleftrightarrow> is_replica_name actor \<longrightarrow> (\<exists>rn. replica_name_from_str actor = Inr rn)"

definition actor_tag :: "string \<Rightarrow> string" where
  "actor_tag actor = (case replica_name_from_str actor of Inl _ \<Rightarrow> [] | Inr rn \<Rightarrow> replica_tag rn)"

lemma group_by_deployment_groups:
  assumes "\<forall>a \<in> set names. \<exists>rn. replica_name_from_str a = Inr rn" and "\<forall>a \<in> set names. is_replica_name a"
  shows "\<exists>g. group_by_deployment names acc = Inr g
    \<and> (\<forall>name. dget_or g name [] = dget_or acc name [] @ filter (belongs name) names)"
  using assms
proof (induction names arbitrary: acc)
  case (Cons a names)
  then obtain rn where rn: "replica_name_from_str a = Inr rn" by auto
  let ?acc = "dset acc (deployment_tag rn) (dget_or acc (deployment_tag rn) [] @ [a])"
  obtain g where "group_by_deployment names ?acc = Inr g"
    "\<forall>name. dget_or g name [] = dget_or ?acc name [] @ filter (belongs name) names"
    using Cons.IH [of ?acc] Cons.prems by auto
  moreover have "belongs name a \<longleftrightarrow> deployment_tag rn = name" for name
    using rn Cons.prems by (simp add: belongs_def)
  ultimately show ?case using rn by auto
qed simp

lemma map_actor_names_groups:
  assumes "\<forall>a \<in> set names. parses a"
  shows "\<exists>g. map_actor_names_to_deployment names = Inr g \<and> (\<forall>name. dget_or g name [] = filter (belongs name) names)"
proof -
  have "filter (belongs name) (filter is_replica_name names) = filter (belongs name) names" for name
    by (induction names) (auto simp: belongs_def)
  moreover have "\<forall>a \<in> set (filter is_replica_name names). \<exists>rn. replica_name_from_str a = Inr rn"
    using assms unfolding parses_def by simp
  from group_by_deployment_groups [OF this, of "[]"] obtain g
    where "group_by_deployment (filter is_replica_name names) [] = Inr g"
      "\<forall>name. dget_or g name [] = filter (belongs name) (filter is_replica_name names)"
    by auto
  ultimately show ?thesis unfolding map_actor_names_to_deployment_def by metis
qed

text \<open>
  The deployment recovered from the checkpoint of \<open>d\<close> with the given actors: the same target,
  no goal, and one RECOVERING replica per actor.
\<close>

definition recovered_from :: "deployment_state \<Rightarrow> string list \<Rightarrow> deployment_state \<Rightarrow> bool" where
  "recovered_from d actors d' \<longleftrightarrow>
     dep_target_info d' = dep_target_info d
     \<and> dep_target_replicas d' = dep_target_replicas d
     \<and> dep_target_version d' = dep_target_version d
     \<and> dep_curr_goal d' = None
     \<and> map rep_tag (dep_replicas d' RECOVERING) = map actor_tag actors
     \<and> (\<forall>st. st \<noteq> RECOVERING \<longrightarrow> dep_replicas d' st = [])"

definition finds_actors :: "'w ray_ops \<Rightarrow> bool" where
  "finds_actors ray \<longleftrightarrow> (\<forall>name ns w. ray_get_actor ray name ns w \<noteq> None)"

lemma wrapper_recover_returns:
  assumes "finds_actors ray"
  shows "returns (wrapper_recover ray) (\<lambda>_ _. True) (a, w)"
proof -
  have "aw_actor_handle (wrapper_actor_handle ray a w) \<noteq> None"
    using assms by (auto simp: wrapper_actor_handle_def finds_actors_def split: option.split)
  moreover have "aw_actor_handle (get_placement_group ray n b w) = aw_actor_handle b" for n b
    by (auto simp: get_placement_group_def Let_def split: option.split)
  ultimately show ?thesis
    by (auto simp: wrapper_recover_def wp_def Let_def split: option.split prod.split)
qed

lemma replica_recover_returns:
  assumes "finds_actors ray"
  shows "returns (replica_recover ray) (\<lambda>_ (r', w'). rep_tag r' = rep_tag r) (r, w)"
  using wrapper_recover_returns [OF assms, of "rep_actor r" w]
  by (auto simp: replica_recover_def thenS_def bindS_def wp_def on_actor_def split: prod.splits sum.splits)

lemma recover_one_returns:
  assumes "finds_actors ray" and "replica_name_from_str a = Inr rn"
  shows "returns (recover_one_replica ray a) (\<lambda>_ (d', s'). \<exists>r. rep_tag r = replica_tag rn
      \<and> d' = d\<lparr>dep_replicas := container_add RECOVERING r (dep_replicas d)\<rparr>) (d, s)"
proof -
  let ?r = "new_deployment_replica ray (dep_controller_name d) (dep_detached d) (replica_tag rn) (deployment_tag rn) None"
  have "rep_tag ?r = replica_tag rn" by (simp add: new_deployment_replica_def)
  then show ?thesis
    using replica_recover_returns [OF assms(1), of ?r "ctl_world s"] assms(2)
    by (auto simp: recover_one_replica_def bindS_def dep_get_def on_replica_def replicas_add_def dep_modify_def
        wp_def split: prod.splits sum.splits)
qed

definition with_recovering :: "deployment_state \<Rightarrow> string list \<Rightarrow> deployment_state \<Rightarrow> bool" where
  "with_recovering d actors d' \<longleftrightarrow> (\<exists>c. d' = d\<lparr>dep_replicas := c\<rparr>
     \<and> map rep_tag (c RECOVERING) = map rep_tag (dep_replicas d RECOVERING) @ map actor_tag actors
     \<and> (\<forall>st. st \<noteq> RECOVERING \<longrightarrow> c st = dep_replicas d st))"

lemma recover_all_returns:
  fixes s :: "('w, 'k) controller"
  assumes "finds_actors ray" and "\<forall>a \<in> set actors. \<exists>rn. replica_name_from_str a = Inr rn"
  shows "returns (forS (recover_one_replica ray) actors) (\<lambda>_ (d', s'). with_recovering d actors d') (d, s)"
proof (rule wp_forS [where I = "\<lambda>done (d', s'). with_recovering d done d'"])
  fix ys a zs and t :: "deployment_state \<times> ('w, 'k) controller"
  assume xs: "actors = ys @ a # zs" and I: "case t of (d', s') \<Rightarrow> with_recovering d ys d'"
  obtain d1 s1 where t: "t = (d1, s1)" by (cases t)
  obtain rn where rn: "replica_name_from_str a = Inr rn" using assms(2) xs by auto
  have "with_recovering d (ys @ [a]) (d1\<lparr>dep_replicas := container_add RECOVERING r (dep_replicas d1)\<rparr>)"
    if "rep_tag r = replica_tag rn" for r
    using I that rn by (auto simp: t with_recovering_def container_add_def actor_tag_def)
  then show "wp (recover_one_replica ray a) (\<lambda>_. (\<lambda>(d', s'). with_recovering d (ys @ [a]) d')) (\<lambda>_ _. False) t"
    unfolding t by (intro wp_mono [OF recover_one_returns [OF assms(1) rn]]) auto
qed (auto simp: with_recovering_def intro: exI [of _ "dep_replicas d"])

definition target_set :: "deployment_state \<Rightarrow> bool" where
  "target_set d \<longleftrightarrow> dep_target_info d \<noteq> None \<and> dep_target_replicas d \<noteq> - 1 \<and> dep_target_version d \<noteq> None"

lemma belongs_parses: "a \<in> set (filter (belongs name) names) \<Longrightarrow> \<exists>rn. replica_name_from_str a = Inr rn"
  by (auto simp: belongs_def split: sum.splits)

lemma recover_deployment_returns:
  assumes "finds_actors ray" and "target_set d" and "dget_or g name [] = filter (belongs name) names"
  shows "returns (recover_deployment ray g (name, get_checkpoint_data d))
    (\<lambda>_ m'. \<exists>d' s. m' = m\<lparr>dsm_states := dset (dsm_states m) name d', dsm_controller := s\<rparr>
       \<and> recovered_from d (filter (belongs name) names) d') m"
proof -
  let ?actors = "filter (belongs name) names"
  obtain t w where t: "py_time ray (ctl_world (dsm_controller m)) = (t, w)" by fastforce
  let ?d = "restored name (get_checkpoint_data d) m t"
  have d: "target_set ?d" "recovered_from d [] ?d"
    using assms(2) by (auto simp: recovered_from_def target_set_def get_checkpoint_data_def init_container_def
        get_target_state_checkpoint_data_def recover_target_state_from_checkpoint_def init_deployment_state_def)
  have rec: "recovered_from d ?actors d'" if "with_recovering ?d ?actors d'" for d'
    using that d(2) unfolding with_recovering_def recovered_from_def by auto
  have self: "?actors = [] \<Longrightarrow> recovered_from d ?actors ?d" using d(2) by simp
  have "returns (recover_current_state_from_replica_actor_names ray ?actors)
      (\<lambda>_ (d', s'). with_recovering ?d ?actors d') (?d, s)" for s :: "('a, 'b) controller"
    using d(1) recover_all_returns [OF assms(1), of ?actors ?d s] belongs_parses
    unfolding recover_current_state_from_replica_actor_names_def target_set_def
    by (simp add: wp_bindS wp_thenS wp_dep_get wp_assertS)
  then have "returns (recover_current_state_from_replica_actor_names ray ?actors)
      (\<lambda>_ (d', s'). recovered_from d ?actors d') (?d, s)" for s :: "('a, 'b) controller"
    by (rule wp_mono) (auto dest: rec)
  then have "returns (if length ?actors > 0 then recover_current_state_from_replica_actor_names ray ?actors else retS ())
      (\<lambda>_ (d', s'). recovered_from d ?actors d') (?d, s)" for s :: "('a, 'b) controller"
    using self by (cases "length ?actors > 0") (simp_all add: wp_retS)
  note rest = this
  show ?thesis
    by (rule wp_recover_deployment [OF t], unfold assms(3), rule wp_mono [OF rest]) auto
qed

definition restored_states :: "string list \<Rightarrow> (string, deployment_state) dict \<Rightarrow> (string, deployment_state) dict \<Rightarrow> bool" where
  "restored_states names = list_all2 (\<lambda>(n, d) (n', d'). n' = n \<and> recovered_from d (filter (belongs n) names) d')"

lemma recover_states_return:
  assumes "finds_actors ray" and "\<And>name. dget_or g name [] = filter (belongs name) names"
    and "\<forall>(n, d) \<in> set states. target_set d" and "distinct (dkeys (dsm_states m) @ dkeys states)"
  shows "\<exists>m' rest. forS (recover_deployment ray g) (map (\<lambda>(n, d). (n, get_checkpoint_data d)) states) m = (Inr (), m')
    \<and> dsm_states m' = dsm_states m @ rest \<and> restored_states names states rest
    \<and> dsm_deleted_metadata m' = dsm_deleted_metadata m"
  using assms(3,4)
proof (induction states arbitrary: m)
  case Nil
  then show ?case by (simp add: retS_def restored_states_def)
next
  case (Cons p states)
  obtain n d where p: "p = (n, d)" by (cases p)
  have "target_set d" using Cons.prems(1) p by auto
  from recover_deployment_returns [OF assms(1) this assms(2), of n m] obtain d' s where
    step: "recover_deployment ray g (n, get_checkpoint_data d) m
      = (Inr (), m\<lparr>dsm_states := dset (dsm_states m) n d', dsm_controller := s\<rparr>)"
    and d': "recovered_from d (filter (belongs n) names) d'"
    by (auto simp: returns_iff)
  let ?m = "m\<lparr>dsm_states := dsm_states m @ [(n, d')], dsm_controller := s\<rparr>"
  have fresh: "dset (dsm_states m) n d' = dsm_states m @ [(n, d')]"
    by (rule dset_fresh) (use Cons.prems(2) p in auto)
  obtain m' rest where "forS (recover_deployment ray g) (map (\<lambda>(n, d). (n, get_checkpoint_data d)) states) ?m = (Inr (), m')"
    "dsm_states m' = dsm_states ?m @ rest" "restored_states names states rest"
    "dsm_deleted_metadata m' = dsm_deleted_metadata ?m"
    using Cons.IH [of ?m] Cons.prems p by auto
  then show ?case
    using step d' by (simp add: p fresh thenS_def bindS_def restored_states_def)
qed


definition ex_id_pickle :: "('a, 'a) pickle" where
  "ex_id_pickle = \<lparr>dumps = (\<lambda>x. x), loads = (\<lambda>x. x)\<rparr>"

definition ex_ctl0 :: "(nat, checkpoint local_kv_store) controller" where
  "ex_ctl0 = \<lparr>ctl_goals = init_goal_manager, ctl_host = init_long_poll_host,
     ctl_store = \<lparr>ls_namespace = ''serve'', ls_rows = []\<rparr>, ctl_world = 0\<rparr>"


section \<open>Deletions and recovery\<close>

text \<open>
  C35: a deletion does not survive a crash. The goal of a deployment is not part of the
  checkpoint, and \<open>_check_curr_goal_status\<close> reports nothing for a deployment without a goal.
  So whatever a controller recovers, no number of rounds of its control loop removes any of
  the recovered deployments, those with target zero included, whatever Ray does. (In the witness a deployment
  is deleted to the end: the controller forgets it, but the checkpoint does not, because
  \<open>update\<close> does not save one; the next controller recovers it and keeps it for ever.)
\<close>

theorem recovered_deletion_never_finishes:
  assumes "init_deployment_manager ray kv pk controller_name detached names s = (Inr (), m)"
  shows "dkeys (dsm_states (control_rounds ray kv pk n m)) = dkeys (dsm_states m)"
  by (rule control_rounds_no_goals [OF recovered_no_goals [OF assms]])

text \<open>The deployment without replicas whose deletion has been requested, and saved.\<close>

definition ex_deleting :: "(nat, checkpoint local_kv_store) deployment_manager" where
  "ex_deleting = snd (delete_deployment (ex_ray True) local_kv ex_id_pickle ''dep''
     \<lparr>dsm_controller_name = ''ctl'', dsm_detached = False, dsm_states = [(''dep'', ex_dep 2 init_container)],
      dsm_deleted_metadata = [], dsm_controller = ex_ctl0\<rparr>)"

definition ex_deleted :: "(nat, checkpoint local_kv_store) deployment_manager" where
  "ex_deleted = snd (dsm_update (ex_ray True) local_kv ex_id_pickle ex_deleting)"

definition ex_restarted :: "unit result \<times> (nat, checkpoint local_kv_store) deployment_manager" where
  "ex_restarted = init_deployment_manager (ex_ray True) local_kv ex_id_pickle ''ctl'' False [] (dsm_controller ex_deleted)"

theorem recovered_deletion_never_finishes_witness:
  "dsm_states ex_deleted = []
   \<and> dkeys (dsm_states (snd ex_restarted)) = [''dep'']
   \<and> map (dep_target_replicas \<circ> snd) (dsm_states (snd ex_restarted)) = [0]
   \<and> (\<forall>n. dkeys (dsm_states (control_rounds (ex_ray True) local_kv ex_id_pickle n (snd ex_restarted))) = [''dep''])"
proof -
  have e: "dkeys (dsm_states ex_deleted) = []" "dkeys (dsm_states (snd ex_restarted)) = [''dep'']"
    "map (dep_target_replicas \<circ> snd) (dsm_states (snd ex_restarted)) = [0]" "fst ex_restarted = Inr ()"
    by code_simp+
  have "init_deployment_manager (ex_ray True) local_kv ex_id_pickle ''ctl'' False [] (dsm_controller ex_deleted)
      = (Inr (), snd ex_restarted)"
    using e(4) unfolding ex_restarted_def [symmetric] by (metis prod.collapse)
  from recovered_deletion_never_finishes [OF this] show ?thesis using e by simp
qed

section \<open>Metadata of deleted deployments\<close>

definition few_deleted :: "('w, 'k) deployment_manager \<Rightarrow> bool" where
  "few_deleted m \<longleftrightarrow> length (dsm_deleted_metadata m) \<le> MAX_NUM_DELETED_DEPLOYMENTS + 1"

lemma remember_deleted_few:
  "length deleted \<le> MAX_NUM_DELETED_DEPLOYMENTS + 1
    \<Longrightarrow> length (remember_deleted name info deleted) \<le> MAX_NUM_DELETED_DEPLOYMENTS + 1"
  using length_dset [of name info "tl deleted"] length_dset [of name info deleted]
  by (cases "MAX_NUM_DELETED_DEPLOYMENTS < length deleted") (simp_all add: remember_deleted_def)

lemma update_one_few:
  assumes "few_deleted m"
  shows "wp (update_one ray kv pk name) (\<lambda>_. few_deleted) (\<lambda>_. few_deleted) m"
proof -
  have "wp (on_deployment kv pk name (dep_update ray)) (\<lambda>_. few_deleted) (\<lambda>_. few_deleted) m"
    using assms by (auto simp: on_deployment_def few_deleted_def wp_def Let_def split: option.splits prod.splits sum.splits)
  then show ?thesis
    unfolding update_one_def wp_bindS
    by (rule wp_mono) (auto simp: wp_def few_deleted_def Let_def
          intro: remember_deleted_few [simplified]
        split: option.splits prod.splits sum.splits if_splits)
qed

lemma update_all_few:
  "few_deleted m \<Longrightarrow> wp (update_all ray kv pk names) (\<lambda>_. few_deleted) (\<lambda>_. few_deleted) m"
proof (induction names arbitrary: m)
  case (Cons name names)
  show ?case
    unfolding update_all.simps wp_bindS wp_retS
    by (rule wp_mono [OF update_one_few [OF Cons.prems]]) (use Cons.IH in auto)
qed (simp add: wp_retS)

text \<open>
  The metadata of deleted deployments is bounded by one more than
  \<open>MAX_NUM_DELETED_DEPLOYMENTS\<close>: no round of the control loop exceeds that bound,
  exceptions included, and remembering a new deployment when exactly
  \<open>MAX_NUM_DELETED_DEPLOYMENTS\<close> are stored evicts none.
\<close>

theorem deleted_metadata_bound:
  assumes "length (dsm_deleted_metadata m) \<le> MAX_NUM_DELETED_DEPLOYMENTS + 1"
    and "length deleted = MAX_NUM_DELETED_DEPLOYMENTS" and "name \<notin> set (dkeys deleted)"
  shows "length (dsm_deleted_metadata (snd (dsm_update ray kv pk m))) \<le> MAX_NUM_DELETED_DEPLOYMENTS + 1
     \<and> length (remember_deleted name info deleted) = MAX_NUM_DELETED_DEPLOYMENTS + 1"
proof -
  have "few_deleted m" using assms(1) by (simp add: few_deleted_def)
  from update_all_few [OF this, of ray kv pk "dkeys (dsm_states m)"]
  have "few_deleted (snd (dsm_update ray kv pk m))"
    by (auto simp: dsm_update_def wp_def bindS_def few_deleted_def split: prod.splits sum.splits)
  then show ?thesis
    using assms(2,3) by (simp add: few_deleted_def remember_deleted_def dset_fresh)
qed

theorem deleted_metadata_bound_witness:
  "length (dsm_deleted_metadata (snd (dsm_update (ex_ray True) local_kv ex_id_pickle ex_deleting))) \<le> 1001
   \<and> length (remember_deleted [] (ex_info 1 '''') (map (\<lambda>n. (replicate (Suc n) CHR ''a'', ex_info 1 '''')) [0..<1000])) = 1001"
proof -
  have "length (dsm_deleted_metadata ex_deleting) = 0" by code_simp
  then show ?thesis
    using deleted_metadata_bound [of ex_deleting "map (\<lambda>n. (replicate (Suc n) CHR ''a'', ex_info 1 '''')) [0..<1000]"
        "[]" "ex_ray True" local_kv ex_id_pickle "ex_info 1 ''''"]
    by (simp add: MAX_NUM_DELETED_DEPLOYMENTS_def image_image del: replicate_Suc upt_Suc) (simp add: image_iff)
qed

end
