(* ===== verification/Serve_Router.thy ===== *)
theory Serve_Router
  imports Replica_Actor
begin

text \<open>
  \<open>serve/router.py\<close>: \<open>ReplicaSet\<close>, which sends queries round robin to the running
  replicas of a deployment and never more than \<open>max_concurrent_queries\<close> of them at a time to
  one replica. \<open>itertools.cycle\<close> is the list of replicas rotated by one at every
  \<open>next\<close>; a set of object references is a list without duplicates.

  \<open>assign_replica\<close> suspends when all replicas are busy. \<open>assign_replica\<close> of the
  model is what runs up to the suspension or the return, \<open>assign_resume\<close> what runs when it
  is woken up. The calls to the replica actors, \<open>ray.wait\<close> and \<open>random.shuffle\<close>
  act on a world through \<open>router_ops\<close>. Metrics are not modelled.
\<close>

record request_metadata =
  request_id :: string
  endpoint :: string
  call_method :: string
  shard_key :: "string option"
  http_method :: string
  http_headers :: "(string, string option) dict"
  http_arg_is_pickled :: bool

definition setdefault :: "('k, 'v) dict \<Rightarrow> 'k \<Rightarrow> 'v \<Rightarrow> ('k, 'v) dict" where
  "setdefault d k v = (if k \<in> set (dkeys d) then d else dset d k v)"

text \<open>The constructor: \<open>__post_init__\<close> completes the headers.\<close>

definition new_request_metadata ::
  "string \<Rightarrow> string \<Rightarrow> string \<Rightarrow> string option \<Rightarrow> string \<Rightarrow> (string, string option) dict \<Rightarrow> bool \<Rightarrow> request_metadata" where
  "new_request_metadata id_arg ep meth key http headers pickled =
     \<lparr>request_id = id_arg, endpoint = ep, call_method = meth, shard_key = key, http_method = http,
      http_headers = setdefault (setdefault headers ''X-Serve-Call-Method'' (Some meth)) ''X-Serve-Shard-Key'' key,
      http_arg_is_pickled = pickled\<rparr>"

record query =
  query_args :: "py_value list"
  query_kwargs :: "(string, py_value) dict"
  query_metadata :: request_metadata

text \<open>\<open>rt_finished\<close>: whether \<open>ray.wait\<close> with timeout 0 reports a task as done.\<close>

record 'w router_ops =
  rt_handle_request :: "actor_handle \<Rightarrow> query \<Rightarrow> 'w \<Rightarrow> (object_ref \<times> object_ref) \<times> 'w"
  rt_finished :: "object_ref \<Rightarrow> 'w \<Rightarrow> bool"
  rt_shuffle :: "running_replica_info list \<Rightarrow> 'w \<Rightarrow> running_replica_info list \<times> 'w"

record replica_set =
  rs_in_flight_queries :: "(running_replica_info, object_ref list) dict"
  rs_replica_iterator :: "running_replica_info list"
  rs_config_updated :: bool
  rs_num_queued_queries :: int

definition init_replica_set :: replica_set where
  "init_replica_set = \<lparr>rs_in_flight_queries = [], rs_replica_iterator = [], rs_config_updated = False,
     rs_num_queued_queries = 0\<rparr>"

type_synonym ('w, 'a) router_prog = "(replica_set \<times> 'w, 'a) prog"

definition compute_iterable_delta :: "'a list \<Rightarrow> 'a list \<Rightarrow> 'a list \<times> 'a list \<times> 'a list" where
  "compute_iterable_delta old new =
     (filter (\<lambda>x. x \<notin> set old) (remdups new), filter (\<lambda>x. x \<notin> set new) (remdups old),
      filter (\<lambda>x. x \<in> set new) (remdups old))"

definition update_running_replicas ::
  "'w router_ops \<Rightarrow> running_replica_info list \<Rightarrow> replica_set \<times> 'w \<Rightarrow> replica_set \<times> 'w" where
  "update_running_replicas ops running_replicas = (\<lambda>(s, w).
     let (added, removed, _) = compute_iterable_delta (dkeys (rs_in_flight_queries s)) running_replicas;
         in_flight = fold (\<lambda>r d. dset d r []) added (rs_in_flight_queries s);
         in_flight = fold (\<lambda>r d. ddel d r) removed in_flight;
         s1 = s\<lparr>rs_in_flight_queries := in_flight\<rparr>
     in if added \<noteq> [] \<or> removed \<noteq> [] then
          let (replicas, w1) = rt_shuffle ops (dkeys in_flight) w
          in (s1\<lparr>rs_replica_iterator := replicas, rs_config_updated := True\<rparr>, w1)
        else (s1, w))"

text \<open>\<open>next\<close> on the cycle: it raises StopIteration only if the cycle is empty.\<close>

definition next_replica :: "('w, running_replica_info) router_prog" where
  "next_replica = (\<lambda>(s, w).
     case rs_replica_iterator s of
       [] \<Rightarrow> (Inl StopIteration, (s, w))
     | r # rs \<Rightarrow> (Inr r, (s\<lparr>rs_replica_iterator := rs @ [r]\<rparr>, w)))"

definition in_flight_of :: "running_replica_info \<Rightarrow> ('w, object_ref list) router_prog" where
  "in_flight_of r = (\<lambda>(s, w). (dindex (rs_in_flight_queries s) r, (s, w)))"

text \<open>The handle of a replica is \<open>None\<close> if its actor was not found; calling it raises.\<close>

definition send_query :: "'w router_ops \<Rightarrow> query \<Rightarrow> running_replica_info \<Rightarrow> ('w, object_ref) router_prog" where
  "send_query ops q r = (\<lambda>(s, w).
     case rri_actor_handle r of
       None \<Rightarrow> (Inl AttributeError, (s, w))
     | Some h \<Rightarrow>
         let ((tracker_ref, user_ref), w1) = rt_handle_request ops h q w
         in case map_of (rs_in_flight_queries s) r of
              None \<Rightarrow> (Inl KeyError, (s, w1))
            | Some refs \<Rightarrow>
                (Inr user_ref,
                 (s\<lparr>rs_in_flight_queries := dset (rs_in_flight_queries s) r (List.insert tracker_ref refs)\<rparr>, w1)))"

fun try_assign_loop :: "'w router_ops \<Rightarrow> query \<Rightarrow> nat \<Rightarrow> ('w, object_ref option) router_prog" where
  "try_assign_loop ops q 0 = retS None"
| "try_assign_loop ops q (Suc n) =
     bindS next_replica (\<lambda>r.
     bindS (in_flight_of r) (\<lambda>refs.
     case rri_max_concurrent_queries r of
       None \<Rightarrow> raiseS TypeError
     | Some limit \<Rightarrow>
         if int (length refs) \<ge> limit then try_assign_loop ops q n
         else bindS (send_query ops q r) (\<lambda>user_ref. retS (Some user_ref))))"

definition try_assign_replica :: "'w router_ops \<Rightarrow> query \<Rightarrow> ('w, object_ref option) router_prog" where
  "try_assign_replica ops q =
     bindS getS (\<lambda>(s, w). try_assign_loop ops q (length (dkeys (rs_in_flight_queries s))))"

definition all_query_refs :: "replica_set \<Rightarrow> object_ref list" where
  "all_query_refs s = concat (dvalues (rs_in_flight_queries s))"

text \<open>\<open>ray.wait\<close> returns at once on an empty list and rejects a list with duplicates.\<close>

definition drain_completed_object_refs :: "'w router_ops \<Rightarrow> ('w, nat) router_prog" where
  "drain_completed_object_refs ops = (\<lambda>(s, w).
     let refs = all_query_refs s in
     if \<not> distinct refs then (Inl ValueError, (s, w))
     else
       let done = filter (\<lambda>ref. rt_finished ops ref w) refs
       in (Inr (length done),
           (s\<lparr>rs_in_flight_queries := map (\<lambda>(r, qs). (r, filter (\<lambda>x. x \<notin> set done) qs)) (rs_in_flight_queries s)\<rparr>, w)))"

lemma try_loop_None:
  assumes "try_assign_loop ops q n (s, w) = (Inr None, (s1, w1))"
  shows "rs_in_flight_queries s1 = rs_in_flight_queries s" and "w1 = w"
proof -
  have "rs_in_flight_queries s1 = rs_in_flight_queries s \<and> w1 = w"
    using assms
  proof (induction n arbitrary: s)
    case 0
    then show ?case by (simp add: retS_def)
  next
    case (Suc n)
    obtain r rs where it: "rs_replica_iterator s = r # rs"
      using Suc.prems by (cases "rs_replica_iterator s") (auto simp: bindS_def next_replica_def)
    let ?s = "s\<lparr>rs_replica_iterator := rs @ [r]\<rparr>"
    obtain refs limit where "dindex (rs_in_flight_queries s) r = Inr refs"
      "rri_max_concurrent_queries r = Some limit"
      using Suc.prems it
      by (cases "dindex (rs_in_flight_queries s) r"; cases "rri_max_concurrent_queries r")
        (auto simp: bindS_def next_replica_def in_flight_of_def raiseS_def)
    moreover from this have "try_assign_loop ops q n (?s, w) = (Inr None, (s1, w1))"
      using Suc.prems it
      by (auto simp: bindS_def next_replica_def in_flight_of_def retS_def split: if_splits prod.splits sum.splits)
    ultimately show ?case using Suc.IH [of ?s] by simp
  qed
  then show "rs_in_flight_queries s1 = rs_in_flight_queries s" "w1 = w" by simp_all
qed

lemma try_None:
  "try_assign_replica ops q (s, w) = (Inr None, (s1, w1)) \<Longrightarrow> rs_in_flight_queries s1 = rs_in_flight_queries s"
  by (auto simp: try_assign_replica_def bindS_def dest: try_loop_None)

lemma concat_filter_values:
  "concat (map (snd \<circ> (\<lambda>(r, qs). (r, filter P qs))) d) = filter P (concat (dvalues d))"
  by (induction d) auto

lemma drain_smaller:
  assumes "drain_completed_object_refs ops (s, w) = (Inr n, (s1, w1))" and "n \<noteq> 0"
  shows "length (all_query_refs s1) < length (all_query_refs s)"
proof -
  let ?done = "filter (\<lambda>ref. rt_finished ops ref w) (all_query_refs s)"
  have s1: "all_query_refs s1 = filter (\<lambda>x. x \<notin> set ?done) (all_query_refs s)" and n: "n = length ?done"
    using assms(1)
    by (auto simp: drain_completed_object_refs_def Let_def all_query_refs_def concat_filter_values split: if_splits)
  have "?done \<noteq> []" using n assms(2) by auto
  then obtain x where "x \<in> set ?done" by (cases ?done) auto
  then show ?thesis unfolding s1 by (intro length_filter_less [of x]) auto
qed

lemma round_smaller:
  assumes "(Inr None, t1) = try_assign_replica ops q t" and "(Inr n, t2) = drain_completed_object_refs ops t1"
    and "0 < n"
  shows "length (all_query_refs (fst t2)) < length (all_query_refs (fst t))"
proof -
  obtain s w s1 w1 s2 w2 where t: "t = (s, w)" "t1 = (s1, w1)" "t2 = (s2, w2)" by (metis surj_pair)
  have "rs_in_flight_queries s1 = rs_in_flight_queries s" using try_None assms(1) t by metis
  moreover have "length (all_query_refs s2) < length (all_query_refs s1)"
    using drain_smaller [of ops s1 w1 n s2 w2] assms(2,3) t by simp
  ultimately show ?thesis by (simp add: t all_query_refs_def)
qed

text \<open>
  The loop of \<open>assign_replica\<close> up to its next suspension, which is the result \<open>None\<close>.
  Every round without a suspension removes finished queries.
\<close>

function assign_loop :: "'w router_ops \<Rightarrow> query \<Rightarrow> replica_set \<times> 'w \<Rightarrow> object_ref option result \<times> (replica_set \<times> 'w)" where
  "assign_loop ops q t =
     (case try_assign_replica ops q t of
        (Inl e, t1) \<Rightarrow> (Inl e, t1)
      | (Inr (Some user_ref), (s1, w1)) \<Rightarrow>
          (Inr (Some user_ref), (s1\<lparr>rs_num_queued_queries := rs_num_queued_queries s1 - 1\<rparr>, w1))
      | (Inr None, t1) \<Rightarrow>
          (case drain_completed_object_refs ops t1 of
             (Inl e, t2) \<Rightarrow> (Inl e, t2)
           | (Inr num_finished, t2) \<Rightarrow>
               if num_finished = 0 then (Inr None, t2) else assign_loop ops q t2))"
  by pat_completeness auto
termination
  by (relation "measure (\<lambda>(ops, q, t). length (all_query_refs (fst t)))") (auto intro: round_smaller)

declare assign_loop.simps [simp del]

definition assign_replica :: "'w router_ops \<Rightarrow> query \<Rightarrow> replica_set \<times> 'w \<Rightarrow> object_ref option result \<times> (replica_set \<times> 'w)" where
  "assign_replica ops q = (\<lambda>(s, w).
     assign_loop ops q (s\<lparr>rs_num_queued_queries := rs_num_queued_queries s + 1\<rparr>, w))"

definition assign_resume :: "'w router_ops \<Rightarrow> query \<Rightarrow> replica_set \<times> 'w \<Rightarrow> object_ref option result \<times> (replica_set \<times> 'w)" where
  "assign_resume ops q = (\<lambda>(s, w). assign_loop ops q (s\<lparr>rs_config_updated := False\<rparr>, w))"

section \<open>One attempt\<close>

definition router_env :: "'w router_ops \<Rightarrow> ('w \<Rightarrow> object_ref set) \<Rightarrow> bool" where
  "router_env ops issued \<longleftrightarrow>
     (\<forall>h q w. case rt_handle_request ops h q w of ((tracker_ref, user_ref), w') \<Rightarrow>
        tracker_ref \<notin> issued w \<and> insert tracker_ref (issued w) \<subseteq> issued w')
     \<and> (\<forall>xs w. case rt_shuffle ops xs w of (ys, w') \<Rightarrow> mset ys = mset xs \<and> issued w \<subseteq> issued w')"

text \<open>A replica the controller announced: it has an actor and a limit.\<close>

definition callable :: "running_replica_info \<Rightarrow> bool" where
  "callable r \<longleftrightarrow> rri_actor_handle r \<noteq> None \<and> (\<exists>m. rri_max_concurrent_queries r = Some m \<and> 0 \<le> m)"

definition limit_of :: "running_replica_info \<Rightarrow> int" where
  "limit_of r = the (rri_max_concurrent_queries r)"

abbreviation in_flight :: "replica_set \<Rightarrow> running_replica_info \<Rightarrow> object_ref list" where
  "in_flight s r \<equiv> dget_or (rs_in_flight_queries s) r []"

definition busy :: "replica_set \<Rightarrow> running_replica_info \<Rightarrow> bool" where
  "busy s r \<longleftrightarrow> limit_of r \<le> int (length (in_flight s r))"

definition rs_ok :: "replica_set \<Rightarrow> bool" where
  "rs_ok s \<longleftrightarrow> wf_dict (rs_in_flight_queries s) \<and> distinct (rs_replica_iterator s)
     \<and> set (rs_replica_iterator s) = set (dkeys (rs_in_flight_queries s))
     \<and> distinct (all_query_refs s)
     \<and> (\<forall>r \<in> set (dkeys (rs_in_flight_queries s)). callable r \<and> int (length (in_flight s r)) \<le> limit_of r)"

lemma rs_okD:
  assumes "rs_ok s"
  shows "length (rs_replica_iterator s) = length (rs_in_flight_queries s)"
    and "r \<in> set (rs_replica_iterator s) \<Longrightarrow> \<exists>h. rri_actor_handle r = Some h"
    and "r \<in> set (rs_replica_iterator s) \<Longrightarrow> rri_max_concurrent_queries r = Some (limit_of r)"
    and "r \<in> set (rs_replica_iterator s) \<Longrightarrow> map_of (rs_in_flight_queries s) r = Some (in_flight s r)"
proof -
  have it: "distinct (rs_replica_iterator s)" "distinct (dkeys (rs_in_flight_queries s))"
    "set (rs_replica_iterator s) = set (dkeys (rs_in_flight_queries s))"
    using assms by (simp_all add: rs_ok_def wf_dict_def)
  show "length (rs_replica_iterator s) = length (rs_in_flight_queries s)"
    using it distinct_card by (metis length_map)
  assume r: "r \<in> set (rs_replica_iterator s)"
  then have "callable r" using assms it(3) by (auto simp: rs_ok_def)
  then show "\<exists>h. rri_actor_handle r = Some h" "rri_max_concurrent_queries r = Some (limit_of r)"
    by (auto simp: callable_def limit_of_def)
  have "map_of (rs_in_flight_queries s) r \<noteq> None" using r it(3) by (simp add: map_of_eq_None_iff)
  then show "map_of (rs_in_flight_queries s) r = Some (in_flight s r)" by (auto simp: dget_or_def)
qed

text \<open>One attempt at the replica at the head of the cycle.\<close>

lemma rotate1_Cons: "rs @ [r] = rotate1 (r # rs)"
  by simp

lemma try_loop_busy:
  assumes "\<forall>r \<in> set (take n (rs_replica_iterator s)). busy s r" and "n \<le> length (rs_replica_iterator s)"
    and "\<And>r. r \<in> set (rs_replica_iterator s) \<Longrightarrow> rri_max_concurrent_queries r = Some (limit_of r)
        \<and> map_of (rs_in_flight_queries s) r = Some (in_flight s r)"
  shows "try_assign_loop ops q n (s, w) = (Inr None, (s\<lparr>rs_replica_iterator := rotate n (rs_replica_iterator s)\<rparr>, w))"
  using assms
proof (induction n arbitrary: s)
  case 0
  then show ?case by (simp add: retS_def)
next
  case (Suc n)
  obtain r rs where it: "rs_replica_iterator s = r # rs" using Suc.prems(2) by (cases "rs_replica_iterator s") auto
  let ?s = "s\<lparr>rs_replica_iterator := rs @ [r]\<rparr>"
  have "busy s r" using Suc.prems(1) it by simp
  then have full: "limit_of r \<le> int (length (in_flight s r))" by (simp add: busy_def)
  have "try_assign_loop ops q n (?s, w) = (Inr None, (?s\<lparr>rs_replica_iterator := rotate n (rs @ [r])\<rparr>, w))"
    using Suc.IH [of ?s] Suc.prems it by (simp add: busy_def)
  then show ?case
    using Suc.prems(3) [of r] it full
    by (simp add: bindS_def next_replica_def in_flight_of_def dindex_def rotate1_rotate_swap)
qed

lemma try_loop_free:
  assumes "rs_replica_iterator s = pre @ r # post" and "\<forall>x \<in> set pre. busy s x" and "\<not> busy s r"
    and "length pre < n" and "rri_actor_handle r = Some h"
    and "\<And>r. r \<in> set (rs_replica_iterator s) \<Longrightarrow> rri_max_concurrent_queries r = Some (limit_of r)
        \<and> map_of (rs_in_flight_queries s) r = Some (in_flight s r)"
    and "rt_handle_request ops h q w = ((tracker_ref, user_ref), w1)"
  shows "try_assign_loop ops q n (s, w) = (Inr (Some user_ref),
     (s\<lparr>rs_replica_iterator := post @ pre @ [r],
        rs_in_flight_queries := dset (rs_in_flight_queries s) r (List.insert tracker_ref (in_flight s r))\<rparr>, w1))"
  using assms(1,2,3,4,6)
proof (induction pre arbitrary: s n post)
  case Nil
  then obtain k where n: "n = Suc k" by (cases n) auto
  have "\<not> limit_of r \<le> int (length (in_flight s r))" using Nil.prems(3) by (simp add: busy_def)
  then show ?case
    using Nil.prems(1) Nil.prems(5) [of r] assms(5,7)
    by (simp add: n bindS_def next_replica_def in_flight_of_def dindex_def send_query_def retS_def)
next
  case (Cons x pre)
  obtain k where n: "n = Suc k" using Cons.prems(4) by (cases n) auto
  let ?s = "s\<lparr>rs_replica_iterator := pre @ r # post @ [x]\<rparr>"
  have "busy s x" using Cons.prems(2) by simp
  then have full: "limit_of x \<le> int (length (in_flight s x))" by (simp add: busy_def)
  have known: "rri_max_concurrent_queries y = Some (limit_of y)
      \<and> map_of (rs_in_flight_queries ?s) y = Some (in_flight ?s y)" if "y \<in> set (rs_replica_iterator ?s)" for y
  proof -
    have "y \<in> set (rs_replica_iterator s)" using that Cons.prems(1) by auto
    then show ?thesis using Cons.prems(5) [of y] by simp
  qed
  have "try_assign_loop ops q k (?s, w) = (Inr (Some user_ref),
     (?s\<lparr>rs_replica_iterator := (post @ [x]) @ pre @ [r],
        rs_in_flight_queries := dset (rs_in_flight_queries ?s) r (List.insert tracker_ref (in_flight ?s r))\<rparr>, w1))"
    by (rule Cons.IH [OF _ _ _ _ known]) (use Cons.prems(1-4) n in \<open>simp_all add: busy_def\<close>)
  then show ?case
    using Cons.prems(1) Cons.prems(5) [of x] full
    by (simp add: n bindS_def next_replica_def in_flight_of_def dindex_def)
qed

lemma try_assign_busy:
  assumes "rs_ok s" and "\<forall>r \<in> set (rs_replica_iterator s). busy s r"
  shows "try_assign_replica ops q (s, w) = (Inr None, (s, w))"
proof -
  note ok = rs_okD [OF assms(1)]
  have "try_assign_loop ops q (length (rs_replica_iterator s)) (s, w) =
      (Inr None, (s\<lparr>rs_replica_iterator := rotate (length (rs_replica_iterator s)) (rs_replica_iterator s)\<rparr>, w))"
    by (rule try_loop_busy) (use assms(2) ok in auto)
  then show ?thesis by (simp add: try_assign_replica_def bindS_def ok(1))
qed

lemma try_assign_free:
  assumes "rs_ok s" and "rs_replica_iterator s = pre @ r # post" and "\<forall>x \<in> set pre. busy s x" and "\<not> busy s r"
    and "rri_actor_handle r = Some h" and "rt_handle_request ops h q w = ((tracker_ref, user_ref), w1)"
  shows "try_assign_replica ops q (s, w) = (Inr (Some user_ref),
     (s\<lparr>rs_replica_iterator := post @ pre @ [r],
        rs_in_flight_queries := dset (rs_in_flight_queries s) r (List.insert tracker_ref (in_flight s r))\<rparr>, w1))"
proof -
  note ok = rs_okD [OF assms(1)]
  have "length pre < length (rs_in_flight_queries s)" using ok(1) assms(2) by simp
  then have "try_assign_loop ops q (length (rs_in_flight_queries s)) (s, w) = (Inr (Some user_ref),
     (s\<lparr>rs_replica_iterator := post @ pre @ [r],
        rs_in_flight_queries := dset (rs_in_flight_queries s) r (List.insert tracker_ref (in_flight s r))\<rparr>, w1))"
    using ok(3,4) by (intro try_loop_free [OF assms(2,3,4) _ assms(5) _ assms(6)]) auto
  then show ?thesis by (simp add: try_assign_replica_def bindS_def)
qed

section \<open>The invariant\<close>

lemma mset_refs_dset:
  assumes "wf_dict d" and "map_of d r = Some refs" and "t \<notin> set refs"
  shows "mset (concat (dvalues (dset d r (List.insert t refs)))) = add_mset t (mset (concat (dvalues d)))"
  using assms
proof (induction d)
  case (Cons a d)
  have "wf_dict d" using Cons.prems(1) by (simp add: wf_dict_def)
  show ?case
  proof (cases "fst a = r")
    case True
    then show ?thesis using Cons.prems by (cases a) simp
  next
    case False
    then have "map_of d r = Some refs" using Cons.prems(2) by (cases a) auto
    from Cons.IH [OF \<open>wf_dict d\<close> this Cons.prems(3)] show ?thesis using False by (cases a) simp
  qed
qed simp

lemma in_flight_subset: "set (in_flight s r) \<subseteq> set (all_query_refs s)"
  by (cases "map_of (rs_in_flight_queries s) r")
    (force simp: dget_or_def all_query_refs_def dest: map_of_SomeD)+

lemma assigned_ok:
  assumes "rs_ok s" and "r \<in> set (rs_replica_iterator s)" and "\<not> busy s r" and "t \<notin> set (all_query_refs s)"
    and "mset it = mset (rs_replica_iterator s)"
  defines "s' \<equiv> s\<lparr>rs_replica_iterator := it,
      rs_in_flight_queries := dset (rs_in_flight_queries s) r (List.insert t (in_flight s r))\<rparr>"
  shows "rs_ok s'" and "set (all_query_refs s') = insert t (set (all_query_refs s))"
    and "in_flight s' x = (if x = r then t # in_flight s r else in_flight s x)"
    and "dkeys (rs_in_flight_queries s') = dkeys (rs_in_flight_queries s)"
proof -
  have new: "t \<notin> set (in_flight s r)" using assms(4) in_flight_subset by blast
  have wf: "wf_dict (rs_in_flight_queries s)" using assms(1) by (simp add: rs_ok_def)
  have m: "mset (all_query_refs s') = add_mset t (mset (all_query_refs s))"
    using mset_refs_dset [OF wf rs_okD(4) [OF assms(1,2)] new] by (simp add: s'_def all_query_refs_def)
  then show refs: "set (all_query_refs s') = insert t (set (all_query_refs s))" by (metis set_mset_mset set_mset_add_mset_insert)
  show fl: "in_flight s' x = (if x = r then t # in_flight s r else in_flight s x)" for x
    using new by (simp add: s'_def dget_or_def)
  have r: "r \<in> set (dkeys (rs_in_flight_queries s))" using assms(1,2) by (simp add: rs_ok_def)
  then show keys: "dkeys (rs_in_flight_queries s') = dkeys (rs_in_flight_queries s)"
    by (simp add: s'_def dset_same_keys)
  have "distinct (all_query_refs s)" using assms(1) by (simp add: rs_ok_def)
  then have "distinct (all_query_refs s')" using m assms(4)
    by (metis distinct.simps(2) mset.simps(2) mset_eq_imp_distinct_iff)
  moreover have "distinct it" "set it = set (rs_replica_iterator s)"
    using assms(1,5) mset_eq_imp_distinct_iff mset_eq_setD unfolding rs_ok_def by blast+
  moreover have "callable x \<and> int (length (in_flight s' x)) \<le> limit_of x"
    if "x \<in> set (dkeys (rs_in_flight_queries s))" for x
    using that assms(1,3) by (auto simp: fl rs_ok_def busy_def)
  ultimately show "rs_ok s'" using assms(1) keys by (simp add: rs_ok_def s'_def wf_dict_def)
qed

lemma drained_ok:
  fixes fin :: "object_ref list"
  assumes "rs_ok s"
  defines "s' \<equiv> s\<lparr>rs_in_flight_queries := map (\<lambda>(r, qs). (r, filter (\<lambda>x. x \<notin> set fin) qs)) (rs_in_flight_queries s)\<rparr>"
  shows "rs_ok s'" and "all_query_refs s' = filter (\<lambda>x. x \<notin> set fin) (all_query_refs s)"
    and "in_flight s' r = filter (\<lambda>x. x \<notin> set fin) (in_flight s r)"
    and "dkeys (rs_in_flight_queries s') = dkeys (rs_in_flight_queries s)"
proof -
  show refs: "all_query_refs s' = filter (\<lambda>x. x \<notin> set fin) (all_query_refs s)"
    by (simp add: s'_def all_query_refs_def concat_filter_values)
  show keys: "dkeys (rs_in_flight_queries s') = dkeys (rs_in_flight_queries s)"
    by (simp add: s'_def case_prod_unfold)
  show fl: "in_flight s' r = filter (\<lambda>x. x \<notin> set fin) (in_flight s r)" for r
    by (cases "map_of (rs_in_flight_queries s) r") (simp_all add: s'_def dget_or_def map_of_map)
  have le: "int (length (in_flight s' r)) \<le> int (length (in_flight s r))" for r by (simp add: fl)
  have "callable x \<and> int (length (in_flight s' x)) \<le> limit_of x" if "x \<in> set (dkeys (rs_in_flight_queries s))" for x
    using that assms(1) le [of x] by (auto simp: rs_ok_def simp del: of_nat_le_iff)
  moreover have "rs_replica_iterator s' = rs_replica_iterator s" by (simp add: s'_def)
  ultimately show "rs_ok s'" using assms(1) by (simp add: rs_ok_def refs keys wf_dict_def)
qed

section \<open>Assignment\<close>

definition saturated :: "'w router_ops \<Rightarrow> replica_set \<Rightarrow> 'w \<Rightarrow> bool" where
  "saturated ops s w \<longleftrightarrow> (\<forall>r \<in> set (dkeys (rs_in_flight_queries s)).
     limit_of r \<le> int (length (filter (\<lambda>x. \<not> rt_finished ops x w) (in_flight s r))))"

text \<open>\<open>t\<close> is the query tracked by \<open>tracker\<close> sent to \<open>r\<close>, which had a free slot.\<close>

definition sent_to :: "'w router_ops \<Rightarrow> query \<Rightarrow> running_replica_info \<Rightarrow> object_ref \<Rightarrow> object_ref
    \<Rightarrow> replica_set \<times> 'w \<Rightarrow> replica_set \<times> 'w \<Rightarrow> bool" where
  "sent_to ops q r tracker user_ref = (\<lambda>(s, w) (s', w').
     r \<in> set (dkeys (rs_in_flight_queries s)) \<and> \<not> busy s r
     \<and> (\<exists>h. rri_actor_handle r = Some h \<and> rt_handle_request ops h q w = ((tracker, user_ref), w'))
     \<and> dkeys (rs_in_flight_queries s') = dkeys (rs_in_flight_queries s)
     \<and> (\<forall>x. in_flight s' x = (if x = r then tracker # in_flight s r else in_flight s x)))"

lemma router_envD:
  assumes "router_env ops issued"
  shows "rt_handle_request ops h q w = ((t, u), w') \<Longrightarrow> t \<notin> issued w \<and> insert t (issued w) \<subseteq> issued w'"
    and "rt_shuffle ops xs w = (ys, w') \<Longrightarrow> mset ys = mset xs \<and> issued w \<subseteq> issued w'"
  using assms unfolding router_env_def by (metis (mono_tags, lifting) case_prod_conv)+

lemma attempt_free:
  assumes env: "router_env ops issued" and ok: "rs_ok s" and "set (all_query_refs s) \<subseteq> issued w"
    and "\<exists>r \<in> set (rs_replica_iterator s). \<not> busy s r"
  obtains r t u s' w' where "try_assign_replica ops q (s, w) = (Inr (Some u), (s', w'))"
    and "sent_to ops q r t u (s, w) (s', w')" and "rs_ok s'" and "set (all_query_refs s') \<subseteq> issued w'"
    and "issued w \<subseteq> issued w'" and "rs_num_queued_queries s' = rs_num_queued_queries s"
proof -
  obtain pre r post where it: "rs_replica_iterator s = pre @ r # post" "\<forall>x \<in> set pre. busy s x" "\<not> busy s r"
    using split_list_first_prop [of "rs_replica_iterator s" "\<lambda>r. \<not> busy s r"] assms(4) by auto
  have r: "r \<in> set (rs_replica_iterator s)" using it(1) by simp
  obtain h where h: "rri_actor_handle r = Some h" using rs_okD(2) [OF ok r] by blast
  obtain t u w' where w': "rt_handle_request ops h q w = ((t, u), w')" by (metis surj_pair)
  note new = router_envD(1) [OF env w']
  let ?s = "s\<lparr>rs_replica_iterator := post @ pre @ [r],
        rs_in_flight_queries := dset (rs_in_flight_queries s) r (List.insert t (in_flight s r))\<rparr>"
  have t: "t \<notin> set (all_query_refs s)" using new assms(3) by blast
  have m: "mset (post @ pre @ [r]) = mset (rs_replica_iterator s)" by (simp add: it(1))
  note a = assigned_ok [OF ok r it(3) t m]
  have "r \<in> set (dkeys (rs_in_flight_queries s))" using ok r by (simp add: rs_ok_def)
  then have "sent_to ops q r t u (s, w) (?s, w')"
    unfolding sent_to_def case_prod_conv using a(3,4) it(3) h w' by blast
  moreover have "set (all_query_refs ?s) \<subseteq> issued w'" using a(2) new assms(3) by blast
  ultimately show thesis
    using that [OF try_assign_free [OF ok it h w']] a(1) new by simp
qed

lemma drain_result:
  assumes "rs_ok s"
  shows "drain_completed_object_refs ops (s, w) =
    (let fin = filter (\<lambda>ref. rt_finished ops ref w) (all_query_refs s) in
     (Inr (length fin), (s\<lparr>rs_in_flight_queries := map (\<lambda>(r, qs). (r, filter (\<lambda>x. x \<notin> set fin) qs)) (rs_in_flight_queries s)\<rparr>, w)))"
  using assms by (simp add: drain_completed_object_refs_def Let_def rs_ok_def)

lemma saturated_iff:
  assumes "rs_ok s"
  shows "saturated ops s w \<longleftrightarrow> (\<forall>r \<in> set (rs_replica_iterator s). busy s r)
    \<and> filter (\<lambda>ref. rt_finished ops ref w) (all_query_refs s) = []"
proof
  let ?live = "\<lambda>x. \<not> rt_finished ops x w"
  have keys: "set (rs_replica_iterator s) = set (dkeys (rs_in_flight_queries s))" using assms by (simp add: rs_ok_def)
  {
    assume sat: "saturated ops s w"
    have le: "limit_of r \<le> int (length (filter ?live (in_flight s r)))" "int (length (in_flight s r)) \<le> limit_of r"
      if "r \<in> set (rs_replica_iterator s)" for r
      using that sat assms unfolding saturated_def keys rs_ok_def by blast+
    have eq: "length (filter ?live (in_flight s r)) = length (in_flight s r) \<and> limit_of r = int (length (in_flight s r))"
      if "r \<in> set (rs_replica_iterator s)" for r
      using le [OF that] length_filter_le [of ?live "in_flight s r"] by linarith
    have "\<not> rt_finished ops x w" if x: "x \<in> set (all_query_refs s)" for x
    proof -
      obtain r qs where m: "(r, qs) \<in> set (rs_in_flight_queries s)" "x \<in> set qs"
        using x by (auto simp: all_query_refs_def)
      then have "map_of (rs_in_flight_queries s) r = Some qs" using assms by (simp add: rs_ok_def wf_dict_def)
      then have qs: "in_flight s r = qs" by (simp add: dget_or_def)
      have "r \<in> set (rs_replica_iterator s)" using m(1) keys by force
      from eq [OF this] have "filter ?live qs = qs" unfolding qs by (metis length_filter_less less_irrefl filter_id_conv)
      then show ?thesis using m(2) by (metis filter_id_conv)
    qed
    then show "(\<forall>r \<in> set (rs_replica_iterator s). busy s r)
        \<and> filter (\<lambda>ref. rt_finished ops ref w) (all_query_refs s) = []"
      using eq by (simp add: busy_def)
  }
  assume b: "(\<forall>r \<in> set (rs_replica_iterator s). busy s r)
    \<and> filter (\<lambda>ref. rt_finished ops ref w) (all_query_refs s) = []"
  then have "filter ?live (in_flight s r) = in_flight s r" for r
    using in_flight_subset [of s r] by (auto simp: filter_empty_conv filter_id_conv)
  then show "saturated ops s w" using b unfolding saturated_def busy_def keys by simp
qed

lemma assign_loop_saturated:
  assumes "rs_ok s" and "saturated ops s w"
  shows "assign_loop ops q (s, w) = (Inr None, (s, w))"
proof -
  note b = assms(2) [unfolded saturated_iff [OF assms(1)]]
  have "drain_completed_object_refs ops (s, w) = (Inr 0, (s, w))"
    using b by (simp add: drain_result [OF assms(1)] case_prod_unfold)
  then show ?thesis
    using b by (simp add: assign_loop.simps [of ops q "(s, w)"] try_assign_busy [OF assms(1)])
qed

text \<open>The replicas as the loop sees them when it finds one with a free slot: drained if all were full.\<close>

definition refreshed :: "'w router_ops \<Rightarrow> 'w \<Rightarrow> replica_set \<Rightarrow> replica_set \<Rightarrow> bool" where
  "refreshed ops w s s0 \<longleftrightarrow> dkeys (rs_in_flight_queries s0) = dkeys (rs_in_flight_queries s)
     \<and> ((\<forall>r. in_flight s0 r = in_flight s r)
        \<or> (\<forall>r. in_flight s0 r = filter (\<lambda>x. \<not> rt_finished ops x w) (in_flight s r)))"

lemma assign_loop_free:
  assumes env: "router_env ops issued" and ok: "rs_ok s" and sub: "set (all_query_refs s) \<subseteq> issued w"
    and nb: "\<exists>r \<in> set (rs_replica_iterator s). \<not> busy s r"
  obtains r t u s' w' where "assign_loop ops q (s, w) = (Inr (Some u), (s', w'))"
    and "sent_to ops q r t u (s, w) (s', w')" and "rs_ok s'" and "set (all_query_refs s') \<subseteq> issued w'"
    and "issued w \<subseteq> issued w'" and "rs_num_queued_queries s' = rs_num_queued_queries s - 1"
proof -
  obtain r t u s' w' where a: "try_assign_replica ops q (s, w) = (Inr (Some u), (s', w'))"
    "sent_to ops q r t u (s, w) (s', w')" "rs_ok s'" "set (all_query_refs s') \<subseteq> issued w'"
    "issued w \<subseteq> issued w'" "rs_num_queued_queries s' = rs_num_queued_queries s"
    by (rule attempt_free [OF assms])
  let ?s = "s'\<lparr>rs_num_queued_queries := rs_num_queued_queries s' - 1\<rparr>"
  have "assign_loop ops q (s, w) = (Inr (Some u), (?s, w'))"
    by (simp add: assign_loop.simps [of ops q "(s, w)"] a(1))
  moreover have "sent_to ops q r t u (s, w) (?s, w')" using a(2) by (simp add: sent_to_def)
  moreover have "rs_ok ?s" "set (all_query_refs ?s) \<subseteq> issued w'"
    using a(3,4) by (simp_all add: rs_ok_def all_query_refs_def)
  ultimately show thesis using that a(5,6) by simp
qed

lemma drained_has_free:
  assumes ok: "rs_ok s" and b: "\<forall>r \<in> set (rs_replica_iterator s). busy s r"
    and fin: "filter (\<lambda>ref. rt_finished ops ref w) (all_query_refs s) \<noteq> []"
  obtains s1 where "drain_completed_object_refs ops (s, w)
       = (Inr (length (filter (\<lambda>ref. rt_finished ops ref w) (all_query_refs s))), (s1, w))"
    and "rs_ok s1" and "set (all_query_refs s1) \<subseteq> set (all_query_refs s)" and "refreshed ops w s s1"
    and "\<exists>r \<in> set (rs_replica_iterator s1). \<not> busy s1 r" and "rs_num_queued_queries s1 = rs_num_queued_queries s"
proof -
  let ?fin = "filter (\<lambda>ref. rt_finished ops ref w) (all_query_refs s)"
  define s1 where "s1 = s\<lparr>rs_in_flight_queries := map (\<lambda>(r, qs). (r, filter (\<lambda>x. x \<notin> set ?fin) qs)) (rs_in_flight_queries s)\<rparr>"
  note d = drained_ok [OF ok, of ?fin, folded s1_def]
  have "filter (\<lambda>x. x \<notin> set ?fin) (in_flight s r) = filter (\<lambda>x. \<not> rt_finished ops x w) (in_flight s r)" for r
    using in_flight_subset [of s r] by (intro filter_cong) auto
  with d(3) have fl: "in_flight s1 r = filter (\<lambda>x. \<not> rt_finished ops x w) (in_flight s r)" for r by simp
  have re: "refreshed ops w s s1" unfolding refreshed_def d(4) fl by simp
  have "\<not> saturated ops s w" unfolding saturated_iff [OF ok] using fin by (rule contrapos_nn) (rule conjunct2)
  then obtain r where r: "r \<in> set (dkeys (rs_in_flight_queries s))"
    "\<not> limit_of r \<le> int (length (filter (\<lambda>x. \<not> rt_finished ops x w) (in_flight s r)))"
    unfolding saturated_def by blast
  have it: "rs_replica_iterator s1 = rs_replica_iterator s" "rs_num_queued_queries s1 = rs_num_queued_queries s"
    by (simp_all add: s1_def)
  have "\<not> busy s1 r" unfolding busy_def fl using r(2) .
  moreover have "r \<in> set (rs_replica_iterator s1)" using r(1) ok unfolding it rs_ok_def by blast
  ultimately have free: "\<exists>r \<in> set (rs_replica_iterator s1). \<not> busy s1 r" by blast
  have "set (all_query_refs s1) \<subseteq> set (all_query_refs s)" unfolding d(2) by (rule filter_is_subset)
  then show thesis
    by (rule that [OF drain_result [OF ok, of ops w, unfolded Let_def, folded s1_def] d(1) _ re free it(2)])
qed

lemma assign_loop_assigns:
  assumes env: "router_env ops issued" and ok: "rs_ok s" and sub: "set (all_query_refs s) \<subseteq> issued w"
    and ns: "\<not> saturated ops s w"
  obtains r t u s0 s' w' where "assign_loop ops q (s, w) = (Inr (Some u), (s', w'))" and "refreshed ops w s s0"
    and "sent_to ops q r t u (s0, w) (s', w')" and "rs_ok s'" and "set (all_query_refs s') \<subseteq> issued w'"
    and "issued w \<subseteq> issued w'" and "rs_num_queued_queries s' = rs_num_queued_queries s - 1"
proof (cases "\<forall>r \<in> set (rs_replica_iterator s). busy s r")
  case True
  then have "filter (\<lambda>ref. rt_finished ops ref w) (all_query_refs s) \<noteq> []" using ns by (simp add: saturated_iff [OF ok])
  from drained_has_free [OF ok True this] obtain s1 where s1: "drain_completed_object_refs ops (s, w)
       = (Inr (length (filter (\<lambda>ref. rt_finished ops ref w) (all_query_refs s))), (s1, w))"
    "rs_ok s1" "set (all_query_refs s1) \<subseteq> set (all_query_refs s)" "refreshed ops w s s1"
    "\<exists>r \<in> set (rs_replica_iterator s1). \<not> busy s1 r" "rs_num_queued_queries s1 = rs_num_queued_queries s" .
  have "assign_loop ops q (s, w) = assign_loop ops q (s1, w)"
    using \<open>filter _ _ \<noteq> []\<close> by (simp add: assign_loop.simps [of ops q "(s, w)"] try_assign_busy [OF ok True] s1(1))
  moreover have "set (all_query_refs s1) \<subseteq> issued w" using s1(3) sub by blast
  ultimately show thesis
    using s1(4,6) by (metis (no_types) assign_loop_free [OF env s1(2) _ s1(5)] that)
next
  case False
  then have nb: "\<exists>r \<in> set (rs_replica_iterator s). \<not> busy s r" by blast
  have "refreshed ops w s s" by (simp add: refreshed_def)
  then show thesis using assign_loop_free [OF env ok sub nb, of q thesis] that by blast
qed

section \<open>Updates of the running replicas\<close>

lemma fold_dset_fresh:
  "distinct rs \<Longrightarrow> set rs \<inter> set (dkeys d) = {} \<Longrightarrow> fold (\<lambda>r d. dset d r v) rs d = d @ map (\<lambda>r. (r, v)) rs"
proof (induction rs arbitrary: d)
  case (Cons r rs)
  have "dset d r v = d @ [(r, v)]" using Cons.prems(2) by (intro dset_fresh) auto
  moreover have "fold (\<lambda>r d. dset d r v) rs (d @ [(r, v)]) = (d @ [(r, v)]) @ map (\<lambda>r. (r, v)) rs"
    by (rule Cons.IH) (use Cons.prems in auto)
  ultimately show ?case by simp
qed simp

lemma fold_ddel: "fold (\<lambda>r d. ddel d r) rs d = filter (\<lambda>e. fst e \<notin> set rs) d"
  by (induction rs arbitrary: d) (auto simp: AList.delete_eq case_prod_unfold intro: filter_cong)

definition added_replicas :: "('a, 'b) dict \<Rightarrow> 'a list \<Rightarrow> 'a list" where
  "added_replicas d new = filter (\<lambda>x. x \<notin> set (dkeys d)) (remdups new)"

definition removed_replicas :: "('a, 'b) dict \<Rightarrow> 'a list \<Rightarrow> 'a list" where
  "removed_replicas d new = filter (\<lambda>x. x \<notin> set new) (remdups (dkeys d))"

definition updated_dict :: "('a, 'b list) dict \<Rightarrow> 'a list \<Rightarrow> ('a, 'b list) dict" where
  "updated_dict d new = filter (\<lambda>e. fst e \<in> set new) d @ map (\<lambda>r. (r, [])) (added_replicas d new)"

lemma fold_updated_dict:
  "fold (\<lambda>r d. ddel d r) (removed_replicas d new) (fold (\<lambda>r d. dset d r []) (added_replicas d new) d) = updated_dict d new"
proof -
  have "fold (\<lambda>r d. dset d r []) (added_replicas d new) d = d @ map (\<lambda>r. (r, [])) (added_replicas d new)"
    by (rule fold_dset_fresh) (auto simp: added_replicas_def)
  moreover have "filter (\<lambda>e. fst e \<notin> set (removed_replicas d new)) d = filter (\<lambda>e. fst e \<in> set new) d"
    by (rule filter_cong) (auto simp: removed_replicas_def)
  moreover have "filter (\<lambda>e. fst e \<notin> set (removed_replicas d new)) (map (\<lambda>r. (r, [])) (added_replicas d new))
      = map (\<lambda>r. (r, [])) (added_replicas d new)"
    by (auto simp: filter_id_conv removed_replicas_def added_replicas_def)
  ultimately show ?thesis by (simp add: fold_ddel updated_dict_def)
qed

lemma updated_keys:
  assumes "wf_dict d"
  shows "set (dkeys (updated_dict d new)) = set new" and "wf_dict (updated_dict d new)"
  using assms by (auto simp: updated_dict_def added_replicas_def wf_dict_def o_def distinct_map_filter)

lemma updated_get:
  assumes "wf_dict d"
  shows "dget_or (updated_dict d new) r [] = (if r \<in> set new then dget_or d r [] else [])"
proof -
  note up = updated_keys [OF assms, of new]
  have in_up: "dget_or (updated_dict d new) r [] = v" if "(r, v) \<in> set (updated_dict d new)" for v
    using that up(2) by (simp add: dget_or_def wf_dict_def)
  have not_in: "dget_or e r [] = []" if "r \<notin> set (dkeys e)" for e :: "('a, 'b list) dict"
    using that by (simp add: dget_or_def map_of_eq_None_iff [THEN iffD2])
  consider "r \<notin> set new" | "r \<in> set new" "r \<notin> set (dkeys d)" | v where "r \<in> set new" "(r, v) \<in> set d" by force
  then show ?thesis
  proof cases
    case 1
    then show ?thesis using not_in [of "updated_dict d new"] up(1) by simp
  next
    case 2
    then have "(r, []) \<in> set (updated_dict d new)" by (simp add: updated_dict_def added_replicas_def)
    then show ?thesis using in_up 2 not_in [of d] by simp
  next
    case 3
    then have "(r, v) \<in> set (updated_dict d new)" by (simp add: updated_dict_def)
    then show ?thesis using in_up 3 assms by (simp add: dget_or_def wf_dict_def)
  qed
qed

lemma updated_refs:
  assumes "distinct (concat (dvalues d))"
  shows "distinct (concat (dvalues (updated_dict d new)))"
    and "set (concat (dvalues (updated_dict d new))) \<subseteq> set (concat (dvalues d))"
proof -
  have "concat (map (snd \<circ> (\<lambda>r. (r, []))) rs) = []" for rs :: "'a list" by (induction rs) auto
  then have eq: "concat (dvalues (updated_dict d new)) = concat (dvalues (filter (\<lambda>e. fst e \<in> set new) d))"
    by (simp add: updated_dict_def)
  show "distinct (concat (dvalues (updated_dict d new)))" unfolding eq using assms by (induction d) auto
  show "set (concat (dvalues (updated_dict d new))) \<subseteq> set (concat (dvalues d))" unfolding eq by auto
qed

lemma update_running_result:
  assumes "rt_shuffle ops (dkeys (updated_dict (rs_in_flight_queries s) rs)) w = (ys, w1)"
  shows "update_running_replicas ops rs (s, w) =
    (if added_replicas (rs_in_flight_queries s) rs \<noteq> [] \<or> removed_replicas (rs_in_flight_queries s) rs \<noteq> [] then
      (s\<lparr>rs_in_flight_queries := updated_dict (rs_in_flight_queries s) rs, rs_replica_iterator := ys, rs_config_updated := True\<rparr>, w1)
     else (s\<lparr>rs_in_flight_queries := updated_dict (rs_in_flight_queries s) rs\<rparr>, w))"
proof -
  let ?d = "rs_in_flight_queries s"
  obtain kept where "compute_iterable_delta (dkeys ?d) rs = (added_replicas ?d rs, removed_replicas ?d rs, kept)"
    unfolding compute_iterable_delta_def added_replicas_def removed_replicas_def by blast
  then show ?thesis
    unfolding update_running_replicas_def by (simp only: Let_def prod.case fold_updated_dict assms)
qed

lemma update_running_ok:
  assumes env: "router_env ops issued" and ok: "rs_ok s" and sub: "set (all_query_refs s) \<subseteq> issued w"
    and new: "\<forall>r \<in> set rs. callable r" and up: "update_running_replicas ops rs (s, w) = (s', w')"
  shows "rs_ok s'" and "set (all_query_refs s') \<subseteq> issued w'" and "issued w \<subseteq> issued w'"
    and "rs_num_queued_queries s' = rs_num_queued_queries s"
    and "set (dkeys (rs_in_flight_queries s')) = set rs"
    and "in_flight s' r = (if r \<in> set rs then in_flight s r else [])"
proof -
  let ?d = "rs_in_flight_queries s" and ?d' = "updated_dict (rs_in_flight_queries s) rs"
  obtain ys w1 where sh: "rt_shuffle ops (dkeys ?d') w = (ys, w1)" by (metis surj_pair)
  note ys = router_envD(2) [OF env sh]
  have wf: "wf_dict ?d" and dist: "distinct (concat (dvalues ?d))"
    using ok by (simp_all add: rs_ok_def all_query_refs_def)
  note keys = updated_keys [OF wf, of rs] and refs = updated_refs [OF dist, of rs]
  note s' = up [unfolded update_running_result [OF sh]]
  have inf: "rs_in_flight_queries s' = ?d'" using s' by (auto split: if_splits)
  show "issued w \<subseteq> issued w'" using s' ys by (simp split: if_splits)
  then show "set (all_query_refs s') \<subseteq> issued w'" using refs(2) sub unfolding inf all_query_refs_def by blast
  show "rs_num_queued_queries s' = rs_num_queued_queries s" using s' by (auto split: if_splits)
  show "set (dkeys (rs_in_flight_queries s')) = set rs" using keys(1) by (simp add: inf)
  show fl: "in_flight s' r = (if r \<in> set rs then in_flight s r else [])" for r using updated_get [OF wf] by (simp add: inf)
  have it: "distinct (rs_replica_iterator s') \<and> set (rs_replica_iterator s') = set rs"
  proof (cases "added_replicas ?d rs \<noteq> [] \<or> removed_replicas ?d rs \<noteq> []")
    case True
    then have "rs_replica_iterator s' = ys" using s' by auto
    moreover have "distinct ys" "set ys = set (dkeys ?d')"
      using ys keys(2) mset_eq_imp_distinct_iff mset_eq_setD unfolding wf_dict_def by blast+
    ultimately show ?thesis using keys(1) by simp
  next
    case False
    then have "set (dkeys ?d) = set rs" by (auto simp: added_replicas_def removed_replicas_def filter_empty_conv)
    moreover have "rs_replica_iterator s' = rs_replica_iterator s" using False s' by auto
    ultimately show ?thesis using ok by (simp add: rs_ok_def)
  qed
  have "callable r \<and> int (length (in_flight s' r)) \<le> limit_of r" if "r \<in> set rs" for r
  proof (cases "r \<in> set (dkeys ?d)")
    case True
    then show ?thesis using that ok by (auto simp: fl rs_ok_def)
  next
    case False
    then have "in_flight s r = []" by (simp add: dget_or_def map_of_eq_None_iff [THEN iffD2])
    then show ?thesis using that new by (auto simp: fl callable_def limit_of_def)
  qed
  then show "rs_ok s'" using it keys refs(1) by (simp add: rs_ok_def inf all_query_refs_def)
qed

section \<open>The router as a transition system\<close>

text \<open>
  The requests of all clients on one event loop: the replica set, the queries that are suspended in
  \<open>assign_replica\<close> and the world. A step runs a coroutine up to its next suspension, is an
  update from the controller, or changes the world; a suspended query may be woken up at any time.
\<close>

type_synonym 'w router_system = "replica_set \<times> query list \<times> 'w"

inductive router_step :: "'w router_ops \<Rightarrow> ('w \<Rightarrow> object_ref set) \<Rightarrow> 'w router_system \<Rightarrow> 'w router_system \<Rightarrow> bool"
  for ops issued where
  request_assigned: "assign_replica ops q (s, w) = (Inr (Some ref), (s', w')) \<Longrightarrow>
    router_step ops issued (s, ws, w) (s', ws, w')"
| request_waits: "assign_replica ops q (s, w) = (Inr None, (s', w')) \<Longrightarrow>
    router_step ops issued (s, ws, w) (s', ws @ [q], w')"
| resume_assigned: "q \<in> set ws \<Longrightarrow> assign_resume ops q (s, w) = (Inr (Some ref), (s', w')) \<Longrightarrow>
    router_step ops issued (s, ws, w) (s', remove1 q ws, w')"
| resume_waits: "q \<in> set ws \<Longrightarrow> assign_resume ops q (s, w) = (Inr None, (s', w')) \<Longrightarrow>
    router_step ops issued (s, ws, w) (s', ws, w')"
| replicas_updated: "\<forall>r \<in> set rs. callable r \<Longrightarrow> update_running_replicas ops rs (s, w) = (s', w') \<Longrightarrow>
    router_step ops issued (s, ws, w) (s', ws, w')"
| world_changes: "issued w \<subseteq> issued w' \<Longrightarrow> router_step ops issued (s, ws, w) (s, ws, w')"

definition router_ok :: "('w \<Rightarrow> object_ref set) \<Rightarrow> 'w router_system \<Rightarrow> bool" where
  "router_ok issued = (\<lambda>(s, ws, w). rs_ok s \<and> set (all_query_refs s) \<subseteq> issued w
     \<and> rs_num_queued_queries s = int (length ws))"

lemma rs_ok_frame:
  "rs_ok (s\<lparr>rs_num_queued_queries := n\<rparr>) = rs_ok s" "rs_ok (s\<lparr>rs_config_updated := b\<rparr>) = rs_ok s"
  "all_query_refs (s\<lparr>rs_num_queued_queries := n\<rparr>) = all_query_refs s"
  "all_query_refs (s\<lparr>rs_config_updated := b\<rparr>) = all_query_refs s"
  "saturated ops (s\<lparr>rs_num_queued_queries := n\<rparr>) w = saturated ops s w"
  by (simp_all add: rs_ok_def all_query_refs_def saturated_def)

lemma assign_loop_keeps:
  assumes env: "router_env ops issued" and ok: "rs_ok s" and sub: "set (all_query_refs s) \<subseteq> issued w"
    and run: "assign_loop ops q (s, w) = (res, (s', w'))"
  shows "rs_ok s'" and "set (all_query_refs s') \<subseteq> issued w'" and "\<exists>r. res = Inr r"
    and "rs_num_queued_queries s' = rs_num_queued_queries s - (if res = Inr None then 0 else 1)"
proof -
  have "rs_ok s' \<and> set (all_query_refs s') \<subseteq> issued w' \<and> (\<exists>r. res = Inr r)
      \<and> rs_num_queued_queries s' = rs_num_queued_queries s - (if res = Inr None then 0 else 1)"
  proof (cases "saturated ops s w")
    case True
    then show ?thesis using assign_loop_saturated [OF ok True, of q] run ok sub by auto
  next
    case False
    show ?thesis by (rule assign_loop_assigns [OF env ok sub False, of q]) (use run in auto)
  qed
  then show "rs_ok s'" "set (all_query_refs s') \<subseteq> issued w'" "\<exists>r. res = Inr r"
    "rs_num_queued_queries s' = rs_num_queued_queries s - (if res = Inr None then 0 else 1)"
    by blast+
qed

lemma router_step_ok:
  assumes env: "router_env ops issued" and "router_ok issued t" and "router_step ops issued t t'"
  shows "router_ok issued t'"
proof -
  obtain s ws w where t: "t = (s, ws, w)" by (metis surj_pair)
  have ok: "rs_ok s" "set (all_query_refs s) \<subseteq> issued w" "rs_num_queued_queries s = int (length ws)"
    using assms(2) by (simp_all add: t router_ok_def)
  let ?q = "s\<lparr>rs_num_queued_queries := rs_num_queued_queries s + 1\<rparr>" and ?c = "s\<lparr>rs_config_updated := False\<rparr>"
  have q: "rs_ok ?q" "set (all_query_refs ?q) \<subseteq> issued w" and c: "rs_ok ?c" "set (all_query_refs ?c) \<subseteq> issued w"
    using ok by (simp_all add: rs_ok_frame)
  note queued = assign_loop_keeps [OF env q] and resumed = assign_loop_keeps [OF env c]
  from assms(3) [unfolded t] show ?thesis
  proof cases
    case (request_assigned q ref s' w')
    then show ?thesis using queued [of q "Inr (Some ref)" s' w'] ok by (simp add: assign_replica_def router_ok_def)
  next
    case (request_waits q s' w')
    then show ?thesis using queued [of q "Inr None" s' w'] ok by (simp add: assign_replica_def router_ok_def)
  next
    case (resume_assigned q ref s' w')
    moreover from this(2) have "int (length (remove1 q ws)) = int (length ws) - 1"
      using length_pos_if_in_set [of q ws] by (simp add: length_remove1 of_nat_diff Suc_le_eq)
    ultimately show ?thesis using resumed [of q "Inr (Some ref)" s' w'] ok
      by (simp add: assign_resume_def router_ok_def)
  next
    case (resume_waits q s' w')
    then show ?thesis using resumed [of q "Inr None" s' w'] ok by (simp add: assign_resume_def router_ok_def)
  next
    case (replicas_updated rs s' w')
    then show ?thesis using update_running_ok [OF env ok(1,2), of rs s' w'] ok by (simp add: router_ok_def)
  next
    case (world_changes w')
    then show ?thesis using ok by (auto simp: router_ok_def)
  qed
qed

lemma router_invariant:
  assumes "router_env ops issued"
  shows "invariant_system (\<lambda>t. \<exists>w0. t = (init_replica_set, [], w0)) (router_step ops issued) (router_ok issued)"
proof
  fix t :: "'a router_system"
  assume "\<exists>w0. t = (init_replica_set, [], w0)"
  then show "router_ok issued t" by (auto simp: router_ok_def init_replica_set_def rs_ok_def all_query_refs_def wf_dict_def)
qed (rule router_step_ok [OF assms])

lemma router_reaches_ok:
  assumes "router_env ops issued" and "reaches (router_step ops issued) (init_replica_set, [], w0) t"
  shows "router_ok issued t"
  by (rule invariant_system.reaches_invar [OF router_invariant [OF assms(1)] assms(2)]) blast

text \<open>A burst of requests that are all assigned at once.\<close>

fun assign_all :: "'w router_ops \<Rightarrow> query list \<Rightarrow> ('w, object_ref list) router_prog" where
  "assign_all ops [] = retS []"
| "assign_all ops (q # qs) = bindS (assign_replica ops q) (\<lambda>res.
     case res of
       None \<Rightarrow> raiseS RuntimeError
     | Some ref \<Rightarrow> bindS (assign_all ops qs) (\<lambda>refs. retS (ref # refs)))"

lemma assign_head:
  assumes env: "router_env ops issued" and ok: "rs_ok s" and sub: "set (all_query_refs s) \<subseteq> issued w"
    and it: "rs_replica_iterator s = r # rs" and nb: "\<not> busy s r"
  obtains t u s' w' where "assign_replica ops q (s, w) = (Inr (Some u), (s', w'))" and "rs_ok s'"
    and "set (all_query_refs s') \<subseteq> issued w'" and "rs_replica_iterator s' = rs @ [r]"
    and "\<forall>x. in_flight s' x = (if x = r then t # in_flight s r else in_flight s x)"
proof -
  let ?q = "s\<lparr>rs_num_queued_queries := rs_num_queued_queries s + 1\<rparr>"
  have r: "r \<in> set (rs_replica_iterator s)" using it by simp
  obtain h where h: "rri_actor_handle r = Some h" using rs_okD(2) [OF ok r] by blast
  obtain t u w' where w': "rt_handle_request ops h q w = ((t, u), w')" by (metis surj_pair)
  note new = router_envD(1) [OF env w']
  have t: "t \<notin> set (all_query_refs s)" using new sub by blast
  have m: "mset (rs @ [r]) = mset (rs_replica_iterator s)" by (simp add: it)
  note a = assigned_ok [OF ok r nb t m]
  let ?s = "s\<lparr>rs_replica_iterator := rs @ [r],
        rs_in_flight_queries := dset (rs_in_flight_queries s) r (List.insert t (in_flight s r))\<rparr>"
  have okq: "rs_ok ?q" and itq: "rs_replica_iterator ?q = [] @ r # rs" and nbq: "\<not> busy ?q r"
    using ok it nb by (simp_all add: rs_ok_frame busy_def)
  have sent: "try_assign_replica ops q (?q, w) = (Inr (Some u),
     (?q\<lparr>rs_replica_iterator := rs @ [r],
        rs_in_flight_queries := dset (rs_in_flight_queries s) r (List.insert t (in_flight s r))\<rparr>, w'))"
    using try_assign_free [OF okq itq _ nbq h w'] by simp
  have "assign_replica ops q (s, w) = (Inr (Some u), (?s, w'))"
    by (simp add: assign_replica_def assign_loop.simps [of ops q "(?q, w)"] sent)
  then show thesis
    using that [of u ?s w' t] a(1,3) a(2) new sub by auto
qed

lemma burst_round_robin:
  assumes env: "router_env ops issued" and "rs_ok s" and "set (all_query_refs s) \<subseteq> issued w"
    and "rs_replica_iterator s = todo @ served" and "length qs = length todo" and "\<And>r. r \<in> set todo \<Longrightarrow> \<not> busy s r"
  shows "\<exists>refs s' w'. assign_all ops qs (s, w) = (Inr refs, (s', w'))
    \<and> (\<forall>r. length (in_flight s' r) = length (in_flight s r) + (if r \<in> set todo then 1 else 0))"
  using assms(2-6)
proof (induction todo arbitrary: s w served qs)
  case Nil
  then show ?case by (simp add: retS_def)
next
  case (Cons r todo)
  obtain q qs' where qs: "qs = q # qs'" "length qs' = length todo" using Cons.prems(4) by (cases qs) auto
  have it: "rs_replica_iterator s = r # (todo @ served)" using Cons.prems(3) by simp
  have nbr: "\<not> busy s r" using Cons.prems(5) by simp
  obtain t u s1 w1 where a: "assign_replica ops q (s, w) = (Inr (Some u), (s1, w1))" "rs_ok s1"
    "set (all_query_refs s1) \<subseteq> issued w1" "rs_replica_iterator s1 = (todo @ served) @ [r]"
    "\<forall>x. in_flight s1 x = (if x = r then t # in_flight s r else in_flight s x)"
    by (rule assign_head [OF env Cons.prems(1,2) it nbr, of q])
  have "distinct (rs_replica_iterator s)" using Cons.prems(1) by (simp add: rs_ok_def)
  then have r: "r \<notin> set todo" by (simp add: it)
  have nb: "\<not> busy s1 x" if "x \<in> set todo" for x
    using Cons.prems(5) [of x] that r a(5) by (auto simp: busy_def)
  have it1: "rs_replica_iterator s1 = todo @ (served @ [r])" using a(4) by simp
  obtain refs s' w' where b: "assign_all ops qs' (s1, w1) = (Inr refs, (s', w'))"
    "\<forall>x. length (in_flight s' x) = length (in_flight s1 x) + (if x \<in> set todo then 1 else 0)"
    using Cons.IH [OF a(2,3) it1 qs(2) nb] by blast
  have "assign_all ops qs (s, w) = (Inr (u # refs), (s', w'))"
    by (simp add: qs bindS_def a(1) b(1) retS_def)
  moreover have "length (in_flight s' x) = length (in_flight s x) + (if x \<in> set (r # todo) then 1 else 0)" for x
    using b(2) a(5) r by simp
  ultimately show ?case by blast
qed

section \<open>Properties\<close>

definition ex_replica :: "string \<Rightarrow> nat \<Rightarrow> int \<Rightarrow> running_replica_info" where
  "ex_replica tag h limit = \<lparr>rri_deployment_name = ''d'', rri_replica_tag = tag, rri_actor_handle = Some h,
     rri_max_concurrent_queries = Some limit\<rparr>"

text \<open>A world that numbers the tasks it was given; the first \<open>fst w\<close> of them are finished.\<close>

definition ex_router_ops :: "(nat \<times> nat) router_ops" where
  "ex_router_ops = \<lparr>rt_handle_request = (\<lambda>h q (f, n). ((n, n), (f, Suc n))),
     rt_finished = (\<lambda>ref (f, n). ref < f), rt_shuffle = (\<lambda>xs w. (xs, w))\<rparr>"

definition ex_issued :: "nat \<times> nat \<Rightarrow> object_ref set" where
  "ex_issued w = {..<snd w}"

definition ex_query :: query where
  "ex_query = \<lparr>query_args = [], query_kwargs = [],
     query_metadata = new_request_metadata ''1'' ''e'' ''__call__'' None ''GET'' [] False\<rparr>"

lemma ex_router_env: "router_env ex_router_ops ex_issued"
  by (auto simp: router_env_def ex_router_ops_def ex_issued_def)

definition ex_replicas :: "running_replica_info list" where
  "ex_replicas = [ex_replica ''a'' 0 1, ex_replica ''b'' 1 1]"

definition ex_router_started :: "replica_set \<times> (nat \<times> nat)" where
  "ex_router_started = update_running_replicas ex_router_ops ex_replicas (init_replica_set, (0, 0))"

lemma ex_router_start: "reaches (router_step ex_router_ops ex_issued) (init_replica_set, [], (0, 0))
    (fst ex_router_started, [], snd ex_router_started)"
  by (rule reaches_one, rule replicas_updated [of ex_replicas])
    (simp_all add: ex_router_started_def ex_replicas_def ex_replica_def callable_def)



text \<open>
  C18: a request waits exactly when it has to. In every reachable state the loop of
  \<open>assign_replica\<close> ends: if every replica has as many unfinished queries as its limit, the
  request is queued and nothing else changes; otherwise it is sent to a replica with a free slot,
  after the finished queries were dropped if all slots were taken.
\<close>

theorem assignment_waits_only_when_busy:
  assumes "router_env ops issued" and "reaches (router_step ops issued) (init_replica_set, [], w0) (s, ws, w)"
  shows "if saturated ops s w
    then assign_replica ops q (s, w) = (Inr None, (s\<lparr>rs_num_queued_queries := rs_num_queued_queries s + 1\<rparr>, w))
    else \<exists>r t user_ref s0 s' w'. assign_replica ops q (s, w) = (Inr (Some user_ref), (s', w'))
      \<and> refreshed ops w s s0 \<and> sent_to ops q r t user_ref (s0, w) (s', w')
      \<and> rs_num_queued_queries s' = rs_num_queued_queries s"
proof -
  let ?q = "s\<lparr>rs_num_queued_queries := rs_num_queued_queries s + 1\<rparr>"
  have ok: "rs_ok ?q" "set (all_query_refs ?q) \<subseteq> issued w"
    using router_reaches_ok [OF assms] by (simp_all add: router_ok_def rs_ok_frame)
  have run: "assign_replica ops q (s, w) = assign_loop ops q (?q, w)" by (simp add: assign_replica_def)
  have re: "refreshed ops w ?q s0 = refreshed ops w s s0" for s0 by (simp add: refreshed_def)
  show ?thesis
  proof (cases "saturated ops s w")
    case True
    then show ?thesis using assign_loop_saturated [OF ok(1), of ops w q] by (simp add: run rs_ok_frame)
  next
    case False
    then have ns: "\<not> saturated ops ?q w" by (simp add: rs_ok_frame)
    obtain r t u s0 s' w' where a: "assign_loop ops q (?q, w) = (Inr (Some u), (s', w'))" "refreshed ops w ?q s0"
      "sent_to ops q r t u (s0, w) (s', w')" "rs_num_queued_queries s' = rs_num_queued_queries ?q - 1"
      by (rule assign_loop_assigns [OF assms(1) ok ns, of q])
    then have "assign_replica ops q (s, w) = (Inr (Some u), (s', w')) \<and> refreshed ops w s s0
      \<and> sent_to ops q r t u (s0, w) (s', w') \<and> rs_num_queued_queries s' = rs_num_queued_queries s"
      by (simp add: run re)
    then show ?thesis using False by auto
  qed
qed

text \<open>With both replicas full and nothing finished the third request waits; once a task is finished it is sent.\<close>

definition ex_router_full :: "replica_set \<times> (nat \<times> nat)" where
  "ex_router_full = snd (assign_replica ex_router_ops ex_query (snd (assign_replica ex_router_ops ex_query ex_router_started)))"

theorem assignment_waits_only_when_busy_witness:
  "router_env ex_router_ops ex_issued
    \<and> reaches (router_step ex_router_ops ex_issued) (init_replica_set, [], (0, 0))
        (fst ex_router_started, [], snd ex_router_started)
    \<and> \<not> saturated ex_router_ops (fst ex_router_started) (snd ex_router_started)
    \<and> (\<exists>user_ref t. assign_replica ex_router_ops ex_query (fst ex_router_started, snd ex_router_started) = (Inr (Some user_ref), t))
    \<and> saturated ex_router_ops (fst ex_router_full) (snd ex_router_full)"
proof -
  have free: "\<not> saturated ex_router_ops (fst ex_router_started) (snd ex_router_started)"
    and full: "saturated ex_router_ops (fst ex_router_full) (snd ex_router_full)"
    by code_simp+
  show ?thesis
    using assignment_waits_only_when_busy [OF ex_router_env ex_router_start, of ex_query]
      ex_router_env ex_router_start free full by auto
qed

text \<open>
  Round robin. In every reachable state in which no replica is full, a burst of as many requests
  as there are replicas is assigned at once and every replica gets exactly one of them.
\<close>

theorem round_robin_burst:
  assumes "router_env ops issued" and "reaches (router_step ops issued) (init_replica_set, [], w0) (s, ws, w)"
    and "\<forall>r \<in> set (dkeys (rs_in_flight_queries s)). \<not> busy s r"
    and "length qs = length (rs_in_flight_queries s)"
  shows "\<exists>refs s' w'. assign_all ops qs (s, w) = (Inr refs, (s', w'))
    \<and> (\<forall>r \<in> set (dkeys (rs_in_flight_queries s)). length (in_flight s' r) = length (in_flight s r) + 1)"
proof -
  have ok: "rs_ok s" "set (all_query_refs s) \<subseteq> issued w"
    using router_reaches_ok [OF assms(1,2)] by (simp_all add: router_ok_def)
  have keys: "set (rs_replica_iterator s) = set (dkeys (rs_in_flight_queries s))" using ok(1) by (simp add: rs_ok_def)
  have "rs_replica_iterator s = rs_replica_iterator s @ []" by simp
  moreover have "length qs = length (rs_replica_iterator s)" using assms(4) rs_okD(1) [OF ok(1)] by simp
  moreover have "\<not> busy s r" if "r \<in> set (rs_replica_iterator s)" for r using assms(3) that keys by blast
  ultimately obtain refs s' w' where "assign_all ops qs (s, w) = (Inr refs, (s', w'))"
    "\<forall>r. length (in_flight s' r) = length (in_flight s r) + (if r \<in> set (rs_replica_iterator s) then 1 else 0)"
    using burst_round_robin [OF assms(1) ok] by blast
  then show ?thesis unfolding keys by auto
qed

theorem round_robin_burst_witness:
  "router_env ex_router_ops ex_issued
    \<and> reaches (router_step ex_router_ops ex_issued) (init_replica_set, [], (0, 0))
        (fst ex_router_started, [], snd ex_router_started)
    \<and> (\<exists>refs s' w'. assign_all ex_router_ops [ex_query, ex_query] (fst ex_router_started, snd ex_router_started) = (Inr refs, (s', w'))
        \<and> length (in_flight s' (ex_replica ''b'' 1 1)) = 1)"
proof -
  have s: "\<forall>r \<in> set (dkeys (rs_in_flight_queries (fst ex_router_started))). \<not> busy (fst ex_router_started) r"
    "length [ex_query, ex_query] = length (rs_in_flight_queries (fst ex_router_started))"
    "ex_replica ''b'' 1 1 \<in> set (dkeys (rs_in_flight_queries (fst ex_router_started)))"
    "length (in_flight (fst ex_router_started) (ex_replica ''b'' 1 1)) = 0"
    by code_simp+
  show ?thesis
    using round_robin_burst [OF ex_router_env ex_router_start s(1,2)] ex_router_env ex_router_start s(3,4) by force
qed

end
