(* ===== verification/Serve_Metrics.thy ===== *)
theory Serve_Metrics
  imports Ray_Prelude
begin

text \<open>
  \<open>InMemoryMetricsStore\<close> of \<open>serve/autoscaling_metrics.py\<close>: a time series per key, kept sorted by
  binary insertion, and the average over a window that ends now. \<open>bisect_right\<close> and \<open>insort\<close> (\<open>insort_right\<close>) are
  the functions of Python's \<open>bisect\<close> module, as loops; points are compared by their timestamps only.
\<close>

section \<open>The store\<close>

record time_stamped_value =
  timestamp :: rat
  point_value :: rat

type_synonym metrics_store = "(string, time_stamped_value list) dict"

function bisect_loop :: "time_stamped_value list \<Rightarrow> rat \<Rightarrow> nat \<Rightarrow> nat \<Rightarrow> nat" where
  "bisect_loop a x lo hi =
     (if lo < hi then
        let mid = (lo + hi) div 2
        in if x < timestamp (a ! mid) then bisect_loop a x lo mid else bisect_loop a x (mid + 1) hi
      else lo)"
  by pat_completeness auto
termination
  by (relation "measure (\<lambda>(a, x, lo, hi). hi - lo)") auto

declare bisect_loop.simps [simp del]

definition bisect_right :: "time_stamped_value list \<Rightarrow> rat \<Rightarrow> nat" where
  "bisect_right a x = bisect_loop a x 0 (length a)"

definition insort_right :: "time_stamped_value list \<Rightarrow> time_stamped_value \<Rightarrow> time_stamped_value list" where
  "insort_right a x = (let i = bisect_right a (timestamp x) in take i a @ x # drop i a)"

fun add_metrics_point :: "(string, rat) dict \<Rightarrow> rat \<Rightarrow> metrics_store \<Rightarrow> metrics_store" where
  "add_metrics_point [] t store = store"
| "add_metrics_point ((name, v) # data_points) t store =
     add_metrics_point data_points t
       (dset store name (insort_right (dget_or store name []) \<lparr>timestamp = t, point_value = v\<rparr>))"

text \<open>Reading \<open>self.data[key]\<close> enters an empty series for a new key.\<close>

definition window_average :: "string \<Rightarrow> rat \<Rightarrow> bool \<Rightarrow> metrics_store \<Rightarrow> rat option \<times> metrics_store" where
  "window_average key window_start_timestamp_s do_compact store =
     (let datapoints = dget_or store key [];
          points_after_idx = drop (bisect_right datapoints window_start_timestamp_s) datapoints
      in (if length points_after_idx = 0 then None
          else Some (sum_list (map point_value points_after_idx) / of_nat (length points_after_idx)),
          dset store key (if do_compact then points_after_idx else datapoints)))"

section \<open>The series stay sorted\<close>

abbreviation sorted_points :: "time_stamped_value list \<Rightarrow> bool" where
  "sorted_points a \<equiv> sorted (map timestamp a)"

definition metrics_ok :: "metrics_store \<Rightarrow> bool" where
  "metrics_ok store \<longleftrightarrow> (\<forall>key. sorted_points (dget_or store key []))"

lemma bisect_loop_split:
  assumes "sorted_points a" and "lo \<le> hi" and "hi \<le> length a"
    and "\<forall>i < lo. timestamp (a ! i) \<le> x" and "\<forall>i < length a. hi \<le> i \<longrightarrow> x < timestamp (a ! i)"
  shows "bisect_loop a x lo hi \<le> length a \<and> (\<forall>i < bisect_loop a x lo hi. timestamp (a ! i) \<le> x)
    \<and> (\<forall>i < length a. bisect_loop a x lo hi \<le> i \<longrightarrow> x < timestamp (a ! i))"
  using assms
proof (induction a x lo hi rule: bisect_loop.induct)
  case (1 a x lo hi)
  show ?case
  proof (cases "lo < hi")
    case False
    then have "bisect_loop a x lo hi = lo" by (subst bisect_loop.simps) simp
    then show ?thesis using "1.prems" False by simp
  next
    case True
    define mid where "mid = (lo + hi) div 2"
    have mid: "lo \<le> mid" "mid < hi" "mid < length a" using True "1.prems"(3) by (auto simp: mid_def)
    have mono: "timestamp (a ! i) \<le> timestamp (a ! j)" if "i \<le> j" "j < length a" for i j
      using sorted_nth_mono [OF "1.prems"(1), of i j] that by simp
    show ?thesis
    proof (cases "x < timestamp (a ! mid)")
      case less: True
      have up: "\<forall>i < length a. mid \<le> i \<longrightarrow> x < timestamp (a ! i)"
      proof (intro allI impI)
        fix i assume "i < length a" "mid \<le> i"
        then show "x < timestamp (a ! i)" using less mono [of mid i] by simp
      qed
      have eq: "bisect_loop a x lo hi = bisect_loop a x lo mid"
        using True less by (subst bisect_loop.simps) (simp add: Let_def flip: mid_def)
      show ?thesis
        unfolding eq by (rule "1.IH"(1) [OF True mid_def less "1.prems"(1) mid(1) less_imp_le [OF mid(3)] "1.prems"(4) up])
    next
      case ge: False
      have down: "\<forall>i < mid + 1. timestamp (a ! i) \<le> x"
      proof (intro allI impI)
        fix i assume "i < mid + 1"
        then show "timestamp (a ! i) \<le> x" using ge mono [of i mid] mid(3) by simp
      qed
      have eq: "bisect_loop a x lo hi = bisect_loop a x (mid + 1) hi"
        using True ge by (subst bisect_loop.simps) (simp add: Let_def flip: mid_def)
      show ?thesis
        unfolding eq using mid(2) by (intro "1.IH"(2) [OF True mid_def ge "1.prems"(1) _ "1.prems"(3) down "1.prems"(5)]) simp
    qed
  qed
qed

lemma bisect_right_split:
  assumes "sorted_points a"
  shows "take (bisect_right a x) a = filter (\<lambda>p. timestamp p \<le> x) a" "drop (bisect_right a x) a = filter (\<lambda>p. x < timestamp p) a"
proof -
  define i where "i = bisect_right a x"
  have i: "i \<le> length a" "\<forall>j < i. timestamp (a ! j) \<le> x" "\<forall>j < length a. i \<le> j \<longrightarrow> x < timestamp (a ! j)"
    using bisect_loop_split [OF assms, of 0 "length a" x] by (auto simp: i_def bisect_right_def)
  have lo: "\<forall>p \<in> set (take i a). timestamp p \<le> x" using i by (auto simp: in_set_conv_nth)
  have hi: "\<forall>p \<in> set (drop i a). x < timestamp p" using i by (auto simp: in_set_conv_nth)
  have "filter (\<lambda>p. timestamp p \<le> x) (take i a @ drop i a) = take i a"
    using lo hi by (subst filter_append) (auto simp: filter_id_conv filter_empty_conv not_le)
  moreover have "filter (\<lambda>p. x < timestamp p) (take i a @ drop i a) = drop i a"
    using lo hi by (subst filter_append) (auto simp: filter_id_conv filter_empty_conv not_less)
  ultimately show "take (bisect_right a x) a = filter (\<lambda>p. timestamp p \<le> x) a"
    "drop (bisect_right a x) a = filter (\<lambda>p. x < timestamp p) a"
    by (simp_all add: i_def)
qed

lemma insort_right_sorted:
  assumes "sorted_points a"
  shows "sorted_points (insort_right a x)"
  using assms sorted_filter [OF assms, of "\<lambda>p. timestamp p \<le> timestamp x"] sorted_filter [OF assms, of "\<lambda>p. timestamp x < timestamp p"]
  by (auto simp: insort_right_def Let_def bisect_right_split [OF assms] sorted_append)

lemma add_metrics_point_ok: "metrics_ok store \<Longrightarrow> metrics_ok (add_metrics_point data t store)"
  by (induction data t store rule: add_metrics_point.induct) (simp_all add: metrics_ok_def insort_right_sorted)

lemma window_average_ok: "metrics_ok store \<Longrightarrow> metrics_ok (snd (window_average key start c store))"
  by (simp add: window_average_def Let_def metrics_ok_def bisect_right_split sorted_filter)

inductive metrics_step :: "metrics_store \<Rightarrow> metrics_store \<Rightarrow> bool" where
  add: "metrics_step store (add_metrics_point data t store)"
| query: "metrics_step store (snd (window_average key start c store))"

interpretation metrics: invariant_system "\<lambda>s. s = []" metrics_step metrics_ok
proof unfold_locales
  show "metrics_ok s" if "s = []" for s :: metrics_store using that by (simp add: metrics_ok_def)
  show "metrics_ok t" if "metrics_ok s" "metrics_step s t" for s t
    using that(2,1) by (cases rule: metrics_step.cases) (auto intro: add_metrics_point_ok window_average_ok)
qed

section \<open>What a window returns\<close>

datatype metrics_op = Add "(string, rat) dict" rat | Query string rat bool

fun run_metrics :: "metrics_op list \<Rightarrow> metrics_store \<Rightarrow> metrics_store" where
  "run_metrics [] store = store"
| "run_metrics (Add data t # ops) store = run_metrics ops (add_metrics_point data t store)"
| "run_metrics (Query key start c # ops) store = run_metrics ops (snd (window_average key start c store))"

text \<open>The points of a key that were ever added, and the starts of the windows its series was compacted to.\<close>

fun points_added :: "string \<Rightarrow> metrics_op list \<Rightarrow> time_stamped_value list" where
  "points_added key [] = []"
| "points_added key (Add data t # ops) =
     map (\<lambda>(_, v). \<lparr>timestamp = t, point_value = v\<rparr>) (filter (\<lambda>(name, _). name = key) data) @ points_added key ops"
| "points_added key (Query _ _ _ # ops) = points_added key ops"

fun compactions :: "string \<Rightarrow> metrics_op list \<Rightarrow> rat list" where
  "compactions key [] = []"
| "compactions key (Add _ _ # ops) = compactions key ops"
| "compactions key (Query key' start c # ops) = (if c \<and> key' = key then [start] else []) @ compactions key ops"

abbreviation after :: "rat \<Rightarrow> time_stamped_value list \<Rightarrow> time_stamped_value list" where
  "after t a \<equiv> filter (\<lambda>p. t < timestamp p) a"

definition average :: "time_stamped_value list \<Rightarrow> rat option" where
  "average a = (if a = [] then None else Some (sum_list (map point_value a) / of_nat (length a)))"

lemma average_cong: "mset a = mset b \<Longrightarrow> average a = average b"
  using sum_mset_sum_list [of "map point_value a"] sum_mset_sum_list [of "map point_value b"]
  by (auto simp: average_def dest: mset_eq_length arg_cong [where f = "image_mset point_value"])

lemma mset_insort_right: "mset (insort_right a x) = add_mset x (mset a)"
proof -
  have "mset (take i a) + mset (drop i a) = mset a" for i by (simp flip: mset_append)
  then show ?thesis by (simp add: insort_right_def Let_def)
qed

lemma add_metrics_point_mset:
  "mset (dget_or (add_metrics_point data t store) key []) =
     mset (dget_or store key []) + mset (map (\<lambda>(_, v). \<lparr>timestamp = t, point_value = v\<rparr>) (filter (\<lambda>(name, _). name = key) data))"
  by (induction data t store rule: add_metrics_point.induct) (auto simp: mset_insort_right)

lemma run_metrics_ok: "metrics_ok store \<Longrightarrow> metrics_ok (run_metrics ops store)"
  by (induction ops store rule: run_metrics.induct) (auto intro: add_metrics_point_ok window_average_ok)

lemma run_metrics_points:
  assumes "metrics_ok store" and "\<forall>s \<in> set (compactions key ops). s \<le> t"
  shows "mset (after t (dget_or (run_metrics ops store) key [])) = mset (after t (dget_or store key [])) + mset (after t (points_added key ops))"
  using assms
proof (induction ops store rule: run_metrics.induct)
  case (2 data t' ops store)
  then show ?case by (simp add: add_metrics_point_ok add_metrics_point_mset mset_filter)
next
  case (3 key' start c ops store)
  have "after t (dget_or (snd (window_average key' start c store)) key []) = after t (dget_or store key [])"
    using "3.prems" by (auto simp: window_average_def Let_def metrics_ok_def bisect_right_split intro!: filter_cong)
  then show ?case using 3 by (simp add: window_average_ok)
qed simp

text \<open>
  C27: Whatever was added and asked before, a window average of a key is the mean of all the points ever added for the
  key with a timestamp after the start of the window, and \<open>None\<close> if there are none, provided no earlier query has
  compacted the series to a window that starts later. A point exactly at the start is left out.
\<close>

theorem window_average_exact:
  assumes "\<forall>s \<in> set (compactions key ops). s \<le> start"
  shows "fst (window_average key start c (run_metrics ops [])) = average (after start (points_added key ops))"
proof -
  have nil: "metrics_ok []" by (simp add: metrics_ok_def)
  have "sorted_points (dget_or (run_metrics ops []) key [])" using run_metrics_ok [OF nil] by (simp add: metrics_ok_def)
  then have "fst (window_average key start c (run_metrics ops [])) = average (after start (dget_or (run_metrics ops []) key []))"
    unfolding window_average_def Let_def average_def by (simp add: bisect_right_split del: length_drop drop_eq_Nil)
  also have "\<dots> = average (after start (points_added key ops))"
    using run_metrics_points [OF nil assms] by (intro average_cong) simp
  finally show ?thesis .
qed

theorem window_average_exact_witness:
  "fst (window_average ''r'' 2 True (run_metrics [Add [(''r'', 4)] 3, Query ''r'' 1 True, Add [(''r'', 9)] 2, Add [(''r'', 8)] 5] [])) = Some 6"
  using window_average_exact [of "''r''" "[Add [(''r'', 4)] 3, Query ''r'' 1 True, Add [(''r'', 9)] 2, Add [(''r'', 8)] 5]" 2 True]
  by (simp add: average_def)

end
