(* ===== verification/Serve_Controller.thy ===== *)
theory Serve_Controller
  imports Deployment_Recovery Endpoint_State Serve_Metrics
begin

text \<open>
  \<open>ServeController\<close> of \<open>serve/controller.py\<close>: deploying and deleting through both the
  deployment manager and the endpoint table, and the control loop that lets the autoscaling policies
  change the targets from the measured load before the deployments are updated.

  The managers write to the same store under different keys and notify the same long-poll host under
  different keys; each has its own part of both here. An autoscaling policy is mutated in place and
  shared by copies of a deployment's info: \<open>set_policy\<close> replaces it, by its identity, in the target
  and in the rollback info. HTTP proxies and the snapshot for the dashboard are not modelled.
\<close>

section \<open>State\<close>

record ('w, 'k, 'e) serve_controller =
  sc_manager :: "('w, 'k) deployment_manager"
  sc_endpoints :: "'e endpoint_state"
  sc_metrics :: metrics_store

type_synonym ('w, 'k, 'e, 'a) serve_prog = "(('w, 'k, 'e) serve_controller, 'a) prog"

definition on_manager :: "('w, 'k, 'a) manager_prog \<Rightarrow> ('w, 'k, 'e, 'a) serve_prog" where
  "on_manager f c = (let (res, m) = f (sc_manager c) in (res, c\<lparr>sc_manager := m\<rparr>))"

text \<open>Reading the clock, and the random number for the first notification of a key.\<close>

definition sc_world :: "('w \<Rightarrow> 'a \<times> 'w) \<Rightarrow> ('w, 'k, 'e, 'a) serve_prog" where
  "sc_world f c =
     (let s = dsm_controller (sc_manager c); (x, w) = f (ctl_world s)
      in (Inr x, c\<lparr>sc_manager := (sc_manager c)\<lparr>dsm_controller := s\<lparr>ctl_world := w\<rparr>\<rparr>\<rparr>))"

definition route_randint :: "'w ray_ops \<Rightarrow> ('w, 'k, 'e, int) serve_prog" where
  "route_randint ray c =
     (if dmem ROUTE_TABLE (lp_snapshot_ids (es_long_poll_host (sc_endpoints c))) then (Inr 0, c)
      else sc_world (py_randint ray) c)"

definition record_autoscaling_metrics :: "(string, rat) dict \<Rightarrow> rat \<Rightarrow> ('w, 'k, 'e, unit) serve_prog" where
  "record_autoscaling_metrics data send_timestamp =
     modifyS (\<lambda>c. c\<lparr>sc_metrics := add_metrics_point data send_timestamp (sc_metrics c)\<rparr>)"

section \<open>Queries\<close>

definition list_deployments ::
  "bool \<Rightarrow> ('w, 'k, 'e) serve_controller \<Rightarrow> (string, deployment_info option \<times> string option) dict result" where
  "list_deployments include_deleted c =
     bindE (get_deployment_configs None include_deleted (sc_manager c)) (\<lambda>configs.
       Inr (map (\<lambda>(name, _). (name, get_deployment name include_deleted (sc_manager c),
                                    get_endpoint_route name (sc_endpoints c))) configs))"

definition get_deployment_info ::
  "string \<Rightarrow> ('w, 'k, 'e) serve_controller \<Rightarrow> (deployment_info \<times> string option) result" where
  "get_deployment_info name c =
     (case get_deployment name False (sc_manager c) of
        None \<Rightarrow> Inl KeyError
      | Some info \<Rightarrow> Inr (info, get_endpoint_route name (sc_endpoints c)))"

section \<open>Autoscaling\<close>

definition info_set_policy :: "nat \<Rightarrow> basic_policy \<Rightarrow> deployment_info \<Rightarrow> deployment_info" where
  "info_set_policy pid p info =
     (case autoscaling_policy info of
        None \<Rightarrow> info
      | Some (i, _) \<Rightarrow> if i = pid then info\<lparr>autoscaling_policy := Some (pid, p)\<rparr> else info)"

definition set_policy :: "nat \<Rightarrow> basic_policy \<Rightarrow> deployment_state \<Rightarrow> deployment_state" where
  "set_policy pid p d =
     d\<lparr>dep_target_info := map_option (info_set_policy pid p) (dep_target_info d),
       dep_rollback_info := map_option (info_set_policy pid p) (dep_rollback_info d)\<rparr>"

fun measure_replicas :: "'w ray_ops \<Rightarrow> rat \<Rightarrow> deployment_replica list \<Rightarrow> ('w, 'k, 'e, rat list) serve_prog" where
  "measure_replicas ray look_back [] = retS []"
| "measure_replicas ray look_back (replica # replicas) =
     bindS (sc_world (py_time ray)) (\<lambda>t.
     bindS (\<lambda>c. let (avg, store) = window_average (rep_tag replica) (t - look_back) True (sc_metrics c)
                in (Inr avg, c\<lparr>sc_metrics := store\<rparr>)) (\<lambda>num_ongoing_requests.
     bindS (measure_replicas ray look_back replicas) (\<lambda>rest.
       retS (case num_ongoing_requests of None \<Rightarrow> rest | Some x \<Rightarrow> x # rest))))"

text \<open>\<open>validate_assignment\<close>: the number of replicas is a \<open>PositiveInt\<close>.\<close>

definition with_num_replicas :: "int \<Rightarrow> deployment_config \<Rightarrow> deployment_config result" where
  "with_num_replicas n config = (if n > 0 then Inr (config\<lparr>num_replicas := n\<rparr>) else Inl ValueError)"

definition scale_to_decision ::
  "'w ray_ops \<Rightarrow> ('k, 'b) kv_ops \<Rightarrow> (checkpoint, 'b) pickle \<Rightarrow> string \<Rightarrow> deployment_info \<Rightarrow> nat \<Rightarrow> basic_policy \<Rightarrow> rat list
     \<Rightarrow> ('w, 'k, 'e, unit) serve_prog" where
  "scale_to_decision ray kv pk name info pid p reqs =
     bindS (liftS (get_decision_num_replicas reqs (num_replicas (deployment_config info)) p)) (\<lambda>(n, p').
     thenS (on_manager (modifyS (\<lambda>m. m\<lparr>dsm_states := map (\<lambda>(k, d). (k, if k = name then set_policy pid p' d else d)) (dsm_states m)\<rparr>)))
    (bindS (liftS (with_num_replicas n (deployment_config info))) (\<lambda>config.
     bindS (on_manager (dsm_deploy ray kv pk name
              (info\<lparr>deployment_config := config, autoscaling_policy := Some (pid, p')\<rparr>))) (\<lambda>_.
     retS ()))))"

definition autoscale_deployment ::
  "'w ray_ops \<Rightarrow> ('k, 'b) kv_ops \<Rightarrow> (checkpoint, 'b) pickle \<Rightarrow> string \<times> deployment_info option \<times> string option
     \<Rightarrow> ('w, 'k, 'e, unit) serve_prog" where
  "autoscale_deployment ray kv pk = (\<lambda>(name, deployment_info, _).
     case deployment_info of
       None \<Rightarrow> raiseS AttributeError
     | Some info \<Rightarrow>
         (case autoscaling_policy info of
            None \<Rightarrow> retS ()
          | Some (pid, p) \<Rightarrow>
              bindS getS (\<lambda>c.
              bindS (liftS (dindex (dsm_states (sc_manager c)) name)) (\<lambda>d.
              bindS (measure_replicas ray (look_back_period_s (policy_config p)) (container_get (Some [RUNNING]) (dep_replicas d))) (\<lambda>reqs.
                if reqs = [] then retS () else scale_to_decision ray kv pk name info pid p reqs)))))"

definition autoscale ::
  "'w ray_ops \<Rightarrow> ('k, 'b) kv_ops \<Rightarrow> (checkpoint, 'b) pickle \<Rightarrow> ('w, 'k, 'e, unit) serve_prog" where
  "autoscale ray kv pk =
     bindS getS (\<lambda>c. bindS (liftS (list_deployments False c)) (forS (autoscale_deployment ray kv pk)))"

text \<open>One round of \<open>run_control_loop\<close>; every exception is caught and logged.\<close>

definition control_loop_round ::
  "'w ray_ops \<Rightarrow> ('k, 'b) kv_ops \<Rightarrow> (checkpoint, 'b) pickle \<Rightarrow> ('w, 'k, 'e, unit) serve_prog" where
  "control_loop_round ray kv pk =
     thenS (quietS (autoscale ray kv pk)) (quietS (bindS (on_manager (dsm_update ray kv pk)) (\<lambda>_. retS ())))"

section \<open>Deploying and deleting\<close>

text \<open>The identity of a new policy object differs from those in use.\<close>

definition policy_ids :: "('w, 'k) deployment_manager \<Rightarrow> nat list" where
  "policy_ids m =
     concat (map (\<lambda>(_, d). map fst (List.map_filter autoscaling_policy
        (List.map_filter id [dep_target_info d, dep_rollback_info d]))) (dsm_states m))"

definition fresh_policy_id :: "('w, 'k) deployment_manager \<Rightarrow> nat" where
  "fresh_policy_id m = Suc (fold max (policy_ids m) 0)"

definition check_prev_version :: "string option \<Rightarrow> deployment_info option \<Rightarrow> unit result" where
  "check_prev_version prev_version existing =
     (case prev_version of
        None \<Rightarrow> Inr ()
      | Some prev \<Rightarrow>
          (case existing of
             None \<Rightarrow> Inl ValueError
           | Some info \<Rightarrow>
               if info_version info = None \<or> info_version info = Some [] then Inl ValueError
               else if info_version info \<noteq> Some prev then Inl ValueError else Inr ()))"

definition autoscaled_config ::
  "nat \<Rightarrow> deployment_config \<Rightarrow> (deployment_config \<times> (nat \<times> basic_policy) option) result" where
  "autoscaled_config pid config =
     (case autoscaling_config config of
        None \<Rightarrow> Inr (config, None)
      | Some a \<Rightarrow> bindE (with_num_replicas (min_replicas a) config) (\<lambda>config'. Inr (config', Some (pid, init_basic_policy a))))"

text \<open>
  \<open>deploy\<close>, given the decoded configuration and the resources of the replica configuration. An
  exception of \<open>update_endpoint\<close> leaves the deployment deployed.
\<close>

definition sc_deploy ::
  "'w ray_ops \<Rightarrow> ('k, 'b) kv_ops \<Rightarrow> (checkpoint, 'b) pickle \<Rightarrow> ('e, 'f) kv_ops \<Rightarrow> (endpoints, 'f) pickle \<Rightarrow> string
     \<Rightarrow> deployment_config \<Rightarrow> (string, rat) dict \<Rightarrow> string option \<Rightarrow> string option \<Rightarrow> string option
     \<Rightarrow> ('w, 'k, 'e, goal_id option \<times> bool) serve_prog" where
  "sc_deploy ray kv pk ekv epk name config resources version prev_version route_prefix =
     thenS (assertS (case route_prefix of None \<Rightarrow> True | Some r \<Rightarrow> take 1 r = ''/''))
    (bindS getS (\<lambda>c.
     thenS (liftS (check_prev_version prev_version (get_deployment name False (sc_manager c))))
    (bindS (liftS (autoscaled_config (fresh_policy_id (sc_manager c)) config)) (\<lambda>(config', policy).
     bindS (sc_world (py_time ray)) (\<lambda>t.
     bindS (on_manager (dsm_deploy ray kv pk name
         \<lparr>deployment_config = config', resource_dict = resources, start_time_ms = py_int (t * 1000),
          info_version = version, end_time_ms = None, autoscaling_policy = policy\<rparr>)) (\<lambda>goal.
     bindS (route_randint ray) (\<lambda>i.
     bindS getS (\<lambda>c1.
     bindS (liftS (update_endpoint ekv epk i name \<lparr>route = route_prefix\<rparr> (sc_endpoints c1))) (\<lambda>es.
     thenS (modifyS (\<lambda>c. c\<lparr>sc_endpoints := es\<rparr>)) (retS goal))))))))))"

definition sc_delete_deployment ::
  "'w ray_ops \<Rightarrow> ('k, 'b) kv_ops \<Rightarrow> (checkpoint, 'b) pickle \<Rightarrow> ('e, 'f) kv_ops \<Rightarrow> (endpoints, 'f) pickle \<Rightarrow> string
     \<Rightarrow> ('w, 'k, 'e, goal_id option) serve_prog" where
  "sc_delete_deployment ray kv pk ekv epk name =
     bindS (route_randint ray) (\<lambda>i.
     thenS (modifyS (\<lambda>c. c\<lparr>sc_endpoints := delete_endpoint ekv epk i name (sc_endpoints c)\<rparr>))
       (on_manager (delete_deployment ray kv pk name)))"

definition sc_shutdown ::
  "'w ray_ops \<Rightarrow> ('k, 'b) kv_ops \<Rightarrow> (checkpoint, 'b) pickle \<Rightarrow> ('e, 'f) kv_ops \<Rightarrow> ('w, 'k, 'e, goal_id list) serve_prog" where
  "sc_shutdown ray kv pk ekv =
     bindS (on_manager (dsm_shutdown ray kv pk)) (\<lambda>goal_ids.
     thenS (modifyS (\<lambda>c. c\<lparr>sc_endpoints := es_shutdown ekv (sc_endpoints c)\<rparr>)) (retS goal_ids))"

section \<open>One autoscaling step\<close>

lemma map_of_map_key: "map_of (map (\<lambda>(k, v). (k, f k v)) xs) k = map_option (f k) (map_of xs k)"
  by (induction xs) auto

text \<open>Measuring reads the clock and compacts the metrics; nothing else changes.\<close>

lemma measure_keeps:
  assumes "measure_replicas ray look_back rs c = (res, c1)"
  shows "dsm_states (sc_manager c1) = dsm_states (sc_manager c)
    \<and> ctl_goals (dsm_controller (sc_manager c1)) = ctl_goals (dsm_controller (sc_manager c))"
  using assms
proof (induction rs arbitrary: c res c1)
  case (Cons r rs)
  obtain t w where w: "py_time ray (ctl_world (dsm_controller (sc_manager c))) = (t, w)" by fastforce
  let ?c = "c\<lparr>sc_manager := (sc_manager c)\<lparr>dsm_controller := (dsm_controller (sc_manager c))\<lparr>ctl_world := w\<rparr>\<rparr>\<rparr>"
  obtain avg store where a: "window_average (rep_tag r) (t - look_back) True (sc_metrics c) = (avg, store)" by fastforce
  obtain res2 c2 where m: "measure_replicas ray look_back rs (?c\<lparr>sc_metrics := store\<rparr>) = (res2, c2)" by fastforce
  then have "c1 = c2" using Cons.prems w a
    by (cases res2) (auto simp: bindS_def sc_world_def retS_def Let_def split: option.splits)
  then show ?case using Cons.IH [OF m] by simp
qed (simp add: retS_def)

text \<open>A deployment that is known is deployed in place.\<close>

lemma dep_deploy_same:
  assumes "dep_target_info d = Some existing" and "deployment_config existing = deployment_config info"
    and "info_version info \<noteq> None" and "info_version existing = info_version info"
  shows "dep_deploy ray save info (d, s) = (Inr (dep_curr_goal d, False), (d, s))"
  using assms by (auto simp: dep_deploy_def bindS_def dep_get_def retS_def Let_def)

lemma dep_deploy_changes:
  assumes goals: "goals_ok (ctl_goals s)" and save: "\<And>d s. ctl_goals (save d s) = ctl_goals s" and ex: "dep_target_info d = Some existing"
    and change: "\<not> (deployment_config existing = deployment_config info \<and> info_version info \<noteq> None \<and> info_version existing = info_version info)"
  shows "\<exists>g v s'. dep_deploy ray save info (d, s) = (Inr (Some g, True),
    (d\<lparr>dep_rollback_info := Some existing, dep_replica_constructor_retry_counter := 0,
       dep_target_info := Some (info\<lparr>start_time_ms := start_time_ms existing\<rparr>), dep_target_replicas := num_replicas (deployment_config info),
       dep_target_version := Some v, dep_curr_goal := Some g\<rparr>, s'))"
proof -
  obtain uuid w where u: "py_uuid4 ray (ctl_world s) = (uuid, w)" by fastforce
  obtain g m where g: "create_goal None uuid (ctl_goals s) = (g, m)" by fastforce
  have m: "goals_ok m" using create_goals_ok [OF goals, of None uuid] g by simp
  have complete: "dep_complete_goal h None (d', s1) = (Inr (), (d', s1\<lparr>ctl_goals := case h of None \<Rightarrow> m | Some g \<Rightarrow> snd (complete_goal g None m)\<rparr>))"
    if "ctl_goals s1 = m" for h d' and s1 :: "('a, 'b) controller"
    using that complete_goal_eq [OF m] by (cases h) (auto simp: dep_complete_goal_def Let_def)
  obtain letters w2 where l: "py_random_letters ray w = (letters, w2)" by fastforce
  show ?thesis
    using change ex u g l
    by (cases "info_version info") (auto simp: dep_deploy_def set_deployment_goal_def dep_create_goal_def bindS_def thenS_def dep_get_def
        dep_modify_def retS_def run_save_def world_action_def Let_def complete save)
qed

lemma dsm_deploy_known:
  assumes "map_of (dsm_states m) name = Some d"
    and "dep_deploy ray (\<lambda>d'. save_checkpoint kv pk (dset (dsm_states m) name d') (ddel (dsm_deleted_metadata m) name)) info (d, dsm_controller m)
      = (res, (d', s'))"
  shows "dsm_deploy ray kv pk name info m =
    (res, m\<lparr>dsm_deleted_metadata := ddel (dsm_deleted_metadata m) name, dsm_states := dset (dsm_states m) name d', dsm_controller := s'\<rparr>)"
  using assms by (simp add: dsm_deploy_def thenS_def bindS_def getS_def modifyS_def retS_def dmem_def on_deployment_def Let_def)

definition decision_applied :: "deployment_info \<Rightarrow> int \<Rightarrow> nat \<times> basic_policy \<Rightarrow> deployment_state \<Rightarrow> deployment_state \<Rightarrow> bool" where
  "decision_applied info n policy d d2 \<longleftrightarrow>
     dep_replicas d2 = dep_replicas d
     \<and> (\<exists>info2. dep_target_info d2 = Some info2 \<and> deployment_config info2 = (deployment_config info)\<lparr>num_replicas := n\<rparr>
          \<and> autoscaling_policy info2 = Some policy)
     \<and> (if n = num_replicas (deployment_config info) \<and> info_version info \<noteq> None
        then dep_target_replicas d2 = dep_target_replicas d \<and> dep_target_version d2 = dep_target_version d \<and> dep_curr_goal d2 = dep_curr_goal d
        else dep_target_replicas d2 = n \<and> dep_replica_constructor_retry_counter d2 = 0)"

lemma config_num_replicas: "config = config\<lparr>num_replicas := n\<rparr> \<longleftrightarrow> n = num_replicas (config :: deployment_config)"
  by (metis deployment_config.select_convs(1) deployment_config.surjective deployment_config.update_convs(1))

lemma deploy_decision:
  assumes goals: "goals_ok (ctl_goals s)" and save: "\<And>d s. ctl_goals (save d s) = ctl_goals s"
    and info: "dep_target_info d = Some info" and pol: "autoscaling_policy info = Some (pid, p)"
  shows "\<exists>r d2 s'. dep_deploy ray save (info\<lparr>deployment_config := (deployment_config info)\<lparr>num_replicas := n\<rparr>, autoscaling_policy := Some (pid, p')\<rparr>)
    (set_policy pid p' d, s) = (Inr r, (d2, s')) \<and> decision_applied info n (pid, p') d d2"
proof -
  let ?existing = "info\<lparr>autoscaling_policy := Some (pid, p')\<rparr>"
  let ?info = "info\<lparr>deployment_config := (deployment_config info)\<lparr>num_replicas := n\<rparr>, autoscaling_policy := Some (pid, p')\<rparr>"
  have ex: "dep_target_info (set_policy pid p' d) = Some ?existing" by (simp add: set_policy_def info info_set_policy_def pol)
  show ?thesis
  proof (cases "n = num_replicas (deployment_config info) \<and> info_version info \<noteq> None")
    case True
    then have "dep_deploy ray save ?info (set_policy pid p' d, s) = (Inr (dep_curr_goal (set_policy pid p' d), False), (set_policy pid p' d, s))"
      by (intro dep_deploy_same [OF ex]) auto
    then show ?thesis using True ex by (auto simp: decision_applied_def set_policy_def)
  next
    case False
    then have "\<not> (deployment_config ?existing = deployment_config ?info \<and> info_version ?info \<noteq> None \<and> info_version ?existing = info_version ?info)"
      using config_num_replicas [of "deployment_config info" n] by simp
    from dep_deploy_changes [OF goals save ex this, of ray] show ?thesis
      using False by (fastforce simp: decision_applied_def set_policy_def)
  qed
qed

text \<open>
  C16: What autoscaling does with a deployment for which some running replica has been measured. If the policy decides for
  \<open>n > 0\<close> replicas, the step returns, the configuration of the target has \<open>n\<close> replicas, the policy object is
  advanced, and the replicas are left alone. The rest of the target stays as it is only if the decision is the configured
  number and the deployment has a version; otherwise the deployment is deployed again, its target becomes \<open>n\<close>, whatever
  it was before (zero when it is being deleted), and for a deployment without a version this happens in every round.
\<close>

theorem autoscale_applies_decision:
  assumes goals: "goals_ok (ctl_goals (dsm_controller (sc_manager c)))" and d: "map_of (dsm_states (sc_manager c)) name = Some d"
    and info: "dep_target_info d = Some info" and pol: "autoscaling_policy info = Some (pid, p)"
    and measured: "measure_replicas ray (look_back_period_s (policy_config p)) (container_get (Some [RUNNING]) (dep_replicas d)) c = (Inr reqs, c1)"
      "reqs \<noteq> []"
    and decision: "get_decision_num_replicas reqs (num_replicas (deployment_config info)) p = Inr (n, p')" "n > 0"
  shows "\<exists>c2 d2. autoscale_deployment ray kv pk (name, get_deployment name False (sc_manager c), rt) c = (Inr (), c2)
    \<and> map_of (dsm_states (sc_manager c2)) name = Some d2 \<and> decision_applied info n (pid, p') d d2"
proof -
  define m where "m = (sc_manager c1)\<lparr>dsm_states := map (\<lambda>(k, d). (k, if k = name then set_policy pid p' d else d)) (dsm_states (sc_manager c1))\<rparr>"
  have keep: "dsm_states (sc_manager c1) = dsm_states (sc_manager c)" "goals_ok (ctl_goals (dsm_controller m))"
    using measure_keeps [OF measured(1)] goals by (simp_all add: m_def)
  have md: "map_of (dsm_states m) name = Some (set_policy pid p' d)"
    using map_of_map_key [of "\<lambda>k d. if k = name then set_policy pid p' d else d"] by (simp add: m_def keep d)
  let ?info = "info\<lparr>deployment_config := (deployment_config info)\<lparr>num_replicas := n\<rparr>, autoscaling_policy := Some (pid, p')\<rparr>"
  let ?save = "\<lambda>d'. save_checkpoint kv pk (dset (dsm_states m) name d') (ddel (dsm_deleted_metadata m) name)"
  have save: "ctl_goals (?save d s) = ctl_goals s" for d s by (simp add: save_checkpoint_def)
  obtain r d2 s' where dep: "dep_deploy ray ?save ?info (set_policy pid p' d, dsm_controller m) = (Inr r, (d2, s'))"
    and applied: "decision_applied info n (pid, p') d d2"
    using deploy_decision [where ray = ray and n = n and p' = p' and save = ?save, OF keep(2) save info pol] by blast
  have deploy: "dsm_deploy ray kv pk name ?info m =
      (Inr r, m\<lparr>dsm_deleted_metadata := ddel (dsm_deleted_metadata m) name, dsm_states := dset (dsm_states m) name d2, dsm_controller := s'\<rparr>)"
    by (rule dsm_deploy_known [OF md dep])
  have "get_deployment name False (sc_manager c) = Some info" by (simp add: get_deployment_def d info)
  then have "autoscale_deployment ray kv pk (name, get_deployment name False (sc_manager c), rt) c = scale_to_decision ray kv pk name info pid p reqs c1"
    using d pol measured by (simp add: autoscale_deployment_def bindS_def getS_def liftS_def)
  also have "\<dots> = (Inr (), c1\<lparr>sc_manager := m\<lparr>dsm_deleted_metadata := ddel (dsm_deleted_metadata m) name,
      dsm_states := dset (dsm_states m) name d2, dsm_controller := s'\<rparr>\<rparr>)"
    using decision deploy
    by (simp add: scale_to_decision_def bindS_def thenS_def liftS_def on_manager_def modifyS_def retS_def with_num_replicas_def flip: m_def)
  finally show ?thesis using applied by auto
qed

section \<open>Example\<close>

text \<open>A deployment that scales between one and two replicas, without a delay upwards.\<close>

definition ex_autoscaled :: deployment_config where
  "ex_autoscaled = (ex_config 1)\<lparr>autoscaling_config := Some \<lparr>min_replicas = 1, max_replicas = 2,
     target_num_ongoing_requests_per_replica = 1, metrics_interval_s = 10, look_back_period_s = 30, smoothing_factor = 1,
     downscale_delay_s = 600, upscale_delay_s = 0\<rparr>\<rparr>"

definition ex_serve :: "(nat, checkpoint local_kv_store, endpoints local_kv_store) serve_controller" where
  "ex_serve = \<lparr>sc_manager = \<lparr>dsm_controller_name = ''ctl'', dsm_detached = False, dsm_states = [], dsm_deleted_metadata = [],
      dsm_controller = ex_ctl0\<rparr>,
    sc_endpoints = init_endpoint_state local_kv ex_pickle 0 ex_local_store init_long_poll_host, sc_metrics = []\<rparr>"

definition ex_serve_round :: "(nat, checkpoint local_kv_store, endpoints local_kv_store, unit) serve_prog" where
  "ex_serve_round = control_loop_round (ex_ray True) local_kv ex_id_pickle"

definition ex_deploy :: "(nat, checkpoint local_kv_store, endpoints local_kv_store, goal_id option \<times> bool) serve_prog" where
  "ex_deploy = sc_deploy (ex_ray True) local_kv ex_id_pickle local_kv ex_pickle ''dep'' ex_autoscaled [(''CPU'', 1)] (Some '''') None (Some ''/dep'')"

definition ex_delete :: "(nat, checkpoint local_kv_store, endpoints local_kv_store, goal_id option) serve_prog" where
  "ex_delete = sc_delete_deployment (ex_ray True) local_kv ex_id_pickle local_kv ex_pickle ''dep''"

text \<open>Deployed, started, and with two requests in its one replica.\<close>

definition ex_loaded :: "(nat, checkpoint local_kv_store, endpoints local_kv_store) serve_controller" where
  "ex_loaded = snd (thenS ex_deploy (thenS ex_serve_round (record_autoscaling_metrics [(''dep#1'', 2)] 1)) ex_serve)"

abbreviation target_of :: "string \<Rightarrow> ('w, 'k, 'e) serve_controller \<Rightarrow> int option" where
  "target_of name c \<equiv> map_option dep_target_replicas (map_of (dsm_states (sc_manager c)) name)"

definition ex_dep1 :: deployment_state where
  "ex_dep1 = the (map_of (dsm_states (sc_manager ex_loaded)) ''dep'')"

definition ex_info1 :: deployment_info where
  "ex_info1 = the (dep_target_info ex_dep1)"

definition ex_policy1 :: basic_policy where
  "ex_policy1 = snd (the (autoscaling_policy ex_info1))"

theorem autoscale_applies_decision_witness:
  "\<exists>c2 d2. autoscale_deployment (ex_ray True) local_kv ex_id_pickle (''dep'', get_deployment ''dep'' False (sc_manager ex_loaded), None) ex_loaded
      = (Inr (), c2) \<and> map_of (dsm_states (sc_manager c2)) ''dep'' = Some d2 \<and> dep_target_replicas d2 = 2"
proof -
  let ?m = "measure_replicas (ex_ray True) (look_back_period_s (policy_config ex_policy1)) (container_get (Some [RUNNING]) (dep_replicas ex_dep1)) ex_loaded"
  have "map_of (dsm_states (sc_manager ex_loaded)) ''dep'' \<noteq> None" by code_simp
  then have d: "map_of (dsm_states (sc_manager ex_loaded)) ''dep'' = Some ex_dep1" by (auto simp: ex_dep1_def)
  have "dep_target_info ex_dep1 \<noteq> None" by code_simp
  then have i: "dep_target_info ex_dep1 = Some ex_info1" by (auto simp: ex_info1_def)
  have p: "autoscaling_policy ex_info1 = Some (1, ex_policy1)" by code_simp
  have goals: "goals_ok (ctl_goals (dsm_controller (sc_manager ex_loaded)))" by code_simp
  have "fst ?m = Inr [2]" by code_simp
  then have m: "?m = (Inr [2], snd ?m)" by (metis prod.collapse)
  have n: "get_decision_num_replicas [2] (num_replicas (deployment_config ex_info1)) ex_policy1 = Inr (2, ex_policy1)"
    and cur: "num_replicas (deployment_config ex_info1) = 1" by code_simp+
  show ?thesis
    using autoscale_applies_decision [OF goals d i p m _ n, of local_kv ex_id_pickle None] by (auto simp: decision_applied_def cur)
qed


end
