(* ===== verification/Node_Tracking.thy ===== *)
theory Node_Tracking
  imports Stateful
begin

text \<open>
  The bookkeeping objects of the autoscaler: \<open>ConcurrentCounter\<close> of \<open>util.py\<close>,
  \<open>NodeTracker\<close> of \<open>node_tracker.py\<close> and \<open>EventSummarizer\<close> of
  \<open>event_summarizer.py\<close>. Every method of the counter holds its lock, so each is one
  step.
\<close>

section \<open>ConcurrentCounter\<close>

type_synonym concurrent_counter = "(string, int) dict"

definition counter_value :: "concurrent_counter \<Rightarrow> int" where
  "counter_value c = sum_list (dvalues c)"

definition counter_inc :: "string \<Rightarrow> int \<Rightarrow> (concurrent_counter, int) prog" where
  "counter_inc key n =
     thenS (modifyS (\<lambda>c. dset c key (dget_or c key 0 + n)))
       (bindS getS (\<lambda>c. retS (counter_value c)))"

definition counter_dec :: "string \<Rightarrow> int \<Rightarrow> (concurrent_counter, int) prog" where
  "counter_dec key n =
     thenS (modifyS (\<lambda>c. dset c key (dget_or c key 0 - n)))
       (bindS getS (\<lambda>c.
         thenS (assertS (dget_or c key 0 \<ge> 0)) (retS (counter_value c))))"

definition counter_breakdown :: "concurrent_counter \<Rightarrow> (string, int) dict" where
  "counter_breakdown c = c"

section \<open>NodeTracker\<close>

definition AUTOSCALER_MAX_NODES_TRACKED :: nat where
  "AUTOSCALER_MAX_NODES_TRACKED = 1500"

record node_tracker =
  nt_node_mapping :: "(string, string \<times> string) dict"
  nt_lru_order :: "string list"

definition init_node_tracker :: node_tracker where
  "init_node_tracker = \<lparr>nt_node_mapping = [], nt_lru_order = []\<rparr>"

text \<open>\<open>del self.node_mapping[node_id]\<close>.\<close>

definition nt_delete :: "string \<Rightarrow> (node_tracker, unit) prog" where
  "nt_delete node_id s =
     (if dmem node_id (nt_node_mapping s)
      then (Inr (), s\<lparr>nt_node_mapping := ddel (nt_node_mapping s) node_id\<rparr>)
      else (Inl KeyError, s))"

text \<open>The eviction rebinds \<open>node_id\<close>; it returns the id the entry is then stored under.\<close>

definition nt_evict :: "string \<Rightarrow> (node_tracker, string) prog" where
  "nt_evict node_id s =
     (if length (nt_lru_order s) \<ge> AUTOSCALER_MAX_NODES_TRACKED then
        (case nt_lru_order s of
           [] \<Rightarrow> (Inl IndexError, s)
         | oldest # rest \<Rightarrow>
             thenS (nt_delete oldest) (retS oldest) (s\<lparr>nt_lru_order := rest\<rparr>))
      else (Inr node_id, s))"

definition add_node_mapping :: "string \<Rightarrow> string \<times> string \<Rightarrow> (node_tracker, unit) prog" where
  "add_node_mapping node_id info =
     bindS getS (\<lambda>s.
       if dmem node_id (nt_node_mapping s) then retS ()
       else
         thenS (assertS (length (nt_lru_order s) = length (nt_node_mapping s)))
           (bindS (nt_evict node_id) (\<lambda>node_id.
             modifyS (\<lambda>s. s\<lparr>nt_node_mapping := dset (nt_node_mapping s) node_id info,
                            nt_lru_order := nt_lru_order s @ [node_id]\<rparr>))))"

definition nt_track :: "string \<Rightarrow> string \<Rightarrow> string \<Rightarrow> (node_tracker, unit) prog" where
  "nt_track node_id ip node_type =
     bindS getS (\<lambda>s.
       if dmem node_id (nt_node_mapping s) then retS ()
       else add_node_mapping node_id (ip, node_type))"

definition nt_untrack :: "string \<Rightarrow> (node_tracker, unit) prog" where
  "nt_untrack node_id =
     bindS getS (\<lambda>s.
       if dmem node_id (nt_node_mapping s) then
         if node_id \<in> set (nt_lru_order s) then
           thenS (modifyS (\<lambda>s. s\<lparr>nt_lru_order := remove1 node_id (nt_lru_order s)\<rparr>)) (nt_delete node_id)
         else raiseS ValueError
       else retS ())"

definition get_all_failed_node_info ::
  "string set \<Rightarrow> node_tracker \<Rightarrow> (string \<times> string) list result" where
  "get_all_failed_node_info non_failed_ids s =
     mapE (dindex (nt_node_mapping s))
       (filter (\<lambda>n. dmem n (nt_node_mapping s) \<and> n \<notin> non_failed_ids) (nt_lru_order s))"

section \<open>EventSummarizer\<close>

record event_summarizer =
  evs_events_by_key :: "(string, int) dict"
  evs_messages_to_send :: "string list"
  evs_throttled_messages :: "(string, rat) dict"

definition init_event_summarizer :: event_summarizer where
  "init_event_summarizer =
     \<lparr>evs_events_by_key = [], evs_messages_to_send = [], evs_throttled_messages = []\<rparr>"

definition evs_add ::
  "string \<Rightarrow> int \<Rightarrow> (int \<Rightarrow> int \<Rightarrow> int) \<Rightarrow> event_summarizer \<Rightarrow> event_summarizer" where
  "evs_add template quantity aggregate s =
     (let template = (if template \<noteq> [] \<and> last template = CHR ''.'' then template else template @ ''.'')
      in case map_of (evs_events_by_key s) template of
           Some q \<Rightarrow> s\<lparr>evs_events_by_key := dset (evs_events_by_key s) template (aggregate q quantity)\<rparr>
         | None \<Rightarrow> s\<lparr>evs_events_by_key := dset (evs_events_by_key s) template quantity\<rparr>)"

definition add_once_per_interval ::
  "rat \<Rightarrow> string \<Rightarrow> string \<Rightarrow> rat \<Rightarrow> event_summarizer \<Rightarrow> event_summarizer" where
  "add_once_per_interval now message key interval_s s =
     (if \<not> dmem key (evs_throttled_messages s) then
        s\<lparr>evs_throttled_messages := dset (evs_throttled_messages s) key (now + interval_s),
          evs_messages_to_send := evs_messages_to_send s @ [message]\<rparr>
      else s)"

text \<open>\<open>str.format\<close> with one argument is the parameter \<open>fmt\<close>.\<close>

definition evs_summary :: "(string \<Rightarrow> int \<Rightarrow> string) \<Rightarrow> event_summarizer \<Rightarrow> string list" where
  "evs_summary fmt s =
     map (\<lambda>(template, quantity). fmt template quantity) (evs_events_by_key s) @ evs_messages_to_send s"

text \<open>The clock is read once for every key; \<open>now k\<close> is its value when \<open>k\<close> is looked at.\<close>

definition evs_clear :: "(string \<Rightarrow> rat) \<Rightarrow> event_summarizer \<Rightarrow> event_summarizer" where
  "evs_clear now s =
     s\<lparr>evs_events_by_key := [], evs_messages_to_send := [],
       evs_throttled_messages :=
         fold (\<lambda>(k, t) d. if now k > t then ddel d k else d) (evs_throttled_messages s)
           (evs_throttled_messages s)\<rparr>"

section \<open>The tracker's invariant\<close>

definition nt_ok :: "node_tracker \<Rightarrow> bool" where
  "nt_ok s \<longleftrightarrow> wf_dict (nt_node_mapping s) \<and> distinct (nt_lru_order s)
     \<and> set (nt_lru_order s) = set (dkeys (nt_node_mapping s))
     \<and> length (nt_lru_order s) \<le> AUTOSCALER_MAX_NODES_TRACKED"

lemma nt_ok_length: "nt_ok s \<Longrightarrow> length (nt_lru_order s) = length (nt_node_mapping s)"
  by (metis nt_ok_def wf_dict_def distinct_card length_map)

lemma nt_ok_init: "nt_ok init_node_tracker"
  by (simp add: nt_ok_def init_node_tracker_def wf_dict_def)

text \<open>What \<open>track\<close> does to a well-formed tracker.\<close>

lemma nt_track_known:
  "dmem node_id (nt_node_mapping s) \<Longrightarrow> nt_track node_id ip ty s = (Inr (), s)"
  by (simp add: nt_track_def bindS_def retS_def)

lemma nt_track_new:
  assumes "nt_ok s" and "\<not> dmem node_id (nt_node_mapping s)"
    and "length (nt_lru_order s) < AUTOSCALER_MAX_NODES_TRACKED"
  shows "nt_track node_id ip ty s =
    (Inr (), s\<lparr>nt_node_mapping := dset (nt_node_mapping s) node_id (ip, ty),
               nt_lru_order := nt_lru_order s @ [node_id]\<rparr>)"
  using assms nt_ok_length [OF assms(1)]
  by (simp add: nt_track_def add_node_mapping_def nt_evict_def bindS_def thenS_def retS_def assertS_def)

lemma nt_track_full:
  assumes "nt_ok s" and "\<not> dmem node_id (nt_node_mapping s)" and "nt_lru_order s = oldest # rest"
    and "length (nt_lru_order s) = AUTOSCALER_MAX_NODES_TRACKED"
  shows "nt_track node_id ip ty s =
    (Inr (), s\<lparr>nt_node_mapping := dset (ddel (nt_node_mapping s) oldest) oldest (ip, ty),
               nt_lru_order := rest @ [oldest]\<rparr>)"
proof -
  have "dmem oldest (nt_node_mapping s)" using assms(1,3) by (auto simp: nt_ok_def dict_simps simp del: set_map)
  then show ?thesis
    using assms nt_ok_length [OF assms(1)]
    by (simp add: nt_track_def add_node_mapping_def nt_evict_def nt_delete_def bindS_def thenS_def retS_def assertS_def)
qed

lemma nt_untrack_ok:
  assumes "nt_ok s"
  shows "nt_untrack node_id s =
    (Inr (), s\<lparr>nt_node_mapping := ddel (nt_node_mapping s) node_id,
               nt_lru_order := remove1 node_id (nt_lru_order s)\<rparr>)"
proof (cases "dmem node_id (nt_node_mapping s)")
  case True
  then have "node_id \<in> set (nt_lru_order s)" using assms by (simp add: nt_ok_def dict_simps)
  then show ?thesis using True
    by (simp add: nt_untrack_def nt_delete_def bindS_def thenS_def)
next
  case False
  then have "node_id \<notin> set (nt_lru_order s)" "ddel (nt_node_mapping s) node_id = nt_node_mapping s"
    using assms by (auto simp: nt_ok_def dict_simps delete_id)
  then show ?thesis using False by (simp add: nt_untrack_def bindS_def retS_def remove1_idem)
qed

lemma nt_track_ok:
  assumes "nt_ok s"
  shows "\<exists>s'. nt_track node_id ip ty s = (Inr (), s') \<and> nt_ok s'"
proof (cases "dmem node_id (nt_node_mapping s)")
  case True
  then show ?thesis using assms nt_track_known by blast
next
  case new: False
  note ok = assms [unfolded nt_ok_def]
  show ?thesis
  proof (cases "length (nt_lru_order s) < AUTOSCALER_MAX_NODES_TRACKED")
    case True
    have "node_id \<notin> set (nt_lru_order s)" using new ok by (simp add: dict_simps)
    then have "nt_ok (s\<lparr>nt_node_mapping := dset (nt_node_mapping s) node_id (ip, ty),
        nt_lru_order := nt_lru_order s @ [node_id]\<rparr>)"
      using ok True by (auto simp: nt_ok_def dict_simps simp del: set_map)
    then show ?thesis using nt_track_new [OF assms new True] by blast
  next
    case False
    then have full: "length (nt_lru_order s) = AUTOSCALER_MAX_NODES_TRACKED" using ok by simp
    then obtain oldest rest where it: "nt_lru_order s = oldest # rest"
      by (cases "nt_lru_order s") (auto simp: AUTOSCALER_MAX_NODES_TRACKED_def)
    then have "nt_ok (s\<lparr>nt_node_mapping := dset (ddel (nt_node_mapping s) oldest) oldest (ip, ty),
        nt_lru_order := rest @ [oldest]\<rparr>)"
      using ok by (auto simp: nt_ok_def dict_simps simp del: set_map)
    then show ?thesis using nt_track_full [OF assms new it full] by blast
  qed
qed

lemma nt_untrack_keeps_ok:
  assumes "nt_ok s"
  shows "\<exists>s'. nt_untrack node_id s = (Inr (), s') \<and> nt_ok s' \<and> \<not> dmem node_id (nt_node_mapping s')"
proof -
  have "nt_ok (s\<lparr>nt_node_mapping := ddel (nt_node_mapping s) node_id,
               nt_lru_order := remove1 node_id (nt_lru_order s)\<rparr>)"
    using assms by (auto simp: nt_ok_def dict_simps length_remove1 simp del: set_map)
  then show ?thesis using nt_untrack_ok [OF assms] by (auto simp: dict_simps simp del: set_map)
qed

lemma failed_node_info_ok:
  assumes "nt_ok s"
  shows "get_all_failed_node_info non_failed s =
    Inr (map (\<lambda>n. the (map_of (nt_node_mapping s) n)) (filter (\<lambda>n. n \<notin> non_failed) (nt_lru_order s)))"
proof -
  have known: "\<forall>n \<in> set (nt_lru_order s). dmem n (nt_node_mapping s)" using assms by (simp add: nt_ok_def dict_simps)
  then have f: "filter (\<lambda>n. dmem n (nt_node_mapping s) \<and> n \<notin> non_failed) (nt_lru_order s)
      = filter (\<lambda>n. n \<notin> non_failed) (nt_lru_order s)" by (intro filter_cong) auto
  have "dindex (nt_node_mapping s) n = Inr (the (map_of (nt_node_mapping s) n))"
    if "n \<in> set (filter (\<lambda>n. n \<notin> non_failed) (nt_lru_order s))" for n
    using that known by (auto simp: dindex_def dmem_def)
  then show ?thesis unfolding get_all_failed_node_info_def f mapE_Inr_iff
    by (auto simp: list_all2_conv_all_nth dest!: nth_mem)
qed

section \<open>Properties\<close>

text \<open>
  The eviction of \<open>NodeTracker\<close> loses the new node. When the tracker is full, tracking
  a new node stores its address and type under the id of the oldest tracked node, which moves to the
  end of the order, and the new node is not tracked: a later failure of it is not reported, and the
  report of the oldest node carries the address of another one.
\<close>

theorem eviction_tracks_wrong_node:
  assumes "nt_ok s" and "length (nt_lru_order s) = AUTOSCALER_MAX_NODES_TRACKED"
    and "\<not> dmem node_id (nt_node_mapping s)"
  shows "\<exists>s'. nt_track node_id ip node_type s = (Inr (), s')
    \<and> \<not> dmem node_id (nt_node_mapping s')
    \<and> map_of (nt_node_mapping s') (hd (nt_lru_order s)) = Some (ip, node_type)
    \<and> nt_lru_order s' = tl (nt_lru_order s) @ [hd (nt_lru_order s)]"
proof -
  obtain oldest rest where it: "nt_lru_order s = oldest # rest"
    using assms(2) by (cases "nt_lru_order s") (auto simp: AUTOSCALER_MAX_NODES_TRACKED_def)
  have "dmem oldest (nt_node_mapping s)" using assms(1) it by (auto simp: nt_ok_def dict_simps simp del: set_map)
  then have "node_id \<noteq> oldest" using assms(3) by auto
  then show ?thesis
    using nt_track_full [OF assms(1,3) it assms(2)] assms(3) it by (simp add: dmem_def)
qed

definition ex_full_tracker :: node_tracker where
  "ex_full_tracker = (let ids = map (\<lambda>n. replicate n CHR ''a'') [0..<AUTOSCALER_MAX_NODES_TRACKED]
     in \<lparr>nt_node_mapping = map (\<lambda>i. (i, (''10.0.0.1'', ''cpu''))) ids, nt_lru_order = ids\<rparr>)"

theorem eviction_tracks_wrong_node_witness:
  "nt_ok ex_full_tracker \<and> (\<exists>s'. nt_track ''new'' ''10.0.0.2'' ''gpu'' ex_full_tracker = (Inr (), s')
    \<and> \<not> dmem ''new'' (nt_node_mapping s') \<and> map_of (nt_node_mapping s') [] = Some (''10.0.0.2'', ''gpu''))"
proof -
  have d: "distinct (map (\<lambda>n. replicate n CHR ''a'') [0..<k])" for k
    by (simp add: distinct_map inj_on_def replicate_eq_replicate)
  have ok: "nt_ok ex_full_tracker" using d by (simp add: nt_ok_def ex_full_tracker_def wf_dict_def o_def)
  have new: "\<not> dmem ''new'' (nt_node_mapping ex_full_tracker)"
    by (auto simp: ex_full_tracker_def dict_simps Cons_replicate_eq)
  have len: "length (nt_lru_order ex_full_tracker) = AUTOSCALER_MAX_NODES_TRACKED"
    by (simp add: ex_full_tracker_def)
  have "0 < AUTOSCALER_MAX_NODES_TRACKED" by (simp add: AUTOSCALER_MAX_NODES_TRACKED_def)
  then have "hd (nt_lru_order ex_full_tracker) = []" by (simp add: ex_full_tracker_def upt_conv_Cons)
  then show ?thesis using eviction_tracks_wrong_node [OF ok len new] ok by auto
qed

end
