(* ===== verification/Standard_Autoscaler.thy ===== *)
theory Standard_Autoscaler
  imports Demand_Scheduler Load_Metrics Node_Tracking
begin

text \<open>
  \<open>autoscaler/_private/autoscaler.py\<close>: the class \<open>StandardAutoscaler\<close>, its control
  loop \<open>update\<close> and what that calls.

  The node provider, the node updaters, the GCS and the clock act on a world; they are the record
  \<open>autoscaler_env\<close>. Its queries (\<open>node_tags\<close>, \<open>internal_ip\<close>,
  \<open>non_terminated_nodes\<close>) read the world, its actions change it and may raise. The hash
  functions and the formatting of messages are parameters too. The configuration is a filled-out
  one: the keys the code indexes are present. \<open>node_config\<close>, \<open>worker_nodes\<close> and
  \<open>auth\<close> are only hashed and handed on. Prometheus metrics and log lines are left out, and so is
  the file that \<open>LocalNodeProvider\<close> keeps of its head node.
\<close>

section \<open>Configuration and state\<close>

definition NODE_KIND_UNMANAGED :: string where "NODE_KIND_UNMANAGED = ''unmanaged''"
definition TAG_RAY_NODE_STATUS :: string where "TAG_RAY_NODE_STATUS = ''ray-node-status''"
definition STATUS_UPDATE_FAILED :: string where "STATUS_UPDATE_FAILED = ''update-failed''"
definition STATUS_UP_TO_DATE :: string where "STATUS_UP_TO_DATE = ''up-to-date''"
definition TAG_RAY_LAUNCH_CONFIG :: string where "TAG_RAY_LAUNCH_CONFIG = ''ray-launch-config''"
definition TAG_RAY_RUNTIME_CONFIG :: string where "TAG_RAY_RUNTIME_CONFIG = ''ray-runtime-config''"
definition TAG_RAY_FILE_MOUNTS_CONTENTS :: string where
  "TAG_RAY_FILE_MOUNTS_CONTENTS = ''ray-file-mounts-contents''"

text \<open>
  The per-type overrides of command lists and docker options are kept beside
  \<open>available_node_types\<close>: for every key, the types that set it.
\<close>

record autoscaler_config =
  cfg_cluster_name :: string
  cfg_provider_type :: string
  cfg_disable_node_updaters :: bool
  cfg_disable_launch_config_check :: bool
  cfg_max_workers :: int
  cfg_idle_timeout_minutes :: rat
  cfg_head_node_type :: string
  cfg_available_node_types :: node_types
  cfg_upscaling_speed :: "rat option"
  cfg_autoscaling_mode :: "string option"
  cfg_target_utilization_fraction :: "rat option"
  cfg_worker_nodes :: string
  cfg_auth :: string
  cfg_file_mounts :: "(string, string) dict"
  cfg_cluster_synced_files :: "string list"
  cfg_file_mounts_sync_continuously :: bool
  cfg_initialization_commands :: "string list"
  cfg_worker_setup_commands :: "string list"
  cfg_worker_start_ray_commands :: "string list"
  cfg_type_initialization_commands :: "(string, string list) dict"
  cfg_type_worker_setup_commands :: "(string, string list) dict"
  cfg_docker :: "(string, string) dict option"
  cfg_type_docker :: "(string, (string, string) dict) dict"
  cfg_restart_only :: bool
  cfg_no_restart :: bool

record updater_args =
  ua_node_id :: string
  ua_file_mounts :: "(string, string) dict"
  ua_initialization_commands :: "string list"
  ua_setup_commands :: "string list"
  ua_ray_start_commands :: "string list"
  ua_runtime_hash :: string
  ua_file_mounts_contents_hash :: "string option"
  ua_docker_config :: "(string, string) dict option"
  ua_node_resources :: resource_dict
  ua_for_recovery :: bool

record updater =
  up_thread :: nat
  up_for_recovery :: bool

text \<open>
  A launch configuration is \<open>worker_nodes\<close>, updated with the \<open>node_config\<close> of the
  node type if there is one.
\<close>

type_synonym launch_config = "string \<times> string option"

record 'w autoscaler_env =
  ae_node_tags :: "string \<Rightarrow> 'w \<Rightarrow> (string, string) dict"
  ae_internal_ip :: "string \<Rightarrow> 'w \<Rightarrow> string"
  ae_non_terminated_nodes :: "(string, string) dict \<Rightarrow> 'w \<Rightarrow> string list"
  ae_is_readonly :: bool
  ae_terminate_nodes :: "string list \<Rightarrow> 'w \<Rightarrow> unit result \<times> 'w"
  ae_create_node_with_resources ::
    "launch_config \<Rightarrow> (string, string) dict \<Rightarrow> int \<Rightarrow> resource_dict \<Rightarrow> 'w \<Rightarrow> unit result \<times> 'w"
  ae_drain_node :: "string list \<Rightarrow> 'w \<Rightarrow> 'w"
  ae_start_updater :: "updater_args \<Rightarrow> 'w \<Rightarrow> nat \<times> 'w"
  ae_updater_is_alive :: "nat \<Rightarrow> 'w \<Rightarrow> bool"
  ae_updater_exitcode :: "nat \<Rightarrow> 'w \<Rightarrow> int"
  ae_time :: "'w \<Rightarrow> rat"
  ae_config_reader :: "'w \<Rightarrow> autoscaler_config result"
  ae_hash_launch_conf :: "launch_config \<Rightarrow> string \<Rightarrow> string"
  ae_hash_runtime_conf ::
    "(string, string) dict \<Rightarrow> string list \<Rightarrow> string list list \<Rightarrow> bool \<Rightarrow> (string \<times> string option) result"
  ae_is_max_retry_error :: "py_error \<Rightarrow> bool"
  ae_conserve_gpu_nodes :: bool
  ae_heartbeat_timeout_s :: rat
  ae_repr_names :: "string list \<Rightarrow> string"
  ae_repr_request :: "resource_dict \<Rightarrow> string"
  ae_repr_items :: "(string \<times> rat) list \<Rightarrow> string"

text \<open>The provider as the demand scheduler sees it at one moment.\<close>

definition provider_at :: "'w autoscaler_env \<Rightarrow> 'w \<Rightarrow> node_provider" where
  "provider_at env w = \<lparr>np_node_tags = (\<lambda>n. ae_node_tags env n w),
     np_internal_ip = (\<lambda>n. ae_internal_ip env n w),
     np_non_terminated_nodes = (\<lambda>f. ae_non_terminated_nodes env f w)\<rparr>"

record autoscaler =
  as_config :: autoscaler_config
  as_runtime_hash :: string
  as_file_mounts_contents_hash :: "string option"
  as_scheduler :: demand_scheduler
  as_load_metrics :: load_metrics
  as_head_node_ip :: string
  as_max_failures :: int
  as_max_launch_batch :: nat
  as_update_interval_s :: rat
  as_event_summarizer :: event_summarizer
  as_updaters :: "(string, updater) dict"
  as_num_failed_updates :: "(string, int) dict"
  as_num_successful_updates :: "(string, int) dict"
  as_num_failures :: int
  as_last_update_time :: rat
  as_workers :: "string list"
  as_nodes_to_terminate :: "string list"
  as_disable_node_updaters :: bool
  as_disable_launch_config_check :: bool
  as_launch_queue :: "(autoscaler_config \<times> int \<times> string) list"
  as_pending_launches :: concurrent_counter
  as_node_tracker :: node_tracker

abbreviation as_available_node_types :: "autoscaler \<Rightarrow> node_types" where
  "as_available_node_types s \<equiv> cfg_available_node_types (as_config s)"

type_synonym ('w, 'a) as_prog = "(autoscaler \<times> 'w, 'a) prog"

text \<open>Programs of the world and of a component of the object.\<close>

definition worldS :: "('w \<Rightarrow> 'a result \<times> 'w) \<Rightarrow> ('w, 'a) as_prog" where
  "worldS f = (\<lambda>(s, w). case f w of (r, w') \<Rightarrow> (r, (s, w')))"

definition updS :: "(autoscaler \<Rightarrow> autoscaler) \<Rightarrow> ('w, unit) as_prog" where
  "updS f = (\<lambda>(s, w). (Inr (), (f s, w)))"

definition trackerS :: "(node_tracker, 'a) prog \<Rightarrow> ('w, 'a) as_prog" where
  "trackerS p = (\<lambda>(s, w). case p (as_node_tracker s) of
     (r, nt) \<Rightarrow> (r, (s\<lparr>as_node_tracker := nt\<rparr>, w)))"

definition pendingS :: "(concurrent_counter, 'a) prog \<Rightarrow> ('w, 'a) as_prog" where
  "pendingS p = (\<lambda>(s, w). case p (as_pending_launches s) of
     (r, c) \<Rightarrow> (r, (s\<lparr>as_pending_launches := c\<rparr>, w)))"

definition add_event :: "string \<Rightarrow> int \<Rightarrow> ('w, unit) as_prog" where
  "add_event template n = updS (\<lambda>s. s\<lparr>as_event_summarizer := evs_add template n (+) (as_event_summarizer s)\<rparr>)"

section \<open>Node types and launch configurations\<close>

definition get_node_type :: "'w autoscaler_env \<Rightarrow> 'w \<Rightarrow> string \<Rightarrow> string" where
  "get_node_type env w node_id =
     dget_or (ae_node_tags env node_id w) TAG_RAY_USER_NODE_TYPE ''unknown_node_type''"

definition node_resources :: "'w autoscaler_env \<Rightarrow> autoscaler \<Rightarrow> 'w \<Rightarrow> string \<Rightarrow> resource_dict" where
  "node_resources env s w node_id =
     (case map_of (ae_node_tags env node_id w) TAG_RAY_USER_NODE_TYPE of
        None \<Rightarrow> []
      | Some t \<Rightarrow>
          (case map_of (as_available_node_types s) t of
             None \<Rightarrow> []
           | Some c \<Rightarrow> (case ntc_resources c of None \<Rightarrow> [] | Some r \<Rightarrow> r)))"

definition launch_config_of :: "autoscaler_config \<Rightarrow> string \<Rightarrow> node_type_config \<Rightarrow> launch_config" where
  "launch_config_of cfg t c = (cfg_worker_nodes cfg, if t \<noteq> [] then Some (ntc_node_config c) else None)"

definition launch_config_ok :: "'w autoscaler_env \<Rightarrow> autoscaler \<Rightarrow> 'w \<Rightarrow> string \<Rightarrow> bool" where
  "launch_config_ok env s w node_id =
     (if as_disable_launch_config_check s then True
      else
        let node_tags = ae_node_tags env node_id w
        in case map_of node_tags TAG_RAY_USER_NODE_TYPE of
             None \<Rightarrow> False
           | Some t \<Rightarrow>
               (case map_of (as_available_node_types s) t of
                  None \<Rightarrow> False
                | Some c \<Rightarrow>
                    map_of node_tags TAG_RAY_LAUNCH_CONFIG
                      = Some (ae_hash_launch_conf env (launch_config_of (as_config s) t c)
                                (cfg_auth (as_config s)))))"

definition files_up_to_date :: "'w autoscaler_env \<Rightarrow> autoscaler \<Rightarrow> 'w \<Rightarrow> string \<Rightarrow> bool" where
  "files_up_to_date env s w node_id =
     (let node_tags = ae_node_tags env node_id w
      in \<not> (map_of node_tags TAG_RAY_RUNTIME_CONFIG \<noteq> Some (as_runtime_hash s)
            \<or> (as_file_mounts_contents_hash s \<noteq> None
               \<and> as_file_mounts_contents_hash s \<noteq> map_of node_tags TAG_RAY_FILE_MOUNTS_CONTENTS)))"

text \<open>\<open>common\<close> is the cluster-wide value of the field, \<open>overrides\<close> the types that set it.\<close>

definition get_node_type_specific_fields ::
  "'w autoscaler_env \<Rightarrow> autoscaler \<Rightarrow> 'w \<Rightarrow> 'f \<Rightarrow> (string, 'f) dict \<Rightarrow> string \<Rightarrow> 'f result" where
  "get_node_type_specific_fields env s w common overrides node_id =
     (case map_of (ae_node_tags env node_id w) TAG_RAY_USER_NODE_TYPE of
        None \<Rightarrow> Inr common
      | Some t \<Rightarrow>
          if \<not> dmem t (as_available_node_types s) then Inl ValueError
          else Inr (dget_or overrides t common))"

definition get_node_specific_docker_config ::
  "'w autoscaler_env \<Rightarrow> autoscaler \<Rightarrow> 'w \<Rightarrow> string \<Rightarrow> (string, string) dict result" where
  "get_node_specific_docker_config env s w node_id =
     (case cfg_docker (as_config s) of
        None \<Rightarrow> Inr []
      | Some docker \<Rightarrow>
          bindE (get_node_type_specific_fields env s w docker (cfg_type_docker (as_config s)) node_id) (\<lambda>specific.
            Inr (fold (\<lambda>(k, v) d. dset d k v) specific docker)))"

section \<open>Terminating nodes\<close>

definition update_worker_list :: "'w autoscaler_env \<Rightarrow> ('w, unit) as_prog" where
  "update_worker_list env = (\<lambda>(s, w).
     (Inr (), (s\<lparr>as_workers := ae_non_terminated_nodes env [(TAG_RAY_NODE_KIND, NODE_KIND_WORKER)] w\<rparr>, w)))"

definition unmanaged_workers :: "'w autoscaler_env \<Rightarrow> 'w \<Rightarrow> string list" where
  "unmanaged_workers env w = ae_non_terminated_nodes env [(TAG_RAY_NODE_KIND, NODE_KIND_UNMANAGED)] w"

definition all_workers :: "'w autoscaler_env \<Rightarrow> autoscaler \<Rightarrow> 'w \<Rightarrow> string list" where
  "all_workers env s w = as_workers s @ unmanaged_workers env w"

definition schedule_node_termination ::
  "'w autoscaler_env \<Rightarrow> string \<Rightarrow> string option \<Rightarrow> ('w, unit) as_prog" where
  "schedule_node_termination env node_id reason_opt =
     (case reason_opt of
        None \<Rightarrow> raiseS RuntimeError
      | Some reason \<Rightarrow>
          bindS getS (\<lambda>(s, w).
            thenS (add_event (''Removing {} nodes of type '' @ get_node_type env w node_id @ '' ('' @ reason @ '').'') 1)
              (updS (\<lambda>s. s\<lparr>as_nodes_to_terminate := as_nodes_to_terminate s @ [node_id]\<rparr>))))"

text \<open>
  All exceptions of the request are caught and only logged, so the call is its effect on the
  world.
\<close>

definition drain_nodes_via_gcs :: "'w autoscaler_env \<Rightarrow> string list \<Rightarrow> ('w, unit) as_prog" where
  "drain_nodes_via_gcs env provider_node_ids_to_drain = (\<lambda>(s, w).
     let node_ips = remdups (map (\<lambda>n. ae_internal_ip env n w) provider_node_ids_to_drain);
         connected_node_ips = filter (\<lambda>ip. dmem ip (raylet_id_by_ip (as_load_metrics s))) node_ips;
         raylet_ids_to_drain = remdups (map (\<lambda>ip. the (map_of (raylet_id_by_ip (as_load_metrics s)) ip)) connected_node_ips)
     in (Inr (), (s, ae_drain_node env raylet_ids_to_drain w)))"

definition terminate_scheduled_nodes :: "'w autoscaler_env \<Rightarrow> ('w, unit) as_prog" where
  "terminate_scheduled_nodes env =
     bindS getS (\<lambda>(s, _).
       let nodes = as_nodes_to_terminate s in
       if nodes = [] then retS ()
       else
         thenS (drain_nodes_via_gcs env nodes)
        (thenS (worldS (ae_terminate_nodes env nodes))
        (thenS (forS (\<lambda>node. trackerS (nt_untrack node)) nodes)
        (thenS (updS (\<lambda>s. s\<lparr>as_nodes_to_terminate := []\<rparr>))
          (update_worker_list env)))))"

datatype keep_or_terminate = Keep | Terminate | Decide_later

definition keep_worker_of_node_type ::
  "'w autoscaler_env \<Rightarrow> autoscaler \<Rightarrow> 'w \<Rightarrow> string \<Rightarrow> (string, int) dict \<Rightarrow> keep_or_terminate \<times> string option" where
  "keep_worker_of_node_type env s w node_id node_type_counts =
     (case map_of (ae_node_tags env node_id w) TAG_RAY_USER_NODE_TYPE of
        None \<Rightarrow> (Decide_later, None)
      | Some t \<Rightarrow>
          (case map_of (as_available_node_types s) t of
             None \<Rightarrow>
               (Terminate, Some (''not in available_node_types: ''
                                 @ ae_repr_names env (dkeys (as_available_node_types s))))
           | Some c \<Rightarrow>
               let min_workers = config_min_workers c;
                   max_workers = config_max_workers c;
                   new_count = dget_or node_type_counts t 0 + 1
               in if new_count \<le> min min_workers max_workers then (Keep, None)
                  else if new_count > max_workers then (Terminate, Some ''max_workers_per_type'')
                  else (Decide_later, None)))"

definition last_time_used :: "'w autoscaler_env \<Rightarrow> 'w \<Rightarrow> (string, rat) dict \<Rightarrow> string \<Rightarrow> rat" where
  "last_time_used env w last_used node_id = dget_or last_used (ae_internal_ip env node_id w) (-1)"

definition sort_based_on_last_used ::
  "'w autoscaler_env \<Rightarrow> 'w \<Rightarrow> string list \<Rightarrow> (string, rat) dict \<Rightarrow> string list" where
  "sort_based_on_last_used env w nodes last_used = sorted_reverse (last_time_used env w last_used) nodes"

text \<open>The resources of the head node: from the configuration, or reported if that is empty.\<close>

definition request_head_resources :: "'w autoscaler_env \<Rightarrow> autoscaler \<Rightarrow> 'w \<Rightarrow> resource_dict result" where
  "request_head_resources env s w =
     bindE (type_resources (as_available_node_types s) (cfg_head_node_type (as_config s))) (\<lambda>resources.
       if resources = [] then
         (case ae_non_terminated_nodes env [(TAG_RAY_NODE_KIND, NODE_KIND_HEAD)] w of
            [] \<Rightarrow> Inr []
          | head_id # _ \<Rightarrow>
              Inr (dget_or (get_static_node_resources_by_ip (as_load_metrics s)) (ae_internal_ip env head_id w) []))
       else Inr resources)"

text \<open>The workers with a type, and what each of them offers when it is empty.\<close>

definition request_worker_resources ::
  "'w autoscaler_env \<Rightarrow> autoscaler \<Rightarrow> 'w \<Rightarrow> string list \<Rightarrow> (string \<times> resource_dict) list result" where
  "request_worker_resources env s w sorted_node_ids =
     mapE (\<lambda>(node_id, t).
         bindE (type_resources (as_available_node_types s) t) (\<lambda>resources.
           Inr (node_id,
                if resources = []
                then dget_or (get_static_node_resources_by_ip (as_load_metrics s)) (ae_internal_ip env node_id w) []
                else resources)))
       (concat (map (\<lambda>n. case map_of (ae_node_tags env n w) TAG_RAY_USER_NODE_TYPE of
                           None \<Rightarrow> [] | Some t \<Rightarrow> [(n, t)]) sorted_node_ids))"

definition get_nodes_needed_for_request_resources ::
  "'w autoscaler_env \<Rightarrow> autoscaler \<Rightarrow> 'w \<Rightarrow> string list \<Rightarrow> string set result" where
  "get_nodes_needed_for_request_resources env s w sorted_node_ids =
     bindE (request_head_resources env s w) (\<lambda>head_node_resources.
     bindE (request_worker_resources env s w sorted_node_ids) (\<lambda>workers.
     bindE (get_bin_pack_residual (head_node_resources # map snd workers)
              (get_resource_requests (as_load_metrics s)) False) (\<lambda>(_, used_resource_requests).
       Inr (set (map (fst \<circ> fst) (filter (\<lambda>((node_id, max_resources), used).
                    \<not> (dict_eq used max_resources \<and> max_resources \<noteq> []))
                  (zip workers (tl used_resource_requests))))))))"

text \<open>What the loop of \<open>terminate_nodes_to_enforce_config_constraints\<close> decides about a node.\<close>

datatype node_fate = Stop "string option" | Stay | Removable

definition decide_node ::
  "'w autoscaler_env \<Rightarrow> autoscaler \<Rightarrow> 'w \<Rightarrow> rat \<Rightarrow> string set \<Rightarrow> (string, int) dict \<Rightarrow> string \<Rightarrow> node_fate" where
  "decide_node env s w horizon nodes_not_allowed_to_terminate node_type_counts node_id =
     (case keep_worker_of_node_type env s w node_id node_type_counts of (should, reason) \<Rightarrow>
        if should = Terminate then Stop reason
        else if (should = Keep \<or> node_id \<in> nodes_not_allowed_to_terminate) \<and> launch_config_ok env s w node_id
        then Stay
        else
          let last_used = map_of (last_used_time_by_ip (as_load_metrics s)) (ae_internal_ip env node_id w)
          in if last_used \<noteq> None \<and> the last_used < horizon then Stop (Some ''idle'')
             else if \<not> launch_config_ok env s w node_id then Stop (Some ''outdated'')
             else Removable)"

definition keep_node ::
  "'w autoscaler_env \<Rightarrow> 'w \<Rightarrow> string \<Rightarrow> (string, int) dict \<Rightarrow> (string, int) dict" where
  "keep_node env w node_id node_type_counts =
     (case map_of (ae_node_tags env node_id w) TAG_RAY_USER_NODE_TYPE of
        None \<Rightarrow> node_type_counts
      | Some t \<Rightarrow> bump_count node_type_counts t)"

definition enforce_node ::
  "'w autoscaler_env \<Rightarrow> rat \<Rightarrow> string set \<Rightarrow> (string, int) dict \<times> string list \<Rightarrow> string
    \<Rightarrow> ('w, (string, int) dict \<times> string list) as_prog" where
  "enforce_node env horizon nodes_not_allowed_to_terminate = (\<lambda>(node_type_counts, nodes_we_could_terminate) node_id.
     bindS getS (\<lambda>(s, w).
       case decide_node env s w horizon nodes_not_allowed_to_terminate node_type_counts node_id of
         Stop reason \<Rightarrow>
           thenS (schedule_node_termination env node_id reason)
             (retS (node_type_counts, nodes_we_could_terminate))
       | Stay \<Rightarrow> retS (keep_node env w node_id node_type_counts, nodes_we_could_terminate)
       | Removable \<Rightarrow> retS (keep_node env w node_id node_type_counts, nodes_we_could_terminate @ [node_id])))"

text \<open>\<open>nodes_we_could_terminate[-n:]\<close> of a number \<open>n\<close> that was capped by the length.\<close>

definition extra_nodes :: "autoscaler \<Rightarrow> string list \<Rightarrow> string list" where
  "extra_nodes s nodes_we_could_terminate =
     (let extra = int (length (as_workers s)) - int (length (as_nodes_to_terminate s)) - cfg_max_workers (as_config s);
          extra = (if extra > int (length nodes_we_could_terminate) then int (length nodes_we_could_terminate) else extra)
      in if extra > 0 then drop (length nodes_we_could_terminate - nat extra) nodes_we_could_terminate else [])"

definition terminate_nodes_to_enforce_config_constraints ::
  "'w autoscaler_env \<Rightarrow> rat \<Rightarrow> ('w, unit) as_prog" where
  "terminate_nodes_to_enforce_config_constraints env now =
     bindS getS (\<lambda>(s, w).
       let horizon = now - 60 * cfg_idle_timeout_minutes (as_config s);
           sorted_node_ids = sort_based_on_last_used env w (as_workers s) (last_used_time_by_ip (as_load_metrics s))
       in bindS (liftS (if get_resource_requests (as_load_metrics s) \<noteq> []
                        then get_nodes_needed_for_request_resources env s w sorted_node_ids else Inr {}))
            (\<lambda>nodes_not_allowed_to_terminate.
          bindS (foldS (enforce_node env horizon nodes_not_allowed_to_terminate) ([], []) sorted_node_ids)
            (\<lambda>(_, nodes_we_could_terminate).
          bindS getS (\<lambda>(s, _).
          thenS (forS (\<lambda>n. schedule_node_termination env n (Some ''max workers'')) (extra_nodes s nodes_we_could_terminate))
            (terminate_scheduled_nodes env)))))"

definition heartbeat_on_time :: "'w autoscaler_env \<Rightarrow> autoscaler \<Rightarrow> 'w \<Rightarrow> string \<Rightarrow> rat \<Rightarrow> bool" where
  "heartbeat_on_time env s w node_id now =
     (case map_of (last_heartbeat_time_by_ip (as_load_metrics s)) (ae_internal_ip env node_id w) of
        None \<Rightarrow> False
      | Some last_heartbeat_time \<Rightarrow> now - last_heartbeat_time < ae_heartbeat_timeout_s env)"

definition mark_node_active :: "'w autoscaler_env \<Rightarrow> string \<Rightarrow> ('w, unit) as_prog" where
  "mark_node_active env ip = bindS getS (\<lambda>(s, w).
     bindS (liftS (mark_active (ae_time env w) (Some ip) (as_load_metrics s))) (\<lambda>lm.
       updS (\<lambda>s. s\<lparr>as_load_metrics := lm\<rparr>)))"

definition terminate_if_unhealthy :: "'w autoscaler_env \<Rightarrow> rat \<Rightarrow> string \<Rightarrow> ('w, unit) as_prog" where
  "terminate_if_unhealthy env now node_id = bindS getS (\<lambda>(s, w).
     bindS (liftS (dindex (ae_node_tags env node_id w) TAG_RAY_NODE_STATUS)) (\<lambda>node_status.
       if node_status \<noteq> STATUS_UP_TO_DATE then retS ()
       else
         let ip = ae_internal_ip env node_id w in
         thenS (if \<not> dmem ip (last_heartbeat_time_by_ip (as_load_metrics s)) then mark_node_active env ip else retS ())
           (bindS getS (\<lambda>(s, w).
             if heartbeat_on_time env s w node_id now then retS ()
             else schedule_node_termination env node_id (Some ''lost contact with raylet'')))))"

definition terminate_unhealthy_nodes :: "'w autoscaler_env \<Rightarrow> rat \<Rightarrow> ('w, unit) as_prog" where
  "terminate_unhealthy_nodes env now = bindS getS (\<lambda>(s, _).
     thenS (forS (terminate_if_unhealthy env now) (as_workers s)) (terminate_scheduled_nodes env))"

section \<open>Launching nodes\<close>

text \<open>
  The loop that splits a launch into batches. A batch size of 0 never gets here: the constructor
  divides by it.
\<close>

function launch_batches :: "int \<Rightarrow> nat \<Rightarrow> int list" where
  "launch_batches n max_launch_batch =
     (if n > 0 \<and> max_launch_batch \<noteq> 0
      then min n (int max_launch_batch) # launch_batches (n - int max_launch_batch) max_launch_batch
      else [])"
  by pat_completeness auto
termination
  by (relation "measure (\<lambda>(n, _). nat n)") auto

declare launch_batches.simps [simp del]

definition launch_new_node :: "int \<Rightarrow> string \<Rightarrow> ('w, unit) as_prog" where
  "launch_new_node n node_type =
     thenS (add_event (''Adding {} nodes of type '' @ node_type @ ''.'') n)
       (bindS (pendingS (counter_inc node_type n)) (\<lambda>_.
         updS (\<lambda>s. s\<lparr>as_launch_queue := as_launch_queue s
           @ map (\<lambda>k. (as_config s, k, node_type)) (launch_batches n (as_max_launch_batch s))\<rparr>)))"

definition launch_required_nodes :: "'w autoscaler_env \<Rightarrow> (string, int) dict \<Rightarrow> ('w, unit) as_prog" where
  "launch_required_nodes env to_launch =
     (if to_launch \<noteq> [] then
        thenS (forS (\<lambda>(node_type, count). launch_new_node count node_type) to_launch)
          (update_worker_list env)
      else retS ())"

text \<open>\<open>pat in s\<close> of two strings.\<close>

definition str_contains :: "string \<Rightarrow> string \<Rightarrow> bool" where
  "str_contains pat s = list_ex (\<lambda>i. take (length pat) (drop i s) = pat) [0..<Suc (length s)]"

definition is_placement_group_bundle :: "resource_dict \<Rightarrow> bool" where
  "is_placement_group_bundle bundle = list_ex (\<lambda>k. str_contains ''_group_'' k \<or> k = ''bundle'') (dkeys bundle)"

definition classify_unfulfilled ::
  "demand_scheduler \<Rightarrow> resource_dict list \<Rightarrow> (resource_dict list \<times> resource_dict list) result" where
  "classify_unfulfilled sched unfulfilled =
     foldE (\<lambda>(pending, infeasible) bundle.
         if is_placement_group_bundle bundle then Inr (pending, infeasible)
         else bindE (is_feasible sched bundle) (\<lambda>feasible.
           Inr (if feasible then (pending @ [bundle], infeasible) else (pending, infeasible @ [bundle]))))
       ([], []) unfulfilled"

definition warn_once :: "'w autoscaler_env \<Rightarrow> string \<Rightarrow> string \<Rightarrow> string \<Rightarrow> resource_dict \<Rightarrow> ('w, unit) as_prog" where
  "warn_once env prefix suffix key request = (\<lambda>(s, w).
     (Inr (), (s\<lparr>as_event_summarizer := add_once_per_interval (ae_time env w)
        (prefix @ ae_repr_request env request @ suffix) (key @ ae_repr_items env (sort request)) 30
        (as_event_summarizer s)\<rparr>, w)))"

definition report_pending_infeasible :: "'w autoscaler_env \<Rightarrow> resource_dict list \<Rightarrow> ('w, unit) as_prog" where
  "report_pending_infeasible env unfulfilled = bindS getS (\<lambda>(s, _).
     bindS (liftS (classify_unfulfilled (as_scheduler s) unfulfilled)) (\<lambda>(pending, infeasible).
       thenS (if cluster_full_of_actors_detected (as_load_metrics s) then
                forS (warn_once env ''Warning: The following resource request cannot be scheduled right now: ''
                  ''. This is likely due to all cluster resources being claimed by actors. Consider creating fewer actors or adding more nodes to this Ray cluster.''
                  ''pending_'') pending
              else retS ())
         (forS (warn_once env ''Error: No available node types can fulfill resource request ''
            ''. Add suitable node types to this cluster to resolve this issue.'' ''infeasible_'') infeasible)))"

section \<open>Updating nodes\<close>

definition with_head_node_ip :: "string list \<Rightarrow> string \<Rightarrow> string list" where
  "with_head_node_ip cmds head_ip = map (\<lambda>cmd. ''export RAY_HEAD_IP='' @ head_ip @ ''; '' @ cmd) cmds"

definition can_update :: "'w autoscaler_env \<Rightarrow> autoscaler \<Rightarrow> 'w \<Rightarrow> string \<Rightarrow> bool" where
  "can_update env s w node_id =
     (if as_disable_node_updaters s then False
      else if dmem node_id (as_updaters s) then False
      else if \<not> launch_config_ok env s w node_id then False
      else if dget_or (as_num_failed_updates s) node_id 0 > 0 then False
      else True)"

record update_instructions =
  ui_node_id :: string
  ui_setup_commands :: "string list"
  ui_ray_start_commands :: "string list"
  ui_docker_config :: "(string, string) dict"

text \<open>\<open>None\<close> is the tuple of four \<open>None\<close>: no update.\<close>

definition should_update ::
  "'w autoscaler_env \<Rightarrow> autoscaler \<Rightarrow> 'w \<Rightarrow> string \<Rightarrow> update_instructions option result" where
  "should_update env s w node_id =
     (if \<not> can_update env s w node_id then Inr None
      else if map_of (ae_node_tags env node_id w) TAG_RAY_NODE_STATUS = Some STATUS_UP_TO_DATE
           \<and> files_up_to_date env s w node_id then Inr None
      else
        let cfg = as_config s;
            successful_updated = dget_or (as_num_successful_updates s) node_id 0 > 0;
            specific_setup = get_node_type_specific_fields env s w (cfg_worker_setup_commands cfg)
              (cfg_type_worker_setup_commands cfg) node_id
        in bindE (if successful_updated \<and> cfg_restart_only cfg then Inr ([], cfg_worker_start_ray_commands cfg)
                  else if successful_updated \<and> cfg_no_restart cfg then bindE specific_setup (\<lambda>c. Inr (c, []))
                  else bindE specific_setup (\<lambda>c. Inr (c, cfg_worker_start_ray_commands cfg)))
             (\<lambda>(setup_commands, ray_start_commands).
           bindE (get_node_specific_docker_config env s w node_id) (\<lambda>docker_config.
             Inr (Some \<lparr>ui_node_id = node_id, ui_setup_commands = setup_commands,
                        ui_ray_start_commands = ray_start_commands, ui_docker_config = docker_config\<rparr>))))"

text \<open>\<open>updater.start()\<close> and the entry in \<open>updaters\<close>.\<close>

definition start_updater :: "'w autoscaler_env \<Rightarrow> updater_args \<Rightarrow> ('w, unit) as_prog" where
  "start_updater env args = bindS (worldS (\<lambda>w. case ae_start_updater env args w of (th, w') \<Rightarrow> (Inr th, w')))
     (\<lambda>th. updS (\<lambda>s. s\<lparr>as_updaters := dset (as_updaters s) (ua_node_id args)
                          \<lparr>up_thread = th, up_for_recovery = ua_for_recovery args\<rparr>\<rparr>))"

definition spawn_updater ::
  "'w autoscaler_env \<Rightarrow> update_instructions \<Rightarrow> resource_dict \<Rightarrow> ('w, unit) as_prog" where
  "spawn_updater env ui resources = bindS getS (\<lambda>(s, w).
     let node_id = ui_node_id ui; cfg = as_config s in
     thenS (trackerS (nt_track node_id (ae_internal_ip env node_id w) (get_node_type env w node_id)))
       (bindS (liftS (get_node_type_specific_fields env s w (cfg_initialization_commands cfg)
                        (cfg_type_initialization_commands cfg) node_id)) (\<lambda>initialization_commands.
         start_updater env
           \<lparr>ua_node_id = node_id, ua_file_mounts = cfg_file_mounts cfg,
            ua_initialization_commands = with_head_node_ip initialization_commands (as_head_node_ip s),
            ua_setup_commands = with_head_node_ip (ui_setup_commands ui) (as_head_node_ip s),
            ua_ray_start_commands = with_head_node_ip (ui_ray_start_commands ui) (as_head_node_ip s),
            ua_runtime_hash = as_runtime_hash s,
            ua_file_mounts_contents_hash = as_file_mounts_contents_hash s,
            ua_docker_config = Some (ui_docker_config ui), ua_node_resources = resources,
            ua_for_recovery = False\<rparr>)))"

text \<open>
  The updaters are spawned by threads that are joined before the method returns; an exception ends
  its thread only. They are run one after the other.
\<close>

definition update_nodes :: "'w autoscaler_env \<Rightarrow> ('w, unit) as_prog" where
  "update_nodes env = bindS getS (\<lambda>(s, w).
     bindS (liftS (mapE (should_update env s w) (as_workers s))) (\<lambda>instructions.
       forS (\<lambda>ui. quietS (spawn_updater env ui (node_resources env s w (ui_node_id ui))))
         (concat (map (\<lambda>i. case i of None \<Rightarrow> [] | Some ui \<Rightarrow> [ui]) instructions))))"

definition count_update :: "(string, int) dict \<Rightarrow> string \<Rightarrow> (string, int) dict" where
  "count_update d node_id = dset d node_id (dget_or d node_id 0 + 1)"

definition finish_update :: "'w autoscaler_env \<Rightarrow> string list \<Rightarrow> string \<Rightarrow> ('w, string list) as_prog" where
  "finish_update env failed_nodes node_id = bindS getS (\<lambda>(s, w).
     bindS (liftS (dindex (as_updaters s) node_id)) (\<lambda>updater.
     bindS (if ae_updater_exitcode env (up_thread updater) w = 0 then
              thenS (updS (\<lambda>s. s\<lparr>as_num_successful_updates := count_update (as_num_successful_updates s) node_id\<rparr>))
             (thenS (mark_node_active env (ae_internal_ip env node_id w)) (retS failed_nodes))
            else
              thenS (updS (\<lambda>s. s\<lparr>as_num_failed_updates := count_update (as_num_failed_updates s) node_id\<rparr>))
             (thenS (trackerS (nt_untrack node_id)) (retS (failed_nodes @ [node_id]))))
       (\<lambda>failed_nodes.
         thenS (updS (\<lambda>s. s\<lparr>as_updaters := ddel (as_updaters s) node_id\<rparr>)) (retS failed_nodes))))"

definition terminate_failed_node :: "'w autoscaler_env \<Rightarrow> string \<Rightarrow> ('w, unit) as_prog" where
  "terminate_failed_node env node_id = bindS getS (\<lambda>(s, _).
     if node_id \<in> set (as_workers s) then schedule_node_termination env node_id (Some ''launch failed'') else retS ())"

definition process_completed_updates :: "'w autoscaler_env \<Rightarrow> ('w, unit) as_prog" where
  "process_completed_updates env = bindS getS (\<lambda>(s, w).
     let completed_nodes = map fst (filter (\<lambda>(_, u). \<not> ae_updater_is_alive env (up_thread u) w) (as_updaters s))
     in bindS (foldS (finish_update env) [] completed_nodes) (\<lambda>failed_nodes.
          if failed_nodes \<noteq> [] then
            thenS (update_worker_list env)
           (thenS (forS (terminate_failed_node env) failed_nodes)
             (terminate_scheduled_nodes env))
          else retS ()))"

definition recover_if_needed :: "'w autoscaler_env \<Rightarrow> rat \<Rightarrow> string \<Rightarrow> ('w, unit) as_prog" where
  "recover_if_needed env now node_id = bindS getS (\<lambda>(s, w).
     if \<not> can_update env s w node_id then retS ()
     else if heartbeat_on_time env s w node_id now then retS ()
     else
       thenS (add_event (''Restarting {} nodes of type '' @ get_node_type env w node_id @ '' (lost contact with raylet).'') 1)
         (start_updater env
           \<lparr>ua_node_id = node_id, ua_file_mounts = [], ua_initialization_commands = [], ua_setup_commands = [],
            ua_ray_start_commands = with_head_node_ip (cfg_worker_start_ray_commands (as_config s)) (as_head_node_ip s),
            ua_runtime_hash = as_runtime_hash s, ua_file_mounts_contents_hash = as_file_mounts_contents_hash s,
            ua_docker_config = cfg_docker (as_config s), ua_node_resources = node_resources env s w node_id,
            ua_for_recovery = True\<rparr>))"

definition attempt_to_recover_unhealthy_nodes :: "'w autoscaler_env \<Rightarrow> rat \<Rightarrow> ('w, unit) as_prog" where
  "attempt_to_recover_unhealthy_nodes env now = bindS getS (\<lambda>(s, _).
     forS (recover_if_needed env now) (as_workers s))"

section \<open>The control loop\<close>

definition upscaling_speed_of :: "autoscaler_config \<Rightarrow> rat" where
  "upscaling_speed_of cfg =
     (if cfg_upscaling_speed cfg \<noteq> None \<and> the (cfg_upscaling_speed cfg) \<noteq> 0 then the (cfg_upscaling_speed cfg)
      else if cfg_autoscaling_mode cfg = Some ''aggressive'' then 99999
      else if cfg_target_utilization_fraction cfg \<noteq> None \<and> the (cfg_target_utilization_fraction cfg) \<noteq> 0
      then 1 / max (the (cfg_target_utilization_fraction cfg)) (1 / 1000) - 1
      else 1)"

definition runtime_hashes ::
  "'w autoscaler_env \<Rightarrow> autoscaler_config \<Rightarrow> bool \<Rightarrow> (string \<times> string option) result" where
  "runtime_hashes env cfg sync_continuously =
     ae_hash_runtime_conf env (cfg_file_mounts cfg) (cfg_cluster_synced_files cfg)
       [cfg_worker_setup_commands cfg, cfg_worker_start_ray_commands cfg] sync_continuously"

text \<open>
  The body of \<open>reset\<close>. The validation of a changed configuration only logs what it finds. The
  new configuration is in place before the scheduler accepts it.
\<close>

definition reset_body :: "'w autoscaler_env \<Rightarrow> ('w, unit) as_prog" where
  "reset_body env = bindS getS (\<lambda>(s, w).
     bindS (liftS (ae_config_reader env w)) (\<lambda>new_config.
     bindS (liftS (runtime_hashes env new_config (cfg_file_mounts_sync_continuously (as_config s))))
       (\<lambda>(new_runtime_hash, new_file_mounts_contents_hash).
     thenS (updS (\<lambda>s. s\<lparr>as_config := new_config, as_runtime_hash := new_runtime_hash,
                        as_file_mounts_contents_hash := new_file_mounts_contents_hash\<rparr>))
       (bindS (liftS (reset_config (as_scheduler s) (cfg_available_node_types new_config)
                        (cfg_max_workers new_config) (cfg_head_node_type new_config)
                        (upscaling_speed_of new_config)))
          (\<lambda>sched. updS (\<lambda>s. s\<lparr>as_scheduler := sched\<rparr>))))))"

definition as_reset :: "'w autoscaler_env \<Rightarrow> bool \<Rightarrow> ('w, unit) as_prog" where
  "as_reset env errors_fatal t =
     (case reset_body env t of
        (Inl e, t') \<Rightarrow> if errors_fatal then (Inl e, t') else (Inr (), t')
      | (Inr _, t') \<Rightarrow> (Inr (), t'))"

text \<open>
  The constructor, with its call \<open>reset(errors_fatal=True)\<close> on an object that has neither a
  configuration nor a scheduler yet. It divides by the batch size to compute the number of launcher
  threads. The check that the mounted files exist is not modelled.
\<close>

definition init_autoscaler ::
  "'w autoscaler_env \<Rightarrow> load_metrics \<Rightarrow> nat \<Rightarrow> int \<Rightarrow> rat \<Rightarrow> 'w \<Rightarrow> autoscaler result" where
  "init_autoscaler env lm max_launch_batch max_failures update_interval_s w =
     bindE (ae_config_reader env w) (\<lambda>cfg.
     bindE (runtime_hashes env cfg False) (\<lambda>(runtime_hash, contents_hash).
     bindE (init_scheduler (cfg_available_node_types cfg) (cfg_max_workers cfg) (cfg_head_node_type cfg)
              (upscaling_speed_of cfg)) (\<lambda>sched.
     if max_launch_batch = 0 then Inl ZeroDivisionError
     else Inr \<lparr>as_config = cfg, as_runtime_hash = runtime_hash, as_file_mounts_contents_hash = contents_hash,
       as_scheduler = sched, as_load_metrics = lm, as_head_node_ip = local_ip lm,
       as_max_failures = max_failures, as_max_launch_batch = max_launch_batch,
       as_update_interval_s = update_interval_s, as_event_summarizer = init_event_summarizer,
       as_updaters = [], as_num_failed_updates = [], as_num_successful_updates = [], as_num_failures = 0,
       as_last_update_time = 0, as_workers = [], as_nodes_to_terminate = [],
       as_disable_node_updaters = cfg_disable_node_updaters cfg,
       as_disable_launch_config_check = cfg_disable_launch_config_check cfg,
       as_launch_queue = [], as_pending_launches = [], as_node_tracker = init_node_tracker\<rparr>)))"

definition prune_load_metrics :: "'w autoscaler_env \<Rightarrow> ('w, unit) as_prog" where
  "prune_load_metrics env = bindS getS (\<lambda>(s, w).
     bindS (liftS (prune_active_ips (map (\<lambda>n. ae_internal_ip env n w) (all_workers env s w)) (as_load_metrics s)))
       (\<lambda>lm. updS (\<lambda>s. s\<lparr>as_load_metrics := lm\<rparr>)))"

text \<open>
  The second half of \<open>_update\<close>, on the list of nodes that was read as the first argument of
  \<open>get_nodes_to_launch\<close>; the other arguments are read after it. If the scheduler raises, what
  it had inferred about node resources in this call is inferred again in the next.
\<close>

definition plan_and_launch :: "'w autoscaler_env \<Rightarrow> rat \<Rightarrow> string list \<Rightarrow> ('w, unit) as_prog" where
  "plan_and_launch env now nodes = bindS getS (\<lambda>(s, w).
     let lm = as_load_metrics s in
     bindS (liftS (get_nodes_to_launch (ae_conserve_gpu_nodes env) (provider_at env w) (as_scheduler s) nodes
              (counter_breakdown (as_pending_launches s)) (get_resource_demand_vector True lm)
              (get_resource_utilization lm) (get_pending_placement_groups lm)
              (get_static_node_resources_by_ip lm) (get_resource_requests lm)))
       (\<lambda>(sched, to_launch, unfulfilled).
     thenS (updS (\<lambda>s. s\<lparr>as_scheduler := sched\<rparr>))
    (thenS (report_pending_infeasible env unfulfilled)
       (if ae_is_readonly env then retS ()
        else
          thenS (launch_required_nodes env to_launch)
         (if as_disable_node_updaters s then terminate_unhealthy_nodes env now
          else
            thenS (process_completed_updates env)
           (thenS (update_nodes env)
             (attempt_to_recover_unhealthy_nodes env now)))))))"

definition update_body :: "'w autoscaler_env \<Rightarrow> ('w, unit) as_prog" where
  "update_body env = bindS getS (\<lambda>(s, w).
     let now = ae_time env w in
     if now - as_last_update_time s < as_update_interval_s s then retS ()
     else
       thenS (updS (\<lambda>s. s\<lparr>as_last_update_time := now\<rparr>))
      (thenS (update_worker_list env)
      (thenS (prune_load_metrics env)
      (thenS (if ae_is_readonly env then retS () else terminate_nodes_to_enforce_config_constraints env now)
      (bindS getS (\<lambda>(_, w). plan_and_launch env now (ae_non_terminated_nodes env [] w)))))))"

definition as_update :: "'w autoscaler_env \<Rightarrow> ('w, unit) as_prog" where
  "as_update env t =
     (case thenS (as_reset env False) (update_body env) t of
        (Inr _, t') \<Rightarrow> (Inr (), t')
      | (Inl e, (s, w)) \<Rightarrow>
          let is_k8s_connection_error = (cfg_provider_type (as_config s) = ''kubernetes'' \<and> ae_is_max_retry_error env e);
              s = (if \<not> is_k8s_connection_error then s\<lparr>as_num_failures := as_num_failures s + 1\<rparr> else s)
          in if as_num_failures s > as_max_failures s then (Inl e, (s, w)) else (Inr (), (s, w)))"

text \<open>\<open>kill_workers\<close> calls \<open>self.workers()\<close>, but \<open>self.workers\<close> is a list.\<close>

definition kill_workers :: "('w, unit) as_prog" where
  "kill_workers = raiseS TypeError"

section \<open>Summary\<close>

record autoscaler_summary =
  sum_active_nodes :: "(string, int) dict"
  sum_pending_nodes :: "(string \<times> string \<times> string) list"
  sum_pending_launches :: "(string, int) dict"
  sum_failed_nodes :: "(string \<times> string) list"

type_synonym summary_acc = "(string, int) dict \<times> (string \<times> string \<times> string) list \<times> string set"

definition summarize_node :: "'w autoscaler_env \<Rightarrow> autoscaler \<Rightarrow> 'w \<Rightarrow> summary_acc \<Rightarrow> string \<Rightarrow> summary_acc" where
  "summarize_node env s w = (\<lambda>(active_nodes, pending_nodes, non_failed) node_id.
     let ip = ae_internal_ip env node_id w; node_tags = ae_node_tags env node_id w in
     case (map_of node_tags TAG_RAY_NODE_KIND, map_of node_tags TAG_RAY_USER_NODE_TYPE,
           map_of node_tags TAG_RAY_NODE_STATUS) of
       (Some kind, Some node_type, Some status) \<Rightarrow>
         if kind = NODE_KIND_UNMANAGED then (active_nodes, pending_nodes, non_failed)
         else if is_active ip (as_load_metrics s) then
           (bump_count active_nodes node_type, pending_nodes, insert node_id non_failed)
         else if status \<notin> {STATUS_UP_TO_DATE, STATUS_UPDATE_FAILED} then
           (active_nodes, pending_nodes @ [(ip, node_type, status)], insert node_id non_failed)
         else (active_nodes, pending_nodes, non_failed)
     | _ \<Rightarrow> (active_nodes, pending_nodes, non_failed))"

definition as_summary :: "'w autoscaler_env \<Rightarrow> autoscaler \<Rightarrow> 'w \<Rightarrow> autoscaler_summary result" where
  "as_summary env s w =
     (case foldl (summarize_node env s w) ([], [], {}) (ae_non_terminated_nodes env [] w) of
        (active_nodes, pending_nodes, non_failed) \<Rightarrow>
          bindE (get_all_failed_node_info non_failed (as_node_tracker s)) (\<lambda>failed_nodes.
            Inr \<lparr>sum_active_nodes = active_nodes, sum_pending_nodes = pending_nodes,
                 sum_pending_launches = filter (\<lambda>(_, count). count \<noteq> 0) (counter_breakdown (as_pending_launches s)),
                 sum_failed_nodes = failed_nodes\<rparr>))"

end
