(* ===== verification/Autoscaler_Enforcement.thy ===== *)
theory Autoscaler_Enforcement
  imports Standard_Autoscaler
begin

text \<open>
  What \<open>terminate_nodes_to_enforce_config_constraints\<close> decides. The loop over the workers is
  shown to be a pure sequence of decisions (\<open>fates\<close>), over which the guarantees are proved:
  the minimum and the maximum of every node type, the global maximum, idle and outdated nodes, and
  the nodes that \<open>request_resources\<close> needs.
\<close>

section \<open>The loop as a sequence of decisions\<close>

definition node_type_of :: "'w autoscaler_env \<Rightarrow> 'w \<Rightarrow> string \<Rightarrow> string option" where
  "node_type_of env w node_id = map_of (ae_node_tags env node_id w) TAG_RAY_USER_NODE_TYPE"

fun fates ::
  "'w autoscaler_env \<Rightarrow> autoscaler \<Rightarrow> 'w \<Rightarrow> rat \<Rightarrow> string set \<Rightarrow> (string, int) dict \<Rightarrow> string list \<Rightarrow> node_fate list" where
  "fates env s w horizon protected counts [] = []"
| "fates env s w horizon protected counts (n # ns) =
     (let f = decide_node env s w horizon protected counts n;
          counts' = (case f of Stop _ \<Rightarrow> counts | _ \<Rightarrow> keep_node env w n counts)
      in f # fates env s w horizon protected counts' ns)"

abbreviation is_stop :: "node_fate \<Rightarrow> bool" where
  "is_stop f \<equiv> (case f of Stop _ \<Rightarrow> True | _ \<Rightarrow> False)"

definition select :: "('b \<Rightarrow> bool) \<Rightarrow> 'a list \<Rightarrow> 'b list \<Rightarrow> 'a list" where
  "select P xs fs = map fst (filter (\<lambda>(x, f). P f) (zip xs fs))"

lemma select_simps [simp]:
  "select P [] fs = []" "select P xs [] = []"
  "select P (x # xs) (f # fs) = (if P f then x # select P xs fs else select P xs fs)"
  by (simp_all add: select_def)

lemma length_fates [simp]: "length (fates env s w horizon protected counts ns) = length ns"
  by (induction ns arbitrary: counts) (simp_all add: Let_def)

lemma decide_node_not_None: "decide_node env s w horizon protected counts n \<noteq> Stop None"
  by (auto simp: decide_node_def keep_worker_of_node_type_def Let_def split: option.splits prod.splits if_splits)

text \<open>The fields a decision reads.\<close>

definition same_view :: "autoscaler \<Rightarrow> autoscaler \<Rightarrow> bool" where
  "same_view s s' \<longleftrightarrow> as_config s' = as_config s \<and> as_load_metrics s' = as_load_metrics s
     \<and> as_disable_launch_config_check s' = as_disable_launch_config_check s"

lemma same_viewD:
  assumes "same_view s s'"
  shows "as_config s' = as_config s" and "as_load_metrics s' = as_load_metrics s"
    and "as_disable_launch_config_check s' = as_disable_launch_config_check s"
  using assms by (simp_all add: same_view_def)

lemma launch_config_ok_view:
  assumes "same_view s s'"
  shows "launch_config_ok env s' w n = launch_config_ok env s w n"
  unfolding launch_config_ok_def same_viewD [OF assms] by (rule refl)

lemma decide_node_view:
  assumes "same_view s s'"
  shows "decide_node env s' w horizon protected counts n = decide_node env s w horizon protected counts n"
  unfolding decide_node_def keep_worker_of_node_type_def launch_config_ok_def same_viewD [OF assms] by (rule refl)

lemma fates_view: "same_view s s' \<Longrightarrow> fates env s' w horizon protected counts ns = fates env s w horizon protected counts ns"
  by (induction ns arbitrary: counts) (simp_all add: decide_node_view Let_def)

lemma schedule_result:
  "\<exists>evs. schedule_node_termination env n (Some r) (s, w)
     = (Inr (), (s\<lparr>as_event_summarizer := evs, as_nodes_to_terminate := as_nodes_to_terminate s @ [n]\<rparr>, w))"
  by (auto simp: schedule_node_termination_def bindS_def thenS_def add_event_def updS_def)

lemma schedule_all_result:
  "\<exists>evs. forS (\<lambda>n. schedule_node_termination env n (Some r)) ns (s, w)
     = (Inr (), (s\<lparr>as_event_summarizer := evs, as_nodes_to_terminate := as_nodes_to_terminate s @ ns\<rparr>, w))"
proof (induction ns arbitrary: s)
  case Nil
  then show ?case by (auto simp: retS_def intro!: exI [of _ "as_event_summarizer s"])
next
  case (Cons n ns)
  obtain evs where e: "schedule_node_termination env n (Some r) (s, w)
      = (Inr (), (s\<lparr>as_event_summarizer := evs, as_nodes_to_terminate := as_nodes_to_terminate s @ [n]\<rparr>, w))"
    using schedule_result [of env n r s w] by blast
  show ?case
    using Cons.IH [of "s\<lparr>as_event_summarizer := evs, as_nodes_to_terminate := as_nodes_to_terminate s @ [n]\<rparr>"]
    by (auto simp: thenS_def bindS_def e)
qed

lemma enforce_loop_result:
  "\<exists>evs counts'. foldS (enforce_node env horizon protected) (counts, could) ns (s, w)
     = (Inr (counts', could @ select (\<lambda>f. f = Removable) ns (fates env s w horizon protected counts ns)),
        (s\<lparr>as_event_summarizer := evs, as_nodes_to_terminate := as_nodes_to_terminate s
             @ select is_stop ns (fates env s w horizon protected counts ns)\<rparr>, w))"
proof (induction ns arbitrary: counts could s)
  case Nil
  then show ?case by (auto simp: retS_def intro!: exI [of _ "as_event_summarizer s"])
next
  case (Cons n ns)
  show ?case
  proof (cases "decide_node env s w horizon protected counts n")
    case (Stop reason)
    then obtain r where r: "reason = Some r" using decide_node_not_None [of env s w horizon protected counts n] by (cases reason) auto
    obtain evs where e: "schedule_node_termination env n (Some r) (s, w)
        = (Inr (), (s\<lparr>as_event_summarizer := evs, as_nodes_to_terminate := as_nodes_to_terminate s @ [n]\<rparr>, w))"
      using schedule_result [of env n r s w] by blast
    let ?s = "s\<lparr>as_event_summarizer := evs, as_nodes_to_terminate := as_nodes_to_terminate s @ [n]\<rparr>"
    have v: "same_view s ?s" by (simp add: same_view_def)
    have "enforce_node env horizon protected (counts, could) n (s, w) = (Inr (counts, could), (?s, w))"
      by (simp add: enforce_node_def bindS_def thenS_def Stop r e retS_def)
    then show ?thesis
      using Cons.IH [of counts could ?s] Stop by (simp add: bindS_def fates_view [OF v] Let_def)
  next
    case Stay
    then have "enforce_node env horizon protected (counts, could) n (s, w)
        = (Inr (keep_node env w n counts, could), (s, w))"
      by (simp add: enforce_node_def bindS_def retS_def)
    then show ?thesis
      using Cons.IH [of "keep_node env w n counts" could s] Stay by (simp add: bindS_def Let_def)
  next
    case Removable
    then have "enforce_node env horizon protected (counts, could) n (s, w)
        = (Inr (keep_node env w n counts, could @ [n]), (s, w))"
      by (simp add: enforce_node_def bindS_def retS_def)
    then show ?thesis
      using Cons.IH [of "keep_node env w n counts" "could @ [n]" s] Removable by (simp add: bindS_def Let_def)
  qed
qed

section \<open>One decision\<close>

lemma keep_node_count:
  "dget_or (keep_node env w n counts) t 0 = dget_or counts t 0 + (if node_type_of env w n = Some t then 1 else 0)"
  by (auto simp: keep_node_def node_type_of_def bump_count_def dget_or_def split: option.splits)

lemma decide_kept:
  assumes "\<not> is_stop (decide_node env s w horizon protected counts n)"
  shows "launch_config_ok env s w n"
    and "node_type_of env w n = Some t \<Longrightarrow> \<exists>c. map_of (as_available_node_types s) t = Some c
      \<and> dget_or counts t 0 + 1 \<le> config_max_workers c"
  using assms
  by (auto simp: decide_node_def keep_worker_of_node_type_def node_type_of_def Let_def
      split: option.splits prod.splits if_splits)

lemma decide_typed:
  assumes "node_type_of env w n = Some t" and "map_of (as_available_node_types s) t = Some c"
  defines "m \<equiv> min (config_min_workers c) (config_max_workers c)"
  shows "dget_or counts t 0 + 1 \<le> m \<Longrightarrow> launch_config_ok env s w n
      \<Longrightarrow> decide_node env s w horizon protected counts n = Stay"
    and "decide_node env s w horizon protected counts n = Removable \<Longrightarrow> m \<le> dget_or counts t 0"
  using assms
  by (auto simp: decide_node_def keep_worker_of_node_type_def node_type_of_def Let_def
      split: option.splits prod.splits if_splits)

lemma decide_protected:
  assumes "n \<in> protected" and "launch_config_ok env s w n" and "node_type_of env w n = Some t"
    and "map_of (as_available_node_types s) t = Some c" and "dget_or counts t 0 + 1 \<le> config_max_workers c"
  shows "decide_node env s w horizon protected counts n = Stay"
  using assms by (auto simp: decide_node_def keep_worker_of_node_type_def node_type_of_def Let_def)

lemma decide_idle:
  assumes "decide_node env s w horizon protected counts n = Removable"
  shows "\<not> (\<exists>t. map_of (last_used_time_by_ip (as_load_metrics s)) (ae_internal_ip env n w) = Some t \<and> t < horizon)"
  using assms by (auto simp: decide_node_def Let_def split: option.splits prod.splits if_splits)

section \<open>Counting\<close>

text \<open>How many of the nodes of type \<open>t\<close> satisfy a predicate.\<close>

abbreviation typed :: "'w autoscaler_env \<Rightarrow> 'w \<Rightarrow> string \<Rightarrow> string list \<Rightarrow> int" where
  "typed env w t ns \<equiv> int (length (filter (\<lambda>n. node_type_of env w n = Some t) ns))"

text \<open>
  \<open>k\<close> nodes of a type were kept before and \<open>kept\<close> are now, \<open>a\<close> of them for good and
  \<open>stay\<close> more; \<open>l\<close> had an up-to-date launch configuration and \<open>ok\<close> more.
\<close>

definition type_bounds :: "int \<Rightarrow> int \<Rightarrow> int \<Rightarrow> int \<Rightarrow> int \<Rightarrow> int \<Rightarrow> int \<Rightarrow> int \<Rightarrow> bool" where
  "type_bounds m mx k kept a stay l ok \<longleftrightarrow>
     k + kept \<le> max k mx \<and> min m (k + kept) \<le> a + stay \<and> min m (l + ok) \<le> k + kept"

lemma type_bounds_stop:
  assumes "type_bounds m mx k kept a stay (l + d) ok"
  shows "type_bounds m mx k kept a stay l (ok + d)"
  using assms by (simp add: type_bounds_def algebra_simps)

lemma type_bounds_keep:
  assumes "type_bounds m mx (k + 1) kept (a + d) stay (l + 1) ok" and "k + 1 \<le> mx"
  shows "type_bounds m mx k (kept + 1) a (stay + d) l (ok + 1)"
  using assms by (auto simp: type_bounds_def algebra_simps)

declare fates.simps(2) [simp del]

lemma fates_type_bounds:
  fixes env :: "'w autoscaler_env"
  assumes c: "map_of (as_available_node_types s) t = Some c"
    and m: "m = min (config_min_workers c) (config_max_workers c)"
    and "min m (dget_or counts t 0) \<le> a" and "min m l \<le> dget_or counts t 0"
  shows "type_bounds m (config_max_workers c) (dget_or counts t 0)
      (typed env w t (select (\<lambda>f. \<not> is_stop f) ns (fates env s w horizon protected counts ns))) a
      (typed env w t (select (\<lambda>f. f = Stay) ns (fates env s w horizon protected counts ns))) l
      (typed env w t (filter (launch_config_ok env s w) ns))"
  using assms(3,4)
proof (induction ns arbitrary: counts a l)
  case Nil
  then show ?case by (simp add: type_bounds_def)
next
  case (Cons n ns)
  let ?d = "decide_node env s w horizon protected counts n" and ?k = "dget_or counts t 0"
  define counts' where "counts' = (if is_stop ?d then counts else keep_node env w n counts)"
  have fs: "fates env s w horizon protected counts (n # ns) = ?d # fates env s w horizon protected counts' ns"
    by (simp add: fates.simps(2) counts'_def Let_def split: node_fate.split)
  show ?case
  proof (cases "node_type_of env w n = Some t")
    case False
    then have "dget_or counts' t 0 = ?k" by (simp add: counts'_def keep_node_count)
    then show ?thesis using Cons.IH [of counts' a l] Cons.prems False by (simp add: fs)
  next
    case ty: True
    note typed = decide_typed [OF ty c, folded m]
    show ?thesis
    proof (cases "is_stop ?d")
      case True
      let ?e = "if launch_config_ok env s w n then 1 else 0"
      have "m \<le> ?k" if "launch_config_ok env s w n"
        using typed(1) [of counts horizon protected] that True by (cases "?k + 1 \<le> m") auto
      then have "min m (l + ?e) \<le> ?k" using Cons.prems(2) by auto
      then have "type_bounds m (config_max_workers c) (dget_or counts' t 0)
          (typed env w t (select (\<lambda>f. \<not> is_stop f) ns (fates env s w horizon protected counts' ns))) a
          (typed env w t (select (\<lambda>f. f = Stay) ns (fates env s w horizon protected counts' ns))) (l + ?e)
          (typed env w t (filter (launch_config_ok env s w) ns))"
        using Cons.IH [of counts' a "l + ?e"] Cons.prems(1) True by (simp add: counts'_def)
      from type_bounds_stop [OF this] show ?thesis
        using True ty by (cases ?d) (auto simp: fs counts'_def algebra_simps)
    next
      case kept: False
      then have k': "dget_or counts' t 0 = ?k + 1" using ty by (simp add: counts'_def keep_node_count)
      have ok: "launch_config_ok env s w n" and le: "?k + 1 \<le> config_max_workers c"
        using decide_kept [OF kept] ty c by auto
      let ?e = "if ?d = Stay then 1 else 0"
      have "m \<le> ?k" if "?d = Removable" using typed(2) that by blast
      then have "min m (dget_or counts' t 0) \<le> a + ?e" using Cons.prems(1) kept k' by (cases ?d) auto
      moreover have "min m (l + 1) \<le> dget_or counts' t 0" using Cons.prems(2) k' by auto
      ultimately have "type_bounds m (config_max_workers c) (?k + 1)
          (typed env w t (select (\<lambda>f. \<not> is_stop f) ns (fates env s w horizon protected counts' ns))) (a + ?e)
          (typed env w t (select (\<lambda>f. f = Stay) ns (fates env s w horizon protected counts' ns))) (l + 1)
          (typed env w t (filter (launch_config_ok env s w) ns))"
        using Cons.IH [of counts' "a + ?e" "l + 1"] k' by simp
      from type_bounds_keep [OF this le] show ?thesis
        using kept ty ok by (cases ?d) (auto simp: fs algebra_simps)
    qed
  qed
qed

lemma fates_unprotected:
  fixes env :: "'w autoscaler_env"
  assumes c: "map_of (as_available_node_types s) t = Some c"
    and m: "m = min (config_min_workers c) (config_max_workers c)"
  shows "typed env w t (filter (\<lambda>n. n \<notin> protected)
      (select (\<lambda>f. f = Stay) ns (fates env s w horizon protected counts ns))) \<le> max 0 (m - dget_or counts t 0)"
proof (induction ns arbitrary: counts)
  case (Cons n ns)
  let ?d = "decide_node env s w horizon protected counts n" and ?k = "dget_or counts t 0"
  define counts' where "counts' = (if is_stop ?d then counts else keep_node env w n counts)"
  have fs: "fates env s w horizon protected counts (n # ns) = ?d # fates env s w horizon protected counts' ns"
    by (simp add: fates.simps(2) counts'_def Let_def split: node_fate.split)
  have le: "?k \<le> dget_or counts' t 0" by (auto simp: counts'_def keep_node_count)
  show ?case
  proof (cases "?d = Stay \<and> n \<notin> protected \<and> node_type_of env w n = Some t")
    case True
    then have "?k + 1 \<le> m" using c m
      by (auto simp: decide_node_def keep_worker_of_node_type_def node_type_of_def Let_def split: if_splits)
    moreover have "dget_or counts' t 0 = ?k + 1" using True by (simp add: counts'_def keep_node_count)
    ultimately show ?thesis using Cons.IH [of counts'] True by (simp add: fs)
  next
    case False
    then have eq: "filter (\<lambda>x. node_type_of env w x = Some t) (filter (\<lambda>n. n \<notin> protected)
          (select (\<lambda>f. f = Stay) (n # ns) (?d # fates env s w horizon protected counts' ns)))
        = filter (\<lambda>x. node_type_of env w x = Some t) (filter (\<lambda>n. n \<notin> protected)
          (select (\<lambda>f. f = Stay) ns (fates env s w horizon protected counts' ns)))" by auto
    have "max 0 (m - dget_or counts' t 0) \<le> max 0 (m - ?k)" using le by auto
    then show ?thesis unfolding fs eq using Cons.IH [of counts'] by (rule order.trans [rotated])
  qed
qed simp

lemma fates_protected:
  fixes env :: "'w autoscaler_env"
  assumes "map_of (as_available_node_types s) t = Some c" and "n \<in> protected" and "launch_config_ok env s w n"
    and "node_type_of env w n = Some t" and "dget_or counts t 0 + typed env w t ns \<le> config_max_workers c"
    and "n \<in> set ns"
  shows "n \<in> set (select (\<lambda>f. f = Stay) ns (fates env s w horizon protected counts ns))"
  using assms(5,6)
proof (induction ns arbitrary: counts)
  case (Cons x ns)
  let ?d = "decide_node env s w horizon protected counts x"
  define counts' where "counts' = (if is_stop ?d then counts else keep_node env w x counts)"
  have fs: "fates env s w horizon protected counts (x # ns) = ?d # fates env s w horizon protected counts' ns"
    by (simp add: fates.simps(2) counts'_def Let_def split: node_fate.split)
  show ?case
  proof (cases "x = n")
    case True
    then have "?d = Stay" using Cons.prems(1) assms(4) by (intro decide_protected [OF _ _ _ assms(1)]) (simp_all add: assms)
    then show ?thesis unfolding fs using True by simp
  next
    case False
    have "dget_or counts' t 0 + typed env w t ns \<le> config_max_workers c"
      using Cons.prems(1) by (auto simp: counts'_def keep_node_count split: if_splits)
    then have "n \<in> set (select (\<lambda>f. f = Stay) ns (fates env s w horizon protected counts' ns))"
      using Cons.IH False Cons.prems(2) by simp
    then show ?thesis by (simp add: fs)
  qed
qed simp

lemma fates_kept:
  fixes env :: "'w autoscaler_env"
  assumes "(n, f) \<in> set (zip ns (fates env s w horizon protected counts ns))"
  shows "\<not> is_stop f \<Longrightarrow> launch_config_ok env s w n"
    and "\<not> is_stop f \<Longrightarrow> node_type_of env w n = Some t \<Longrightarrow> dmem t (as_available_node_types s)"
    and "f = Removable \<Longrightarrow> map_of (last_used_time_by_ip (as_load_metrics s)) (ae_internal_ip env n w) = Some u \<Longrightarrow> horizon \<le> u"
  using assms
proof (induction ns arbitrary: counts)
  case (Cons x ns)
  {
    case 1
    then show ?case using Cons.IH(1) decide_kept(1) [of env s w horizon protected counts n]
      by (auto simp: fates.simps(2) Let_def)
  next
    case 2
    then show ?case using Cons.IH(2) decide_kept(2) [of env s w horizon protected counts n t]
      by (auto simp: fates.simps(2) Let_def dmem_def)
  next
    case 3
    then show ?case using Cons.IH(3) decide_idle [of env s w horizon protected counts n]
      by (auto simp: fates.simps(2) Let_def)
  }
qed simp_all

section \<open>The nodes that are terminated\<close>

lemma select_filter:
  assumes "distinct ns" and "length fs = length ns"
  shows "select P ns fs = filter (\<lambda>n. P (the (map_of (zip ns fs) n))) ns"
  using assms(2,1)
proof (induction fs ns rule: list_induct2)
  case (Cons f fs n ns)
  have "filter (\<lambda>x. P (the (((map_of (zip ns fs))(n \<mapsto> f)) x))) ns = filter (\<lambda>x. P (the (map_of (zip ns fs) x))) ns"
    using Cons.prems by (intro filter_cong) auto
  then show ?case using Cons by simp
qed simp

lemma length_filter_mono: "(\<And>x. x \<in> set xs \<Longrightarrow> P x \<Longrightarrow> Q x) \<Longrightarrow> length (filter P xs) \<le> length (filter Q xs)"
  by (induction xs) auto

definition doomed_nodes :: "'w autoscaler_env \<Rightarrow> autoscaler \<Rightarrow> 'w \<Rightarrow> rat \<Rightarrow> string set \<Rightarrow> string list" where
  "doomed_nodes env s w now protected =
     (let ns = sort_based_on_last_used env w (as_workers s) (last_used_time_by_ip (as_load_metrics s));
          fs = fates env s w (now - 60 * cfg_idle_timeout_minutes (as_config s)) protected [] ns;
          stopped = as_nodes_to_terminate s @ select is_stop ns fs
      in stopped @ extra_nodes (s\<lparr>as_nodes_to_terminate := stopped\<rparr>) (select (\<lambda>f. f = Removable) ns fs))"

abbreviation protected_nodes :: "'w autoscaler_env \<Rightarrow> autoscaler \<Rightarrow> 'w \<Rightarrow> string set result" where
  "protected_nodes env s w \<equiv>
     (if get_resource_requests (as_load_metrics s) \<noteq> []
      then get_nodes_needed_for_request_resources env s w
             (sort_based_on_last_used env w (as_workers s) (last_used_time_by_ip (as_load_metrics s)))
      else Inr {})"

lemma enforcement_result:
  assumes "protected_nodes env s w = Inr protected"
  shows "\<exists>evs. terminate_nodes_to_enforce_config_constraints env now (s, w)
    = terminate_scheduled_nodes env
        (s\<lparr>as_event_summarizer := evs, as_nodes_to_terminate := doomed_nodes env s w now protected\<rparr>, w)"
proof -
  let ?ns = "sort_based_on_last_used env w (as_workers s) (last_used_time_by_ip (as_load_metrics s))"
  let ?h = "now - 60 * cfg_idle_timeout_minutes (as_config s)"
  let ?fs = "fates env s w ?h protected [] ?ns"
  let ?stopped = "as_nodes_to_terminate s @ select is_stop ?ns ?fs"
  obtain evs counts where loop: "foldS (enforce_node env ?h protected) ([], []) ?ns (s, w)
      = (Inr (counts, select (\<lambda>f. f = Removable) ?ns ?fs),
         (s\<lparr>as_event_summarizer := evs, as_nodes_to_terminate := ?stopped\<rparr>, w))"
    using enforce_loop_result [of env ?h protected "[]" "[]" ?ns s w] by auto
  let ?s = "s\<lparr>as_event_summarizer := evs, as_nodes_to_terminate := ?stopped\<rparr>"
  let ?extra = "extra_nodes ?s (select (\<lambda>f. f = Removable) ?ns ?fs)"
  obtain evs' where sched: "forS (\<lambda>n. schedule_node_termination env n (Some ''max workers'')) ?extra (?s, w)
      = (Inr (), (?s\<lparr>as_event_summarizer := evs', as_nodes_to_terminate := as_nodes_to_terminate ?s @ ?extra\<rparr>, w))"
    using schedule_all_result [of env "''max workers''" ?extra ?s w] by blast
  have "?extra = extra_nodes (s\<lparr>as_nodes_to_terminate := ?stopped\<rparr>) (select (\<lambda>f. f = Removable) ?ns ?fs)"
    by (simp add: extra_nodes_def)
  then have "?stopped @ ?extra = doomed_nodes env s w now protected" by (simp add: doomed_nodes_def Let_def)
  then have "terminate_nodes_to_enforce_config_constraints env now (s, w)
    = terminate_scheduled_nodes env
        (s\<lparr>as_event_summarizer := evs', as_nodes_to_terminate := doomed_nodes env s w now protected\<rparr>, w)"
    using loop sched assms
    by (simp add: terminate_nodes_to_enforce_config_constraints_def bindS_def thenS_def liftS_def Let_def)
  then show ?thesis by blast
qed

text \<open>The decisions as a function of the node, for the guarantees below.\<close>

definition fate_of :: "'w autoscaler_env \<Rightarrow> autoscaler \<Rightarrow> 'w \<Rightarrow> rat \<Rightarrow> string set \<Rightarrow> string \<Rightarrow> node_fate" where
  "fate_of env s w now protected n =
     (let ns = sort_based_on_last_used env w (as_workers s) (last_used_time_by_ip (as_load_metrics s))
      in the (map_of (zip ns (fates env s w (now - 60 * cfg_idle_timeout_minutes (as_config s)) protected [] ns)) n))"

abbreviation by_last_use :: "'w autoscaler_env \<Rightarrow> autoscaler \<Rightarrow> 'w \<Rightarrow> string list" where
  "by_last_use env s w \<equiv> sort_based_on_last_used env w (as_workers s) (last_used_time_by_ip (as_load_metrics s))"

lemma mset_by_last_use: "mset (by_last_use env s w) = mset (as_workers s)"
  by (simp add: sort_based_on_last_used_def)

lemma distinct_by_last_use: "distinct (as_workers s) \<Longrightarrow> distinct (by_last_use env s w)"
  by (rule mset_eq_imp_distinct_iff [OF mset_by_last_use, THEN iffD2])

lemma select_fate_of:
  assumes "distinct (as_workers s)"
  shows "select P (by_last_use env s w) (fates env s w (now - 60 * cfg_idle_timeout_minutes (as_config s)) protected [] (by_last_use env s w))
    = filter (\<lambda>n. P (fate_of env s w now protected n)) (by_last_use env s w)"
  by (simp add: select_filter [OF distinct_by_last_use [OF assms]] fate_of_def Let_def)

lemma fate_of_zip:
  assumes "distinct (as_workers s)" and "n \<in> set (as_workers s)"
  shows "(n, fate_of env s w now protected n) \<in> set (zip (by_last_use env s w)
    (fates env s w (now - 60 * cfg_idle_timeout_minutes (as_config s)) protected [] (by_last_use env s w)))"
proof -
  let ?ns = "by_last_use env s w"
  let ?fs = "fates env s w (now - 60 * cfg_idle_timeout_minutes (as_config s)) protected [] ?ns"
  have "n \<in> set ?ns" using assms(2) by (simp add: sort_based_on_last_used_def)
  then obtain f where f: "map_of (zip ?ns ?fs) n = Some f"
    using map_of_zip_is_Some [of ?ns ?fs n] by auto
  then show ?thesis using map_of_SomeD [OF f] by (simp add: fate_of_def Let_def)
qed

lemma fate_of_kept:
  assumes "distinct (as_workers s)" and "n \<in> set (as_workers s)"
    and "\<not> is_stop (fate_of env s w now protected n)"
  shows "launch_config_ok env s w n"
    and "node_type_of env w n = Some t \<Longrightarrow> dmem t (as_available_node_types s)"
  using fates_kept(1,2) [OF fate_of_zip [OF assms(1,2), of env w now protected]] assms(3) by blast+

lemma fate_of_removable:
  assumes "distinct (as_workers s)" and "n \<in> set (as_workers s)" and "fate_of env s w now protected n = Removable"
    and "map_of (last_used_time_by_ip (as_load_metrics s)) (ae_internal_ip env n w) = Some u"
  shows "now - 60 * cfg_idle_timeout_minutes (as_config s) \<le> u"
  using fates_kept(3) [OF fate_of_zip [OF assms(1,2), of env w now protected] assms(3,4)] .

definition extra_of :: "'w autoscaler_env \<Rightarrow> autoscaler \<Rightarrow> 'w \<Rightarrow> rat \<Rightarrow> string set \<Rightarrow> string list" where
  "extra_of env s w now protected =
     extra_nodes (s\<lparr>as_nodes_to_terminate := filter (\<lambda>n. is_stop (fate_of env s w now protected n)) (by_last_use env s w)\<rparr>)
       (filter (\<lambda>n. fate_of env s w now protected n = Removable) (by_last_use env s w))"

lemma doomed_split:
  assumes "distinct (as_workers s)" and "as_nodes_to_terminate s = []"
  shows "doomed_nodes env s w now protected
    = filter (\<lambda>n. is_stop (fate_of env s w now protected n)) (by_last_use env s w) @ extra_of env s w now protected"
  by (simp add: doomed_nodes_def Let_def select_fate_of [OF assms(1)] extra_of_def assms(2))

lemma extra_cases:
  "extra_nodes s could = could \<or>
   (\<exists>k. extra_nodes s could = drop k could) \<and> int (length (as_workers s)) - int (length (as_nodes_to_terminate s))
       - int (length (extra_nodes s could)) \<le> cfg_max_workers (as_config s)"
proof -
  define d where "d = int (length (as_workers s)) - int (length (as_nodes_to_terminate s)) - cfg_max_workers (as_config s)"
  consider "d \<le> 0" | "0 < d" "d \<le> int (length could)" | "int (length could) < d" by linarith
  then show ?thesis
  proof cases
    case 1
    then have e: "extra_nodes s could = drop (length could) could" by (simp add: extra_nodes_def flip: d_def)
    then have "int (length (extra_nodes s could)) = 0" by simp
    then have "int (length (as_workers s)) - int (length (as_nodes_to_terminate s))
        - int (length (extra_nodes s could)) \<le> cfg_max_workers (as_config s)" using 1 d_def by linarith
    then show ?thesis using e by blast
  next
    case 2
    then have e: "extra_nodes s could = drop (length could - nat d) could" by (simp add: extra_nodes_def flip: d_def)
    then have "int (length (extra_nodes s could)) = d" using 2 by simp
    then have "int (length (as_workers s)) - int (length (as_nodes_to_terminate s))
        - int (length (extra_nodes s could)) \<le> cfg_max_workers (as_config s)" using d_def by linarith
    then show ?thesis using e by blast
  next
    case 3
    then show ?thesis by (simp add: extra_nodes_def flip: d_def)
  qed
qed

section \<open>The guarantees\<close>

definition idle_since :: "'w autoscaler_env \<Rightarrow> autoscaler \<Rightarrow> 'w \<Rightarrow> rat \<Rightarrow> string \<Rightarrow> bool" where
  "idle_since env s w horizon n \<longleftrightarrow>
     (case map_of (last_used_time_by_ip (as_load_metrics s)) (ae_internal_ip env n w) of
        None \<Rightarrow> False | Some u \<Rightarrow> u < horizon)"

abbreviation survivors :: "'w autoscaler_env \<Rightarrow> autoscaler \<Rightarrow> 'w \<Rightarrow> rat \<Rightarrow> string set \<Rightarrow> string list" where
  "survivors env s w now protected \<equiv> filter (\<lambda>n. n \<notin> set (doomed_nodes env s w now protected)) (as_workers s)"

lemma length_filter_workers:
  "length (filter P (as_workers s)) = length (filter P (by_last_use env s w))"
  by (metis mset_by_last_use mset_filter size_mset)

lemma extra_removable:
  "set (extra_of env s w now protected) \<subseteq> {n \<in> set (by_last_use env s w). fate_of env s w now protected n = Removable}"
proof -
  have sub: "set (extra_nodes s' could) \<subseteq> set could" for s' could
    using extra_cases [of s' could] by (elim disjE conjE exE) (simp_all add: set_drop_subset)
  show ?thesis unfolding extra_of_def by (rule order.trans [OF sub]) auto
qed

lemma doomed_distinct:
  assumes "distinct (as_workers s)" and "as_nodes_to_terminate s = []"
  shows "distinct (doomed_nodes env s w now protected)" and "set (doomed_nodes env s w now protected) \<subseteq> set (as_workers s)"
proof -
  let ?stop = "filter (\<lambda>n. is_stop (fate_of env s w now protected n)) (by_last_use env s w)"
  note B = distinct_by_last_use [OF assms(1), of env w]
  have "distinct (extra_nodes s' could)" if "distinct could" for s' could
    using extra_cases [of s' could] that by (elim disjE conjE exE) simp_all
  then have "distinct (extra_of env s w now protected)" using B unfolding extra_of_def by simp
  moreover have "set ?stop \<inter> set (extra_of env s w now protected) = {}"
    using extra_removable [of env s w now protected] by auto
  ultimately show "distinct (doomed_nodes env s w now protected)"
    using B unfolding doomed_split [OF assms] distinct_append by simp
  have "set (by_last_use env s w) = set (as_workers s)" by (simp add: sort_based_on_last_used_def)
  then show "set (doomed_nodes env s w now protected) \<subseteq> set (as_workers s)"
    using extra_removable [of env s w now protected] unfolding doomed_split [OF assms] by auto
qed

lemma survivor_iff:
  assumes "distinct (as_workers s)" and "as_nodes_to_terminate s = []" and "n \<in> set (as_workers s)"
  shows "n \<notin> set (doomed_nodes env s w now protected) \<longleftrightarrow>
    fate_of env s w now protected n = Stay
    \<or> (fate_of env s w now protected n = Removable \<and> n \<notin> set (extra_of env s w now protected))"
proof -
  have "n \<in> set (by_last_use env s w)" using assms(3) by (simp add: sort_based_on_last_used_def)
  then show ?thesis
    using extra_removable [of env s w now protected]
    by (cases "fate_of env s w now protected n") (auto simp: doomed_split [OF assms(1,2)])
qed

lemma survivor_types:
  fixes env :: "'w autoscaler_env"
  assumes ok: "distinct (as_workers s)" "as_nodes_to_terminate s = []"
    and c: "map_of (as_available_node_types s) t = Some c"
    and m: "m = min (config_min_workers c) (config_max_workers c)"
  shows "typed env w t (survivors env s w now protected) \<le> max 0 (config_max_workers c)"
    and "min m (typed env w t (filter (launch_config_ok env s w) (as_workers s)))
      \<le> typed env w t (survivors env s w now protected)"
proof -
  let ?F = "fate_of env s w now protected" and ?B = "by_last_use env s w"
  let ?T = "\<lambda>n. node_type_of env w n = Some t"
  have b: "type_bounds m (config_max_workers c) 0 (int (length (filter ?T (filter (\<lambda>n. \<not> is_stop (?F n)) ?B)))) 0
      (int (length (filter ?T (filter (\<lambda>n. ?F n = Stay) ?B)))) 0
      (int (length (filter ?T (filter (launch_config_ok env s w) ?B))))"
    using fates_type_bounds [OF c m, of "[]" 0 0 env w ?B "now - 60 * cfg_idle_timeout_minutes (as_config s)" protected]
    by (simp add: select_fate_of [OF ok(1)] dget_or_def)
  let ?D = "set (doomed_nodes env s w now protected)"
  have in_B: "n \<in> set ?B \<Longrightarrow> n \<in> set (as_workers s)" for n by (simp add: sort_based_on_last_used_def)
  have kept: "\<not> is_stop (?F n)" if "n \<in> set ?B" "n \<notin> ?D" for n
    using survivor_iff [OF ok in_B [OF that(1)], of env w now protected] that(2) by (cases "?F n") auto
  have stays: "n \<notin> ?D" if "n \<in> set ?B" "?F n = Stay" for n
    using survivor_iff [OF ok in_B [OF that(1)], of env w now protected] that(2) by simp
  have up: "length (filter ?T (survivors env s w now protected)) \<le> length (filter ?T (filter (\<lambda>n. \<not> is_stop (?F n)) ?B))"
    unfolding filter_filter length_filter_workers [of _ s env w]
    by (rule length_filter_mono) (use kept in blast)
  have lo: "length (filter ?T (filter (\<lambda>n. ?F n = Stay) ?B)) \<le> length (filter ?T (survivors env s w now protected))"
    unfolding filter_filter length_filter_workers [of _ s env w]
    by (rule length_filter_mono) (use stays in blast)
  have "length (filter ?T (filter (launch_config_ok env s w) (as_workers s)))
      = length (filter ?T (filter (launch_config_ok env s w) ?B))"
    unfolding filter_filter by (rule length_filter_workers)
  then show "min m (typed env w t (filter (launch_config_ok env s w) (as_workers s)))
      \<le> typed env w t (survivors env s w now protected)"
    using b lo unfolding type_bounds_def by linarith
  show "typed env w t (survivors env s w now protected) \<le> max 0 (config_max_workers c)"
    using b up unfolding type_bounds_def by linarith
qed

lemma survivor_unneeded:
  fixes env :: "'w autoscaler_env"
  assumes ok: "distinct (as_workers s)" "as_nodes_to_terminate s = []"
    and c: "map_of (as_available_node_types s) t = Some c"
    and m: "m = min (config_min_workers c) (config_max_workers c)"
    and P: "\<And>n. n \<in> set (survivors env s w now protected) \<Longrightarrow> P n \<Longrightarrow> fate_of env s w now protected n = Stay \<and> n \<notin> protected"
  shows "typed env w t (filter P (survivors env s w now protected)) \<le> max 0 m"
proof -
  let ?F = "fate_of env s w now protected" and ?B = "by_last_use env s w"
  let ?T = "\<lambda>n. node_type_of env w n = Some t"
  have "int (length (filter ?T (filter (\<lambda>n. n \<notin> protected) (filter (\<lambda>n. ?F n = Stay) ?B)))) \<le> max 0 m"
    using fates_unprotected [OF c m, of env w protected ?B "now - 60 * cfg_idle_timeout_minutes (as_config s)" "[]"]
    by (simp add: select_fate_of [OF ok(1)] dget_or_def)
  moreover have "length (filter ?T (filter P (survivors env s w now protected)))
      \<le> length (filter ?T (filter (\<lambda>n. n \<notin> protected) (filter (\<lambda>n. ?F n = Stay) ?B)))"
    unfolding filter_filter length_filter_workers [of _ s env w]
    by (rule length_filter_mono) (use P in \<open>simp add: sort_based_on_last_used_def\<close>)
  ultimately show ?thesis by linarith
qed

lemma survivor_total:
  assumes ok: "distinct (as_workers s)" "as_nodes_to_terminate s = []"
  shows "int (length (survivors env s w now protected)) \<le> cfg_max_workers (as_config s)
    \<or> (\<forall>n \<in> set (survivors env s w now protected). fate_of env s w now protected n = Stay)"
proof -
  let ?F = "fate_of env s w now protected" and ?B = "by_last_use env s w"
  let ?could = "filter (\<lambda>n. ?F n = Removable) ?B" and ?stop = "filter (\<lambda>n. is_stop (?F n)) ?B"
  let ?s = "s\<lparr>as_nodes_to_terminate := ?stop\<rparr>"
  consider "extra_of env s w now protected = ?could"
    | k where "extra_of env s w now protected = drop k ?could"
      "int (length (as_workers s)) - int (length ?stop) - int (length (extra_of env s w now protected)) \<le> cfg_max_workers (as_config s)"
    using extra_cases [of ?s ?could] unfolding extra_of_def by auto
  then show ?thesis
  proof cases
    case 1
    have "?F n = Stay" if "n \<in> set (survivors env s w now protected)" for n
    proof -
      have n: "n \<in> set (as_workers s)" "n \<notin> set (doomed_nodes env s w now protected)" using that by auto
      then have "n \<in> set ?could" if "?F n = Removable" using that by (simp add: sort_based_on_last_used_def)
      then show ?thesis using survivor_iff [OF ok n(1), of env w now protected] n(2) 1 by auto
    qed
    then show ?thesis by blast
  next
    case 2
    note d = doomed_distinct [OF ok, of env w now protected]
    have "length (survivors env s w now protected) + length (filter (\<lambda>n. n \<in> set (doomed_nodes env s w now protected)) (as_workers s)) = length (as_workers s)"
      using sum_length_filter_compl [of "\<lambda>n. n \<in> set (doomed_nodes env s w now protected)" "as_workers s"] by simp
    moreover have "length (filter (\<lambda>n. n \<in> set (doomed_nodes env s w now protected)) (as_workers s)) = length (doomed_nodes env s w now protected)"
    proof -
      have "set (filter (\<lambda>n. n \<in> set (doomed_nodes env s w now protected)) (as_workers s)) = set (doomed_nodes env s w now protected)"
        using d(2) by auto
      then show ?thesis using d(1) ok(1) by (metis distinct_card distinct_filter)
    qed
    ultimately show ?thesis using 2(2) unfolding doomed_split [OF ok] by simp
  qed
qed

lemma survivor_kept:
  assumes ok: "distinct (as_workers s)" "as_nodes_to_terminate s = []" and n: "n \<in> set (survivors env s w now protected)"
  shows "n \<in> set (as_workers s)" and "\<not> is_stop (fate_of env s w now protected n)"
proof -
  show w: "n \<in> set (as_workers s)" using n by simp
  show "\<not> is_stop (fate_of env s w now protected n)"
    using survivor_iff [OF ok w, of env w now protected] n by (cases "fate_of env s w now protected n") auto
qed

lemma survivor_idle:
  assumes ok: "distinct (as_workers s)" "as_nodes_to_terminate s = []" and n: "n \<in> set (survivors env s w now protected)"
    and idle: "idle_since env s w (now - 60 * cfg_idle_timeout_minutes (as_config s)) n"
  shows "fate_of env s w now protected n = Stay"
proof -
  note kept = survivor_kept [OF ok n]
  obtain u where u: "map_of (last_used_time_by_ip (as_load_metrics s)) (ae_internal_ip env n w) = Some u"
    "u < now - 60 * cfg_idle_timeout_minutes (as_config s)"
    using idle by (auto simp: idle_since_def split: option.splits)
  then have "fate_of env s w now protected n \<noteq> Removable" using fate_of_removable [OF ok(1) kept(1) _ u(1)] by force
  then show ?thesis using kept(2) by (cases "fate_of env s w now protected n") auto
qed

lemma survivor_protected:
  fixes env :: "'w autoscaler_env"
  assumes ok: "distinct (as_workers s)" "as_nodes_to_terminate s = []"
    and n: "n \<in> set (as_workers s)" "n \<in> protected" "launch_config_ok env s w n" "node_type_of env w n = Some t"
    and c: "map_of (as_available_node_types s) t = Some c" "typed env w t (as_workers s) \<le> config_max_workers c"
  shows "n \<in> set (survivors env s w now protected)"
proof -
  let ?h = "now - 60 * cfg_idle_timeout_minutes (as_config s)"
  have "n \<in> set (select (\<lambda>f. f = Stay) (by_last_use env s w) (fates env s w ?h protected [] (by_last_use env s w)))"
    by (rule fates_protected [OF c(1) n(2,3,4)])
      (use n(1) c(2) in \<open>simp_all add: length_filter_workers [of _ s env w] sort_based_on_last_used_def dget_or_def\<close>)
  then have "fate_of env s w now protected n = Stay" by (simp add: select_fate_of [OF ok(1)])
  then show ?thesis using survivor_iff [OF ok n(1), of env w now protected] n(1) by simp
qed

text \<open>
  C5: the nodes that \<open>terminate_nodes_to_enforce_config_constraints\<close> terminates. They are
  workers, each once. Of every configured type at most \<open>max_workers\<close> survive and at least
  \<open>min_workers\<close>, as far as there are workers with a current launch configuration; idle
  workers that \<open>request_resources\<close> does not need survive only as part of
  \<open>min_workers\<close>. Survivors have a current launch configuration and a configured type. More
  than the cluster's \<open>max_workers\<close> survive only if none of them is dispensable. A worker that
  \<open>request_resources\<close> needs survives if its type is within its maximum.
\<close>

theorem enforcement_keeps_limits:
  fixes env :: "'w autoscaler_env"
  assumes ok: "distinct (as_workers s)" "as_nodes_to_terminate s = []"
    and prot: "protected_nodes env s w = Inr protected"
  shows "\<exists>evs doomed. terminate_nodes_to_enforce_config_constraints env now (s, w)
      = terminate_scheduled_nodes env (s\<lparr>as_event_summarizer := evs, as_nodes_to_terminate := doomed\<rparr>, w)
    \<and> distinct doomed \<and> set doomed \<subseteq> set (as_workers s)
    \<and> (let left = filter (\<lambda>n. n \<notin> set doomed) (as_workers s);
           horizon = now - 60 * cfg_idle_timeout_minutes (as_config s)
       in (\<forall>n \<in> set left. launch_config_ok env s w n)
        \<and> (\<forall>n \<in> set left. \<forall>t. node_type_of env w n = Some t \<longrightarrow> dmem t (as_available_node_types s))
        \<and> (\<forall>t c. map_of (as_available_node_types s) t = Some c \<longrightarrow>
             typed env w t left \<le> max 0 (config_max_workers c)
           \<and> min (min (config_min_workers c) (config_max_workers c))
                 (typed env w t (filter (launch_config_ok env s w) (as_workers s))) \<le> typed env w t left
           \<and> typed env w t (filter (\<lambda>n. n \<notin> protected \<and> idle_since env s w horizon n) left)
               \<le> max 0 (min (config_min_workers c) (config_max_workers c)))
        \<and> (int (length left) \<le> cfg_max_workers (as_config s)
           \<or> (\<forall>t c. map_of (as_available_node_types s) t = Some c \<longrightarrow>
               typed env w t (filter (\<lambda>n. n \<notin> protected) left) \<le> max 0 (min (config_min_workers c) (config_max_workers c))))
        \<and> (\<forall>n t c. n \<in> set (as_workers s) \<and> n \<in> protected \<and> launch_config_ok env s w n
             \<and> node_type_of env w n = Some t \<and> map_of (as_available_node_types s) t = Some c
             \<and> typed env w t (as_workers s) \<le> config_max_workers c \<longrightarrow> n \<in> set left))"
proof -
  let ?left = "survivors env s w now protected" and ?F = "fate_of env s w now protected"
  let ?h = "now - 60 * cfg_idle_timeout_minutes (as_config s)"
  obtain evs where run: "terminate_nodes_to_enforce_config_constraints env now (s, w)
      = terminate_scheduled_nodes env (s\<lparr>as_event_summarizer := evs, as_nodes_to_terminate := doomed_nodes env s w now protected\<rparr>, w)"
    using enforcement_result [OF prot] by blast
  have conf: "launch_config_ok env s w n \<and> (\<forall>t. node_type_of env w n = Some t \<longrightarrow> dmem t (as_available_node_types s))"
    if n: "n \<in> set ?left" for n
    using fate_of_kept [OF ok(1) survivor_kept [OF ok n]] by blast
  have idle: "typed env w t (filter (\<lambda>n. n \<notin> protected \<and> idle_since env s w ?h n) ?left)
      \<le> max 0 (min (config_min_workers c) (config_max_workers c))"
    if c: "map_of (as_available_node_types s) t = Some c" for t c
    by (rule survivor_unneeded [OF ok c refl]) (use survivor_idle [OF ok, of _ env w now protected] in blast)
  have dispensable: "typed env w t (filter (\<lambda>n. n \<notin> protected) ?left) \<le> max 0 (min (config_min_workers c) (config_max_workers c))"
    if stay: "\<forall>n \<in> set ?left. ?F n = Stay" and c: "map_of (as_available_node_types s) t = Some c" for t c
    by (rule survivor_unneeded [OF ok c refl]) (use stay in blast)
  have total: "int (length ?left) \<le> cfg_max_workers (as_config s)
      \<or> (\<forall>t c. map_of (as_available_node_types s) t = Some c \<longrightarrow>
          typed env w t (filter (\<lambda>n. n \<notin> protected) ?left) \<le> max 0 (min (config_min_workers c) (config_max_workers c)))"
    using survivor_total [OF ok, of env w now protected] dispensable by blast
  have types: "typed env w t ?left \<le> max 0 (config_max_workers c)
      \<and> min (min (config_min_workers c) (config_max_workers c))
          (typed env w t (filter (launch_config_ok env s w) (as_workers s))) \<le> typed env w t ?left"
    if c: "map_of (as_available_node_types s) t = Some c" for t c
    using survivor_types [OF ok c refl, of env w now protected] by blast
  show ?thesis
    unfolding Let_def
    apply (rule exI [of _ evs], rule exI [of _ "doomed_nodes env s w now protected"])
    apply (intro conjI run doomed_distinct [OF ok] total ballI allI impI)
    subgoal by (rule conjunct1 [OF conf])
    subgoal by (rule conjunct2 [OF conf, rule_format])
    subgoal by (rule conjunct1 [OF types])
    subgoal by (rule conjunct2 [OF types])
    subgoal by (rule idle)
    subgoal by (elim conjE) (rule survivor_protected [OF ok])
    done
qed

section \<open>A concrete cluster\<close>

text \<open>
  A provider that keeps a table of its nodes and their tags, creates and terminates them at once, and
  uses the id of a node as its address.
\<close>

record ex_cloud =
  ec_nodes :: "(string, (string, string) dict) dict"
  ec_clock :: rat

definition ex_create :: "(string, string) dict \<Rightarrow> int \<Rightarrow> ex_cloud \<Rightarrow> ex_cloud" where
  "ex_create tags n w =
     (let free = Suc (fold max (map (length \<circ> fst) (ec_nodes w)) 0)
      in w\<lparr>ec_nodes := ec_nodes w @ map (\<lambda>i. (replicate (free + i) CHR ''n'', tags)) [0..<nat n]\<rparr>)"

definition ex_types :: node_types where
  "ex_types = [(''head'', \<lparr>ntc_resources = Some [(''CPU'', 1)], ntc_min_workers = Some 0, ntc_max_workers = Some 0, ntc_node_config = []\<rparr>),
     (''cpu'', \<lparr>ntc_resources = Some [(''CPU'', 4)], ntc_min_workers = Some 1, ntc_max_workers = Some 2, ntc_node_config = []\<rparr>)]"

definition ex_as_config :: autoscaler_config where
  "ex_as_config = \<lparr>cfg_cluster_name = ''c'', cfg_provider_type = ''fake'', cfg_disable_node_updaters = True,
     cfg_disable_launch_config_check = False, cfg_max_workers = 2, cfg_idle_timeout_minutes = 5,
     cfg_head_node_type = ''head'', cfg_available_node_types = ex_types, cfg_upscaling_speed = None,
     cfg_autoscaling_mode = None, cfg_target_utilization_fraction = None, cfg_worker_nodes = [], cfg_auth = [],
     cfg_file_mounts = [], cfg_cluster_synced_files = [], cfg_file_mounts_sync_continuously = False,
     cfg_initialization_commands = [], cfg_worker_setup_commands = [], cfg_worker_start_ray_commands = [],
     cfg_type_initialization_commands = [], cfg_type_worker_setup_commands = [], cfg_docker = None,
     cfg_type_docker = [], cfg_restart_only = False, cfg_no_restart = False\<rparr>"

definition ex_as_env :: "ex_cloud autoscaler_env" where
  "ex_as_env = \<lparr>ae_node_tags = (\<lambda>n w. dget_or (ec_nodes w) n []), ae_internal_ip = (\<lambda>n w. n),
     ae_non_terminated_nodes = (\<lambda>f w. map fst (filter (\<lambda>(n, tags). list_all (\<lambda>(k, v). map_of tags k = Some v) f) (ec_nodes w))),
     ae_is_readonly = False,
     ae_terminate_nodes = (\<lambda>ns w. (Inr (), w\<lparr>ec_nodes := filter (\<lambda>(n, _). n \<notin> set ns) (ec_nodes w)\<rparr>)),
     ae_create_node_with_resources = (\<lambda>conf tags n res w. (Inr (), ex_create tags n w)),
     ae_drain_node = (\<lambda>ids w. w), ae_start_updater = (\<lambda>args w. (0, w)),
     ae_updater_is_alive = (\<lambda>th w. True), ae_updater_exitcode = (\<lambda>th w. 0), ae_time = ec_clock,
     ae_config_reader = (\<lambda>w. Inr ex_as_config), ae_hash_launch_conf = (\<lambda>conf auth. ''h''),
     ae_hash_runtime_conf = (\<lambda>a b c d. Inr (''r'', None)), ae_is_max_retry_error = (\<lambda>e. False),
     ae_conserve_gpu_nodes = True, ae_heartbeat_timeout_s = 30, ae_repr_names = concat,
     ae_repr_request = (\<lambda>r. []), ae_repr_items = (\<lambda>r. [])\<rparr>"

definition ex_worker_tags :: "string \<Rightarrow> (string, string) dict" where
  "ex_worker_tags t = [(TAG_RAY_NODE_KIND, NODE_KIND_WORKER), (TAG_RAY_USER_NODE_TYPE, t),
     (TAG_RAY_LAUNCH_CONFIG, ''h''), (TAG_RAY_NODE_STATUS, STATUS_UP_TO_DATE)]"

definition ex_head_tags :: "(string, string) dict" where
  "ex_head_tags = [(TAG_RAY_NODE_KIND, NODE_KIND_HEAD), (TAG_RAY_USER_NODE_TYPE, ''head'')]"

definition ex_world :: "string list \<Rightarrow> ex_cloud" where
  "ex_world workers = \<lparr>ec_nodes = (''h'', ex_head_tags) # map (\<lambda>n. (n, ex_worker_tags ''cpu'')) workers,
     ec_clock = 1000\<rparr>"

definition ex_metrics :: "(string, rat) dict \<Rightarrow> resource_dict list \<Rightarrow> load_metrics" where
  "ex_metrics last_used requests = (init_load_metrics ''h'')\<lparr>last_used_time_by_ip := last_used, resource_requests := requests\<rparr>"

definition ex_autoscaler :: "load_metrics \<Rightarrow> autoscaler" where
  "ex_autoscaler lm = (case init_autoscaler ex_as_env lm 5 5 5 (ex_world []) of Inr s \<Rightarrow> s)"

definition ex_idle :: autoscaler where
  "ex_idle = (ex_autoscaler (ex_metrics [(''a'', 10), (''b'', 20), (''c'', 990)] []))\<lparr>as_workers := [''a'', ''b'', ''c'']\<rparr>"

theorem enforcement_keeps_limits_witness:
  "distinct (as_workers ex_idle) \<and> as_nodes_to_terminate ex_idle = []
   \<and> (\<exists>evs doomed. terminate_nodes_to_enforce_config_constraints ex_as_env 1000 (ex_idle, ex_world [''a'', ''b'', ''c''])
      = terminate_scheduled_nodes ex_as_env (ex_idle\<lparr>as_event_summarizer := evs, as_nodes_to_terminate := doomed\<rparr>, ex_world [''a'', ''b'', ''c''])
    \<and> 1 \<le> typed ex_as_env (ex_world [''a'', ''b'', ''c'']) ''cpu'' (filter (\<lambda>n. n \<notin> set doomed) (as_workers ex_idle)))"
proof -
  let ?w = "ex_world [''a'', ''b'', ''c'']"
  define c where "c = \<lparr>ntc_resources = Some [(''CPU'', 4 :: rat)], ntc_min_workers = Some 1, ntc_max_workers = Some 2, ntc_node_config = []\<rparr>"
  have d: "distinct (as_workers ex_idle)" "as_nodes_to_terminate ex_idle = []" by code_simp+
  have p: "protected_nodes ex_as_env ex_idle ?w = Inr {}" by code_simp
  have c: "map_of (as_available_node_types ex_idle) ''cpu'' = Some c" unfolding c_def by code_simp
  have n: "typed ex_as_env ?w ''cpu'' (filter (launch_config_ok ex_as_env ex_idle ?w) (as_workers ex_idle)) = 3" by code_simp
  have m: "min (config_min_workers c) (config_max_workers c) = 1" by (simp add: c_def config_min_workers_def config_max_workers_def)
  from enforcement_keeps_limits [OF d p, of 1000] obtain evs doomed where
    run: "terminate_nodes_to_enforce_config_constraints ex_as_env 1000 (ex_idle, ?w)
      = terminate_scheduled_nodes ex_as_env (ex_idle\<lparr>as_event_summarizer := evs, as_nodes_to_terminate := doomed\<rparr>, ?w)"
    and t: "\<forall>t c. map_of (as_available_node_types ex_idle) t = Some c \<longrightarrow>
      min (min (config_min_workers c) (config_max_workers c))
        (typed ex_as_env ?w t (filter (launch_config_ok ex_as_env ex_idle ?w) (as_workers ex_idle)))
        \<le> typed ex_as_env ?w t (filter (\<lambda>n. n \<notin> set doomed) (as_workers ex_idle))"
    unfolding Let_def by blast
  have "1 \<le> typed ex_as_env ?w ''cpu'' (filter (\<lambda>n. n \<notin> set doomed) (as_workers ex_idle))"
    using t [rule_format, OF c] n m by simp
  then show ?thesis using d run by blast
qed

section \<open>Errors\<close>

lemma mapE_raises:
  assumes "x \<in> set xs" and "f x = Inl e" and "\<And>y e'. y \<in> set xs \<Longrightarrow> f y = Inl e' \<Longrightarrow> e' = e"
  shows "mapE f xs = Inl e"
  using assms
proof (induction xs)
  case (Cons y xs)
  show ?case
  proof (cases "f y")
    case (Inl e')
    then show ?thesis using Cons.prems(3) [of y e'] by simp
  next
    case (Inr z)
    then have "x \<in> set xs" using Cons.prems(1,2) by auto
    then have "mapE f xs = Inl e" by (rule Cons.IH [OF _ Cons.prems(2)]) (use Cons.prems(3) in auto)
    then show ?thesis using Inr by simp
  qed
qed simp

lemma worker_resources_removed_type:
  assumes "n \<in> set ns" and "node_type_of env w n = Some t" and "\<not> dmem t (as_available_node_types s)"
  shows "request_worker_resources env s w ns = Inl KeyError"
  unfolding request_worker_resources_def
proof (rule mapE_raises [of "(n, t)"])
  show "(n, t) \<in> set (concat (map (\<lambda>n. case map_of (ae_node_tags env n w) TAG_RAY_USER_NODE_TYPE of
      None \<Rightarrow> [] | Some t \<Rightarrow> [(n, t)]) ns))"
    using assms(1,2) by (force simp: node_type_of_def)
qed (use assms(3) in \<open>auto simp: type_resources_def dindex_def dmem_def config_resources_def split: option.splits\<close>)

lemma head_resources_known:
  "type_resources (as_available_node_types s) (cfg_head_node_type (as_config s)) = Inr r
    \<Longrightarrow> \<exists>r'. request_head_resources env s w = Inr r'"
  by (cases "ae_non_terminated_nodes env [(TAG_RAY_NODE_KIND, NODE_KIND_HEAD)] w") (auto simp: request_head_resources_def)

text \<open>
  A node type that was removed from the configuration blocks the autoscaler while
  \<open>request_resources\<close> is in effect. If a worker of a removed type is still running, an update
  raises KeyError before it terminates or launches anything, counts as a failure, and once
  \<open>max_failures\<close> are exceeded is raised out of the control loop.
\<close>

theorem removed_type_blocks_updates:
  assumes "as_reset env False (s, w) = (Inr (), (s1, w))" and "\<not> ae_is_readonly env"
    and "as_update_interval_s s1 \<le> ae_time env w - as_last_update_time s1"
    and "resource_requests (as_load_metrics s1) \<noteq> []"
    and "type_resources (as_available_node_types s1) (cfg_head_node_type (as_config s1)) = Inr head_resources"
    and "n \<in> set (ae_non_terminated_nodes env [(TAG_RAY_NODE_KIND, NODE_KIND_WORKER)] w)"
    and "map_of (ae_node_tags env n w) TAG_RAY_USER_NODE_TYPE = Some t" and "\<not> dmem t (as_available_node_types s1)"
    and "\<not> ae_is_max_retry_error env KeyError"
  shows "\<exists>s2. as_update env (s, w)
      = (if as_num_failures s1 + 1 > as_max_failures s1 then Inl KeyError else Inr (), (s2, w))
    \<and> as_num_failures s2 = as_num_failures s1 + 1 \<and> as_launch_queue s2 = as_launch_queue s1"
proof -
  let ?ws = "ae_non_terminated_nodes env [(TAG_RAY_NODE_KIND, NODE_KIND_WORKER)] w"
  let ?s = "s1\<lparr>as_last_update_time := ae_time env w, as_workers := ?ws\<rparr>"
  obtain lm where lm: "prune_active_ips (map (\<lambda>n. ae_internal_ip env n w) (all_workers env ?s w)) (as_load_metrics s1) = Inr lm"
    "resource_requests lm = resource_requests (as_load_metrics s1)"
    by (simp add: prune_active_ips_eq Let_def)
  let ?s2 = "?s\<lparr>as_load_metrics := lm\<rparr>"
  have "request_worker_resources env ?s2 w (by_last_use env ?s2 w) = Inl KeyError"
    by (rule worker_resources_removed_type [of n _ _ _ t])
      (use assms(6-8) in \<open>simp_all add: node_type_of_def sort_based_on_last_used_def\<close>)
  moreover obtain r where "request_head_resources env ?s2 w = Inr r"
    using head_resources_known [of ?s2 head_resources env w] assms(5) by auto
  ultimately have "protected_nodes env ?s2 w = Inl KeyError"
    using assms(4) lm(2) by (simp add: get_nodes_needed_for_request_resources_def get_resource_requests_def)
  then have "terminate_nodes_to_enforce_config_constraints env (ae_time env w) (?s2, w) = (Inl KeyError, (?s2, w))"
    by (simp add: terminate_nodes_to_enforce_config_constraints_def bindS_def liftS_def Let_def del: if_split)
  then have "update_body env (s1, w) = (Inl KeyError, (?s2, w))"
    using assms(2,3) lm(1)
    by (simp add: update_body_def bindS_def thenS_def updS_def update_worker_list_def prune_load_metrics_def liftS_def Let_def)
  then show ?thesis
    using assms(1,9) by (simp add: as_update_def thenS_def bindS_def)
qed

definition ex_removed_world :: ex_cloud where
  "ex_removed_world = (ex_world [''a''])\<lparr>ec_nodes := [(''h'', ex_head_tags), (''g'', ex_worker_tags ''gpu'')]\<rparr>"

definition ex_requested :: autoscaler where
  "ex_requested = fst (snd (as_reset ex_as_env False (ex_autoscaler (ex_metrics [] [[(''CPU'', 1)]]), ex_removed_world)))"

theorem removed_type_blocks_updates_witness:
  "\<exists>s2. as_update ex_as_env (ex_requested, ex_removed_world) = (Inr (), (s2, ex_removed_world))
    \<and> as_num_failures s2 = 1 \<and> as_launch_queue s2 = []"
proof -
  have r: "as_reset ex_as_env False (ex_requested, ex_removed_world) = (Inr (), (ex_requested, ex_removed_world))"
    by code_simp
  have h: "\<not> ae_is_readonly ex_as_env"
    "as_update_interval_s ex_requested \<le> ae_time ex_as_env ex_removed_world - as_last_update_time ex_requested"
    "resource_requests (as_load_metrics ex_requested) \<noteq> []"
    "type_resources (as_available_node_types ex_requested) (cfg_head_node_type (as_config ex_requested)) = Inr [(''CPU'', 1)]"
    "''g'' \<in> set (ae_non_terminated_nodes ex_as_env [(TAG_RAY_NODE_KIND, NODE_KIND_WORKER)] ex_removed_world)"
    "map_of (ae_node_tags ex_as_env ''g'' ex_removed_world) TAG_RAY_USER_NODE_TYPE = Some ''gpu''"
    "\<not> dmem ''gpu'' (as_available_node_types ex_requested)" "\<not> ae_is_max_retry_error ex_as_env KeyError"
    by code_simp+
  have n: "as_num_failures ex_requested = 0" "as_max_failures ex_requested = 5" "as_launch_queue ex_requested = []"
    by code_simp+
  show ?thesis using removed_type_blocks_updates [OF r h] n by simp
qed

text \<open>
  A termination that the provider failed is replayed. If \<open>terminate_nodes\<close> raises, the
  scheduled nodes stay scheduled, and whatever has happened since, the next round that enforces the
  configuration hands them to \<open>terminate_nodes\<close> again, also those that are in use by then.
\<close>

theorem failed_termination_is_replayed:
  assumes "as_nodes_to_terminate s \<noteq> []"
    and "ae_terminate_nodes env (as_nodes_to_terminate s) (snd (snd (drain_nodes_via_gcs env (as_nodes_to_terminate s) (s, w)))) = (Inl e, w1)"
  shows "terminate_scheduled_nodes env (s, w) = (Inl e, (s, w1))
    \<and> (\<forall>s2 w2 now protected. as_nodes_to_terminate s2 = as_nodes_to_terminate s \<and> protected_nodes env s2 w2 = Inr protected \<longrightarrow>
        (\<exists>evs doomed. terminate_nodes_to_enforce_config_constraints env now (s2, w2)
          = terminate_scheduled_nodes env
              (s2\<lparr>as_event_summarizer := evs, as_nodes_to_terminate := as_nodes_to_terminate s @ doomed\<rparr>, w2)))"
proof (intro conjI allI impI)
  show "terminate_scheduled_nodes env (s, w) = (Inl e, (s, w1))"
    using assms
    by (simp add: terminate_scheduled_nodes_def bindS_def thenS_def worldS_def drain_nodes_via_gcs_def Let_def)
next
  fix s2 w2 now protected
  assume p: "as_nodes_to_terminate s2 = as_nodes_to_terminate s \<and> protected_nodes env s2 w2 = Inr protected"
  obtain doomed where d: "doomed_nodes env s2 w2 now protected = as_nodes_to_terminate s @ doomed"
    using p by (simp add: doomed_nodes_def Let_def)
  from enforcement_result [OF conjunct2 [OF p], of now, unfolded d]
  show "\<exists>evs doomed. terminate_nodes_to_enforce_config_constraints env now (s2, w2)
      = terminate_scheduled_nodes env (s2\<lparr>as_event_summarizer := evs, as_nodes_to_terminate := as_nodes_to_terminate s @ doomed\<rparr>, w2)"
    by blast
qed

definition ex_failing_env :: "ex_cloud autoscaler_env" where
  "ex_failing_env = ex_as_env\<lparr>ae_terminate_nodes := (\<lambda>ns w. (Inl RuntimeError, w))\<rparr>"

definition ex_scheduled :: "(string, rat) dict \<Rightarrow> autoscaler" where
  "ex_scheduled last_used = (ex_autoscaler (ex_metrics last_used []))\<lparr>as_workers := [''a''], as_nodes_to_terminate := [''a'']\<rparr>"

text \<open>The node \<open>a\<close> was idle when it was scheduled and is in use at the time of the second round.\<close>

theorem failed_termination_is_replayed_witness:
  "terminate_scheduled_nodes ex_failing_env (ex_scheduled [(''a'', 10)], ex_world [''a''])
      = (Inl RuntimeError, (ex_scheduled [(''a'', 10)], ex_world [''a'']))
   \<and> (\<exists>evs doomed. terminate_nodes_to_enforce_config_constraints ex_failing_env 1000 (ex_scheduled [(''a'', 1000)], ex_world [''a''])
          = terminate_scheduled_nodes ex_failing_env
              ((ex_scheduled [(''a'', 1000)])\<lparr>as_event_summarizer := evs, as_nodes_to_terminate := ''a'' # doomed\<rparr>, ex_world [''a'']))"
proof -
  let ?s = "ex_scheduled [(''a'', 10)]" and ?s2 = "ex_scheduled [(''a'', 1000)]" and ?w = "ex_world [''a'']"
  have n: "as_nodes_to_terminate ?s = [''a'']" "as_nodes_to_terminate ?s2 = [''a'']" by code_simp+
  have t: "ae_terminate_nodes ex_failing_env (as_nodes_to_terminate ?s)
      (snd (snd (drain_nodes_via_gcs ex_failing_env (as_nodes_to_terminate ?s) (?s, ?w)))) = (Inl RuntimeError, ?w)"
    by code_simp
  have p: "protected_nodes ex_failing_env ?s2 ?w = Inr {}" by code_simp
  show ?thesis using failed_termination_is_replayed [OF _ t] n p by simp
qed

end
