(* ===== verification/Node_Launcher.thy ===== *)
theory Node_Launcher
  imports Autoscaler_Enforcement
begin

text \<open>
  \<open>node_launcher.py\<close>: the threads that take launch requests from the queue of the autoscaler
  and create nodes, and the cluster as a transition system: rounds of the autoscaler, launches that
  start and finish, reports of the nodes, and changes the cloud makes by itself.
\<close>

section \<open>The launcher\<close>

definition TAG_RAY_NODE_NAME :: string where "TAG_RAY_NODE_NAME = ''ray-node-name''"
definition STATUS_UNINITIALIZED :: string where "STATUS_UNINITIALIZED = ''uninitialized''"

definition launch_tags ::
  "'w autoscaler_env \<Rightarrow> autoscaler_config \<Rightarrow> launch_config \<Rightarrow> string \<Rightarrow> (string, string) dict" where
  "launch_tags env cfg conf node_type =
     (let node_tags = [(TAG_RAY_NODE_NAME, ''ray-'' @ cfg_cluster_name cfg @ ''-worker''),
                       (TAG_RAY_NODE_KIND, NODE_KIND_WORKER),
                       (TAG_RAY_NODE_STATUS, STATUS_UNINITIALIZED),
                       (TAG_RAY_LAUNCH_CONFIG, ae_hash_launch_conf env conf (cfg_auth cfg))]
      in if node_type \<noteq> [] then dset node_tags TAG_RAY_USER_NODE_TYPE node_type else node_tags)"

text \<open>\<open>node_types\<close> are the types the launcher was constructed with.\<close>

definition launch_node ::
  "'w autoscaler_env \<Rightarrow> node_types \<Rightarrow> autoscaler_config \<Rightarrow> int \<Rightarrow> string \<Rightarrow> 'w \<Rightarrow> unit result \<times> 'w" where
  "launch_node env node_types cfg n node_type w =
     (if node_types \<noteq> [] \<and> node_type = [] then (Inl AssertionError, w)
      else
        case map_of (cfg_available_node_types cfg) node_type of
          None \<Rightarrow> (Inl KeyError, w)
        | Some c \<Rightarrow>
            (case ntc_resources c of
               None \<Rightarrow> (Inl KeyError, w)
             | Some resources \<Rightarrow>
                 let conf = launch_config_of cfg node_type c
                 in ae_create_node_with_resources env conf (launch_tags env cfg conf node_type) n resources w))"

text \<open>
  One iteration of \<open>run\<close> after the request was taken from the queue: an exception of the launch
  is caught, and whatever happens, the count is then taken off the pending launches. The two halves
  are separate because the autoscaler may run between them.
\<close>

definition try_launch ::
  "'w autoscaler_env \<Rightarrow> node_types \<Rightarrow> autoscaler_config \<times> int \<times> string \<Rightarrow> ('w, unit) as_prog" where
  "try_launch env node_types = (\<lambda>(cfg, n, node_type). quietS (worldS (launch_node env node_types cfg n node_type)))"

definition settle_launch :: "autoscaler_config \<times> int \<times> string \<Rightarrow> ('w, unit) as_prog" where
  "settle_launch = (\<lambda>(_, n, node_type). bindS (pendingS (counter_dec node_type n)) (\<lambda>_. retS ()))"

definition run_launcher ::
  "'w autoscaler_env \<Rightarrow> node_types \<Rightarrow> autoscaler_config \<times> int \<times> string \<Rightarrow> ('w, unit) as_prog" where
  "run_launcher env node_types r = thenS (try_launch env node_types r) (settle_launch r)"

definition take_request :: "autoscaler \<Rightarrow> ((autoscaler_config \<times> int \<times> string) \<times> autoscaler) option" where
  "take_request s = (case as_launch_queue s of [] \<Rightarrow> None | r # rs \<Rightarrow> Some (r, s\<lparr>as_launch_queue := rs\<rparr>))"

section \<open>What does not launch\<close>

text \<open>How many nodes of a type the provider lists.\<close>

definition nodes_of :: "'w autoscaler_env \<Rightarrow> 'w \<Rightarrow> string \<Rightarrow> int" where
  "nodes_of env w t = typed env w t (ae_non_terminated_nodes env [] w)"

text \<open>What is relied on from the reports of the nodes.\<close>

definition lm_valid :: "load_metrics \<Rightarrow> bool" where
  "lm_valid lm \<longleftrightarrow> (\<forall>(ip, r) \<in> set (static_resources_by_ip lm). nonneg r \<and> wf_dict r)
     \<and> (\<forall>d \<in> set (waiting_bundles lm). wf_dict d) \<and> (\<forall>d \<in> set (infeasible_bundles lm). wf_dict d)
     \<and> (\<forall>d \<in> set (resource_requests lm). wf_dict d)
     \<and> (\<forall>pg \<in> set (pending_placement_groups lm). \<forall>b \<in> set (pg_bundles pg). wf_dict b)"

text \<open>
  The provider: only \<open>create_node\<close> adds nodes, at most as many as it is asked for, and they
  carry the tags they are given.
\<close>

definition cloud_ok :: "'w autoscaler_env \<Rightarrow> bool" where
  "cloud_ok env \<longleftrightarrow>
     (\<forall>ns w t. nodes_of env (snd (ae_terminate_nodes env ns w)) t \<le> nodes_of env w t)
     \<and> (\<forall>ids w t. nodes_of env (ae_drain_node env ids w) t \<le> nodes_of env w t)
     \<and> (\<forall>args w t. nodes_of env (snd (ae_start_updater env args w)) t \<le> nodes_of env w t)
     \<and> (\<forall>conf tags n res w t. nodes_of env (snd (ae_create_node_with_resources env conf tags n res w)) t
          \<le> nodes_of env w t + (if map_of tags TAG_RAY_USER_NODE_TYPE = Some t then max 0 n else 0))"

definition calm :: "'w autoscaler_env \<Rightarrow> autoscaler \<times> 'w \<Rightarrow> autoscaler \<times> 'w \<Rightarrow> bool" where
  "calm env t t' \<longleftrightarrow> as_config (fst t') = as_config (fst t) \<and> as_scheduler (fst t') = as_scheduler (fst t)
     \<and> as_pending_launches (fst t') = as_pending_launches (fst t) \<and> as_launch_queue (fst t') = as_launch_queue (fst t)
     \<and> as_max_launch_batch (fst t') = as_max_launch_batch (fst t)
     \<and> (lm_valid (as_load_metrics (fst t)) \<longrightarrow> lm_valid (as_load_metrics (fst t')))
     \<and> (\<forall>ty. nodes_of env (snd t') ty \<le> nodes_of env (snd t) ty)"

lemma calm_refl: "calm env t t"
  by (simp add: calm_def)

lemma calm_trans: "calm env t t' \<Longrightarrow> calm env t' t'' \<Longrightarrow> calm env t t''"
  unfolding calm_def using order.trans by (metis (no_types, lifting))

definition framed :: "'w autoscaler_env \<Rightarrow> ('w, 'a) as_prog \<Rightarrow> bool" where
  "framed env m \<longleftrightarrow> (\<forall>t. calm env t (snd (m t)))"

named_theorems framed_intros \<open>programs that do not launch nodes\<close>

lemma framed_retS [framed_intros]: "framed env (retS x)"
  and framed_raiseS [framed_intros]: "framed env (raiseS e)"
  and framed_liftS [framed_intros]: "framed env (liftS r)"
  and framed_getS [framed_intros]: "framed env getS"
  by (simp_all add: framed_def retS_def raiseS_def liftS_def calm_refl)

lemma framed_bindS [framed_intros]:
  assumes "framed env m" and "\<And>x. framed env (f x)"
  shows "framed env (bindS m f)"
  unfolding framed_def
proof
  fix t
  show "calm env t (snd (bindS m f t))"
  proof (cases rule: bindS_cases [of m t f])
    case (1 e t')
    then show ?thesis using assms(1) unfolding framed_def by (metis snd_conv)
  next
    case (2 x t')
    then have "calm env t t'" "calm env t' (snd (f x t'))" using assms unfolding framed_def by (metis snd_conv)+
    then show ?thesis using 2(2) calm_trans by simp
  qed
qed

lemma framed_thenS [framed_intros]: "framed env m \<Longrightarrow> framed env n \<Longrightarrow> framed env (thenS m n)"
  by (simp add: thenS_def framed_bindS)

lemma framed_if [framed_intros]: "(b \<Longrightarrow> framed env m) \<Longrightarrow> (\<not> b \<Longrightarrow> framed env n) \<Longrightarrow> framed env (if b then m else n)"
  by simp

lemma framed_case_prod [framed_intros]: "(\<And>a b. framed env (f a b)) \<Longrightarrow> framed env (case p of (a, b) \<Rightarrow> f a b)"
  by (cases p) simp

lemma framed_forS [framed_intros]: "(\<And>x. framed env (f x)) \<Longrightarrow> framed env (forS f xs)"
  by (induction xs) (simp_all add: framed_intros)

lemma framed_foldS [framed_intros]: "(\<And>a x. framed env (f a x)) \<Longrightarrow> framed env (foldS f a xs)"
  by (induction xs arbitrary: a) (simp_all add: framed_intros)

lemma framed_quietS [framed_intros]: "framed env m \<Longrightarrow> framed env (quietS m)"
  by (simp add: framed_def quietS_def)

lemma framed_trackerS [framed_intros]: "framed env (trackerS p)"
  by (auto simp: framed_def trackerS_def calm_def split: prod.splits)

lemma framed_updS [framed_intros]:
  assumes "\<And>s. as_config (f s) = as_config s \<and> as_scheduler (f s) = as_scheduler s
    \<and> as_pending_launches (f s) = as_pending_launches s \<and> as_launch_queue (f s) = as_launch_queue s
    \<and> as_max_launch_batch (f s) = as_max_launch_batch s \<and> as_load_metrics (f s) = as_load_metrics s"
  shows "framed env (updS f)"
  using assms by (auto simp: framed_def updS_def calm_def)

lemma framed_add_event [framed_intros]: "framed env (add_event template n)"
  unfolding add_event_def by (rule framed_updS) simp

lemma framed_update_worker_list [framed_intros]: "framed env (update_worker_list env')"
  by (auto simp: framed_def update_worker_list_def calm_def)

lemma framed_schedule [framed_intros]: "framed env (schedule_node_termination env' n r)"
  unfolding schedule_node_termination_def by (cases r) (auto intro!: framed_intros)

lemma framed_drain [framed_intros]: "cloud_ok env \<Longrightarrow> framed env (drain_nodes_via_gcs env ids)"
  by (auto simp: framed_def drain_nodes_via_gcs_def calm_def Let_def cloud_ok_def)

lemma framed_terminate_scheduled [framed_intros]:
  assumes "cloud_ok env"
  shows "framed env (terminate_scheduled_nodes env)"
proof -
  have "framed env (worldS (ae_terminate_nodes env ns))" for ns
    using assms by (auto simp: framed_def worldS_def calm_def cloud_ok_def split: prod.splits) (metis snd_conv)
  then show ?thesis
    unfolding terminate_scheduled_nodes_def Let_def by (intro framed_intros assms) simp_all
qed

lemma framed_enforce_node [framed_intros]: "framed env (enforce_node env' horizon protected a n)"
proof -
  have "framed env (case f of Stop reason \<Rightarrow> thenS (schedule_node_termination env' n reason) (retS x) | Stay \<Rightarrow> retS y | Removable \<Rightarrow> retS z)"
    for f and x y z :: 'b
    by (cases f) (auto intro!: framed_intros)
  then show ?thesis unfolding enforce_node_def by (cases a) (auto intro!: framed_intros)
qed

lemma framed_enforce [framed_intros]: "cloud_ok env \<Longrightarrow> framed env (terminate_nodes_to_enforce_config_constraints env now)"
  unfolding terminate_nodes_to_enforce_config_constraints_def Let_def by (intro framed_intros)

lemma framed_mark_node_active [framed_intros]: "framed env (mark_node_active env' ip)"
proof -
  have "lm_valid lm \<Longrightarrow> lm_valid (lm\<lparr>last_heartbeat_time_by_ip := d\<rparr>)" for lm d by (simp add: lm_valid_def)
  then show ?thesis
    by (auto simp: framed_def mark_node_active_def mark_active_def bindS_def liftS_def updS_def calm_def)
qed

lemma framed_unhealthy [framed_intros]:
  assumes "cloud_ok env"
  shows "framed env (terminate_unhealthy_nodes env now)"
proof -
  have "framed env (terminate_if_unhealthy env now n)" for n
    unfolding terminate_if_unhealthy_def Let_def by (intro framed_intros)
  then show ?thesis unfolding terminate_unhealthy_nodes_def by (intro framed_intros assms)
qed

lemma framed_start_updater [framed_intros]:
  assumes "cloud_ok env"
  shows "framed env (start_updater env args)"
proof -
  have "framed env (worldS (\<lambda>w. case ae_start_updater env args w of (th, w') \<Rightarrow> (Inr th, w')))"
    using assms by (auto simp: framed_def worldS_def calm_def cloud_ok_def split: prod.splits) (metis snd_conv)
  then show ?thesis unfolding start_updater_def by (intro framed_intros) simp_all
qed

lemma framed_update_nodes [framed_intros]:
  assumes "cloud_ok env"
  shows "framed env (update_nodes env)"
proof -
  have "framed env (spawn_updater env ui res)" for ui res
    unfolding spawn_updater_def Let_def by (intro framed_intros assms)
  then show ?thesis unfolding update_nodes_def by (intro framed_intros)
qed

lemma framed_recover [framed_intros]:
  assumes "cloud_ok env"
  shows "framed env (attempt_to_recover_unhealthy_nodes env now)"
proof -
  have "framed env (recover_if_needed env now n)" for n
    unfolding recover_if_needed_def by (intro framed_intros assms)
  then show ?thesis unfolding attempt_to_recover_unhealthy_nodes_def by (intro framed_intros)
qed

lemma framed_completed [framed_intros]:
  assumes "cloud_ok env"
  shows "framed env (process_completed_updates env)"
proof -
  have "framed env (finish_update env failed n)" for failed n
    unfolding finish_update_def by (intro framed_intros) simp_all
  moreover have "framed env (terminate_failed_node env n)" for n
    unfolding terminate_failed_node_def by (intro framed_intros)
  ultimately show ?thesis unfolding process_completed_updates_def Let_def by (intro framed_intros assms)
qed

lemma framed_report [framed_intros]: "framed env (report_pending_infeasible env' unfulfilled)"
proof -
  have "framed env (warn_once env' a b k r)" for a b k r
    by (auto simp: framed_def warn_once_def calm_def)
  then show ?thesis unfolding report_pending_infeasible_def by (intro framed_intros)
qed

lemma framed_prune [framed_intros]: "framed env (prune_load_metrics env')"
proof -
  have "lm_valid lm \<Longrightarrow> prune_active_ips ips lm = Inr lm' \<Longrightarrow> lm_valid lm'" for ips lm lm'
    by (auto simp: prune_active_ips_eq Let_def lm_valid_def)
  then show ?thesis
    by (auto simp: framed_def prune_load_metrics_def bindS_def liftS_def updS_def calm_def split: sum.splits)
qed

end
