(* ===== verification/Autoscaler_Limits.thy ===== *)
theory Autoscaler_Limits
  imports Node_Launcher Launch_Limits
begin

text \<open>
  The cluster under the autoscaler: every node type stays within its limit, counting the nodes that
  run and the launches that are queued or under way, whatever the cloud, the nodes and the launches
  do; and a round asks for the missing \<open>min_workers\<close>.
\<close>

section \<open>Queued launches\<close>

type_synonym launch_request = "autoscaler_config \<times> int \<times> string"

definition asked :: "string \<Rightarrow> launch_request list \<Rightarrow> int" where
  "asked t rs = sum_list (map (\<lambda>(_, n, ty). if ty = t then n else 0) rs)"

lemma asked_simps [simp]:
  "asked t [] = 0" "asked t ((c, n, ty) # rs) = (if ty = t then n else 0) + asked t rs"
  "asked t (rs @ qs) = asked t rs + asked t qs"
  by (simp_all add: asked_def)

lemma asked_batches: "asked t (map (\<lambda>k. (c, k, ty)) ks) = (if ty = t then sum_list ks else 0)"
  by (induction ks) auto

lemma asked_remove1: "r \<in> set rs \<Longrightarrow> asked t (remove1 r rs) = asked t rs - asked t [r]"
  by (induction rs) (auto simp: asked_def)

lemma launch_batches_split:
  assumes "b \<noteq> 0"
  shows "sum_list (launch_batches n b) = max 0 n \<and> (\<forall>k \<in> set (launch_batches n b). 0 < k \<and> k \<le> int b)"
  using assms
proof (induction n b rule: launch_batches.induct)
  case (1 n b)
  show ?case
  proof (cases "n > 0")
    case True
    then have "launch_batches n b = min n (int b) # launch_batches (n - int b) b"
      using 1(2) by (simp add: launch_batches.simps [of n b])
    moreover have "sum_list (launch_batches (n - int b) b) = max 0 (n - int b)
        \<and> (\<forall>k \<in> set (launch_batches (n - int b) b). 0 < k \<and> k \<le> int b)"
      using 1(1) [OF _ 1(2)] True 1(2) by simp
    ultimately show ?thesis using True 1(2) by auto
  next
    case False
    then show ?thesis by (simp add: launch_batches.simps [of n b])
  qed
qed

text \<open>\<open>s'\<close> is \<open>s\<close> with the launches \<open>d\<close> queued and pending.\<close>

definition queued :: "(string, int) dict \<Rightarrow> autoscaler \<Rightarrow> autoscaler \<Rightarrow> bool" where
  "queued d s s' \<longleftrightarrow> as_config s' = as_config s \<and> as_scheduler s' = as_scheduler s
     \<and> as_load_metrics s' = as_load_metrics s \<and> as_max_launch_batch s' = as_max_launch_batch s
     \<and> (wf_dict (as_pending_launches s) \<longrightarrow> wf_dict (as_pending_launches s'))
     \<and> (\<forall>t. dget_or (as_pending_launches s') t 0 = dget_or (as_pending_launches s) t 0 + dget_or d t 0)
     \<and> (\<exists>new. as_launch_queue s' = as_launch_queue s @ new \<and> (\<forall>t. asked t new = dget_or d t 0)
         \<and> (\<forall>(_, n, _) \<in> set new. 0 < n))"

lemma launch_new_node_queued:
  assumes "as_max_launch_batch s \<noteq> 0" and "0 \<le> n"
  shows "\<exists>s'. launch_new_node n t (s, w) = (Inr (), (s', w)) \<and> queued [(t, n)] s s'"
proof -
  obtain evs where ev: "add_event (''Adding {} nodes of type '' @ t @ ''.'') n (s, w) = (Inr (), (s\<lparr>as_event_summarizer := evs\<rparr>, w))"
    by (simp add: add_event_def updS_def)
  let ?new = "map (\<lambda>k. (as_config s, k, t)) (launch_batches n (as_max_launch_batch s))"
  let ?s = "s\<lparr>as_event_summarizer := evs, as_pending_launches := dset (as_pending_launches s) t (dget_or (as_pending_launches s) t 0 + n),
      as_launch_queue := as_launch_queue s @ ?new\<rparr>"
  have run: "launch_new_node n t (s, w) = (Inr (), (?s, w))"
    using ev by (simp add: launch_new_node_def thenS_def bindS_def pendingS_def counter_inc_def retS_def updS_def)
  have "asked ty ?new = dget_or [(t, n)] ty 0" for ty
    using launch_batches_split [OF assms(1), of n] assms(2) by (auto simp: asked_batches dget_or_def)
  moreover have "\<forall>(_, k, _) \<in> set ?new. 0 < k" using launch_batches_split [OF assms(1), of n] by auto
  ultimately have "queued [(t, n)] s ?s" by (auto simp: queued_def dget_or_def)
  then show ?thesis using run by blast
qed

lemma queued_trans:
  assumes "queued d1 s s1" and "queued d2 s1 s2" and "\<And>t. dget_or d t 0 = dget_or d1 t 0 + dget_or d2 t 0"
  shows "queued d s s2"
proof -
  obtain n1 n2 where n: "as_launch_queue s1 = as_launch_queue s @ n1" "\<forall>t. asked t n1 = dget_or d1 t 0"
    "\<forall>(_, n, _) \<in> set n1. 0 < n" "as_launch_queue s2 = as_launch_queue s1 @ n2" "\<forall>t. asked t n2 = dget_or d2 t 0"
    "\<forall>(_, n, _) \<in> set n2. 0 < n" using assms(1,2) by (auto simp: queued_def)
  have "as_launch_queue s2 = as_launch_queue s @ (n1 @ n2)" "\<forall>t. asked t (n1 @ n2) = dget_or d t 0"
    "\<forall>(_, n, _) \<in> set (n1 @ n2). 0 < n" using n assms(3) by auto
  then show ?thesis using assms unfolding queued_def by auto
qed

lemma launch_all_queued:
  assumes "wf_dict d" and "as_max_launch_batch s \<noteq> 0" and "\<And>t. 0 \<le> dget_or d t 0"
  shows "\<exists>s'. forS (\<lambda>(t, n). launch_new_node n t) d (s, w) = (Inr (), (s', w)) \<and> queued d s s'"
  using assms
proof (induction d arbitrary: s)
  case Nil
  then show ?case by (auto simp: retS_def queued_def dget_or_def)
next
  case (Cons p d)
  obtain t n where p: "p = (t, n)" by fastforce
  have d: "wf_dict d" "t \<notin> set (dkeys d)" using Cons.prems(1) by (auto simp: wf_dict_def p)
  have get: "dget_or (p # d) ty 0 = dget_or [(t, n)] ty 0 + dget_or d ty 0" for ty
    using d(2) by (auto simp: p dget_or_def map_of_eq_None_iff [THEN iffD2])
  have "map_of d t = None" using d(2) by (simp add: map_of_eq_None_iff)
  then have nn: "0 \<le> n" "0 \<le> dget_or d ty 0" for ty
    using Cons.prems(3) [of t] Cons.prems(3) [of ty] by (auto simp: p dget_or_def split: if_splits)
  obtain s1 where s1: "launch_new_node n t (s, w) = (Inr (), (s1, w))" "queued [(t, n)] s s1"
    using launch_new_node_queued [OF Cons.prems(2) nn(1), of t w] by (elim exE conjE)
  have "as_max_launch_batch s1 \<noteq> 0" using s1(2) Cons.prems(2) by (simp add: queued_def)
  then obtain s2 where s2: "forS (\<lambda>(t, n). launch_new_node n t) d (s1, w) = (Inr (), (s2, w))" "queued d s1 s2"
    using Cons.IH [OF d(1), of s1] nn(2) by (metis (no_types))
  then show ?case using s1 queued_trans [OF s1(2) s2(2) get] by (auto simp: p thenS_def bindS_def)
qed

section \<open>What the scheduler counts\<close>

lemma add_node_count:
  assumes "add_node nts ty avail acc = Inr acc'" and "map_of nts t = Some c"
  shows "dget_or (snd acc') t 0 = dget_or (snd acc) t 0 + (if ty = t then 1 else 0)"
  using assms
proof -
  obtain res counts where acc: "acc = (res, counts)" by fastforce
  show ?thesis
  proof (cases "map_of nts ty")
    case None
    then have "ty \<noteq> t" using assms(2) by auto
    then show ?thesis using None assms(1) by (simp add: add_node_def acc)
  next
    case (Some c')
    then have "snd acc' = bump_count counts ty" using assms(1) by (auto simp: add_node_def acc result_simps Let_def)
    then show ?thesis by (auto simp: acc bump_count_def dget_or_def)
  qed
qed

lemma add_nodes_count:
  assumes "foldE (\<lambda>acc _. add_node nts ty None acc) acc xs = Inr acc'" and "map_of nts t = Some c"
  shows "dget_or (snd acc') t 0 = dget_or (snd acc) t 0 + (if ty = t then int (length xs) else 0)"
  using assms(1)
proof (induction xs arbitrary: acc)
  case (Cons x xs)
  then obtain acc1 where a: "add_node nts ty None acc = Inr acc1"
    "foldE (\<lambda>acc _. add_node nts ty None acc) acc1 xs = Inr acc'" by (auto simp: result_simps)
  show ?case using Cons.IH [OF a(2)] add_node_count [OF a(1) assms(2)] by simp
qed simp

lemma pending_count:
  assumes "foldE (\<lambda>acc (ty, k). foldE (\<lambda>acc _. add_node nts ty None acc) acc [0..<nat k]) acc pending = Inr acc'"
    and "map_of nts t = Some c" and "wf_dict pending"
  shows "dget_or (snd acc') t 0 = dget_or (snd acc) t 0 + max 0 (dget_or pending t 0)"
  using assms(1,3)
proof (induction pending arbitrary: acc)
  case (Cons p pending)
  obtain ty k where p: "p = (ty, k)" by fastforce
  obtain acc1 where a: "foldE (\<lambda>acc _. add_node nts ty None acc) acc [0..<nat k] = Inr acc1"
    "foldE (\<lambda>acc (ty, k). foldE (\<lambda>acc _. add_node nts ty None acc) acc [0..<nat k]) acc1 pending = Inr acc'"
    using Cons.prems(1) by (auto simp: p result_simps)
  have d: "wf_dict pending" "map_of pending ty = None"
    using Cons.prems(2) by (auto simp: wf_dict_def p map_of_eq_None_iff)
  show ?case using Cons.IH [OF a(2) d(1)] add_nodes_count [OF a(1) assms(2)] d(2) by (auto simp: p dget_or_def)
qed (simp add: dget_or_def)

lemma calculate_counts:
  assumes "calculate_node_resources provider s nodes pending unused = Inr (nr, counts)"
    and c: "map_of (ds_node_types s) t = Some c" and "wf_dict pending"
  shows "dget_or counts t 0
    = int (length (filter (\<lambda>n. map_of (np_node_tags provider n) TAG_RAY_USER_NODE_TYPE = Some t) nodes))
      + max 0 (dget_or pending t 0)"
proof -
  let ?nts = "ds_node_types s"
  let ?T = "\<lambda>n. map_of (np_node_tags provider n) TAG_RAY_USER_NODE_TYPE"
  obtain r1 where r1: "foldE (\<lambda>acc n. case ?T n of None \<Rightarrow> Inr acc
        | Some ty \<Rightarrow> add_node ?nts ty (map_of unused (np_internal_ip provider n)) acc) ([], []) nodes = Inr r1"
    and r2: "foldE (\<lambda>acc (ty, k). foldE (\<lambda>acc _. add_node ?nts ty None acc) acc [0..<nat k]) r1 pending = Inr (nr, counts)"
    using assms(1) by (auto simp: calculate_node_resources_def result_simps)
  have "dget_or (snd r1) t 0 = int (length (filter (\<lambda>n. ?T n = Some t) ([] @ nodes)))"
  proof (rule foldE_history [where P = "\<lambda>ys acc. dget_or (snd acc) t 0 = int (length (filter (\<lambda>n. ?T n = Some t) ys))", OF _ r1])
    fix ys u x v
    assume "dget_or (snd u) t 0 = int (length (filter (\<lambda>n. ?T n = Some t) ys))"
      and "(case ?T x of None \<Rightarrow> Inr u | Some ty \<Rightarrow> add_node ?nts ty (map_of unused (np_internal_ip provider x)) u) = Inr v"
    then show "dget_or (snd v) t 0 = int (length (filter (\<lambda>n. ?T n = Some t) (ys @ [x])))"
      using add_node_count [OF _ c] by (cases "?T x") auto
  qed (simp add: dget_or_def)
  then show ?thesis using pending_count [OF r2 c assms(3)] by simp
qed

section \<open>The invariant of the cluster\<close>

text \<open>
  \<open>cfg\<close> is the configuration, \<open>nts\<close> its node types with the memory quantities converted.
  The scheduler may have learned resources; its limits are those of \<open>nts\<close>.
\<close>

definition base_scheduler :: "autoscaler_config \<Rightarrow> node_types \<Rightarrow> demand_scheduler" where
  "base_scheduler cfg nts = \<lparr>ds_node_types = nts, ds_node_resource_updated = {}, ds_max_workers = cfg_max_workers cfg,
     ds_head_node_type = cfg_head_node_type cfg, ds_upscaling_speed = upscaling_speed_of cfg\<rparr>"

definition cluster_inv ::
  "'w autoscaler_env \<Rightarrow> autoscaler_config \<Rightarrow> node_types \<Rightarrow> launch_request list \<Rightarrow> launch_request list
    \<Rightarrow> autoscaler \<times> 'w \<Rightarrow> bool" where
  "cluster_inv env cfg nts launching created = (\<lambda>(s, w).
     as_config s = cfg \<and> same_config (base_scheduler cfg nts) (as_scheduler s) \<and> wf_node_types (ds_node_types (as_scheduler s))
     \<and> lm_valid (as_load_metrics s) \<and> as_max_launch_batch s \<noteq> 0 \<and> wf_dict (as_pending_launches s)
     \<and> (\<forall>t. dget_or (as_pending_launches s) t 0 = asked t (as_launch_queue s @ launching @ created))
     \<and> (\<forall>(_, n, _) \<in> set (as_launch_queue s @ launching @ created). 0 < n)
     \<and> (\<forall>t c. map_of nts t = Some c \<longrightarrow>
          nodes_of env w t + asked t (as_launch_queue s @ launching) \<le> worker_limit (cfg_head_node_type cfg) t c))"

lemma cluster_inv_calm:
  assumes "cluster_inv env cfg nts l k t" and "calm env t t'"
  shows "cluster_inv env cfg nts l k t'"
proof -
  obtain s w s' w' where t: "t = (s, w)" "t' = (s', w')" by (metis surj_pair)
  have "nodes_of env w' ty + x \<le> y" if "nodes_of env w ty + x \<le> y" for ty x y
    using assms(2) that by (auto simp: calm_def t intro: order.trans [OF add_right_mono])
  then show ?thesis using assms unfolding t cluster_inv_def calm_def by auto
qed

abbreviation keeps :: "('s \<Rightarrow> bool) \<Rightarrow> ('s, 'a) prog \<Rightarrow> 's \<Rightarrow> bool" where
  "keeps P m t \<equiv> wp m (\<lambda>_. P) (\<lambda>_. P) t"

lemma keeps_iff: "keeps P m t \<longleftrightarrow> P (snd (m t))"
  by (auto simp: wp_def split: prod.splits sum.splits)

lemma keeps_framed: "framed env m \<Longrightarrow> cluster_inv env cfg nts l k t \<Longrightarrow> keeps (cluster_inv env cfg nts l k) m t"
  unfolding keeps_iff framed_def by (blast intro: cluster_inv_calm)

lemma keeps_then:
  assumes "keeps P m t" and "\<And>t. P t \<Longrightarrow> keeps P n t"
  shows "keeps P (thenS m n) t"
  unfolding wp_thenS by (rule wp_mono [OF assms(1)]) (use assms(2) in auto)

section \<open>A round keeps the invariant\<close>

text \<open>The launches \<open>d\<close> fit beside what runs and is pending.\<close>

definition fits_limits :: "'w autoscaler_env \<Rightarrow> string \<Rightarrow> node_types \<Rightarrow> (string, int) dict \<Rightarrow> autoscaler \<times> 'w \<Rightarrow> bool" where
  "fits_limits env head nts d = (\<lambda>(s, w). wf_dict d \<and> (\<forall>t. 0 \<le> dget_or d t 0)
     \<and> (\<forall>t c. map_of nts t = Some c \<longrightarrow> 0 < dget_or d t 0 \<longrightarrow>
          nodes_of env w t + dget_or (as_pending_launches s) t 0 + dget_or d t 0 \<le> worker_limit head t c))"

lemma same_config_type:
  assumes "same_config s s'" and "map_of (ds_node_types s) t = Some c"
  shows "\<exists>c'. map_of (ds_node_types s') t = Some c' \<and> worker_limit head t c' = worker_limit head t c
    \<and> min_target head t c' = min_target head t c"
proof -
  have "map_option (\<lambda>c. c\<lparr>ntc_resources := None\<rparr>) (map_of (ds_node_types s') t) = Some (c\<lparr>ntc_resources := None\<rparr>)"
    using assms by (simp add: same_config_def)
  then obtain c' where c': "map_of (ds_node_types s') t = Some c'" "c'\<lparr>ntc_resources := None\<rparr> = c\<lparr>ntc_resources := None\<rparr>"
    by auto
  have "ntc_max_workers c' = ntc_max_workers c" "ntc_min_workers c' = ntc_min_workers c"
    using arg_cong [OF c'(2), of ntc_max_workers] arg_cong [OF c'(2), of ntc_min_workers] by simp_all
  then show ?thesis using c'(1)
    by (simp add: worker_limit_def min_target_def config_max_workers_def config_min_workers_def)
qed

lemma lm_valid_inputs:
  assumes "lm_valid lm"
  shows "valid_reports (get_static_node_resources_by_ip lm)"
    and "\<forall>x \<in> set (get_resource_demand_vector True lm). wf_dict x"
    and "\<forall>x \<in> set (get_resource_requests lm). wf_dict x"
    and "\<forall>pg \<in> set (get_pending_placement_groups lm). \<forall>b \<in> set (pg_bundles pg). wf_dict b"
  using assms
  by (auto simp: valid_reports_def get_static_node_resources_by_ip_def lm_valid_def get_resource_demand_vector_def
      get_resource_requests_def get_pending_placement_groups_def dest!: in_set_takeD)

lemma get_nodes_to_launch_wf:
  assumes "wf_node_types (ds_node_types s)" and "valid_reports max_res" and "\<not> is_legacy_yaml s []"
    and "get_nodes_to_launch conserve provider s nodes launching demands unused pgs max_res ens = Inr (s', launch, unf)"
  shows "wf_node_types (ds_node_types s')"
proof -
  obtain s1 where s1: "update_node_resources_from_runtime provider s nodes max_res = Inr s1"
    using assms(3,4) by (auto simp: get_nodes_to_launch_def result_simps)
  note st = update_from_runtime_state [OF assms(1,2) s1]
  have "\<not> is_legacy_yaml s1 []" using assms(3) st same_config_legacy by blast
  then have "s' = s1" using assms(3,4) s1
    by (auto simp: get_nodes_to_launch_def result_simps Let_def case_prod_unfold)
  then show ?thesis using st by simp
qed

lemma asked_nonneg: "\<forall>(_, n, _) \<in> set rs. 0 < n \<Longrightarrow> 0 \<le> asked t rs"
  by (induction rs) (auto simp: asked_def)

lemma cluster_invD:
  assumes "cluster_inv env cfg nts l k (s, w)"
  shows "same_config (base_scheduler cfg nts) (as_scheduler s)" and "wf_node_types (ds_node_types (as_scheduler s))"
    and "lm_valid (as_load_metrics s)" and "wf_dict (as_pending_launches s)" and "0 \<le> dget_or (as_pending_launches s) t 0"
    and "as_max_launch_batch s \<noteq> 0"
  using assms asked_nonneg [of "as_launch_queue s @ l @ k" t] by (simp_all add: cluster_inv_def)

lemma scheduler_counts_cluster:
  assumes inv: "cluster_inv env cfg nts l k (s, w)" and sc: "same_config (base_scheduler cfg nts) sched"
    and calc: "calculate_node_resources (provider_at env w) sched (ae_non_terminated_nodes env [] w)
      (as_pending_launches s) unused = Inr (nr, counts)" and c: "map_of nts t = Some c"
  shows "dget_or counts t 0 = nodes_of env w t + dget_or (as_pending_launches s) t 0"
proof -
  have "map_of (ds_node_types (base_scheduler cfg nts)) t = Some c" using c by (simp add: base_scheduler_def)
  then obtain c' where "map_of (ds_node_types sched) t = Some c'" using same_config_type [OF sc] by blast
  from calculate_counts [OF calc this cluster_invD(4) [OF inv]] cluster_invD(5) [OF inv, of t]
  show ?thesis by (simp add: nodes_of_def provider_at_def node_type_of_def)
qed

lemma plan_fits:
  assumes inv: "cluster_inv env cfg nts l k (s, w)" and nl: "\<not> is_legacy_yaml (base_scheduler cfg nts) []"
    and run: "get_nodes_to_launch conserve (provider_at env w) (as_scheduler s) (ae_non_terminated_nodes env [] w)
      (as_pending_launches s) (get_resource_demand_vector True (as_load_metrics s)) unused
      (get_pending_placement_groups (as_load_metrics s)) (get_static_node_resources_by_ip (as_load_metrics s))
      (get_resource_requests (as_load_metrics s)) = Inr (sched, d, unf)"
  shows "same_config (base_scheduler cfg nts) sched" and "wf_node_types (ds_node_types sched)"
    and "fits_limits env (cfg_head_node_type cfg) nts d (s, w)"
    and "\<forall>t c. map_of nts t = Some c \<longrightarrow> min_target (cfg_head_node_type cfg) t c
      \<le> nodes_of env w t + dget_or (as_pending_launches s) t 0 + dget_or d t 0"
proof -
  note I = cluster_invD [OF inv]
  have nl': "\<not> is_legacy_yaml (as_scheduler s) []" using nl same_config_legacy [OF I(1)] by simp
  note L = lm_valid_inputs [OF I(3)]
  show "wf_node_types (ds_node_types sched)" by (rule get_nodes_to_launch_wf [OF I(2) L(1) nl' run])
  obtain nr counts c3 a3 where
    calc: "calculate_node_resources (provider_at env w) sched (ae_non_terminated_nodes env [] w) (as_pending_launches s) unused = Inr (nr, counts)"
    and plan: "planned (ds_node_types sched) (ds_head_node_type sched) (ds_max_workers sched) counts c3 a3"
    and d: "wf_dict d" "\<forall>t. 0 \<le> dget_or d t 0" "\<forall>t. dget_or d t 0 \<le> dget_or a3 t 0"
    and mins: "\<forall>(t, c) \<in> set (ds_node_types sched). min_target (ds_head_node_type sched) t c \<le> dget_or counts t 0 + dget_or d t 0"
    and sc: "same_config (as_scheduler s) sched"
    by (rule get_nodes_to_launch_planned [OF I(2) L(1) nl' L(2,3,4) run]) blast
  show sb: "same_config (base_scheduler cfg nts) sched" by (rule same_config_trans [OF I(1) sc])
  then have head: "ds_head_node_type sched = cfg_head_node_type cfg" by (simp add: same_config_def base_scheduler_def)
  have type: "\<exists>c'. map_of (ds_node_types sched) t = Some c' \<and> worker_limit (cfg_head_node_type cfg) t c' = worker_limit (cfg_head_node_type cfg) t c
    \<and> min_target (cfg_head_node_type cfg) t c' = min_target (cfg_head_node_type cfg) t c" if "map_of nts t = Some c" for t c
    by (rule same_config_type [OF sb]) (use that in \<open>simp add: base_scheduler_def\<close>)
  note counts = scheduler_counts_cluster [OF inv sb calc]
  have g: "grown (ds_node_types sched) (cfg_head_node_type cfg) counts c3 a3" using plan head by (simp add: planned_def)
  have "nodes_of env w t + dget_or (as_pending_launches s) t 0 + dget_or d t 0 \<le> worker_limit (cfg_head_node_type cfg) t c"
    if c: "map_of nts t = Some c" and pos: "0 < dget_or d t 0" for t c
  proof -
    have le: "dget_or d t 0 \<le> dget_or a3 t 0" using d(3) by blast
    with pos have "0 < dget_or a3 t 0" by linarith
    then obtain c'' where "map_of (ds_node_types sched) t = Some c''" "dget_or c3 t 0 \<le> worker_limit (cfg_head_node_type cfg) t c''"
      using grownD(5) [OF g] by blast
    then show ?thesis using type [OF c] counts [OF c] grownD(3) [OF g, of t] le by auto
  qed
  then show "fits_limits env (cfg_head_node_type cfg) nts d (s, w)" using d(1,2) by (simp add: fits_limits_def)
  show "\<forall>t c. map_of nts t = Some c \<longrightarrow> min_target (cfg_head_node_type cfg) t c
      \<le> nodes_of env w t + dget_or (as_pending_launches s) t 0 + dget_or d t 0"
  proof (intro allI impI)
    fix t c
    assume c: "map_of nts t = Some c"
    then obtain c' where c': "map_of (ds_node_types sched) t = Some c'"
      "min_target (cfg_head_node_type cfg) t c' = min_target (cfg_head_node_type cfg) t c" using type by blast
    from mins map_of_SomeD [OF c'(1)] show "min_target (cfg_head_node_type cfg) t c
      \<le> nodes_of env w t + dget_or (as_pending_launches s) t 0 + dget_or d t 0"
      using c'(2) counts [OF c] head by fastforce
  qed
qed

lemma fits_limits_calm:
  assumes "fits_limits env head nts d (s, w)" and "calm env (s, w) (s', w')"
  shows "fits_limits env head nts d (s', w')"
proof -
  have c: "as_pending_launches s' = as_pending_launches s" "\<And>ty. nodes_of env w' ty \<le> nodes_of env w ty"
    using assms(2) by (simp_all add: calm_def)
  have "nodes_of env w' ty + x + y \<le> z" if "nodes_of env w ty + x + y \<le> z" for ty x y z
    using c(2) [of ty] that by linarith
  then show ?thesis using assms(1) unfolding fits_limits_def case_prod_conv c(1) by blast
qed

lemma queued_keeps:
  assumes inv: "cluster_inv env cfg nts l k (s, w)" and fit: "fits_limits env (cfg_head_node_type cfg) nts d (s, w)"
    and q: "queued d s s1"
  shows "cluster_inv env cfg nts l k (s1, w)"
proof -
  obtain new where new: "as_launch_queue s1 = as_launch_queue s @ new" "\<forall>t. asked t new = dget_or d t 0"
    "\<forall>(_, n, _) \<in> set new. 0 < n" using q by (auto simp: queued_def)
  have pend: "dget_or (as_pending_launches s1) t 0 = dget_or (as_pending_launches s) t 0 + dget_or d t 0" for t
    using q by (simp add: queued_def)
  have same: "as_config s1 = as_config s" "as_scheduler s1 = as_scheduler s" "as_load_metrics s1 = as_load_metrics s"
    "as_max_launch_batch s1 = as_max_launch_batch s" "wf_dict (as_pending_launches s) \<longrightarrow> wf_dict (as_pending_launches s1)"
    using q by (simp_all add: queued_def)
  have pos: "\<forall>(_, n, _) \<in> set (as_launch_queue s1 @ l @ k). 0 < n"
  proof -
    have "\<forall>(_, n, _) \<in> set (as_launch_queue s @ l @ k). 0 < n" using inv by (simp add: cluster_inv_def)
    then show ?thesis using new(1,3) by (simp add: ball_Un)
  qed
  then have nonneg: "0 \<le> asked t k" for t by (intro asked_nonneg) (simp add: ball_Un)
  have "nodes_of env w t + asked t (as_launch_queue s1 @ l) \<le> worker_limit (cfg_head_node_type cfg) t c"
    if c: "map_of nts t = Some c" for t c
  proof (cases "dget_or d t 0 = 0")
    case True
    have "nodes_of env w t + asked t (as_launch_queue s @ l) \<le> worker_limit (cfg_head_node_type cfg) t c"
      using inv c unfolding cluster_inv_def case_prod_conv by blast
    then show ?thesis using True new(1,2) by simp
  next
    case False
    moreover have "0 \<le> dget_or d t 0" using fit by (simp add: fits_limits_def)
    ultimately have "0 < dget_or d t 0" by simp
    then have "nodes_of env w t + dget_or (as_pending_launches s) t 0 + dget_or d t 0 \<le> worker_limit (cfg_head_node_type cfg) t c"
      using fit c by (auto simp: fits_limits_def)
    moreover have "dget_or (as_pending_launches s) t 0 = asked t (as_launch_queue s @ l @ k)"
      using inv unfolding cluster_inv_def case_prod_conv by blast
    ultimately show ?thesis using nonneg [of t] new(1,2) by simp
  qed
  moreover have "asked t (as_launch_queue s1 @ l @ k) = asked t (as_launch_queue s @ l @ k) + dget_or d t 0" for t
    using new(1,2) by simp
  ultimately show ?thesis using inv pos unfolding cluster_inv_def case_prod_conv same pend by (simp add: same(5))
qed

lemma launch_required_keeps:
  assumes inv: "cluster_inv env cfg nts l k (s, w)" and fit: "fits_limits env (cfg_head_node_type cfg) nts d (s, w)"
  shows "\<exists>s'. launch_required_nodes env d (s, w) = (Inr (), (s', w)) \<and> cluster_inv env cfg nts l k (s', w)
    \<and> (\<forall>t. dget_or (as_pending_launches s') t 0 = dget_or (as_pending_launches s) t 0 + dget_or d t 0)"
proof (cases "d = []")
  case True
  then show ?thesis using inv by (simp add: launch_required_nodes_def retS_def dget_or_def)
next
  case False
  have d: "wf_dict d" "\<And>t. 0 \<le> dget_or d t 0" using fit by (simp_all add: fits_limits_def)
  obtain s1 where s1: "forS (\<lambda>(t, n). launch_new_node n t) d (s, w) = (Inr (), (s1, w))" "queued d s s1"
    using launch_all_queued [OF d(1) cluster_invD(6) [OF inv] d(2), of w] by (elim exE conjE)
  define s2 where "s2 = s1\<lparr>as_workers := ae_non_terminated_nodes env [(TAG_RAY_NODE_KIND, NODE_KIND_WORKER)] w\<rparr>"
  have s2: "update_worker_list env (s1, w) = (Inr (), (s2, w))" by (simp add: update_worker_list_def s2_def)
  have calm: "calm env (s1, w) (s2, w)" by (simp add: calm_def s2_def)
  have "launch_required_nodes env d (s, w) = (Inr (), (s2, w))"
    using False s1(1) s2 by (simp add: launch_required_nodes_def thenS_def bindS_def)
  moreover have "dget_or (as_pending_launches s2) t 0 = dget_or (as_pending_launches s) t 0 + dget_or d t 0" for t
    using s1(2) by (simp add: queued_def s2_def)
  ultimately show ?thesis using cluster_inv_calm [OF queued_keeps [OF inv fit s1(2)] calm] by blast
qed

lemma snd_thenS: "snd (thenS m n t) = (case m t of (Inl e, t') \<Rightarrow> t' | (Inr x, t') \<Rightarrow> snd (n t'))"
  by (simp add: thenS_def bindS_def split: prod.splits sum.splits)

text \<open>What follows the launches in a round.\<close>

definition after_launch :: "'w autoscaler_env \<Rightarrow> rat \<Rightarrow> bool \<Rightarrow> ('w, unit) as_prog" where
  "after_launch env now disable_updaters =
     (if disable_updaters then terminate_unhealthy_nodes env now
      else thenS (process_completed_updates env)
             (thenS (update_nodes env) (attempt_to_recover_unhealthy_nodes env now)))"

lemma framed_after_launch [framed_intros]: "cloud_ok env \<Longrightarrow> framed env (after_launch env now b)"
  unfolding after_launch_def by (intro framed_intros)

lemma plan_and_launch_run:
  assumes cloud: "cloud_ok env" and inv: "cluster_inv env cfg nts l k (s, w)"
    and nl: "\<not> is_legacy_yaml (base_scheduler cfg nts) []"
    and run: "plan_and_launch env now (ae_non_terminated_nodes env [] w) (s, w) = (r, (s', w'))"
  shows "cluster_inv env cfg nts l k (s', w')
    \<and> (r = Inr () \<and> \<not> ae_is_readonly env \<longrightarrow> (\<forall>t c. map_of nts t = Some c \<longrightarrow>
         min_target (cfg_head_node_type cfg) t c \<le> nodes_of env w t + dget_or (as_pending_launches s') t 0))"
proof (cases "get_nodes_to_launch (ae_conserve_gpu_nodes env) (provider_at env w) (as_scheduler s) (ae_non_terminated_nodes env [] w)
    (as_pending_launches s) (get_resource_demand_vector True (as_load_metrics s)) (get_resource_utilization (as_load_metrics s))
    (get_pending_placement_groups (as_load_metrics s)) (get_static_node_resources_by_ip (as_load_metrics s))
    (get_resource_requests (as_load_metrics s))")
  case (Inl e)
  then have "plan_and_launch env now (ae_non_terminated_nodes env [] w) (s, w) = (Inl e, (s, w))"
    by (simp add: plan_and_launch_def bindS_def liftS_def counter_breakdown_def Let_def)
  then show ?thesis using run inv by simp
next
  case (Inr plan)
  obtain sched d unf where plan: "plan = (sched, d, unf)" by (metis prod_cases3)
  note P = plan_fits [OF inv nl Inr [unfolded plan]]
  define s1 where "s1 = s\<lparr>as_scheduler := sched\<rparr>"
  have inv1: "cluster_inv env cfg nts l k (s1, w)" using inv P(1,2) by (auto simp: cluster_inv_def s1_def)
  have fit1: "fits_limits env (cfg_head_node_type cfg) nts d (s1, w)" using P(3) by (simp add: fits_limits_def s1_def)
  have run1: "plan_and_launch env now (ae_non_terminated_nodes env [] w) (s, w)
      = thenS (report_pending_infeasible env unf) (if ae_is_readonly env then retS ()
          else thenS (launch_required_nodes env d) (after_launch env now (as_disable_node_updaters s))) (s1, w)"
    using Inr unfolding plan_and_launch_def after_launch_def [symmetric]
    by (simp add: bindS_def liftS_def counter_breakdown_def Let_def plan thenS_def updS_def s1_def)
  obtain r2 s2 w2 where rep: "report_pending_infeasible env unf (s1, w) = (r2, (s2, w2))" by (metis surj_pair)
  have calm2: "calm env (s1, w) (s2, w2)"
    using framed_report [of env env unf] rep unfolding framed_def by (metis snd_conv)
  note inv2 = cluster_inv_calm [OF inv1 calm2]
  obtain s3 where s3: "launch_required_nodes env d (s2, w2) = (Inr (), (s3, w2))" "cluster_inv env cfg nts l k (s3, w2)"
    "\<forall>t. dget_or (as_pending_launches s3) t 0 = dget_or (as_pending_launches s2) t 0 + dget_or d t 0"
    using launch_required_keeps [OF inv2 fits_limits_calm [OF fit1 calm2]] by (elim exE conjE)
  obtain r4 s4 w4 where end4: "after_launch env now (as_disable_node_updaters s) (s3, w2) = (r4, (s4, w4))" by (metis surj_pair)
  have calm4: "calm env (s3, w2) (s4, w4)"
    using framed_after_launch [OF cloud] end4 unfolding framed_def by (metis snd_conv)
  have "as_pending_launches s2 = as_pending_launches s" "as_pending_launches s4 = as_pending_launches s3"
    using calm2 calm4 by (simp_all add: calm_def s1_def)
  then have pend: "dget_or (as_pending_launches s4) t 0 = dget_or (as_pending_launches s) t 0 + dget_or d t 0" for t
    using s3(3) by simp
  consider (raised) "(s', w') = (s2, w2)" "r = Inr () \<longrightarrow> ae_is_readonly env" | (launched) "(s', w') = (s4, w4)"
    using run run1 rep s3(1) end4 by (cases r2; cases "ae_is_readonly env") (auto simp: thenS_def bindS_def retS_def)
  then show ?thesis
  proof cases
    case raised
    then show ?thesis using inv2 by auto
  next
    case launched
    then show ?thesis using cluster_inv_calm [OF s3(2) calm4] P(4) pend by (simp add: add.assoc)
  qed
qed

text \<open>
  The setting: the provider is as described, the configuration file always holds \<open>cfg\<close> or cannot
  be read, and \<open>cfg\<close> declares the resources of its node types and is not a legacy one.
\<close>

definition setting :: "'w autoscaler_env \<Rightarrow> autoscaler_config \<Rightarrow> node_types \<Rightarrow> bool" where
  "setting env cfg nts \<longleftrightarrow> cloud_ok env \<and> (\<forall>w. ae_config_reader env w = Inr cfg \<or> (\<exists>e. ae_config_reader env w = Inl e))
     \<and> convert_memory_unit (cfg_available_node_types cfg) = Inr nts \<and> wf_node_types nts
     \<and> \<not> is_legacy_yaml (base_scheduler cfg nts) []"

lemma reset_config_base:
  assumes "setting env cfg nts" and "same_config (base_scheduler cfg nts) sched"
  shows "reset_config sched (cfg_available_node_types cfg) (cfg_max_workers cfg) (cfg_head_node_type cfg) (upscaling_speed_of cfg)
    = Inr (base_scheduler cfg nts)"
proof -
  have "\<not> is_legacy_yaml sched []" using assms same_config_legacy by (auto simp: setting_def)
  then show ?thesis using assms(1) by (auto simp: reset_config_def setting_def base_scheduler_def result_simps)
qed

lemma reset_keeps:
  assumes set: "setting env cfg nts" and inv: "cluster_inv env cfg nts l k (s, w)"
  shows "keeps (cluster_inv env cfg nts l k) (as_reset env fatal) (s, w)"
proof -
  note I = cluster_invD [OF inv]
  have cfg: "as_config s = cfg" using inv by (simp add: cluster_inv_def)
  have wf: "wf_node_types nts" using set by (simp add: setting_def)
  have "cluster_inv env cfg nts l k (snd (reset_body env (s, w)))"
  proof (cases "ae_config_reader env w")
    case (Inl e)
    then show ?thesis using inv by (simp add: reset_body_def bindS_def liftS_def)
  next
    case (Inr c)
    then have c: "ae_config_reader env w = Inr cfg" using set by (metis Inl_Inr_False setting_def)
    show ?thesis
    proof (cases "runtime_hashes env cfg (cfg_file_mounts_sync_continuously cfg)")
      case (Inl e)
      then show ?thesis using inv c cfg by (simp add: reset_body_def bindS_def liftS_def)
    next
      case (Inr h)
      obtain h1 h2 where h: "h = (h1, h2)" by fastforce
      define s1 where "s1 = s\<lparr>as_config := cfg, as_runtime_hash := h1, as_file_mounts_contents_hash := h2,
        as_scheduler := base_scheduler cfg nts\<rparr>"
      have "snd (reset_body env (s, w)) = (s1, w)"
        using Inr c cfg reset_config_base [OF set I(1)]
        by (simp add: reset_body_def bindS_def liftS_def thenS_def updS_def h s1_def)
      moreover have "cluster_inv env cfg nts l k (s1, w)"
        using inv wf same_config_refl [of "base_scheduler cfg nts"]
        by (auto simp: cluster_inv_def s1_def base_scheduler_def)
      ultimately show ?thesis by simp
    qed
  qed
  moreover have "snd (as_reset env fatal (s, w)) = snd (reset_body env (s, w))"
    by (auto simp: as_reset_def split: prod.splits sum.splits)
  ultimately show ?thesis by (simp add: keeps_iff)
qed

lemma framed_before_plan:
  assumes "cloud_ok env"
  shows "framed env (thenS (updS (\<lambda>s. s\<lparr>as_last_update_time := now\<rparr>)) (thenS (update_worker_list env)
    (thenS (prune_load_metrics env)
      (if ae_is_readonly env then retS () else terminate_nodes_to_enforce_config_constraints env now))))"
  using assms by (intro framed_intros) auto

lemma update_body_due:
  assumes "as_update_interval_s s \<le> ae_time env w - as_last_update_time s"
  shows "update_body env (s, w)
    = thenS (thenS (updS (\<lambda>s. s\<lparr>as_last_update_time := ae_time env w\<rparr>)) (thenS (update_worker_list env)
        (thenS (prune_load_metrics env) (if ae_is_readonly env then retS ()
           else terminate_nodes_to_enforce_config_constraints env (ae_time env w)))))
      (bindS getS (\<lambda>(_, w'). plan_and_launch env (ae_time env w) (ae_non_terminated_nodes env [] w'))) (s, w)"
  using assms by (simp add: update_body_def bindS_def thenS_def Let_def split: prod.splits sum.splits)

lemma update_body_keeps:
  assumes set: "setting env cfg nts" and inv: "cluster_inv env cfg nts l k (s, w)"
  shows "keeps (cluster_inv env cfg nts l k) (update_body env) (s, w)"
proof (cases "ae_time env w - as_last_update_time s < as_update_interval_s s")
  case True
  then show ?thesis using inv by (simp add: update_body_def keeps_iff bindS_def retS_def Let_def)
next
  case False
  have cloud: "cloud_ok env" and nl: "\<not> is_legacy_yaml (base_scheduler cfg nts) []" using set by (simp_all add: setting_def)
  let ?now = "ae_time env w"
  let ?pre = "thenS (updS (\<lambda>s. s\<lparr>as_last_update_time := ?now\<rparr>)) (thenS (update_worker_list env)
    (thenS (prune_load_metrics env)
      (if ae_is_readonly env then retS () else terminate_nodes_to_enforce_config_constraints env ?now)))"
  let ?plan = "bindS getS (\<lambda>(_, w). plan_and_launch env ?now (ae_non_terminated_nodes env [] w))"
  have run: "update_body env (s, w) = thenS ?pre ?plan (s, w)"
    using update_body_due [of s env w] False by simp
  have "keeps (cluster_inv env cfg nts l k) (thenS ?pre ?plan) (s, w)"
  proof (rule keeps_then)
    show "keeps (cluster_inv env cfg nts l k) ?pre (s, w)" by (rule keeps_framed [OF framed_before_plan [OF cloud] inv])
    fix t
    assume t: "cluster_inv env cfg nts l k t"
    obtain s1 w1 where t1: "t = (s1, w1)" by fastforce
    obtain r s2 w2 where r: "plan_and_launch env ?now (ae_non_terminated_nodes env [] w1) (s1, w1) = (r, (s2, w2))"
      by (metis surj_pair)
    from plan_and_launch_run [OF cloud t [unfolded t1] nl r] r
    show "keeps (cluster_inv env cfg nts l k) ?plan t" by (simp add: keeps_iff bindS_def t1)
  qed
  then show ?thesis using run by (simp add: keeps_iff)
qed

lemma update_keeps:
  assumes set: "setting env cfg nts" and inv: "cluster_inv env cfg nts l k (s, w)"
  shows "keeps (cluster_inv env cfg nts l k) (as_update env) (s, w)"
proof -
  obtain r s1 w1 where r: "thenS (as_reset env False) (update_body env) (s, w) = (r, (s1, w1))" by (metis surj_pair)
  have "keeps (cluster_inv env cfg nts l k) (thenS (as_reset env False) (update_body env)) (s, w)"
  proof (rule keeps_then [OF reset_keeps [OF set inv]])
    fix t
    assume "cluster_inv env cfg nts l k t"
    then show "keeps (cluster_inv env cfg nts l k) (update_body env) t" by (cases t) (simp add: update_body_keeps [OF set])
  qed
  then have inv1: "cluster_inv env cfg nts l k (s1, w1)" using r by (simp add: keeps_iff)
  have "cluster_inv env cfg nts l k (s1\<lparr>as_num_failures := n\<rparr>, w1)" for n
    by (rule cluster_inv_calm [OF inv1]) (simp add: calm_def)
  then show ?thesis using inv1 r by (auto simp: keeps_iff as_update_def Let_def split: sum.splits)
qed

lemma Ball_mono_set: "\<forall>x \<in> A. P x \<Longrightarrow> B \<subseteq> A \<Longrightarrow> \<forall>x \<in> B. P x"
  by blast

section \<open>The launcher threads keep the invariant\<close>

lemma launch_tags_type:
  "map_of (launch_tags env cfg conf ty) TAG_RAY_USER_NODE_TYPE = (if ty = [] then None else Some ty)"
  by (simp add: launch_tags_def Let_def TAG_RAY_NODE_NAME_def TAG_RAY_NODE_KIND_def TAG_RAY_NODE_STATUS_def
      TAG_RAY_LAUNCH_CONFIG_def TAG_RAY_USER_NODE_TYPE_def)

lemma launch_node_grows:
  assumes "cloud_ok env" and "0 < n"
  shows "nodes_of env (snd (launch_node env types cfg n ty w)) t \<le> nodes_of env w t + (if ty = t then n else 0)"
proof -
  have create: "nodes_of env (snd (ae_create_node_with_resources env conf (launch_tags env cfg conf ty) n res w)) t
      \<le> nodes_of env w t + (if ty = t then n else 0)" for conf res
  proof -
    have "nodes_of env (snd (ae_create_node_with_resources env conf (launch_tags env cfg conf ty) n res w)) t
        \<le> nodes_of env w t + (if map_of (launch_tags env cfg conf ty) TAG_RAY_USER_NODE_TYPE = Some t then max 0 n else 0)"
      using assms(1) unfolding cloud_ok_def by blast
    then show ?thesis using assms(2) by (auto simp: launch_tags_type split: if_splits)
  qed
  define d where "d = (if ty = t then n else 0)"
  have d: "nodes_of env w t \<le> nodes_of env w t + d" using assms(2) by (simp add: d_def)
  have "nodes_of env (snd (launch_node env types cfg n ty w)) t \<le> nodes_of env w t + d"
  proof (cases "map_of (cfg_available_node_types cfg) ty")
    case None
    then show ?thesis using d by (simp add: launch_node_def)
  next
    case (Some c)
    then show ?thesis
      using d create [of "launch_config_of cfg ty c" "the (ntc_resources c)"]
      unfolding d_def [symmetric] by (cases "ntc_resources c") (simp_all add: launch_node_def Let_def)
  qed
  then show ?thesis by (simp add: d_def)
qed

lemma try_launch_keeps:
  assumes cloud: "cloud_ok env" and inv: "cluster_inv env cfg nts l k (s, w)" and r: "r \<in> set l"
    and run: "try_launch env types r (s, w) = (res, (s', w'))"
  shows "cluster_inv env cfg nts (remove1 r l) (k @ [r]) (s', w')"
proof -
  obtain c n ty where req: "r = (c, n, ty)" by (metis prod_cases3)
  have pos: "\<forall>(_, n, _) \<in> set (as_launch_queue s @ l @ k). 0 < n" using inv by (simp add: cluster_inv_def)
  then have n: "0 < n" using r by (force simp: req)
  have s': "s' = s" and w': "w' = snd (launch_node env types c n ty w)"
    using run by (auto simp: try_launch_def req quietS_def worldS_def split: prod.splits)
  have grow: "nodes_of env w' t \<le> nodes_of env w t + asked t [r]" for t
    using launch_node_grows [OF cloud n, of types c ty w t] by (simp add: w' req)
  have rest: "asked t (remove1 r l) = asked t l - asked t [r]" for t by (rule asked_remove1 [OF r])
  have "\<forall>(_, n, _) \<in> set (as_launch_queue s @ remove1 r l @ k @ [r]). 0 < n"
    by (rule Ball_mono_set [OF pos]) (use r set_remove1_subset [of r l] in auto)
  moreover have "asked t (as_launch_queue s @ remove1 r l @ k @ [r]) = asked t (as_launch_queue s @ l @ k)" for t
    using rest [of t] by simp
  moreover have "nodes_of env w' t + asked t (as_launch_queue s @ remove1 r l) \<le> worker_limit (cfg_head_node_type cfg) t c"
    if "map_of nts t = Some c" for t c
  proof -
    have "nodes_of env w t + asked t (as_launch_queue s @ l) \<le> worker_limit (cfg_head_node_type cfg) t c"
      using inv that unfolding cluster_inv_def case_prod_conv by blast
    then show ?thesis using grow [of t] rest [of t] by simp
  qed
  ultimately show ?thesis using inv unfolding cluster_inv_def case_prod_conv s' by presburger
qed

lemma settle_launch_run:
  assumes inv: "cluster_inv env cfg nts l k (s, w)" and r: "r \<in> set k"
  shows "\<exists>s'. settle_launch r (s, w) = (Inr (), (s', w)) \<and> cluster_inv env cfg nts l (remove1 r k) (s', w)"
proof -
  obtain c n ty where req: "r = (c, n, ty)" by (metis prod_cases3)
  have pos: "\<forall>(_, n, _) \<in> set (as_launch_queue s @ l @ k). 0 < n" using inv by (simp add: cluster_inv_def)
  have pos': "\<forall>(_, n, _) \<in> set (as_launch_queue s @ l @ remove1 r k). 0 < n"
    by (rule Ball_mono_set [OF pos]) (use set_remove1_subset [of r k] in auto)
  have pend: "dget_or (as_pending_launches s) t 0 = asked t (as_launch_queue s @ l @ k)" for t
    using inv unfolding cluster_inv_def case_prod_conv by blast
  have rest: "asked t (as_launch_queue s @ l @ remove1 r k) = asked t (as_launch_queue s @ l @ k) - (if ty = t then n else 0)" for t
    using asked_remove1 [OF r, of t] by (simp add: req)
  define s' where "s' = s\<lparr>as_pending_launches := dset (as_pending_launches s) ty (dget_or (as_pending_launches s) ty 0 - n)\<rparr>"
  have pend': "dget_or (as_pending_launches s') t 0 = asked t (as_launch_queue s @ l @ remove1 r k)" for t
    using pend [of t] rest [of t] by (auto simp: s'_def dget_or_def)
  have "n \<le> dget_or (as_pending_launches s) ty 0"
    using asked_nonneg [OF pos', of ty] rest [of ty] pend [of ty] by simp
  then have "settle_launch r (s, w) = (Inr (), (s', w))"
    by (simp add: settle_launch_def req bindS_def thenS_def pendingS_def counter_dec_def assertS_def retS_def s'_def dget_or_def)
  moreover have "cluster_inv env cfg nts l (remove1 r k) (s', w)"
  proof -
    have "as_launch_queue s' = as_launch_queue s" "as_config s' = as_config s" "as_scheduler s' = as_scheduler s"
      "as_load_metrics s' = as_load_metrics s" "as_max_launch_batch s' = as_max_launch_batch s"
      "wf_dict (as_pending_launches s) \<longrightarrow> wf_dict (as_pending_launches s')" by (simp_all add: s'_def)
    then show ?thesis using inv pos' pend' unfolding cluster_inv_def case_prod_conv by presburger
  qed
  ultimately show ?thesis by blast
qed

section \<open>The cluster as a transition system\<close>

text \<open>
  The autoscaler, the requests that launcher threads hold (before and after they called the provider)
  and the cloud. A round of the control loop, a request that is taken, launched or settled, a report
  of the nodes, and whatever happens in the cloud without the autoscaler are steps, in any order.
\<close>

record 'w cluster =
  cl_autoscaler :: autoscaler
  cl_launching :: "launch_request list"
  cl_created :: "launch_request list"
  cl_world :: 'w

definition start_cluster :: "autoscaler \<Rightarrow> 'w \<Rightarrow> 'w cluster" where
  "start_cluster s w = \<lparr>cl_autoscaler = s, cl_launching = [], cl_created = [], cl_world = w\<rparr>"

inductive cluster_step :: "'w autoscaler_env \<Rightarrow> node_types \<Rightarrow> 'w cluster \<Rightarrow> 'w cluster \<Rightarrow> bool" for env types where
  control_round: "as_update env (cl_autoscaler cl, cl_world cl) = (r, (s, w)) \<Longrightarrow>
    cluster_step env types cl (cl\<lparr>cl_autoscaler := s, cl_world := w\<rparr>)"
| take_launch: "take_request (cl_autoscaler cl) = Some (req, s) \<Longrightarrow>
    cluster_step env types cl (cl\<lparr>cl_autoscaler := s, cl_launching := cl_launching cl @ [req]\<rparr>)"
| launch: "req \<in> set (cl_launching cl) \<Longrightarrow> try_launch env types req (cl_autoscaler cl, cl_world cl) = (r, (s, w)) \<Longrightarrow>
    cluster_step env types cl (cl\<lparr>cl_autoscaler := s, cl_launching := remove1 req (cl_launching cl),
      cl_created := cl_created cl @ [req], cl_world := w\<rparr>)"
| settle: "req \<in> set (cl_created cl) \<Longrightarrow> settle_launch req (cl_autoscaler cl, cl_world cl) = (r, (s, w)) \<Longrightarrow>
    cluster_step env types cl (cl\<lparr>cl_autoscaler := s, cl_created := remove1 req (cl_created cl), cl_world := w\<rparr>)"
| report: "lm_valid lm \<Longrightarrow>
    cluster_step env types cl (cl\<lparr>cl_autoscaler := (cl_autoscaler cl)\<lparr>as_load_metrics := lm\<rparr>\<rparr>)"
| cloud_change: "(\<forall>t. nodes_of env w t \<le> nodes_of env (cl_world cl) t) \<Longrightarrow> cluster_step env types cl (cl\<lparr>cl_world := w\<rparr>)"

definition cluster_safe :: "'w autoscaler_env \<Rightarrow> autoscaler_config \<Rightarrow> node_types \<Rightarrow> 'w cluster \<Rightarrow> bool" where
  "cluster_safe env cfg nts cl =
     cluster_inv env cfg nts (cl_launching cl) (cl_created cl) (cl_autoscaler cl, cl_world cl)"

lemma take_request_keeps:
  assumes inv: "cluster_inv env cfg nts l k (s, w)" and take: "take_request s = Some (req, s')"
  shows "cluster_inv env cfg nts (l @ [req]) k (s', w)"
proof -
  obtain q where q: "as_launch_queue s = req # q" and s': "s' = s\<lparr>as_launch_queue := q\<rparr>"
    using take by (auto simp: take_request_def split: list.splits)
  have asked: "asked t (as_launch_queue s' @ (l @ [req]) @ k) = asked t (as_launch_queue s @ l @ k)"
    "asked t (as_launch_queue s' @ l @ [req]) = asked t (as_launch_queue s @ l)" for t
    by (cases req, simp add: q s')+
  have "set (as_launch_queue s' @ (l @ [req]) @ k) = set (as_launch_queue s @ l @ k)" by (auto simp: q s')
  moreover have "as_config s' = as_config s" "as_scheduler s' = as_scheduler s" "as_load_metrics s' = as_load_metrics s"
    "as_max_launch_batch s' = as_max_launch_batch s" "as_pending_launches s' = as_pending_launches s" by (simp_all add: s')
  ultimately show ?thesis using inv unfolding cluster_inv_def case_prod_conv asked by metis
qed

lemma cluster_step_safe:
  assumes set: "setting env cfg nts" and inv: "cluster_safe env cfg nts cl" and step: "cluster_step env types cl cl'"
  shows "cluster_safe env cfg nts cl'"
  using step
proof cases
  case (control_round r s w)
  then show ?thesis using update_keeps [OF set inv [unfolded cluster_safe_def]] by (simp add: cluster_safe_def keeps_iff)
next
  case (take_launch req s)
  then show ?thesis using take_request_keeps [OF inv [unfolded cluster_safe_def] take_launch(2)] by (simp add: cluster_safe_def)
next
  case (launch req r s w)
  have "cloud_ok env" using set by (simp add: setting_def)
  from try_launch_keeps [OF this inv [unfolded cluster_safe_def] launch(2,3)] launch(1)
  show ?thesis by (simp add: cluster_safe_def)
next
  case (settle req r s w)
  then show ?thesis using settle_launch_run [OF inv [unfolded cluster_safe_def] settle(2)] by (auto simp: cluster_safe_def)
next
  case (report lm)
  have "calm env (cl_autoscaler cl, cl_world cl) ((cl_autoscaler cl)\<lparr>as_load_metrics := lm\<rparr>, cl_world cl)"
    using report by (simp add: calm_def)
  from cluster_inv_calm [OF inv [unfolded cluster_safe_def] this] report show ?thesis by (simp add: cluster_safe_def)
next
  case (cloud_change w)
  have "calm env (cl_autoscaler cl, cl_world cl) (cl_autoscaler cl, w)" using cloud_change by (simp add: calm_def)
  from cluster_inv_calm [OF inv [unfolded cluster_safe_def] this] cloud_change show ?thesis by (simp add: cluster_safe_def)
qed

lemma convert_keeps_limits:
  assumes "convert_memory_unit types = Inr nts" and "map_of types t = Some c"
  shows "\<exists>c'. map_of nts t = Some c' \<and> worker_limit head t c' = worker_limit head t c \<and> min_target head t c' = min_target head t c"
proof -
  have "list_all2 (\<lambda>(t, c) (t', c'). t' = t \<and> ntc_min_workers c' = ntc_min_workers c \<and> ntc_max_workers c' = ntc_max_workers c) types nts"
    using assms(1) unfolding convert_memory_unit_def mapE_Inr_iff
    by (rule list_all2_mono) (auto simp: result_simps split: if_splits)
  then show ?thesis using assms(2)
    by (induction rule: list_all2_induct)
       (auto simp: worker_limit_def min_target_def config_max_workers_def config_min_workers_def split: if_splits)
qed

lemma converted_limit:
  assumes "convert_memory_unit types = Inr nts" and "map_of nts t = Some c'"
    and "\<And>c. map_of types t = Some c \<Longrightarrow> n \<le> worker_limit head t c"
  shows "n \<le> worker_limit head t c'"
proof -
  have "map fst nts = map fst types" using assms(1) unfolding convert_memory_unit_def mapE_Inr_iff
    by (induction rule: list_all2_induct) (auto simp: result_simps split: if_splits)
  then obtain c where "map_of types t = Some c" using assms(2)
    by (metis map_of_eq_None_iff not_None_eq list.set_map option.distinct(1))
  then show ?thesis using convert_keeps_limits [OF assms(1), of t c head] assms(2,3) by force
qed

lemma init_cluster_safe:
  assumes set: "setting env cfg nts" and run: "init_autoscaler env lm batch max_failures interval w = Inr s"
    and lm: "lm_valid lm"
    and lim: "\<forall>t c. map_of nts t = Some c \<longrightarrow> nodes_of env w t \<le> worker_limit (cfg_head_node_type cfg) t c"
  shows "cluster_safe env cfg nts (start_cluster s w)"
proof -
  obtain c where c: "ae_config_reader env w = Inr c" using run by (auto simp: init_autoscaler_def result_simps)
  then have "c = cfg" using set by (metis Inl_Inr_False Inr_inject setting_def)
  then have cfg: "ae_config_reader env w = Inr cfg" using c by simp
  have "init_scheduler (cfg_available_node_types cfg) (cfg_max_workers cfg) (cfg_head_node_type cfg) (upscaling_speed_of cfg)
      = Inr (base_scheduler cfg nts)"
    using set by (simp add: setting_def init_scheduler_def base_scheduler_def result_simps)
  then have "as_config s = cfg" "as_scheduler s = base_scheduler cfg nts" "as_load_metrics s = lm"
    "as_max_launch_batch s \<noteq> 0" "as_pending_launches s = []" "as_launch_queue s = []"
    using run cfg by (auto simp: init_autoscaler_def result_simps split: if_splits)
  moreover have "wf_node_types nts" using set by (simp add: setting_def)
  ultimately show ?thesis using lm lim
    by (auto simp: cluster_safe_def cluster_inv_def start_cluster_def same_config_refl base_scheduler_def wf_dict_def dget_or_def)
qed

lemma cluster_reaches_safe:
  assumes "setting env cfg nts" and "reaches (cluster_step env types) cl cl'" and "cluster_safe env cfg nts cl"
  shows "cluster_safe env cfg nts cl'"
proof -
  have "invariant_system (cluster_safe env cfg nts) (cluster_step env types) (cluster_safe env cfg nts)"
    by unfold_locales (auto intro: cluster_step_safe [OF assms(1)])
  from invariant_system.reaches_invar [OF this assms(2,3)] show ?thesis .
qed

lemma reachable_inv:
  assumes set: "setting env cfg nts" and init: "init_autoscaler env lm batch max_failures interval w = Inr s"
    and lm: "lm_valid lm"
    and lim: "\<forall>t c. map_of (cfg_available_node_types cfg) t = Some c \<longrightarrow>
      nodes_of env w t \<le> worker_limit (cfg_head_node_type cfg) t c"
    and reach: "reaches (cluster_step env types) (start_cluster s w) cl"
  shows "cluster_inv env cfg nts (cl_launching cl) (cl_created cl) (cl_autoscaler cl, cl_world cl)"
proof -
  have conv: "convert_memory_unit (cfg_available_node_types cfg) = Inr nts" using set by (simp add: setting_def)
  have "nodes_of env w t \<le> worker_limit (cfg_head_node_type cfg) t c" if "map_of nts t = Some c" for t c
    by (rule converted_limit [OF conv that]) (use lim in blast)
  then have "cluster_safe env cfg nts (start_cluster s w)" by (intro init_cluster_safe [OF set init lm]) blast
  from cluster_reaches_safe [OF set reach this] show ?thesis by (simp add: cluster_safe_def)
qed


lemma wp_updS: "wp (updS f) Q E t \<longleftrightarrow> Q () (f (fst t), snd t)"
  by (cases t) (simp add: wp_def updS_def)

lemma reset_frame:
  assumes "as_reset env fatal (s, w) = (r, (s', w'))"
  shows "w' = w \<and> as_last_update_time s' = as_last_update_time s \<and> as_update_interval_s s' = as_update_interval_s s"
proof -
  let ?P = "\<lambda>t. snd t = w \<and> as_last_update_time (fst t) = as_last_update_time s \<and> as_update_interval_s (fst t) = as_update_interval_s s"
  have "wp (reset_body env) (\<lambda>_. ?P) (\<lambda>_. ?P) (s, w)"
    unfolding reset_body_def by (simp add: wp_simps wp_updS case_prod_unfold split: sum.split)
  then have "?P (snd (reset_body env (s, w)))" by (simp only: keeps_iff)
  moreover have "snd (as_reset env fatal (s, w)) = snd (reset_body env (s, w))"
    by (auto simp: as_reset_def split: prod.splits sum.splits)
  ultimately show ?thesis using assms by (metis fst_conv snd_conv)
qed

lemma update_body_split:
  assumes "as_update_interval_s s \<le> ae_time env w - as_last_update_time s"
    and "update_body env (s, w) = (Inr (), (s', w'))"
  shows "\<exists>s1 w1. thenS (updS (\<lambda>s. s\<lparr>as_last_update_time := ae_time env w\<rparr>)) (thenS (update_worker_list env)
      (thenS (prune_load_metrics env) (if ae_is_readonly env then retS ()
         else terminate_nodes_to_enforce_config_constraints env (ae_time env w)))) (s, w) = (Inr (), (s1, w1))
    \<and> plan_and_launch env (ae_time env w) (ae_non_terminated_nodes env [] w1) (s1, w1) = (Inr (), (s', w'))"
  using thenS_returns [OF assms(2) [unfolded update_body_due [OF assms(1)]]] by (auto simp: bindS_def)

lemma update_body_asks:
  assumes set: "setting env cfg nts" and inv: "cluster_inv env cfg nts l k (s, w)" and rw: "\<not> ae_is_readonly env"
    and due: "as_update_interval_s s \<le> ae_time env w - as_last_update_time s"
    and run: "update_body env (s, w) = (Inr (), (s', w'))"
  shows "\<exists>w1. (\<forall>t. nodes_of env w1 t \<le> nodes_of env w t) \<and> (\<forall>t c. map_of nts t = Some c \<longrightarrow>
    min_target (cfg_head_node_type cfg) t c \<le> nodes_of env w1 t + dget_or (as_pending_launches s') t 0)"
proof -
  have cloud: "cloud_ok env" and nl: "\<not> is_legacy_yaml (base_scheduler cfg nts) []" using set by (simp_all add: setting_def)
  obtain s1 w1 where pre: "thenS (updS (\<lambda>s. s\<lparr>as_last_update_time := ae_time env w\<rparr>)) (thenS (update_worker_list env)
      (thenS (prune_load_metrics env) (if ae_is_readonly env then retS ()
         else terminate_nodes_to_enforce_config_constraints env (ae_time env w)))) (s, w) = (Inr (), (s1, w1))"
    and plan: "plan_and_launch env (ae_time env w) (ae_non_terminated_nodes env [] w1) (s1, w1) = (Inr (), (s', w'))"
    using update_body_split [OF due run] by (elim exE conjE)
  have calm: "calm env (s, w) (s1, w1)"
    using framed_before_plan [OF cloud, of "ae_time env w"] pre unfolding framed_def by (metis snd_conv)
  from plan_and_launch_run [OF cloud cluster_inv_calm [OF inv calm] nl plan] rw calm
  show ?thesis by (auto simp: calm_def)
qed


section \<open>A concrete cluster\<close>

lemma ex_nodes_of:
  "nodes_of ex_as_env w t = int (length (filter (\<lambda>n. map_of (dget_or (ec_nodes w) n []) TAG_RAY_USER_NODE_TYPE = Some t)
     (map fst (ec_nodes w))))"
  by (simp add: nodes_of_def node_type_of_def ex_as_env_def)

lemma filter_sublist_length: "length (filter P (map fst (filter Q xs))) \<le> length (filter P (map fst xs))"
  by (induction xs) auto

lemma ex_terminate_ok:
  "nodes_of ex_as_env (w\<lparr>ec_nodes := filter (\<lambda>(n, _). n \<notin> set ns) (ec_nodes w)\<rparr>) t \<le> nodes_of ex_as_env w t"
proof -
  have look: "map_of (filter (\<lambda>(n, _). n \<notin> set ns) xs) n = map_of xs n" if "n \<notin> set ns" for n and xs :: "(string \<times> (string, string) dict) list"
    using that by (induction xs) auto
  let ?P = "\<lambda>xs n. map_of (dget_or xs n []) TAG_RAY_USER_NODE_TYPE = Some t"
  let ?ys = "filter (\<lambda>(n, _). n \<notin> set ns) (ec_nodes w)"
  have "filter (?P ?ys) (map fst ?ys) = filter (?P (ec_nodes w)) (map fst ?ys)"
    by (rule filter_cong) (auto simp: dget_or_def look)
  also have "length \<dots> \<le> length (filter (?P (ec_nodes w)) (map fst (ec_nodes w)))"
    using filter_sublist_length [of "?P (ec_nodes w)" "\<lambda>(n, _). n \<notin> set ns" "ec_nodes w"] by simp
  finally show ?thesis by (simp add: ex_nodes_of)
qed

lemma fold_max_upper: "x \<in> set xs \<or> x \<le> a \<Longrightarrow> x \<le> fold max xs (a :: nat)"
proof (induction xs arbitrary: a)
  case (Cons y ys)
  have "x \<in> set ys \<or> x \<le> max y a" using Cons.prems by (auto simp: le_max_iff_disj)
  then show ?case using Cons.IH [of "max y a"] by simp
qed simp

lemma ex_create_ok:
  "nodes_of ex_as_env (ex_create tags n w) t
    \<le> nodes_of ex_as_env w t + (if map_of tags TAG_RAY_USER_NODE_TYPE = Some t then max 0 n else 0)"
proof -
  let ?free = "Suc (fold max (map (length \<circ> fst) (ec_nodes w)) 0)"
  let ?new = "map (\<lambda>i. (replicate (?free + i) CHR ''n'', tags)) [0..<nat n]"
  let ?all = "ec_nodes w @ ?new"
  let ?P = "\<lambda>xs n. map_of (dget_or xs n []) TAG_RAY_USER_NODE_TYPE = Some t"
  have fresh: "map_of (ec_nodes w) (replicate (?free + i) CHR ''n'') = None" for i
  proof (rule ccontr)
    assume "map_of (ec_nodes w) (replicate (?free + i) CHR ''n'') \<noteq> None"
    then obtain tg where "(replicate (?free + i) CHR ''n'', tg) \<in> set (ec_nodes w)" by (auto dest: map_of_SomeD)
    from imageI [OF this, of "length \<circ> fst"] have "?free + i \<in> set (map (length \<circ> fst) (ec_nodes w))" by simp
    then have "?free + i \<le> fold max (map (length \<circ> fst) (ec_nodes w)) 0" by (intro fold_max_upper) blast
    then show False by simp
  qed
  have "filter (?P ?all) (map fst (ec_nodes w)) = filter (?P (ec_nodes w)) (map fst (ec_nodes w))"
    by (rule filter_cong) (auto simp: dget_or_def map_add_def split: option.splits dest: map_of_eq_None_iff [THEN iffD1])
  moreover have "filter (?P ?all) (map fst ?new) = filter (\<lambda>_. map_of tags TAG_RAY_USER_NODE_TYPE = Some t) (map fst ?new)"
  proof (rule filter_cong [OF refl])
    fix x
    assume "x \<in> set (map fst ?new)"
    then obtain i where i: "i < nat n" "x = replicate (?free + i) CHR ''n''" by auto
    have "map_of ?new x = Some tags" using i by (auto simp: map_of_eq_Some_iff distinct_map inj_on_def o_def)
    then show "?P ?all x = (map_of tags TAG_RAY_USER_NODE_TYPE = Some t)"
      using fresh [of i] i(2) by (simp add: dget_or_def map_add_def)
  qed
  ultimately show ?thesis by (simp add: ex_nodes_of ex_create_def Let_def)
qed

lemma ex_cloud_ok: "cloud_ok ex_as_env"
  unfolding cloud_ok_def using ex_terminate_ok ex_create_ok by (simp add: ex_as_env_def [abs_def])

text \<open>The cluster after a first round that wants two workers and after a thread took its request.\<close>

definition ex_wanting :: autoscaler where
  "ex_wanting = ex_autoscaler (ex_metrics [] [[(''CPU'', 4)], [(''CPU'', 4)]])"

definition ex_planned :: "autoscaler \<times> ex_cloud" where
  "ex_planned = snd (as_update ex_as_env (ex_wanting, ex_world []))"

definition ex_request :: launch_request where
  "ex_request = (ex_as_config, 2, ''cpu'')"

definition ex_held :: "autoscaler \<times> ex_cloud" where
  "ex_held = ((fst ex_planned)\<lparr>as_launch_queue := []\<rparr>, snd ex_planned)"

definition ex_cluster :: "ex_cloud cluster" where
  "ex_cluster = \<lparr>cl_autoscaler = fst ex_held, cl_launching = [ex_request], cl_created = [], cl_world = snd ex_held\<rparr>"

lemma ex_queue: "as_launch_queue (fst ex_planned) = [ex_request]"
  by code_simp

lemma ex_wanting_init: "init_autoscaler ex_as_env (ex_metrics [] [[(''CPU'', 4)], [(''CPU'', 4)]]) 5 5 5 (ex_world []) = Inr ex_wanting"
  by code_simp

lemma ex_setting: "setting ex_as_env ex_as_config ex_types"
proof -
  have "convert_memory_unit (cfg_available_node_types ex_as_config) = Inr ex_types" by code_simp
  moreover have "\<not> is_legacy_yaml (base_scheduler ex_as_config ex_types) []" by code_simp
  moreover have "wf_node_types ex_types" by (simp add: wf_node_types_def wf_dict_def ex_types_def nonneg_def)
  moreover have "ae_config_reader ex_as_env w = Inr ex_as_config" for w by (simp add: ex_as_env_def)
  ultimately show ?thesis using ex_cloud_ok by (simp add: setting_def)
qed

lemma ex_within_limits:
  "\<forall>t c. map_of (cfg_available_node_types ex_as_config) t = Some c \<longrightarrow>
     nodes_of ex_as_env (ex_world []) t \<le> worker_limit (cfg_head_node_type ex_as_config) t c"
proof -
  have "nodes_of ex_as_env (ex_world []) ''head'' = 1" "nodes_of ex_as_env (ex_world []) ''cpu'' = 0" by code_simp+
  then show ?thesis
    by (auto simp: ex_as_config_def ex_types_def worker_limit_def config_max_workers_def split: if_splits)
qed

lemma ex_metrics_valid: "lm_valid (ex_metrics [] [[(''CPU'', 4)], [(''CPU'', 4)]])"
  by (simp add: lm_valid_def ex_metrics_def init_load_metrics_def wf_dict_def)

lemma ex_cluster_reached: "reaches (cluster_step ex_as_env ex_types) (start_cluster ex_wanting (ex_world [])) ex_cluster"
proof -
  let ?cl = "(start_cluster ex_wanting (ex_world []))\<lparr>cl_autoscaler := fst ex_planned, cl_world := snd ex_planned\<rparr>"
  have "cluster_step ex_as_env ex_types (start_cluster ex_wanting (ex_world [])) ?cl"
    by (rule control_round [where r = "fst (as_update ex_as_env (ex_wanting, ex_world []))"])
       (simp add: start_cluster_def ex_planned_def)
  moreover have "cluster_step ex_as_env ex_types ?cl
      (?cl\<lparr>cl_autoscaler := (fst ex_planned)\<lparr>as_launch_queue := []\<rparr>, cl_launching := cl_launching ?cl @ [ex_request]\<rparr>)"
    by (rule take_launch) (simp add: take_request_def ex_queue)
  moreover have "?cl\<lparr>cl_autoscaler := (fst ex_planned)\<lparr>as_launch_queue := []\<rparr>, cl_launching := cl_launching ?cl @ [ex_request]\<rparr> = ex_cluster"
    by (simp add: ex_cluster_def ex_held_def start_cluster_def)
  ultimately show ?thesis by (metis reaches_one reaches_step)
qed


definition ex_round :: "unit result \<times> autoscaler \<times> ex_cloud" where
  "ex_round = thenS (as_reset ex_as_env False) (update_body ex_as_env) (ex_wanting, ex_world [])"


section \<open>A launch that finishes inside a round\<close>


end
