(* ===== verification/Tune_Schedulers.thy ===== *)
theory Tune_Schedulers
  imports Stateful
begin

text \<open>
  The schedulers of Tune: \<open>trial_scheduler.py\<close>, whose \<open>FIFOScheduler\<close> runs trials in the order
  of submission, and \<open>async_hyperband.py\<close>, the asynchronous successive halving (ASHA).

  A result is a dict from attributes to numbers, \<open>None\<close> being Python's None. Floats are exact
  rationals. \<open>np.nanpercentile\<close>, the quotient of logarithms and the random choice of a bracket are
  parameters; \<open>percentile_at\<close> is the documented percentile with linear interpolation.
\<close>

section \<open>Trials, decisions and results\<close>

datatype decision = CONTINUE | PAUSE | STOP

datatype trial_status = PENDING | RUNNING | PAUSED | TERMINATED | ERROR

type_synonym trial_result = "(string, rat option) dict"

definition DEFAULT_METRIC :: string where "DEFAULT_METRIC = ''_metric''"

text \<open>\<open>if x:\<close> of a string or None.\<close>

definition truthy :: "string option \<Rightarrow> bool" where
  "truthy x = (case x of None \<Rightarrow> False | Some s \<Rightarrow> s \<noteq> [])"

definition base_set_search_properties :: "string option \<Rightarrow> string option \<Rightarrow> bool \<times> string option" where
  "base_set_search_properties own_metric metric =
     (if truthy own_metric \<and> truthy metric then (False, own_metric)
      else
        let m = (if truthy metric then metric else own_metric)
        in (True, if m = None then Some DEFAULT_METRIC else m))"

definition fifo_choose_trial_to_run :: "('t \<Rightarrow> bool) \<Rightarrow> ('t \<Rightarrow> trial_status) \<Rightarrow> 't list \<Rightarrow> 't option" where
  "fifo_choose_trial_to_run has_resources status trials =
     (case find (\<lambda>t. status t = PENDING \<and> has_resources t) trials of
        Some t \<Rightarrow> Some t
      | None \<Rightarrow> find (\<lambda>t. status t = PAUSED \<and> has_resources t) trials)"

section \<open>Brackets\<close>

record asha_bracket =
  br_rf :: rat
  br_rungs :: "(rat \<times> (string, rat) dict) list"

definition init_bracket :: "(rat \<Rightarrow> rat \<Rightarrow> rat) \<Rightarrow> rat \<Rightarrow> rat \<Rightarrow> rat \<Rightarrow> nat \<Rightarrow> asha_bracket" where
  "init_bracket log_ratio min_t max_t reduction_factor s =
     (let MAX_RUNGS = py_int (log_ratio (max_t / min_t) reduction_factor - of_nat s + 1)
      in \<lparr>br_rf = reduction_factor,
          br_rungs = map (\<lambda>k. (min_t * reduction_factor ^ (k + s), [])) (rev [0..<nat MAX_RUNGS])\<rparr>)"

definition cutoff :: "(rat list \<Rightarrow> rat \<Rightarrow> rat) \<Rightarrow> rat \<Rightarrow> (string, rat) dict \<Rightarrow> rat option" where
  "cutoff percentile rf recorded =
     (if recorded = [] then None else Some (percentile (dvalues recorded) ((1 - 1 / rf) * 100)))"

fun rungs_on_result ::
  "(rat list \<Rightarrow> rat \<Rightarrow> rat) \<Rightarrow> rat \<Rightarrow> string \<Rightarrow> rat \<Rightarrow> rat option \<Rightarrow> (rat \<times> (string, rat) dict) list
    \<Rightarrow> (decision \<times> (rat \<times> (string, rat) dict) list) result" where
  "rungs_on_result percentile rf trial cur_iter cur_rew [] = Inr (CONTINUE, [])"
| "rungs_on_result percentile rf trial cur_iter cur_rew ((milestone, recorded) # rungs) =
     (if cur_iter < milestone \<or> dmem trial recorded then
        bindE (rungs_on_result percentile rf trial cur_iter cur_rew rungs) (\<lambda>(action, rungs').
          Inr (action, (milestone, recorded) # rungs'))
      else
        bindE (case cutoff percentile rf recorded of
                 None \<Rightarrow> Inr CONTINUE
               | Some c \<Rightarrow>
                   (case cur_rew of
                      None \<Rightarrow> Inl TypeError
                    | Some r \<Rightarrow> Inr (if r < c then STOP else CONTINUE))) (\<lambda>action.
        case cur_rew of
          None \<Rightarrow> Inr (action, (milestone, recorded) # rungs)
        | Some r \<Rightarrow> Inr (action, (milestone, dset recorded trial r) # rungs)))"

definition bracket_on_result ::
  "(rat list \<Rightarrow> rat \<Rightarrow> rat) \<Rightarrow> string \<Rightarrow> rat \<Rightarrow> rat option \<Rightarrow> asha_bracket \<Rightarrow> (decision \<times> asha_bracket) result" where
  "bracket_on_result percentile trial cur_iter cur_rew b =
     bindE (rungs_on_result percentile (br_rf b) trial cur_iter cur_rew (br_rungs b)) (\<lambda>(action, rungs).
       Inr (action, b\<lparr>br_rungs := rungs\<rparr>))"

section \<open>AsyncHyperBandScheduler\<close>

text \<open>\<open>_trial_info\<close> maps a trial to its bracket, here to the position of the bracket.\<close>

record asha =
  ah_reduction_factor :: rat
  ah_max_t :: rat
  ah_trial_info :: "(string, nat) dict"
  ah_brackets :: "asha_bracket list"
  ah_num_stopped :: nat
  ah_metric :: "string option"
  ah_mode :: "string option"
  ah_metric_op :: "rat option"
  ah_time_attr :: string

definition metric_op_of :: "string option \<Rightarrow> rat option \<Rightarrow> rat option" where
  "metric_op_of mode old =
     (if mode = Some ''max'' then Some 1 else if mode = Some ''min'' then Some (- 1) else old)"

definition init_asha ::
  "(rat \<Rightarrow> rat \<Rightarrow> rat) \<Rightarrow> string \<Rightarrow> string option \<Rightarrow> string option \<Rightarrow> rat \<Rightarrow> rat \<Rightarrow> rat \<Rightarrow> int \<Rightarrow> asha result" where
  "init_asha log_ratio time_attr metric mode max_t grace_period reduction_factor brackets =
     bindE (assertE (max_t > 0)) (\<lambda>_.
     bindE (assertE (max_t \<ge> grace_period)) (\<lambda>_.
     bindE (assertE (grace_period > 0)) (\<lambda>_.
     bindE (assertE (reduction_factor > 1)) (\<lambda>_.
     bindE (assertE (brackets > 0)) (\<lambda>_.
     bindE (assertE (truthy mode \<longrightarrow> mode \<in> {Some ''min'', Some ''max''})) (\<lambda>_.
       Inr \<lparr>ah_reduction_factor = reduction_factor, ah_max_t = max_t, ah_trial_info = [],
            ah_brackets = map (init_bracket log_ratio grace_period max_t reduction_factor) [0..<nat brackets],
            ah_num_stopped = 0, ah_metric = metric, ah_mode = mode, ah_metric_op = metric_op_of mode None,
            ah_time_attr = time_attr\<rparr>))))))"

definition asha_set_search_properties :: "string option \<Rightarrow> string option \<Rightarrow> asha \<Rightarrow> bool \<times> asha" where
  "asha_set_search_properties metric mode s =
     (if truthy (ah_metric s) \<and> truthy metric then (False, s)
      else if truthy (ah_mode s) \<and> truthy mode then (False, s)
      else
        let s1 = s\<lparr>ah_metric := (if truthy metric then metric else ah_metric s),
                   ah_mode := (if truthy mode then mode else ah_mode s)\<rparr>;
            s2 = s1\<lparr>ah_metric_op := metric_op_of (ah_mode s1) (ah_metric_op s1)\<rparr>
        in (True, if ah_metric s2 = None \<and> truthy (ah_mode s2)
                  then s2\<lparr>ah_metric := Some DEFAULT_METRIC\<rparr> else s2))"

text \<open>\<open>pick\<close> is the random choice of an index, with probabilities computed from the sizes.\<close>

definition asha_on_trial_add :: "(nat list \<Rightarrow> nat) \<Rightarrow> string \<Rightarrow> asha \<Rightarrow> asha result" where
  "asha_on_trial_add pick trial s =
     (if \<not> truthy (ah_metric s) \<or> ah_metric_op s = None then Inl ValueError
      else
        let sizes = map (\<lambda>b. length (br_rungs b)) (ah_brackets s); idx = pick sizes
        in if idx < length (ah_brackets s)
           then Inr (s\<lparr>ah_trial_info := dset (ah_trial_info s) trial idx\<rparr>) else Inl IndexError)"

definition has_attrs :: "asha \<Rightarrow> trial_result \<Rightarrow> bool" where
  "has_attrs s r \<longleftrightarrow> dmem (ah_time_attr s) r \<and> (case ah_metric s of None \<Rightarrow> False | Some m \<Rightarrow> dmem m r)"

text \<open>\<open>self._metric_op * result[self._metric]\<close>, which fails on None.\<close>

definition signed_metric :: "asha \<Rightarrow> trial_result \<Rightarrow> rat result" where
  "signed_metric s r =
     (case ah_metric s of
        None \<Rightarrow> Inl KeyError
      | Some m \<Rightarrow> bindE (dindex r m) (\<lambda>v.
          case (ah_metric_op s, v) of (Some op, Some x) \<Rightarrow> Inr (op * x) | _ \<Rightarrow> Inl TypeError))"

text \<open>The bracket of the trial sees the result; what it returns and the new state.\<close>

definition report_to_bracket ::
  "(rat list \<Rightarrow> rat \<Rightarrow> rat) \<Rightarrow> string \<Rightarrow> rat \<Rightarrow> trial_result \<Rightarrow> asha \<Rightarrow> (decision \<times> asha) result" where
  "report_to_bracket percentile trial t r s =
     bindE (dindex (ah_trial_info s) trial) (\<lambda>i.
     bindE (signed_metric s r) (\<lambda>rew.
     bindE (bracket_on_result percentile trial t (Some rew) (ah_brackets s ! i)) (\<lambda>(action, b).
       Inr (action, s\<lparr>ah_brackets := (ah_brackets s)[i := b]\<rparr>))))"

definition asha_on_trial_result ::
  "(rat list \<Rightarrow> rat \<Rightarrow> rat) \<Rightarrow> string \<Rightarrow> trial_result \<Rightarrow> asha \<Rightarrow> (decision \<times> asha) result" where
  "asha_on_trial_result percentile trial r s =
     (if \<not> has_attrs s r then Inr (CONTINUE, s)
      else
        bindE (dindex r (ah_time_attr s)) (\<lambda>time.
        case time of
          None \<Rightarrow> Inl TypeError
        | Some t \<Rightarrow>
            bindE (if t \<ge> ah_max_t s then Inr (STOP, s) else report_to_bracket percentile trial t r s) (\<lambda>(action, s1).
              Inr (action, if action = STOP then s1\<lparr>ah_num_stopped := ah_num_stopped s1 + 1\<rparr> else s1))))"

text \<open>On a None time the comparison with a milestone fails, if there is a rung.\<close>

definition asha_on_trial_complete ::
  "(rat list \<Rightarrow> rat \<Rightarrow> rat) \<Rightarrow> string \<Rightarrow> trial_result \<Rightarrow> asha \<Rightarrow> asha result" where
  "asha_on_trial_complete percentile trial r s =
     (if \<not> has_attrs s r then Inr s
      else
        bindE (dindex (ah_trial_info s) trial) (\<lambda>i.
        bindE (signed_metric s r) (\<lambda>_.
        bindE (dindex r (ah_time_attr s)) (\<lambda>time.
        bindE (case time of
                 None \<Rightarrow> (if br_rungs (ah_brackets s ! i) = [] then Inr (CONTINUE, s) else Inl TypeError)
               | Some t \<Rightarrow> report_to_bracket percentile trial t r s) (\<lambda>(_, s1).
          Inr (s1\<lparr>ah_trial_info := ddel (ah_trial_info s1) trial\<rparr>))))))"

definition asha_on_trial_remove :: "string \<Rightarrow> asha \<Rightarrow> asha result" where
  "asha_on_trial_remove trial s =
     bindE (dindex (ah_trial_info s) trial) (\<lambda>_. Inr (s\<lparr>ah_trial_info := ddel (ah_trial_info s) trial\<rparr>))"

section \<open>The percentile\<close>

definition percentile_at :: "rat list \<Rightarrow> rat \<Rightarrow> rat" where
  "percentile_at xs q =
     (let ys = sort xs; h = of_nat (length xs - 1) * q / 100; i = nat \<lfloor>h\<rfloor>
      in if Suc i < length xs then ys ! i + (h - of_nat i) * (ys ! Suc i - ys ! i) else ys ! i)"

definition percentile_ok :: "(rat list \<Rightarrow> rat \<Rightarrow> rat) \<Rightarrow> bool" where
  "percentile_ok p \<longleftrightarrow> (\<forall>xs q. xs \<noteq> [] \<longrightarrow> 0 \<le> q \<longrightarrow> q \<le> 100 \<longrightarrow> p xs q = percentile_at xs q)"

lemma filter_sort_length: "length (filter P (sort xs)) = length (filter P xs)" for xs :: "rat list"
  by (metis mset_filter mset_sort size_mset)

lemma suffix_count:
  assumes "\<And>j. k \<le> j \<Longrightarrow> j < length ys \<Longrightarrow> P (ys ! j)"
  shows "length ys - k \<le> length (filter P ys)"
proof -
  have "filter P (drop k ys) = drop k ys" using assms by (auto simp: filter_id_conv in_set_conv_nth)
  then have "length (filter P (drop k ys)) = length ys - k" by simp
  moreover have "length (filter P (drop k ys)) \<le> length (filter P ys)"
    by (metis append_take_drop_id filter_append length_append le_add2)
  ultimately show ?thesis by simp
qed

lemma prefix_count:
  assumes "\<And>j. j \<le> k \<Longrightarrow> P (ys ! j)" and "k < length ys"
  shows "Suc k \<le> length (filter P ys)"
proof -
  have "filter P (take (Suc k) ys) = take (Suc k) ys" using assms by (auto simp: filter_id_conv in_set_conv_nth)
  then have "length (filter P (take (Suc k) ys)) = Suc k" using assms(2) by simp
  moreover have "length (filter P (take (Suc k) ys)) \<le> length (filter P ys)"
    by (metis append_take_drop_id filter_append length_append le_add1)
  ultimately show ?thesis by simp
qed

lemma nat_ceiling_Suc:
  fixes h :: rat
  assumes "0 \<le> h" and "h \<noteq> of_nat (nat \<lfloor>h\<rfloor>)"
  shows "nat \<lceil>h\<rceil> = Suc (nat \<lfloor>h\<rfloor>)"
proof -
  have "h \<notin> \<int>" using assms by (metis Ints_cases floor_of_int nat_0_le of_int_0_le_iff of_int_of_nat_eq)
  then have "\<lceil>h\<rceil> = \<lfloor>h\<rfloor> + 1" by (simp add: ceiling_altdef) (metis Ints_of_int)
  then show ?thesis using assms(1) by (simp add: nat_add_distrib)
qed

text \<open>The percentile lies between its neighbours in the sorted list.\<close>

lemma percentile_bounds:
  fixes xs :: "rat list"
  assumes "xs \<noteq> []" and "0 \<le> q" and "q \<le> 100"
  defines "h \<equiv> of_nat (length xs - 1) * q / 100"
  shows "nat \<lfloor>h\<rfloor> < length xs" and "nat \<lceil>h\<rceil> < length xs" and "sort xs ! nat \<lfloor>h\<rfloor> \<le> percentile_at xs q"
    and "percentile_at xs q \<le> sort xs ! nat \<lceil>h\<rceil>"
proof -
  have h0: "0 \<le> h" using assms(2) by (simp add: h_def)
  have "of_nat (length xs - 1) * q \<le> of_nat (length xs - 1) * 100" using assms(3) by (intro mult_left_mono) auto
  then have h1: "h \<le> of_nat (length xs - 1)" by (simp add: h_def)
  have fl: "nat \<lfloor>h\<rfloor> \<le> length xs - 1" using h1 by (metis floor_mono floor_of_nat nat_int nat_mono)
  have ce: "nat \<lceil>h\<rceil> \<le> length xs - 1" using h1 by (metis ceiling_le_iff nat_le_iff of_int_of_nat_eq)
  show lt: "nat \<lfloor>h\<rfloor> < length xs" and lt2: "nat \<lceil>h\<rceil> < length xs" using fl ce assms(1) by (simp_all add: le_less_trans)
  let ?ys = "sort xs" and ?i = "nat \<lfloor>h\<rfloor>"
  have i: "of_nat ?i \<le> h" "h < of_nat ?i + 1" using h0 floor_less_iff [of h "\<lfloor>h\<rfloor> + 1"] by (auto simp: of_nat_nat)
  have p: "percentile_at xs q = (if Suc ?i < length xs then ?ys ! ?i + (h - of_nat ?i) * (?ys ! Suc ?i - ?ys ! ?i) else ?ys ! ?i)"
    by (simp only: percentile_at_def h_def Let_def)
  have step: "0 \<le> ?ys ! Suc ?i - ?ys ! ?i" if "Suc ?i < length xs"
    using that sorted_nth_mono [of ?ys ?i "Suc ?i"] by simp
  show "?ys ! ?i \<le> percentile_at xs q" using step i(1) by (auto simp: p)
  show "percentile_at xs q \<le> ?ys ! nat \<lceil>h\<rceil>"
  proof (cases "h = of_nat ?i")
    case True
    then have "nat \<lceil>h\<rceil> = ?i" by (metis ceiling_of_nat nat_int)
    then show ?thesis using True by (simp add: p)
  next
    case False
    then have c: "nat \<lceil>h\<rceil> = Suc ?i" using i h0 by (intro nat_ceiling_Suc) auto
    then have "(h - of_nat ?i) * (?ys ! Suc ?i - ?ys ! ?i) \<le> 1 * (?ys ! Suc ?i - ?ys ! ?i)"
      using step lt2 i(2) by (intro mult_right_mono) auto
    then show ?thesis using c lt2 by (simp add: p)
  qed
qed

lemma round_nat_minus:
  fixes x :: rat
  shows "\<lceil>of_nat a - x\<rceil> = int a - \<lfloor>x\<rfloor>" and "\<lfloor>of_nat a - x\<rfloor> = int a - \<lceil>x\<rceil>"
  using floor_diff_of_int [of x "int a"] floor_add_int [of "- x" "int a"] by (simp_all add: ceiling_def)

text \<open>Of \<open>n\<close> rewards, how many are better than one below, or not below, the cutoff.\<close>

lemma below_cutoff:
  assumes p: "percentile_ok p" and rf: "1 < rf" and xs: "xs \<noteq> []"
  defines "better \<equiv> \<lambda>r. length (filter (\<lambda>x. r < x) xs)"
  shows "r < p xs ((1 - 1 / rf) * 100) \<Longrightarrow> 1 + \<lfloor>of_nat (length xs - 1) / rf\<rfloor> \<le> int (better r)"
    and "\<not> r < p xs ((1 - 1 / rf) * 100) \<Longrightarrow> int (better r) \<le> \<lceil>of_nat (length xs - 1) / rf\<rceil>"
proof -
  let ?q = "(1 - 1 / rf) * 100" and ?n = "length xs"
  define h where "h = of_nat (?n - 1) * ?q / 100"
  have q: "0 \<le> ?q" "?q \<le> 100" using rf by (simp_all add: divide_simps)
  have eq: "p xs ?q = percentile_at xs ?q" using p xs q unfolding percentile_ok_def by blast
  note B = percentile_bounds [OF xs q, folded h_def]
  have h0: "0 \<le> h" unfolding h_def using q(1) by (intro divide_nonneg_nonneg mult_nonneg_nonneg) auto
  have h: "h = of_nat (?n - 1) - of_nat (?n - 1) / rf" unfolding h_def using rf by (simp add: field_simps)
  have ceil: "\<lceil>h\<rceil> = int (?n - 1) - \<lfloor>of_nat (?n - 1) / rf\<rfloor>"
    unfolding h by (rule round_nat_minus)
  have floor: "\<lfloor>h\<rfloor> = int (?n - 1) - \<lceil>of_nat (?n - 1) / rf\<rceil>"
    unfolding h by (rule round_nat_minus)
  have n: "int (?n - 1) = int ?n - 1" using xs by (cases xs) auto
  show "1 + \<lfloor>of_nat (length xs - 1) / rf\<rfloor> \<le> int (better r)" if less: "r < p xs ?q"
  proof -
    have "?n - nat \<lceil>h\<rceil> \<le> length (filter (\<lambda>x. r < x) (sort xs))"
    proof (rule suffix_count [of "nat \<lceil>h\<rceil>" "sort xs", simplified length_sort])
      fix j
      assume "nat \<lceil>h\<rceil> \<le> j" "j < ?n"
      then have "sort xs ! nat \<lceil>h\<rceil> \<le> sort xs ! j" by (intro sorted_nth_mono) auto
      then show "r < sort xs ! j" using less B(4) eq by simp
    qed
    moreover have "0 \<le> \<lceil>h\<rceil>" using h0 by linarith
    ultimately have "int ?n - \<lceil>h\<rceil> \<le> int (better r)" using B(2) unfolding better_def filter_sort_length by linarith
    then show ?thesis unfolding ceil n by simp
  qed
  show "int (better r) \<le> \<lceil>of_nat (length xs - 1) / rf\<rceil>" if ge: "\<not> r < p xs ?q"
  proof -
    have "Suc (nat \<lfloor>h\<rfloor>) \<le> length (filter (\<lambda>x. \<not> r < x) (sort xs))"
    proof (rule prefix_count)
      fix j
      assume "j \<le> nat \<lfloor>h\<rfloor>"
      then have "sort xs ! j \<le> sort xs ! nat \<lfloor>h\<rfloor>" using B(1) by (intro sorted_nth_mono) auto
      then show "\<not> r < sort xs ! j" using ge B(3) eq by simp
    qed (use B(1) in simp)
    moreover have "length (filter (\<lambda>x. r < x) xs) + length (filter (\<lambda>x. \<not> r < x) xs) = ?n" by (rule sum_length_filter_compl)
    moreover have "0 \<le> \<lfloor>h\<rfloor>" using h0 by linarith
    ultimately have "\<lfloor>h\<rfloor> + 1 + int (better r) \<le> int ?n" unfolding better_def filter_sort_length by linarith
    then show ?thesis unfolding floor n by simp
  qed
qed

section \<open>Reachable schedulers\<close>

text \<open>Rungs are ordered by falling milestones, and no trial is recorded twice in one.\<close>

definition bracket_ok :: "rat \<Rightarrow> asha_bracket \<Rightarrow> bool" where
  "bracket_ok rf b \<longleftrightarrow> br_rf b = rf \<and> sorted_wrt (>) (map fst (br_rungs b)) \<and> (\<forall>(m, rec) \<in> set (br_rungs b). wf_dict rec)"

definition asha_ok :: "asha \<Rightarrow> bool" where
  "asha_ok s \<longleftrightarrow> 1 < ah_reduction_factor s \<and> (\<forall>b \<in> set (ah_brackets s). bracket_ok (ah_reduction_factor s) b)
     \<and> (\<forall>(t, i) \<in> set (ah_trial_info s). i < length (ah_brackets s))"

inductive asha_step :: "(rat list \<Rightarrow> rat \<Rightarrow> rat) \<Rightarrow> asha \<Rightarrow> asha \<Rightarrow> bool" for p where
  add: "asha_on_trial_add pick trial s = Inr s' \<Longrightarrow> asha_step p s s'"
| result: "asha_on_trial_result p trial r s = Inr (action, s') \<Longrightarrow> asha_step p s s'"
| complete: "asha_on_trial_complete p trial r s = Inr s' \<Longrightarrow> asha_step p s s'"
| remove: "asha_on_trial_remove trial s = Inr s' \<Longrightarrow> asha_step p s s'"
| search: "asha_set_search_properties metric mode s = (b, s') \<Longrightarrow> asha_step p s s'"

lemma rungs_on_result_keeps:
  assumes "rungs_on_result p rf trial t rew rungs = Inr (a, rungs')"
  shows "map fst rungs' = map fst rungs \<and> ((\<forall>(m, rec) \<in> set rungs. wf_dict rec) \<longrightarrow> (\<forall>(m, rec) \<in> set rungs'. wf_dict rec))"
  using assms
proof (induction rungs arbitrary: rungs' a)
  case (Cons x rungs)
  obtain m rec where x: "x = (m, rec)" by fastforce
  show ?case
  proof (cases "t < m \<or> dmem trial rec")
    case True
    then obtain r1 where "rungs_on_result p rf trial t rew rungs = Inr (a, r1)" "rungs' = (m, rec) # r1"
      using Cons.prems by (auto simp: x result_simps)
    then show ?thesis using Cons.IH by (auto simp: x)
  next
    case False
    then have "rungs' = (m, rec) # rungs \<or> (\<exists>r. rungs' = (m, dset rec trial r) # rungs)"
      using Cons.prems by (auto simp: x result_simps split: option.splits)
    then show ?thesis by (auto simp: x)
  qed
qed simp

lemma bracket_on_result_ok:
  "bracket_on_result p trial t rew b = Inr (a, b') \<Longrightarrow> bracket_ok rf b \<Longrightarrow> bracket_ok rf b'"
  using rungs_on_result_keeps by (fastforce simp: bracket_on_result_def bracket_ok_def result_simps)

lemma report_to_bracket_ok:
  assumes "report_to_bracket p trial t r s = Inr (a, s')" and ok: "asha_ok s"
  shows "asha_ok s' \<and> ah_trial_info s' = ah_trial_info s"
proof -
  obtain i rew b where i: "map_of (ah_trial_info s) trial = Some i"
    and b: "bracket_on_result p trial t (Some rew) (ah_brackets s ! i) = Inr (a, b)"
    and s': "s' = s\<lparr>ah_brackets := (ah_brackets s)[i := b]\<rparr>"
    using assms(1) by (auto simp: report_to_bracket_def result_simps)
  have "i < length (ah_brackets s)" using ok map_of_SomeD [OF i] by (auto simp: asha_ok_def)
  then have "ah_brackets s ! i \<in> set (ah_brackets s)" by simp
  then have "bracket_ok (ah_reduction_factor s) b" using ok bracket_on_result_ok [OF b] by (auto simp: asha_ok_def)
  then show ?thesis using ok set_update_subset_insert [of "ah_brackets s" i b] by (auto simp: asha_ok_def s')
qed

lemma asha_step_ok: "asha_step p s s' \<Longrightarrow> asha_ok s \<Longrightarrow> asha_ok s'"
proof (induction rule: asha_step.induct)
  case (add pick trial s s')
  then obtain idx where "idx < length (ah_brackets s)" "s' = s\<lparr>ah_trial_info := dset (ah_trial_info s) trial idx\<rparr>"
    by (auto simp: asha_on_trial_add_def Let_def split: if_splits)
  then show ?case using add.prems by (auto simp: asha_ok_def dest!: subsetD [OF set_dset_subset])
next
  case (result trial r s action s')
  show ?case
  proof (cases "has_attrs s r")
    case True
    then obtain t s1 where s1: "(if t \<ge> ah_max_t s then Inr (STOP, s) else report_to_bracket p trial t r s) = Inr (action, s1)"
      and s': "s' = (if action = STOP then s1\<lparr>ah_num_stopped := ah_num_stopped s1 + 1\<rparr> else s1)"
      using result.hyps by (auto simp: asha_on_trial_result_def result_simps split: option.splits)
    then have "asha_ok s1" using result.prems report_to_bracket_ok [OF _ result.prems] by (auto split: if_splits)
    then show ?thesis by (simp add: s' asha_ok_def)
  qed (use result in \<open>simp add: asha_on_trial_result_def\<close>)
next
  case (complete trial r s s')
  show ?case
  proof (cases "has_attrs s r")
    case True
    then obtain i time a s1 where s1: "(case time of
          None \<Rightarrow> (if br_rungs (ah_brackets s ! i) = [] then Inr (CONTINUE, s) else Inl TypeError)
        | Some t \<Rightarrow> report_to_bracket p trial t r s) = Inr (a, s1)"
      and s': "s' = s1\<lparr>ah_trial_info := ddel (ah_trial_info s1) trial\<rparr>"
      using complete.hyps by (auto simp: asha_on_trial_complete_def bindE_eq_Inr_iff)
    have "asha_ok s1"
    proof (cases time)
      case None
      then show ?thesis using s1 complete.prems by (auto split: if_splits)
    next
      case (Some t)
      then show ?thesis using s1 report_to_bracket_ok [OF _ complete.prems] by simp
    qed
    then show ?thesis by (auto simp: s' asha_ok_def AList.delete_eq)
  qed (use complete in \<open>simp add: asha_on_trial_complete_def\<close>)
next
  case (remove trial s s')
  then show ?case by (auto simp: asha_on_trial_remove_def result_simps asha_ok_def AList.delete_eq)
next
  case (search metric mode s b s')
  then show ?case by (auto simp: asha_set_search_properties_def asha_ok_def Let_def split: if_splits)
qed

lemma init_bracket_ok:
  assumes "1 < rf" and "0 < min_t"
  shows "bracket_ok rf (init_bracket log_ratio min_t max_t rf k)"
proof -
  have "sorted_wrt (>) (map (\<lambda>k'. min_t * rf ^ (k' + k)) (rev [0..<n]))" for n
  proof (induction n)
    case (Suc n)
    have "min_t * rf ^ (j + k) < min_t * rf ^ (n + k)" if "j < n" for j
      using that assms by (simp add: power_strict_increasing)
    then show ?case using Suc by auto
  qed simp
  then show ?thesis by (auto simp: bracket_ok_def init_bracket_def Let_def o_def)
qed

lemma init_asha_ok: "init_asha log_ratio ta me mo max_t g rf n = Inr s \<Longrightarrow> asha_ok s"
  by (auto simp: init_asha_def result_simps asha_ok_def intro: init_bracket_ok)

interpretation asha: invariant_system "\<lambda>s. \<exists>l ta me mo mt g rf n. init_asha l ta me mo mt g rf n = Inr s" "asha_step p" asha_ok for p
  by unfold_locales (auto intro: init_asha_ok asha_step_ok)

section \<open>What a report decides\<close>

abbreviation open_rung :: "string \<Rightarrow> rat \<Rightarrow> rat \<times> (string, rat) dict \<Rightarrow> bool" where
  "open_rung trial t \<equiv> \<lambda>(m, rec). m \<le> t \<and> \<not> dmem trial rec"

abbreviation record_at :: "rat \<Rightarrow> string \<Rightarrow> rat \<Rightarrow> rat \<times> (string, rat) dict \<Rightarrow> rat \<times> (string, rat) dict" where
  "record_at m trial r \<equiv> \<lambda>(m', rec). (m', if m' = m then dset rec trial r else rec)"

lemma record_at_other: "m \<notin> set (map fst rungs) \<Longrightarrow> map (record_at m trial r) rungs = rungs"
  by (induction rungs) auto

lemma find_SomeD: "find P xs = Some x \<Longrightarrow> x \<in> set xs \<and> P x"
  by (induction xs) (auto split: if_splits)

lemma rungs_on_result_eq:
  assumes "sorted_wrt (>) (map fst rungs)"
  shows "rungs_on_result p rf trial t (Some r) rungs =
    (case find (open_rung trial t) rungs of
       None \<Rightarrow> Inr (CONTINUE, rungs)
     | Some (m, rec) \<Rightarrow> Inr (if rec \<noteq> [] \<and> r < p (dvalues rec) ((1 - 1 / rf) * 100) then STOP else CONTINUE,
         map (record_at m trial r) rungs))"
  using assms
proof (induction rungs)
  case (Cons x rungs)
  obtain m rec where x: "x = (m, rec)" by fastforce
  have fresh: "m \<notin> set (map fst rungs)" using Cons.prems by (auto simp: x)
  show ?case
  proof (cases "open_rung trial t x")
    case True
    then show ?thesis using record_at_other [OF fresh] by (auto simp: x cutoff_def not_less)
  next
    case False
    have "m' \<noteq> m" if "find (open_rung trial t) rungs = Some (m', rec')" for m' rec'
      using find_SomeD [OF that] fresh by force
    then show ?thesis using False Cons by (auto simp: x not_less split: option.splits)
  qed
qed simp

lemma asha_result_eq:
  assumes ok: "asha_ok s" and time: "map_of r (ah_time_attr s) = Some (Some t)" "t < ah_max_t s"
    and metric: "ah_metric s = Some me" "map_of r me = Some (Some x)" and op: "ah_metric_op s = Some op"
    and i: "map_of (ah_trial_info s) trial = Some i"
  shows "\<exists>s'. asha_on_trial_result p trial r s =
      Inr (case find (open_rung trial t) (br_rungs (ah_brackets s ! i)) of
             None \<Rightarrow> CONTINUE
           | Some (m, rec) \<Rightarrow> if rec \<noteq> [] \<and> op * x < p (dvalues rec) ((1 - 1 / ah_reduction_factor s) * 100) then STOP else CONTINUE, s')
    \<and> ah_brackets s' = (case find (open_rung trial t) (br_rungs (ah_brackets s ! i)) of
             None \<Rightarrow> ah_brackets s
           | Some (m, rec) \<Rightarrow> (ah_brackets s)[i := (ah_brackets s ! i)\<lparr>br_rungs := map (record_at m trial (op * x)) (br_rungs (ah_brackets s ! i))\<rparr>])"
proof -
  let ?b = "ah_brackets s ! i"
  have "i < length (ah_brackets s)" using ok map_of_SomeD [OF i] by (auto simp: asha_ok_def)
  then have "?b \<in> set (ah_brackets s)" by simp
  then have b: "br_rf ?b = ah_reduction_factor s" "sorted_wrt (>) (map fst (br_rungs ?b))"
    using ok by (auto simp: asha_ok_def bracket_ok_def)
  have attrs: "has_attrs s r" "dindex r (ah_time_attr s) = Inr (Some t)"
    using time(1) metric by (auto simp: has_attrs_def dmem_def)
  have "signed_metric s r = Inr (op * x)" using metric op by (simp add: signed_metric_def)
  then have run: "asha_on_trial_result p trial r s =
      bindE (rungs_on_result p (ah_reduction_factor s) trial t (Some (op * x)) (br_rungs ?b)) (\<lambda>(action, rungs).
        let s1 = s\<lparr>ah_brackets := (ah_brackets s)[i := ?b\<lparr>br_rungs := rungs\<rparr>]\<rparr>
        in Inr (action, if action = STOP then s1\<lparr>ah_num_stopped := ah_num_stopped s1 + 1\<rparr> else s1))"
    using attrs time(2) i
    by (cases "rungs_on_result p (ah_reduction_factor s) trial t (Some (op * x)) (br_rungs ?b)")
       (auto simp: asha_on_trial_result_def report_to_bracket_def bracket_on_result_def b(1) Let_def)
  show ?thesis
  proof (cases "find (open_rung trial t) (br_rungs ?b)")
    case None
    then show ?thesis unfolding run rungs_on_result_eq [OF b(2)] by (simp add: Let_def)
  next
    case (Some y)
    then show ?thesis unfolding run rungs_on_result_eq [OF b(2)] by (cases y) (simp add: Let_def)
  qed
qed

text \<open>C22: What ASHA decides. In every scheduler that can be reached, a result of a known trial before
  \<open>max_t\<close> is answered without an error. If the trial is recorded in all the rungs it has reached, it
  goes on and nothing is recorded. Otherwise the highest such rung that does not know the trial
  records its reward, and the trial is judged against the \<open>n\<close> rewards recorded there before: it is
  stopped only if at least \<open>1 + floor((n - 1) / rf)\<close> of them are better, and it goes on only if at
  most \<open>ceil((n - 1) / rf)\<close> are.\<close>

theorem asha_keeps_top_fraction:
  assumes p: "percentile_ok p" and init: "init_asha l ta m0 mo mt g rf nb = Inr s0" and reach: "reaches (asha_step p) s0 s"
    and time: "map_of r (ah_time_attr s) = Some (Some t)" "t < ah_max_t s"
    and metric: "ah_metric s = Some me" "map_of r me = Some (Some x)" and op: "ah_metric_op s = Some op"
    and i: "map_of (ah_trial_info s) trial = Some i"
  shows "\<exists>action s'. asha_on_trial_result p trial r s = Inr (action, s') \<and>
    (let rungs = br_rungs (ah_brackets s ! i) in
     case find (open_rung trial t) rungs of
       None \<Rightarrow> action = CONTINUE \<and> ah_brackets s' = ah_brackets s
     | Some (m, rec) \<Rightarrow>
         let better = int (length (filter (\<lambda>y. op * x < y) (dvalues rec)));
             share = of_nat (length rec - 1) / ah_reduction_factor s
         in action \<in> {STOP, CONTINUE} \<and> (action = STOP \<longrightarrow> rec \<noteq> [] \<and> 1 + \<lfloor>share\<rfloor> \<le> better)
          \<and> (action = CONTINUE \<longrightarrow> better \<le> \<lceil>share\<rceil>)
          \<and> ah_brackets s' = (ah_brackets s)[i := (ah_brackets s ! i)\<lparr>br_rungs := map (record_at m trial (op * x)) rungs\<rparr>])"
proof -
  have ok: "asha_ok s" using asha.reaches_invar [OF reach] init by blast
  then have rf: "1 < ah_reduction_factor s" by (simp add: asha_ok_def)
  let ?c = "\<lambda>rec. p (dvalues rec) ((1 - 1 / ah_reduction_factor s) * 100)"
  have stop: "1 + \<lfloor>of_nat (length rec - 1) / ah_reduction_factor s\<rfloor> \<le> int (length (filter (\<lambda>y. op * x < y) (dvalues rec)))"
    if "rec \<noteq> []" "op * x < ?c rec" for rec :: "(string, rat) dict"
    using below_cutoff(1) [OF p rf, of "dvalues rec" "op * x"] that by simp
  have go: "int (length (filter (\<lambda>y. op * x < y) (dvalues rec))) \<le> \<lceil>of_nat (length rec - 1) / ah_reduction_factor s\<rceil>"
    if "\<not> (rec \<noteq> [] \<and> op * x < ?c rec)" for rec :: "(string, rat) dict"
    using below_cutoff(2) [OF p rf, of "dvalues rec" "op * x"] that by (cases "rec = []") auto
  obtain s' where s': "asha_on_trial_result p trial r s =
      Inr (case find (open_rung trial t) (br_rungs (ah_brackets s ! i)) of
             None \<Rightarrow> CONTINUE
           | Some (m, rec) \<Rightarrow> if rec \<noteq> [] \<and> op * x < ?c rec then STOP else CONTINUE, s')"
    "ah_brackets s' = (case find (open_rung trial t) (br_rungs (ah_brackets s ! i)) of
             None \<Rightarrow> ah_brackets s
           | Some (m, rec) \<Rightarrow> (ah_brackets s)[i := (ah_brackets s ! i)\<lparr>br_rungs := map (record_at m trial (op * x)) (br_rungs (ah_brackets s ! i))\<rparr>])"
    using asha_result_eq [OF ok time metric op i, of p] by (elim exE conjE)
  show ?thesis
  proof (cases "find (open_rung trial t) (br_rungs (ah_brackets s ! i))")
    case None
    then show ?thesis using s' by simp
  next
    case (Some y)
    obtain m rec where y: "y = (m, rec)" by fastforce
    show ?thesis using s' Some stop [of rec] go [of rec] by (cases "rec \<noteq> [] \<and> op * x < ?c rec") (simp_all add: y Let_def)
  qed
qed

text \<open>C23: The leader is never stopped early: in every scheduler that can be reached, a trial whose
  reward is at least every reward recorded in its bracket goes on, until it reaches \<open>max_t\<close>.\<close>

theorem asha_leader_continues:
  assumes p: "percentile_ok p" and init: "init_asha l ta m0 mo mt g rf nb = Inr s0" and reach: "reaches (asha_step p) s0 s"
    and time: "map_of r (ah_time_attr s) = Some (Some t)"
    and metric: "ah_metric s = Some me" "map_of r me = Some (Some x)" and op: "ah_metric_op s = Some op"
    and i: "map_of (ah_trial_info s) trial = Some i"
    and best: "\<forall>(m, rec) \<in> set (br_rungs (ah_brackets s ! i)). \<forall>y \<in> set (dvalues rec). y \<le> op * x"
  shows "\<exists>s'. asha_on_trial_result p trial r s = Inr (if t < ah_max_t s then CONTINUE else STOP, s')"
proof (cases "t < ah_max_t s")
  case True
  have ok: "asha_ok s" using asha.reaches_invar [OF reach] init by blast
  then have rf: "1 < ah_reduction_factor s" by (simp add: asha_ok_def)
  have "\<not> (rec \<noteq> [] \<and> op * x < p (dvalues rec) ((1 - 1 / ah_reduction_factor s) * 100))"
    if "find (open_rung trial t) (br_rungs (ah_brackets s ! i)) = Some (m, rec)" for m rec
  proof
    assume c: "rec \<noteq> [] \<and> op * x < p (dvalues rec) ((1 - 1 / ah_reduction_factor s) * 100)"
    have "(m, rec) \<in> set (br_rungs (ah_brackets s ! i))" using find_SomeD [OF that] by simp
    then have none: "filter (\<lambda>y. op * x < y) (dvalues rec) = []" using best by (force simp: filter_empty_conv)
    have "0 \<le> \<lfloor>of_nat (length (dvalues rec) - 1) / ah_reduction_factor s\<rfloor>" using rf by simp
    moreover have "1 + \<lfloor>of_nat (length (dvalues rec) - 1) / ah_reduction_factor s\<rfloor>
        \<le> int (length (filter (\<lambda>y. op * x < y) (dvalues rec)))"
      using below_cutoff(1) [OF p rf, of "dvalues rec" "op * x"] c by simp
    ultimately show False unfolding none list.size of_nat_0 by linarith
  qed
  then show ?thesis using asha_result_eq [OF ok time True metric op i, of p] True
    by (cases "find (open_rung trial t) (br_rungs (ah_brackets s ! i))") auto
next
  case False
  then show ?thesis using time metric by (auto simp: asha_on_trial_result_def has_attrs_def dmem_def)
qed

section \<open>A concrete run\<close>

text \<open>\<open>max_t = 10\<close>, grace period 1, reduction factor 2, one bracket with rungs at 8, 4, 2 and 1; two trials
  have reported after one iteration.\<close>

definition ex_report :: "rat \<Rightarrow> rat \<Rightarrow> trial_result" where
  "ex_report t x = [(''training_iteration'', Some t), (''loss'', Some x)]"

definition decided :: "(decision \<times> asha) result \<Rightarrow> decision option" where
  "decided r = (case r of Inl _ \<Rightarrow> None | Inr (a, _) \<Rightarrow> Some a)"

definition ex_asha :: asha where
  "ex_asha = (case init_asha (\<lambda>_ _. 33 / 10) ''training_iteration'' (Some ''loss'') (Some ''min'') 10 1 2 1 of Inr s \<Rightarrow> s)"

definition ex_asha_run :: "asha result" where
  "ex_asha_run =
     bindE (asha_on_trial_add (\<lambda>_. 0) ''a'' ex_asha) (\<lambda>s.
     bindE (asha_on_trial_add (\<lambda>_. 0) ''b'' s) (\<lambda>s.
     bindE (asha_on_trial_add (\<lambda>_. 0) ''c'' s) (\<lambda>s.
     bindE (asha_on_trial_result percentile_at ''a'' (ex_report 1 2) s) (\<lambda>(_, s).
     bindE (asha_on_trial_result percentile_at ''b'' (ex_report 1 4) s) (\<lambda>(_, s). Inr s)))))"

definition ex_reported :: asha where
  "ex_reported = (case ex_asha_run of Inr s \<Rightarrow> s)"

lemma ex_asha_init: "init_asha (\<lambda>_ _. 33 / 10) ''training_iteration'' (Some ''loss'') (Some ''min'') 10 1 2 1 = Inr ex_asha"
  by code_simp

lemma ex_asha_run_eq: "ex_asha_run = Inr ex_reported"
  by code_simp

lemma ex_reported_reached: "reaches (asha_step percentile_at) ex_asha ex_reported"
proof -
  obtain s1 s2 s3 a4 s4 a5 where s: "asha_on_trial_add (\<lambda>_. 0) ''a'' ex_asha = Inr s1"
    "asha_on_trial_add (\<lambda>_. 0) ''b'' s1 = Inr s2" "asha_on_trial_add (\<lambda>_. 0) ''c'' s2 = Inr s3"
    "asha_on_trial_result percentile_at ''a'' (ex_report 1 2) s3 = Inr (a4, s4)"
    "asha_on_trial_result percentile_at ''b'' (ex_report 1 4) s4 = Inr (a5, ex_reported)"
    using ex_asha_run_eq unfolding ex_asha_run_def by (auto simp: bindE_eq_Inr_iff)
  show ?thesis
    using asha_step.add [OF s(1)] asha_step.add [OF s(2)] asha_step.add [OF s(3)] asha_step.result [OF s(4)] asha_step.result [OF s(5)]
    by (metis reaches_refl reaches_step)
qed

lemma percentile_at_ok: "percentile_ok percentile_at"
  by (simp add: percentile_ok_def)

lemma ex_reported_state:
  "ah_time_attr ex_reported = ''training_iteration''" "ah_max_t ex_reported = 10" "ah_metric ex_reported = Some ''loss''"
  "ah_metric_op ex_reported = Some (- 1)" "ah_reduction_factor ex_reported = 2" "map_of (ah_trial_info ex_reported) ''c'' = Some 0"
  "br_rungs (ah_brackets ex_reported ! 0) = [(8, []), (4, []), (2, []), (1, [(''a'', - 2), (''b'', - 4)])]"
  by code_simp+

lemma ex_report_attrs: "map_of (ex_report t x) ''training_iteration'' = Some (Some t)" "map_of (ex_report t x) ''loss'' = Some (Some x)"
  by (simp_all add: ex_report_def)

theorem asha_keeps_top_fraction_witness:
  "decided (asha_on_trial_result percentile_at ''c'' (ex_report 1 5) ex_reported) = Some STOP
    \<and> (1 :: int) \<le> int (length (filter (\<lambda>y. - 5 < y) [- 2, - 4 :: rat]))"
proof -
  have a: "map_of (ex_report 1 5) (ah_time_attr ex_reported) = Some (Some 1)" "(1 :: rat) < ah_max_t ex_reported"
    by (simp_all add: ex_reported_state ex_report_attrs)
  have "decided (asha_on_trial_result percentile_at ''c'' (ex_report 1 5) ex_reported) = Some STOP" by code_simp
  then show ?thesis
    using asha_keeps_top_fraction [OF percentile_at_ok ex_asha_init ex_reported_reached a ex_reported_state(3) ex_report_attrs(2)
        ex_reported_state(4) ex_reported_state(6)]
    by (auto simp: ex_reported_state dmem_def decided_def)
qed

theorem asha_leader_continues_witness:
  "\<exists>s'. asha_on_trial_result percentile_at ''c'' (ex_report 1 1) ex_reported = Inr (CONTINUE, s')"
proof -
  have a: "map_of (ex_report 1 1) (ah_time_attr ex_reported) = Some (Some 1)" by (simp add: ex_reported_state ex_report_attrs)
  have b: "\<forall>(m, rec) \<in> set (br_rungs (ah_brackets ex_reported ! 0)). \<forall>y \<in> set (dvalues rec). y \<le> - 1 * 1"
    by (simp add: ex_reported_state)
  show ?thesis
    using asha_leader_continues [OF percentile_at_ok ex_asha_init ex_reported_reached a ex_reported_state(3) ex_report_attrs(2)
        ex_reported_state(4) ex_reported_state(6) b]
    by (simp add: ex_reported_state)
qed

end
