(* ===== verification/Tune_HyperBand.thy ===== *)
theory Tune_HyperBand
  imports Tune_Schedulers
begin

text \<open>
  \<open>hyperband.py\<close>: the HyperBand scheduler of Tune, with what it uses of the trial runner.

  Brackets are objects that are shared between the list of bands, the trial table and the current
  bracket, so they live in a store (\<open>hb_brackets\<close>) and are referred to by their position. The state of
  a program is the scheduler and the status of every trial. Stopping a paused trial calls back into
  the scheduler, so \<open>process_bracket\<close> is recursive; it takes fuel, and running out of it is
  RuntimeError (Python's RecursionError). The rounded quotient of logarithms in the constructor and the
  resources of the executor are parameters.
\<close>

section \<open>Bracket\<close>

record hb_bracket =
  hbr_live_trials :: "(string, trial_result option) dict"
  hbr_all_trials :: "string list"
  hbr_time_attr :: string
  hbr_n :: int
  hbr_r :: int
  hbr_max_t_attr :: int
  hbr_cumul_r :: int
  hbr_eta :: rat
  hbr_halves :: int
  hbr_total_work :: int
  hbr_completed_progress :: rat
  hbr_stop_last_trials :: bool

text \<open>One round of the halving of the size and of the growth of the milestone.\<close>

definition next_n :: "rat \<Rightarrow> int \<Rightarrow> int result" where
  "next_n eta n = (if eta = 0 then Inl ZeroDivisionError else Inr \<lceil>of_int n / eta\<rceil>)"

definition next_r :: "rat \<Rightarrow> int \<Rightarrow> int \<Rightarrow> int \<Rightarrow> int" where
  "next_r eta max_t cumul r = py_int (min (of_int r * eta) (of_int (max_t - cumul)))"

fun total_work_loop :: "rat \<Rightarrow> int \<Rightarrow> int \<Rightarrow> nat \<Rightarrow> int \<Rightarrow> int \<Rightarrow> int \<Rightarrow> int result" where
  "total_work_loop eta max_t cumulative_r 0 n r work = Inr work"
| "total_work_loop eta max_t cumulative_r (Suc k) n r work =
     bindE (next_n eta n) (\<lambda>n'.
       total_work_loop eta max_t cumulative_r k n' (next_r eta max_t cumulative_r r) (work + n * r))"

definition init_hb_bracket :: "string \<Rightarrow> int \<Rightarrow> int \<Rightarrow> int \<Rightarrow> rat \<Rightarrow> nat \<Rightarrow> bool \<Rightarrow> hb_bracket result" where
  "init_hb_bracket time_attr max_trials init_t_attr max_t_attr eta s stop_last_trials =
     bindE (total_work_loop eta max_t_attr init_t_attr (Suc s) max_trials init_t_attr 0) (\<lambda>work.
       Inr \<lparr>hbr_live_trials = [], hbr_all_trials = [], hbr_time_attr = time_attr, hbr_n = max_trials, hbr_r = init_t_attr,
            hbr_max_t_attr = max_t_attr, hbr_cumul_r = init_t_attr, hbr_eta = eta, hbr_halves = int s,
            hbr_total_work = work, hbr_completed_progress = 0, hbr_stop_last_trials = stop_last_trials\<rparr>)"

text \<open>A time that is None cannot be compared or subtracted, which is all that is done with it.\<close>

definition get_result_time :: "hb_bracket \<Rightarrow> trial_result option \<Rightarrow> rat result" where
  "get_result_time b result =
     (case result of
        None \<Rightarrow> Inr 0
      | Some r \<Rightarrow> bindE (dindex r (hbr_time_attr b)) (\<lambda>v. case v of None \<Rightarrow> Inl TypeError | Some t \<Rightarrow> Inr t))"

definition filled :: "hb_bracket \<Rightarrow> bool" where
  "filled b \<longleftrightarrow> int (length (hbr_live_trials b)) = hbr_n b"

definition add_trial :: "string \<Rightarrow> hb_bracket \<Rightarrow> hb_bracket result" where
  "add_trial trial b =
     bindE (assertE (\<not> filled b)) (\<lambda>_.
       Inr (b\<lparr>hbr_live_trials := dset (hbr_live_trials b) trial None, hbr_all_trials := hbr_all_trials b @ [trial]\<rparr>))"

fun all_reached :: "hb_bracket \<Rightarrow> trial_result option list \<Rightarrow> bool result" where
  "all_reached b [] = Inr True"
| "all_reached b (r # rs) =
     bindE (get_result_time b r) (\<lambda>t. if t \<ge> of_int (hbr_cumul_r b) then all_reached b rs else Inr False)"

definition cur_iter_done :: "hb_bracket \<Rightarrow> bool result" where
  "cur_iter_done b = all_reached b (dvalues (hbr_live_trials b))"

definition finished :: "hb_bracket \<Rightarrow> bool result" where
  "finished b =
     (if \<not> hbr_stop_last_trials b then Inr False
      else if hbr_halves b = 0 then cur_iter_done b else Inr False)"

definition current_trials :: "hb_bracket \<Rightarrow> string list" where
  "current_trials b = dkeys (hbr_live_trials b)"

definition continue_trial :: "string \<Rightarrow> hb_bracket \<Rightarrow> bool result" where
  "continue_trial trial b =
     bindE (dindex (hbr_live_trials b) trial) (\<lambda>result.
       if \<not> hbr_stop_last_trials b \<and> hbr_halves b = 0 then Inr True
       else bindE (get_result_time b result) (\<lambda>t. Inr (t < of_int (hbr_cumul_r b))))"

text \<open>\<open>metric_op * self._live_trials[t][metric]\<close>.\<close>

definition trial_key :: "string option \<Rightarrow> rat option \<Rightarrow> trial_result option \<Rightarrow> rat result" where
  "trial_key metric op result =
     (case result of
        None \<Rightarrow> Inl TypeError
      | Some r \<Rightarrow>
          (case metric of
             None \<Rightarrow> Inl KeyError
           | Some m \<Rightarrow> bindE (dindex r m) (\<lambda>v. case (op, v) of (Some x, Some y) \<Rightarrow> Inr (x * y) | _ \<Rightarrow> Inl TypeError)))"

text \<open>\<open>xs[-n:]\<close> and \<open>xs[:-n]\<close>.\<close>

definition slice_last :: "int \<Rightarrow> 'a list \<Rightarrow> 'a list" where
  "slice_last n xs = (if n > 0 then drop (length xs - nat n) xs else drop (nat (- n)) xs)"

definition slice_but_last :: "int \<Rightarrow> 'a list \<Rightarrow> 'a list" where
  "slice_but_last n xs = (if n > 0 then take (length xs - nat n) xs else take (nat (- n)) xs)"

definition successive_halving ::
  "string option \<Rightarrow> rat option \<Rightarrow> hb_bracket \<Rightarrow> (string list \<times> string list) result \<times> hb_bracket" where
  "successive_halving metric metric_op b =
     (if hbr_halves b = 0 \<and> \<not> hbr_stop_last_trials b then (Inr (dkeys (hbr_live_trials b), []), b)
      else if \<not> hbr_halves b > 0 then (Inl AssertionError, b)
      else
        let b1 = b\<lparr>hbr_halves := hbr_halves b - 1\<rparr> in
        case next_n (hbr_eta b) (hbr_n b) of
          Inl e \<Rightarrow> (Inl e, b1)
        | Inr n \<Rightarrow>
            let r = next_r (hbr_eta b) (hbr_max_t_attr b) (hbr_cumul_r b) (hbr_r b);
                b2 = b1\<lparr>hbr_n := n, hbr_r := r, hbr_cumul_r := r\<rparr> in
            (bindE (mapE (\<lambda>(t, res). bindE (trial_key metric metric_op res) (\<lambda>k. Inr (k, t))) (hbr_live_trials b)) (\<lambda>keyed.
               let sorted_trials = map snd (sort_key fst keyed)
               in Inr (slice_last n sorted_trials, slice_but_last n sorted_trials)), b2))"

definition update_trial_stats :: "string \<Rightarrow> trial_result \<Rightarrow> hb_bracket \<Rightarrow> hb_bracket result" where
  "update_trial_stats trial result b =
     bindE (assertE (dmem trial (hbr_live_trials b))) (\<lambda>_.
     bindE (get_result_time b (Some result)) (\<lambda>observed_time.
     bindE (assertE (observed_time \<ge> 0)) (\<lambda>_.
     bindE (dindex (hbr_live_trials b) trial) (\<lambda>last.
     bindE (get_result_time b last) (\<lambda>last_observed.
       Inr (b\<lparr>hbr_completed_progress := hbr_completed_progress b + (observed_time - last_observed),
              hbr_live_trials := dset (hbr_live_trials b) trial (Some result)\<rparr>))))))"

definition cleanup_trial :: "string \<Rightarrow> hb_bracket \<Rightarrow> hb_bracket result" where
  "cleanup_trial trial b =
     bindE (assertE (dmem trial (hbr_live_trials b))) (\<lambda>_.
       Inr (b\<lparr>hbr_live_trials := ddel (hbr_live_trials b) trial\<rparr>))"

definition completion_percentage :: "hb_bracket \<Rightarrow> rat result" where
  "completion_percentage b =
     bindE (finished b) (\<lambda>fin.
       if fin then Inr 1
       else if hbr_total_work b = 0 then Inl ZeroDivisionError
       else Inr (min (hbr_completed_progress b / of_int (hbr_total_work b)) 1))"

section \<open>HyperBandScheduler\<close>

record hyperband =
  hb_eta :: rat
  hb_s_max_1 :: int
  hb_max_t_attr :: int
  hb_brackets :: "hb_bracket list"
  hb_hyperbands :: "nat option list list"
  hb_trial_info :: "(string, nat \<times> nat) dict"
  hb_state_bracket :: "nat option"
  hb_band_idx :: nat
  hb_num_stopped :: nat
  hb_metric :: "string option"
  hb_mode :: "string option"
  hb_metric_op :: "rat option"
  hb_time_attr :: string
  hb_stop_last_trials :: bool

definition get_n0 :: "hyperband \<Rightarrow> nat \<Rightarrow> int" where
  "get_n0 s k = \<lceil>of_int (hb_s_max_1 s) / of_nat (k + 1) * hb_eta s ^ k\<rceil>"

definition get_r0 :: "hyperband \<Rightarrow> nat \<Rightarrow> int" where
  "get_r0 s k = py_int (of_int (hb_max_t_attr s) / hb_eta s ^ k)"

definition init_hyperband ::
  "(int \<Rightarrow> rat \<Rightarrow> int) \<Rightarrow> string \<Rightarrow> string option \<Rightarrow> string option \<Rightarrow> int \<Rightarrow> rat \<Rightarrow> bool \<Rightarrow> hyperband result" where
  "init_hyperband round_log time_attr metric mode max_t reduction_factor stop_last_trials =
     bindE (assertE (max_t > 0)) (\<lambda>_.
     bindE (assertE (truthy mode \<longrightarrow> mode \<in> {Some ''min'', Some ''max''})) (\<lambda>_.
       Inr \<lparr>hb_eta = reduction_factor, hb_s_max_1 = round_log max_t reduction_factor + 1, hb_max_t_attr = max_t,
            hb_brackets = [], hb_hyperbands = [[]], hb_trial_info = [], hb_state_bracket = None, hb_band_idx = 0,
            hb_num_stopped = 0, hb_metric = metric, hb_mode = mode, hb_metric_op = metric_op_of mode None,
            hb_time_attr = time_attr, hb_stop_last_trials = stop_last_trials\<rparr>))"

definition hb_set_search_properties :: "string option \<Rightarrow> string option \<Rightarrow> hyperband \<Rightarrow> bool \<times> hyperband" where
  "hb_set_search_properties metric mode s =
     (if truthy (hb_metric s) \<and> truthy metric then (False, s)
      else if truthy (hb_mode s) \<and> truthy mode then (False, s)
      else
        let s1 = s\<lparr>hb_metric := (if truthy metric then metric else hb_metric s),
                   hb_mode := (if truthy mode then mode else hb_mode s)\<rparr>;
            s2 = s1\<lparr>hb_metric_op := metric_op_of (hb_mode s1) (hb_metric_op s1)\<rparr>
        in (True, if hb_metric s2 = None \<and> truthy (hb_mode s2)
                  then s2\<lparr>hb_metric := Some DEFAULT_METRIC\<rparr> else s2))"

definition create_bracket :: "nat \<Rightarrow> hyperband \<Rightarrow> hb_bracket result" where
  "create_bracket k s =
     init_hb_bracket (hb_time_attr s) (get_n0 s k) (get_r0 s k) (hb_max_t_attr s) (hb_eta s) k (hb_stop_last_trials s)"

definition cur_band_filled :: "hyperband \<Rightarrow> bool" where
  "cur_band_filled s \<longleftrightarrow> int (length (hb_hyperbands s ! hb_band_idx s)) = hb_s_max_1 s"

definition append_to_band :: "nat option \<Rightarrow> hyperband \<Rightarrow> hyperband" where
  "append_to_band b s =
     s\<lparr>hb_hyperbands := (hb_hyperbands s)[hb_band_idx s := hb_hyperbands s ! hb_band_idx s @ [b]], hb_state_bracket := b\<rparr>"

text \<open>The loop of \<open>on_trial_add\<close> that looks for a bracket that gets a positive number of iterations.\<close>

partial_function (option) new_bracket_loop :: "hyperband \<Rightarrow> (unit result \<times> hyperband) option" where
  "new_bracket_loop s =
     (let s1 = (if cur_band_filled s
                then s\<lparr>hb_hyperbands := hb_hyperbands s @ [[]], hb_band_idx := hb_band_idx s + 1\<rparr> else s);
          k = length (hb_hyperbands s1 ! hb_band_idx s1)
      in if \<not> int k < hb_s_max_1 s1 then Some (Inl AssertionError, s1)
         else if get_r0 s1 k = 0 then new_bracket_loop (append_to_band None s1)
         else
           (case create_bracket k s1 of
              Inl e \<Rightarrow> Some (Inl e, s1)
            | Inr b \<Rightarrow>
                Some (Inr (), append_to_band (Some (length (hb_brackets s1))) (s1\<lparr>hb_brackets := hb_brackets s1 @ [b]\<rparr>))))"

declare new_bracket_loop.simps [code]

type_synonym 'a hb_prog = "(hyperband \<times> (string, trial_status) dict, 'a) prog"

definition get_bracket :: "nat \<Rightarrow> hb_bracket hb_prog" where
  "get_bracket i = bindS getS (\<lambda>(s, _). retS (hb_brackets s ! i))"

definition set_bracket :: "nat \<Rightarrow> hb_bracket \<Rightarrow> unit hb_prog" where
  "set_bracket i b = modifyS (\<lambda>(s, st). (s\<lparr>hb_brackets := (hb_brackets s)[i := b]\<rparr>, st))"

text \<open>A method of a bracket that either raises and changes nothing or returns the changed bracket.\<close>

definition on_bracket :: "nat \<Rightarrow> (hb_bracket \<Rightarrow> hb_bracket result) \<Rightarrow> unit hb_prog" where
  "on_bracket i f = bindS (get_bracket i) (\<lambda>b. bindS (liftS (f b)) (set_bracket i))"

definition status_of :: "string \<Rightarrow> trial_status hb_prog" where
  "status_of trial = bindS getS (\<lambda>(_, st). liftS (dindex st trial))"

definition set_status :: "string \<Rightarrow> trial_status \<Rightarrow> unit hb_prog" where
  "set_status trial x = modifyS (\<lambda>(s, st). (s, dset st trial x))"

definition hb_on_trial_add :: "string \<Rightarrow> hyperband \<Rightarrow> (unit result \<times> hyperband) option" where
  "hb_on_trial_add trial s =
     (if \<not> truthy (hb_metric s) \<or> hb_metric_op s = None then Some (Inl ValueError, s)
      else
        (case (if (case hb_state_bracket s of None \<Rightarrow> True | Some i \<Rightarrow> filled (hb_brackets s ! i))
               then new_bracket_loop s else Some (Inr (), s)) of
           None \<Rightarrow> None
         | Some (Inl e, s1) \<Rightarrow> Some (Inl e, s1)
         | Some (Inr _, s1) \<Rightarrow>
             (case hb_state_bracket s1 of
                None \<Rightarrow> Some (Inl AttributeError, s1)
              | Some i \<Rightarrow>
                  (case add_trial trial (hb_brackets s1 ! i) of
                     Inl e \<Rightarrow> Some (Inl e, s1)
                   | Inr b \<Rightarrow>
                       Some (Inr (), s1\<lparr>hb_brackets := (hb_brackets s1)[i := b],
                                        hb_trial_info := dset (hb_trial_info s1) trial (i, hb_band_idx s1)\<rparr>)))))"

text \<open>
  \<open>TrialRunner.stop_trial\<close> of a trial that is pending or paused, \<open>remove\<close> being the scheduler's
  \<open>on_trial_remove\<close>; the search algorithm and the callbacks are notified without an effect here.
\<close>

definition stop_idle_trial :: "(string \<Rightarrow> unit hb_prog) \<Rightarrow> string \<Rightarrow> unit hb_prog" where
  "stop_idle_trial remove trial = thenS (remove trial) (set_status trial TERMINATED)"

definition unpause_trial :: "string \<Rightarrow> unit hb_prog" where
  "unpause_trial trial =
     bindS (status_of trial) (\<lambda>x. thenS (assertS (x = PAUSED)) (set_status trial PENDING))"

definition cleanup_full :: "(string \<Rightarrow> unit hb_prog) \<Rightarrow> nat \<Rightarrow> unit hb_prog" where
  "cleanup_full remove i =
     bindS (get_bracket i) (\<lambda>b.
       forS (\<lambda>trial. bindS (status_of trial) (\<lambda>x. if x = PAUSED then stop_idle_trial remove trial else retS ()))
         (current_trials b))"

text \<open>\<open>on_trial_remove\<close>, \<open>process\<close> being \<open>_process_bracket\<close>.\<close>

definition remove_from_bracket :: "(nat \<Rightarrow> decision hb_prog) \<Rightarrow> string \<Rightarrow> unit hb_prog" where
  "remove_from_bracket process trial =
     bindS getS (\<lambda>(s, _).
     bindS (liftS (dindex (hb_trial_info s) trial)) (\<lambda>(i, _).
     thenS (on_bracket i (cleanup_trial trial))
       (bindS (get_bracket i) (\<lambda>b.
        bindS (liftS (finished b)) (\<lambda>fin.
          if fin then retS () else bindS (process i) (\<lambda>_. retS ()))))))"

definition kill_bad :: "(string \<Rightarrow> unit hb_prog) \<Rightarrow> nat \<Rightarrow> decision \<Rightarrow> string \<Rightarrow> decision hb_prog" where
  "kill_bad remove i action t =
     bindS (status_of t) (\<lambda>x.
       if x = PAUSED then thenS (stop_idle_trial remove t) (retS action)
       else if x = RUNNING then thenS (on_bracket i (cleanup_trial t)) (retS STOP)
       else raiseS TuneError)"

definition ready_good :: "nat \<Rightarrow> decision \<Rightarrow> string \<Rightarrow> decision hb_prog" where
  "ready_good i action t =
     bindS (status_of t) (\<lambda>x.
       if x \<notin> {PAUSED, RUNNING} then raiseS TuneError
       else
         bindS (get_bracket i) (\<lambda>b.
         bindS (liftS (continue_trial t b)) (\<lambda>go.
           if \<not> go then retS action
           else if x = PAUSED then thenS (unpause_trial t) (retS action)
           else retS CONTINUE)))"

definition halve_bracket :: "nat \<Rightarrow> (string list \<times> string list) hb_prog" where
  "halve_bracket i =
     bindS getS (\<lambda>(s, _).
       let (r, b) = successive_halving (hb_metric s) (hb_metric_op s) (hb_brackets s ! i)
       in thenS (set_bracket i b) (liftS r))"

primrec process_bracket :: "nat \<Rightarrow> nat \<Rightarrow> decision hb_prog" where
  "process_bracket 0 i = raiseS RuntimeError"
| "process_bracket (Suc fuel) i =
     bindS (get_bracket i) (\<lambda>b.
     bindS (liftS (cur_iter_done b)) (\<lambda>iter_done.
       if \<not> iter_done then retS PAUSE
       else
         bindS (liftS (finished b)) (\<lambda>fin.
           if fin then thenS (cleanup_full (remove_from_bracket (process_bracket fuel)) i) (retS STOP)
           else
             bindS (halve_bracket i) (\<lambda>(good, bad).
             thenS (modifyS (\<lambda>(s, st). (s\<lparr>hb_num_stopped := hb_num_stopped s + length bad\<rparr>, st)))
            (bindS (foldS (kill_bad (remove_from_bracket (process_bracket fuel)) i) PAUSE bad) (\<lambda>action.
               foldS (ready_good i) action good))))))"

definition hb_on_trial_remove :: "nat \<Rightarrow> string \<Rightarrow> unit hb_prog" where
  "hb_on_trial_remove fuel = remove_from_bracket (process_bracket fuel)"

definition hb_on_trial_complete :: "nat \<Rightarrow> string \<Rightarrow> trial_result \<Rightarrow> unit hb_prog" where
  "hb_on_trial_complete fuel trial result = hb_on_trial_remove fuel trial"

definition hb_on_trial_error :: "nat \<Rightarrow> string \<Rightarrow> unit hb_prog" where
  "hb_on_trial_error fuel trial = hb_on_trial_remove fuel trial"

definition hb_on_trial_result :: "nat \<Rightarrow> string \<Rightarrow> trial_result \<Rightarrow> decision hb_prog" where
  "hb_on_trial_result fuel trial result =
     bindS getS (\<lambda>(s, _).
     bindS (liftS (dindex (hb_trial_info s) trial)) (\<lambda>(i, _).
     thenS (on_bracket i (update_trial_stats trial result))
       (bindS (get_bracket i) (\<lambda>b.
        bindS (liftS (continue_trial trial b)) (\<lambda>go.
          if go then retS CONTINUE else process_bracket fuel i)))))"

fun choose_in_brackets :: "(string \<Rightarrow> bool) \<Rightarrow> (string, trial_status) dict \<Rightarrow> hb_bracket list \<Rightarrow> string option result" where
  "choose_in_brackets has_resources st [] = Inr None"
| "choose_in_brackets has_resources st (b # bs) =
     (case find (\<lambda>t. map_of st t = Some PENDING \<and> has_resources t) (current_trials b) of
        Some t \<Rightarrow> Inr (Some t)
      | None \<Rightarrow> choose_in_brackets has_resources st bs)"

fun choose_in_bands ::
  "(string \<Rightarrow> bool) \<Rightarrow> (string, trial_status) dict \<Rightarrow> hb_bracket list \<Rightarrow> nat option list list \<Rightarrow> string option result" where
  "choose_in_bands has_resources st store [] = Inr None"
| "choose_in_bands has_resources st store (band # bands) =
     bindE (mapE (\<lambda>i. bindE (completion_percentage (store ! i)) (\<lambda>c. Inr (c, store ! i)))
              (map the (filter (\<lambda>b. b \<noteq> None) band))) (\<lambda>keyed.
     bindE (choose_in_brackets has_resources st (map snd (sort_key fst keyed))) (\<lambda>found.
       case found of Some t \<Rightarrow> Inr (Some t) | None \<Rightarrow> choose_in_bands has_resources st store bands))"

definition hb_choose_trial_to_run :: "(string \<Rightarrow> bool) \<Rightarrow> string option hb_prog" where
  "hb_choose_trial_to_run has_resources =
     bindS getS (\<lambda>(s, st). liftS (choose_in_bands has_resources st (hb_brackets s) (hb_hyperbands s)))"

text \<open>What \<open>TrialRunner\<close> does with the decision on a running trial, the calls to the executor succeeding.\<close>

definition execute_action :: "string \<Rightarrow> decision \<Rightarrow> unit hb_prog" where
  "execute_action trial d =
     (case d of CONTINUE \<Rightarrow> retS () | PAUSE \<Rightarrow> set_status trial PAUSED | STOP \<Rightarrow> set_status trial TERMINATED)"

section \<open>The runner and the scheduler\<close>

text \<open>
  What can happen between the runner and the scheduler: a trial is added, the trial that the scheduler
  chooses is started, a running trial reports and the decision is carried out, a running trial ends by
  itself or fails, an idle trial is stopped. The fuel covers every trial there is.
\<close>

definition enough_fuel :: "hyperband \<times> (string, trial_status) dict \<Rightarrow> nat" where
  "enough_fuel t = Suc (Suc (sum_list (map (\<lambda>b. length (hbr_live_trials b)) (hb_brackets (fst t)))))"

inductive hb_step :: "(string \<Rightarrow> bool) \<Rightarrow> hyperband \<times> (string, trial_status) dict \<Rightarrow> hyperband \<times> (string, trial_status) dict \<Rightarrow> bool"
  for has_resources where
  hb_add: "\<not> dmem trial st \<Longrightarrow> hb_on_trial_add trial s = Some (Inr (), s') \<Longrightarrow>
    hb_step has_resources (s, st) (s', dset st trial PENDING)"
| hb_start: "hb_choose_trial_to_run has_resources t = (Inr (Some trial), t) \<Longrightarrow>
    set_status trial RUNNING t = (Inr (), t') \<Longrightarrow> hb_step has_resources t t'"
| hb_report: "map_of (snd t) trial = Some RUNNING \<Longrightarrow>
    bindS (hb_on_trial_result (enough_fuel t) trial result) (execute_action trial) t = (Inr (), t') \<Longrightarrow> hb_step has_resources t t'"
| hb_end: "map_of (snd t) trial = Some RUNNING \<Longrightarrow>
    thenS (hb_on_trial_complete (enough_fuel t) trial result) (set_status trial TERMINATED) t = (Inr (), t') \<Longrightarrow> hb_step has_resources t t'"
| hb_fail: "map_of (snd t) trial = Some RUNNING \<Longrightarrow>
    thenS (hb_on_trial_error (enough_fuel t) trial) (set_status trial ERROR) t = (Inr (), t') \<Longrightarrow> hb_step has_resources t t'"
| hb_stop: "map_of (snd t) trial \<in> {Some PENDING, Some PAUSED} \<Longrightarrow>
    stop_idle_trial (hb_on_trial_remove (enough_fuel t)) trial t = (Inr (), t') \<Longrightarrow> hb_step has_resources t t'"

text \<open>The same as programs, to run examples.\<close>

definition run_add :: "string \<Rightarrow> unit hb_prog" where
  "run_add trial = (\<lambda>(s, st).
     if dmem trial st then (Inl ValueError, (s, st))
     else (case hb_on_trial_add trial s of
             None \<Rightarrow> (Inl RuntimeError, (s, st))
           | Some (Inl e, s') \<Rightarrow> (Inl e, (s', st))
           | Some (Inr _, s') \<Rightarrow> (Inr (), (s', dset st trial PENDING))))"

definition run_start :: "string \<Rightarrow> unit hb_prog" where
  "run_start trial = bindS (hb_choose_trial_to_run (\<lambda>_. True)) (\<lambda>t.
     if t = Some trial then set_status trial RUNNING else raiseS ValueError)"

definition run_report :: "string \<Rightarrow> rat \<Rightarrow> rat \<Rightarrow> unit hb_prog" where
  "run_report trial t x = bindS (status_of trial) (\<lambda>status.
     if status = RUNNING
     then bindS getS (\<lambda>state. bindS (hb_on_trial_result (enough_fuel state) trial (ex_report t x)) (execute_action trial))
     else raiseS ValueError)"

definition ex_hb :: "rat \<Rightarrow> int \<Rightarrow> hyperband" where
  "ex_hb eta max_t =
     (case init_hyperband (\<lambda>max_t eta. 2) ''training_iteration'' (Some ''loss'') (Some ''max'') max_t eta True of Inr s \<Rightarrow> s)"

definition ex_hb_run :: "rat \<Rightarrow> int \<Rightarrow> rat \<Rightarrow> unit result \<times> hyperband \<times> (string, trial_status) dict" where
  "ex_hb_run eta max_t first =
     thenS (forS run_add [''a'', ''b'', ''c'', ''d'', ''e'', ''f''])
    (thenS (forS run_start [''a'', ''b'', ''c'', ''d'', ''e'', ''f''])
    (thenS (forS (\<lambda>t. run_report t (of_int max_t) 0) [''a'', ''b'', ''c''])
       (forS (\<lambda>(t, x). run_report t first x) [(''d'', 1), (''e'', 2), (''f'', 3)]))) (ex_hb eta max_t, [])"

section \<open>Halving\<close>

text \<open>What a live trial is sorted by.\<close>

definition trial_score :: "string option \<Rightarrow> rat option \<Rightarrow> hb_bracket \<Rightarrow> string \<Rightarrow> rat \<Rightarrow> bool" where
  "trial_score metric op b t x \<longleftrightarrow> (\<exists>r. (t, r) \<in> set (hbr_live_trials b) \<and> trial_key metric op r = Inr x)"

lemma keyed_trials:
  assumes "\<forall>(t, r) \<in> set xs. \<exists>x. trial_key metric op r = Inr x"
  shows "\<exists>ks. mapE (\<lambda>(t, res). bindE (trial_key metric op res) (\<lambda>k. Inr (k, t))) xs = Inr ks
    \<and> map snd ks = map fst xs \<and> (\<forall>(x, t) \<in> set ks. \<exists>r. (t, r) \<in> set xs \<and> trial_key metric op r = Inr x)"
  using assms
proof (induction xs)
  case (Cons p xs)
  obtain t r where p: "p = (t, r)" by fastforce
  obtain x where x: "trial_key metric op r = Inr x" using Cons.prems by (auto simp: p)
  from Cons show ?case by (fastforce simp: p x)
qed simp

lemma slices:
  assumes "0 < n"
  shows "mset (slice_last n xs) + mset (slice_but_last n xs) = mset xs"
    and "length (slice_last n xs) = min (nat n) (length xs)"
    and "sorted (map f xs) \<Longrightarrow> g \<in> set (slice_last n xs) \<Longrightarrow> b \<in> set (slice_but_last n xs) \<Longrightarrow> f b \<le> f g"
proof -
  let ?k = "length xs - nat n"
  have sl: "slice_last n xs = drop ?k xs" "slice_but_last n xs = take ?k xs"
    using assms by (simp_all add: slice_last_def slice_but_last_def)
  show "mset (slice_last n xs) + mset (slice_but_last n xs) = mset xs"
    unfolding sl by (metis append_take_drop_id mset_append add.commute)
  show "length (slice_last n xs) = min (nat n) (length xs)" unfolding sl by simp
  assume s: "sorted (map f xs)" and "g \<in> set (slice_last n xs)" "b \<in> set (slice_but_last n xs)"
  moreover have "sorted (map f (take ?k xs) @ map f (drop ?k xs))" using s by (simp flip: map_append)
  ultimately show "f b \<le> f g" unfolding sl sorted_append by auto
qed

text \<open>C25: A halving of a bracket in which every live trial has reported the metric returns, splits the
  live trials into those that go on and those that are stopped, lets \<open>ceil(n / eta)\<close> go on or all
  if there are fewer, and stops none with a better score than one that goes on.\<close>

theorem halving_keeps_best:
  assumes halves: "hbr_halves b > 0" and eta: "hbr_eta b > 0" and n: "hbr_n b > 0"
    and reported: "\<forall>(t, r) \<in> set (hbr_live_trials b). \<exists>x. trial_key metric op r = Inr x"
  shows "\<exists>good bad b'. successive_halving metric op b = (Inr (good, bad), b')
    \<and> mset good + mset bad = mset (current_trials b)
    \<and> length good = min (nat \<lceil>of_int (hbr_n b) / hbr_eta b\<rceil>) (length (current_trials b))
    \<and> (wf_dict (hbr_live_trials b) \<longrightarrow> (\<forall>g \<in> set good. \<forall>t \<in> set bad. \<forall>x y. trial_score metric op b t x \<and> trial_score metric op b g y \<longrightarrow> x \<le> y))
    \<and> hbr_live_trials b' = hbr_live_trials b \<and> hbr_halves b' = hbr_halves b - 1 \<and> hbr_n b' = \<lceil>of_int (hbr_n b) / hbr_eta b\<rceil>"
proof -
  let ?n = "\<lceil>of_int (hbr_n b) / hbr_eta b\<rceil>"
  have pos: "0 < ?n" using eta n by simp
  obtain ks where ks: "mapE (\<lambda>(t, res). bindE (trial_key metric op res) (\<lambda>k. Inr (k, t))) (hbr_live_trials b) = Inr ks"
    "map snd ks = map fst (hbr_live_trials b)"
    "\<forall>(x, t) \<in> set ks. \<exists>r. (t, r) \<in> set (hbr_live_trials b) \<and> trial_key metric op r = Inr x"
    using keyed_trials [OF reported] by (elim exE conjE)
  define sorted_ks where "sorted_ks = sort_key fst ks"
  let ?good = "slice_last ?n (map snd sorted_ks)" and ?bad = "slice_but_last ?n (map snd sorted_ks)"
  obtain b' where run: "successive_halving metric op b = (Inr (?good, ?bad), b')"
    and b': "hbr_live_trials b' = hbr_live_trials b" "hbr_halves b' = hbr_halves b - 1" "hbr_n b' = ?n"
    using halves eta ks(1) by (simp add: successive_halving_def next_n_def Let_def sorted_ks_def)
  have ms: "mset (map snd sorted_ks) = mset (current_trials b)"
    using ks(2) by (simp add: sorted_ks_def current_trials_def) (metis mset_map)
  have best: "x \<le> y" if wf: "wf_dict (hbr_live_trials b)" and g: "g \<in> set ?good" and t: "t \<in> set ?bad"
    and sc: "trial_score metric op b t x" "trial_score metric op b g y" for g t x y
  proof -
    have lookup: "k = z" if "(k, u) \<in> set ks" "trial_score metric op b u z" for k u z
      using that ks(3) wf by (fastforce simp: trial_score_def wf_dict_def dest: eq_key_imp_eq_value)
    have sl: "slice_last ?n (map snd sorted_ks) = map snd (slice_last ?n sorted_ks)"
      "slice_but_last ?n (map snd sorted_ks) = map snd (slice_but_last ?n sorted_ks)"
      by (simp_all add: slice_last_def slice_but_last_def drop_map take_map)
    obtain kg kt where kg: "(kg, g) \<in> set (slice_last ?n sorted_ks)" and kt: "(kt, t) \<in> set (slice_but_last ?n sorted_ks)"
      using g t unfolding sl by auto
    have "kt \<le> kg" using slices(3) [OF pos, of fst sorted_ks, OF _ kg kt] by (simp add: sorted_ks_def)
    moreover have "(kg, g) \<in> set ks" "(kt, t) \<in> set ks"
      using kg kt pos by (auto simp: slice_last_def slice_but_last_def sorted_ks_def dest: in_set_dropD in_set_takeD)
    ultimately show ?thesis using lookup sc by blast
  qed
  have "mset ?good + mset ?bad = mset (current_trials b)" using slices(1) [OF pos, of "map snd sorted_ks"] ms by simp
  moreover have "length ?good = min (nat ?n) (length (current_trials b))"
    using slices(2) [OF pos, of "map snd sorted_ks"] arg_cong [OF ms, of size] by simp
  ultimately show ?thesis using run b' best by blast
qed

theorem halving_keeps_best_witness:
  "\<exists>good bad b'. successive_halving (Some ''loss'') (Some 1) (hb_brackets (fst (snd (ex_hb_run 3 9 2))) ! 1) = (Inr (good, bad), b')
    \<and> length good = 2 \<and> length bad = 1"
proof -
  define b where "b = hb_brackets (fst (snd (ex_hb_run 3 9 2))) ! 1"
  have s: "hbr_halves b > 0" "hbr_eta b > 0" "hbr_n b > 0" "\<lceil>of_int (hbr_n b) / hbr_eta b\<rceil> = 2" "length (current_trials b) = 3"
    unfolding b_def by code_simp+
  have live: "hbr_live_trials b = [(''d'', Some (ex_report 2 1)), (''e'', Some (ex_report 2 2)), (''f'', Some (ex_report 2 3))]"
    unfolding b_def by code_simp
  have r: "\<forall>(t, r) \<in> set (hbr_live_trials b). \<exists>x. trial_key (Some ''loss'') (Some 1) r = Inr x"
    by (simp add: live trial_key_def ex_report_def)
  obtain good bad b' where g: "successive_halving (Some ''loss'') (Some 1) b = (Inr (good, bad), b')"
    "mset good + mset bad = mset (current_trials b)" "length good = min (nat 2) (length (current_trials b))"
    using halving_keeps_best [OF s(1-3) r] unfolding s(4) by blast
  from arg_cong [OF g(2), of size] g(3) s(5) have "length good = 2" "length bad = 1" by simp_all
  then show ?thesis using g(1) unfolding b_def by blast
qed

section \<open>Runs\<close>

definition steps :: "('a hb_prog) \<Rightarrow> bool" where
  "steps m \<longleftrightarrow> (\<forall>t x t'. m t = (Inr x, t') \<longrightarrow> reaches (hb_step (\<lambda>_. True)) t t')"

lemma steps_thenS: "steps m \<Longrightarrow> steps n \<Longrightarrow> steps (thenS m n)"
  unfolding steps_def by (meson reaches_trans thenS_returns)

lemma steps_forS:
  assumes "\<And>x. steps (f x)"
  shows "steps (forS f xs)"
proof (induction xs)
  case Nil
  show ?case by (simp add: steps_def retS_def reaches_refl)
next
  case (Cons x xs)
  then show ?case using steps_thenS [OF assms] by simp
qed

lemma steps_add: "steps (run_add trial)"
  by (auto simp: steps_def run_add_def split: if_splits option.splits sum.splits intro!: reaches_one hb_add)

lemma choose_keeps: "hb_choose_trial_to_run f t = (Inr x, t') \<Longrightarrow> t' = t"
  by (cases t) (auto simp: hb_choose_trial_to_run_def bindS_def liftS_def)

lemma steps_start: "steps (run_start trial)"
  unfolding steps_def
proof (intro allI impI)
  fix t x t'
  assume run: "run_start trial t = (Inr x, t')"
  obtain r t1 where c: "hb_choose_trial_to_run (\<lambda>_. True) t = (r, t1)" by (metis surj_pair)
  then have "r = Inr (Some trial)" using run by (cases r) (auto simp: run_start_def bindS_def raiseS_def split: if_splits)
  moreover from this c have "t1 = t" using choose_keeps by blast
  ultimately show "reaches (hb_step (\<lambda>_. True)) t t'"
    using run c by (auto simp: run_start_def bindS_def intro!: reaches_one hb_start)
qed

lemma status_of_returns: "status_of trial t = (r, t') \<Longrightarrow> t' = t \<and> (r = Inr x \<longrightarrow> map_of (snd t) trial = Some x)"
  by (cases t) (auto simp: status_of_def bindS_def liftS_def dindex_def split: option.splits)

lemma steps_report: "steps (run_report trial a x)"
  unfolding steps_def
proof (intro allI impI)
  fix t u t'
  assume run: "run_report trial a x t = (Inr u, t')"
  obtain r t1 where c: "status_of trial t = (r, t1)" by (metis surj_pair)
  then have r: "r = Inr RUNNING" using run by (cases r) (auto simp: run_report_def bindS_def raiseS_def split: if_splits)
  with status_of_returns [OF c, of RUNNING] have t: "t1 = t" "map_of (snd t) trial = Some RUNNING" by auto
  have "bindS (hb_on_trial_result (enough_fuel t) trial (ex_report a x)) (execute_action trial) t = (Inr (), t')"
    using run c r t(1) by (simp add: run_report_def bindS_def)
  then show "reaches (hb_step (\<lambda>_. True)) t t'" by (intro reaches_one hb_report [OF t(2)])
qed

lemma ex_hb_run_reaches: "ex_hb_run eta max_t a = (Inr (), t) \<Longrightarrow> reaches (hb_step (\<lambda>_. True)) (ex_hb eta max_t, []) t"
proof -
  have "steps (thenS (forS run_add [''a'', ''b'', ''c'', ''d'', ''e'', ''f''])
    (thenS (forS run_start [''a'', ''b'', ''c'', ''d'', ''e'', ''f''])
    (thenS (forS (\<lambda>t. run_report t (of_int max_t) 0) [''a'', ''b'', ''c''])
       (forS (\<lambda>(t, x). run_report t a x) [(''d'', 1), (''e'', 2), (''f'', 3)]))))"
    by (intro steps_thenS steps_forS steps_add steps_start steps_report) (auto simp: case_prod_unfold intro: steps_report)
  then show "ex_hb_run eta max_t a = (Inr (), t) \<Longrightarrow> ?thesis" unfolding steps_def ex_hb_run_def by blast
qed

text \<open>C33: With \<open>reduction_factor = 2\<close> HyperBand comes to a standstill. The next milestone is
  \<open>min(2 * r, max_t - r)\<close>, which for \<open>max_t = 4\<close> and \<open>r = 2\<close> is again 2: the trials
  that survive the halving have already reached it, so none is continued. The state is reachable, no
  trial is running or pending, the scheduler chooses none, and the two survivors are paused after 2 of 4
  iterations.\<close>

theorem hyperband_stalls:
  "init_hyperband (\<lambda>max_t eta. 2) ''training_iteration'' (Some ''loss'') (Some ''max'') 4 2 True = Inr (ex_hb 2 4)
   \<and> (\<exists>s st. reaches (hb_step (\<lambda>_. True)) (ex_hb 2 4, []) (s, st)
      \<and> (\<forall>t. map_of st t \<notin> {Some RUNNING, Some PENDING}) \<and> hb_choose_trial_to_run (\<lambda>_. True) (s, st) = (Inr None, (s, st))
      \<and> map_of st ''e'' = Some PAUSED \<and> map_of st ''f'' = Some PAUSED
      \<and> (\<exists>b \<in> set (hb_brackets s). map_of (hbr_live_trials b) ''f'' = Some (Some (ex_report 2 3))))"
proof -
  obtain s st where run: "ex_hb_run 2 4 2 = (Inr (), (s, st))"
  proof -
    have "fst (ex_hb_run 2 4 2) = Inr ()" by code_simp
    then show ?thesis using that by (metis prod.collapse)
  qed
  have st: "st = [(''a'', TERMINATED), (''b'', TERMINATED), (''c'', TERMINATED), (''d'', TERMINATED), (''e'', PAUSED), (''f'', PAUSED)]"
  proof -
    have "snd (snd (ex_hb_run 2 4 2)) = [(''a'', TERMINATED), (''b'', TERMINATED), (''c'', TERMINATED), (''d'', TERMINATED), (''e'', PAUSED), (''f'', PAUSED)]"
      by code_simp
    then show ?thesis using run by simp
  qed
  have "fst (hb_choose_trial_to_run (\<lambda>_. True) (snd (ex_hb_run 2 4 2))) = Inr None" by code_simp
  then have ch: "hb_choose_trial_to_run (\<lambda>_. True) (s, st) = (Inr None, (s, st))"
    unfolding run snd_conv using choose_keeps by (metis prod.collapse)
  have "list_ex (\<lambda>b. map_of (hbr_live_trials b) ''f'' = Some (Some (ex_report 2 3))) (hb_brackets (fst (snd (ex_hb_run 2 4 2))))" by code_simp
  then have b: "\<exists>b \<in> set (hb_brackets s). map_of (hbr_live_trials b) ''f'' = Some (Some (ex_report 2 3))"
    unfolding run by (simp add: list_ex_iff)
  have none: "\<forall>t. map_of st t \<notin> {Some RUNNING, Some PENDING}" "\<forall>t \<in> {''e'', ''f''}. map_of st t = Some PAUSED" by (simp_all add: st)
  have "init_hyperband (\<lambda>max_t eta. 2) ''training_iteration'' (Some ''loss'') (Some ''max'') 4 2 True = Inr (ex_hb 2 4)" by code_simp
  then show ?thesis using ex_hb_run_reaches [OF run] none ch b by blast
qed

section \<open>The callbacks return\<close>

definition total_live :: "hyperband \<times> (string, trial_status) dict \<Rightarrow> nat" where
  "total_live t = sum_list (map (\<lambda>b. length (hbr_live_trials b)) (hb_brackets (fst t)))"

definition indexed :: "nat \<Rightarrow> hyperband \<times> (string, trial_status) dict \<Rightarrow> bool" where
  "indexed L = (\<lambda>(s, st). length (hb_brackets s) = L \<and> (\<forall>(_, i, _) \<in> set (hb_trial_info s). i < L)
     \<and> Suc (hb_band_idx s) = length (hb_hyperbands s) \<and> (\<forall>i. hb_state_bracket s = Some i \<longrightarrow> i < L) \<and> hb_max_t_attr s > 0
     \<and> (\<forall>band \<in> set (hb_hyperbands s). \<forall>i. Some i \<in> set band \<longrightarrow> i < L))"

text \<open>Started with at most \<open>n\<close> live trials, \<open>m\<close> does not run out of fuel, and adds none.\<close>

definition bounded :: "nat \<Rightarrow> nat \<Rightarrow> 'a hb_prog \<Rightarrow> bool" where
  "bounded L n m \<longleftrightarrow> (\<forall>t. indexed L t \<and> total_live t \<le> n \<longrightarrow>
     wp m (\<lambda>_ t'. indexed L t' \<and> total_live t' \<le> total_live t) (\<lambda>e _. e \<noteq> RuntimeError) t)"

named_theorems bounded_intros \<open>programs that do not run out of fuel\<close>
named_theorems mild_intros \<open>results that are no RuntimeError\<close>

lemma bounded_retS [bounded_intros]: "bounded L n (retS x)"
  by (simp add: bounded_def wp_simps)

lemma bounded_raiseS [bounded_intros]: "e \<noteq> RuntimeError \<Longrightarrow> bounded L n (raiseS e)"
  by (simp add: bounded_def wp_def raiseS_def)

lemma bounded_liftS [bounded_intros]: "r \<noteq> Inl RuntimeError \<Longrightarrow> bounded L n (liftS r)"
  by (auto simp: bounded_def wp_simps split: sum.splits)

lemma bounded_getS [bounded_intros]: "bounded L n getS"
  by (simp add: bounded_def wp_simps)

lemma bounded_bindS [bounded_intros]:
  assumes "bounded L n m" and "\<And>x. bounded L n (f x)"
  shows "bounded L n (bindS m f)"
  unfolding bounded_def wp_bindS
proof (intro allI impI)
  fix t
  assume t: "indexed L t \<and> total_live t \<le> n"
  show "wp m (\<lambda>x. wp (f x) (\<lambda>_ t'. indexed L t' \<and> total_live t' \<le> total_live t) (\<lambda>e _. e \<noteq> RuntimeError)) (\<lambda>e _. e \<noteq> RuntimeError) t"
  proof (rule wp_mono)
    show "wp m (\<lambda>_ t'. indexed L t' \<and> total_live t' \<le> total_live t) (\<lambda>e _. e \<noteq> RuntimeError) t"
      using assms(1) t unfolding bounded_def by blast
    fix x t1
    assume t1: "indexed L t1 \<and> total_live t1 \<le> total_live t"
    then have "wp (f x) (\<lambda>_ t'. indexed L t' \<and> total_live t' \<le> total_live t1) (\<lambda>e _. e \<noteq> RuntimeError) t1"
      using assms(2) [of x] t unfolding bounded_def by (meson order_trans)
    then show "wp (f x) (\<lambda>_ t'. indexed L t' \<and> total_live t' \<le> total_live t) (\<lambda>e _. e \<noteq> RuntimeError) t1"
      by (rule wp_mono) (use t1 in auto)
  qed
qed

lemma bounded_thenS [bounded_intros]: "bounded L n m \<Longrightarrow> bounded L n k \<Longrightarrow> bounded L n (thenS m k)"
  unfolding thenS_def by (rule bounded_bindS)

lemma bounded_if [bounded_intros]: "(b \<Longrightarrow> bounded L n m) \<Longrightarrow> (\<not> b \<Longrightarrow> bounded L n k) \<Longrightarrow> bounded L n (if b then m else k)"
  by simp

lemma bounded_case_prod [bounded_intros]: "(\<And>a b. bounded L n (f a b)) \<Longrightarrow> bounded L n (case p of (a, b) \<Rightarrow> f a b)"
  by (cases p) simp

lemma bounded_forS [bounded_intros]: "(\<And>x. bounded L n (f x)) \<Longrightarrow> bounded L n (forS f xs)"
  by (induction xs) (auto intro: bounded_intros)

lemma bounded_foldS [bounded_intros]: "(\<And>a x. bounded L n (f a x)) \<Longrightarrow> bounded L n (foldS f a xs)"
  by (induction xs arbitrary: a) (auto intro: bounded_intros)

lemma bounded_set_status [bounded_intros]: "bounded L n (set_status trial x)"
  by (auto simp: bounded_def set_status_def wp_simps indexed_def total_live_def case_prod_unfold)

lemma bounded_assertS [bounded_intros]: "bounded L n (assertS b)"
  by (simp add: assertS_def bounded_intros)

lemma mild_dindex [mild_intros]: "dindex d k \<noteq> Inl RuntimeError"
  by (simp add: dindex_def split: option.splits)

lemma mild_assertE [mild_intros]: "assertE b \<noteq> Inl RuntimeError"
  by (simp add: assertE_def)

lemma mild_bindE: "m \<noteq> Inl RuntimeError \<Longrightarrow> (\<And>x. f x \<noteq> Inl RuntimeError) \<Longrightarrow> bindE m f \<noteq> Inl RuntimeError"
  by (cases m) auto

lemma bounded_status_of [bounded_intros]: "bounded L n (status_of trial)"
  unfolding status_of_def by (intro bounded_intros mild_intros)

lemma mild_get_result_time [mild_intros]: "get_result_time b r \<noteq> Inl RuntimeError"
  by (cases r) (auto simp: get_result_time_def result_simps mild_intros split: option.splits)

lemma mild_all_reached: "all_reached b rs \<noteq> Inl RuntimeError"
  by (induction rs) (auto simp: result_simps mild_intros)

lemma mild_cur_iter_done [mild_intros]: "cur_iter_done b \<noteq> Inl RuntimeError"
  by (simp add: cur_iter_done_def mild_all_reached)

lemma mild_finished [mild_intros]: "finished b \<noteq> Inl RuntimeError"
  by (simp add: finished_def mild_intros)

lemma mild_continue_trial [mild_intros]: "continue_trial trial b \<noteq> Inl RuntimeError"
  unfolding continue_trial_def by (intro mild_bindE mild_intros) (auto simp: result_simps mild_intros)

lemma mild_mapE: "(\<And>x. f x \<noteq> Inl RuntimeError) \<Longrightarrow> mapE f xs \<noteq> Inl RuntimeError"
  by (induction xs) (auto simp: result_simps)

lemma mild_trial_key [mild_intros]: "trial_key m op r \<noteq> Inl RuntimeError"
  by (auto simp: trial_key_def result_simps mild_intros split: option.splits)

lemma mild_successive_halving: "fst (successive_halving m op b) \<noteq> Inl RuntimeError"
  and successive_halving_live: "hbr_live_trials (snd (successive_halving m op b)) = hbr_live_trials b"
proof -
  have "mapE (\<lambda>(t, res). bindE (trial_key m op res) (\<lambda>k. Inr (k, t))) xs \<noteq> Inl RuntimeError" for xs
    by (rule mild_mapE) (auto simp: result_simps mild_intros)
  then show "fst (successive_halving m op b) \<noteq> Inl RuntimeError"
    by (auto simp: successive_halving_def Let_def next_n_def result_simps split: sum.splits if_splits)
  show "hbr_live_trials (snd (successive_halving m op b)) = hbr_live_trials b"
    by (auto simp: successive_halving_def Let_def split: sum.splits)
qed

lemma sum_list_update_nat:
  fixes f :: "'a \<Rightarrow> nat"
  shows "i < length xs \<Longrightarrow> sum_list (map f (xs[i := b])) + f (xs ! i) = sum_list (map f xs) + f b"
proof (induction xs arbitrary: i)
  case (Cons x xs)
  then show ?case by (cases i) (auto simp: algebra_simps)
qed simp

lemma wp_get_bracket: "wp (get_bracket i) Q E t \<longleftrightarrow> Q (hb_brackets (fst t) ! i) t"
  by (cases t) (simp add: get_bracket_def wp_simps)

lemma wp_set_bracket: "wp (set_bracket i b) Q E t \<longleftrightarrow> Q () ((fst t)\<lparr>hb_brackets := (hb_brackets (fst t))[i := b]\<rparr>, snd t)"
  by (cases t) (simp add: set_bracket_def wp_simps)

lemma wp_on_bracket:
  "wp (on_bracket i f) Q E t \<longleftrightarrow>
     (case f (hb_brackets (fst t) ! i) of Inl e \<Rightarrow> E e t
      | Inr b \<Rightarrow> Q () ((fst t)\<lparr>hb_brackets := (hb_brackets (fst t))[i := b]\<rparr>, snd t))"
  by (auto simp: on_bracket_def wp_bindS wp_get_bracket wp_liftS wp_set_bracket split: sum.splits)

lemma store_live:
  assumes "indexed L (s, st)" and "i < L"
  shows "indexed L (s\<lparr>hb_brackets := (hb_brackets s)[i := b]\<rparr>, st)"
    and "total_live (s\<lparr>hb_brackets := (hb_brackets s)[i := b]\<rparr>, st) + length (hbr_live_trials (hb_brackets s ! i))
      = total_live (s, st) + length (hbr_live_trials b)"
  using assms sum_list_update_nat [of i "hb_brackets s" "\<lambda>b. length (hbr_live_trials b)" b]
  by (simp_all add: indexed_def total_live_def)

lemma bounded_get_bracket [bounded_intros]: "bounded L n (get_bracket i)"
  unfolding get_bracket_def by (intro bounded_intros)

lemma bounded_on_bracket:
  assumes "i < L" and "\<And>b. f b \<noteq> Inl RuntimeError"
    and "\<And>b b'. f b = Inr b' \<Longrightarrow> length (hbr_live_trials b') \<le> length (hbr_live_trials b)"
  shows "bounded L n (on_bracket i f)"
  unfolding bounded_def
proof (intro allI impI)
  fix t
  assume t: "indexed L t \<and> total_live t \<le> n"
  obtain s st where st: "t = (s, st)" by fastforce
  show "wp (on_bracket i f) (\<lambda>_ t'. indexed L t' \<and> total_live t' \<le> total_live t) (\<lambda>e _. e \<noteq> RuntimeError) t"
  proof (cases "f (hb_brackets s ! i)")
    case (Inl e)
    then show ?thesis using assms(2) [of "hb_brackets s ! i"] by (auto simp: wp_on_bracket st)
  next
    case (Inr b)
    then show ?thesis using store_live [of L s st i b] assms(1) assms(3) [of "hb_brackets s ! i" b] t by (auto simp: wp_on_bracket st)
  qed
qed

lemma length_ddel_less:
  assumes "dmem k d"
  shows "length (ddel d k) < length d"
proof -
  obtain v where "(k, v) \<in> set d" using assms by (auto simp: dmem_iff)
  then show ?thesis unfolding AList.delete_eq by (rule length_filter_less) simp
qed

lemma cleanup_trial_live: "cleanup_trial trial b = Inr b' \<Longrightarrow> length (hbr_live_trials b') < length (hbr_live_trials b)"
  by (auto simp: cleanup_trial_def result_simps length_ddel_less)

lemma mild_cleanup_trial [mild_intros]: "cleanup_trial trial b \<noteq> Inl RuntimeError"
  by (simp add: cleanup_trial_def assertE_def)

lemma bounded_cleanup [bounded_intros]: "i < L \<Longrightarrow> bounded L n (on_bracket i (cleanup_trial trial))"
  by (rule bounded_on_bracket) (auto simp: mild_intros dest: cleanup_trial_live)

lemma bounded_halve [bounded_intros]: "i < L \<Longrightarrow> bounded L n (halve_bracket i)"
  unfolding bounded_def
proof (intro allI impI)
  fix t
  assume i: "i < L" and t: "indexed L t \<and> total_live t \<le> n"
  obtain s st where st: "t = (s, st)" by fastforce
  obtain r b where h: "successive_halving (hb_metric s) (hb_metric_op s) (hb_brackets s ! i) = (r, b)" by fastforce
  have "r \<noteq> Inl RuntimeError" "hbr_live_trials b = hbr_live_trials (hb_brackets s ! i)"
    using mild_successive_halving successive_halving_live h by (metis fst_conv, metis snd_conv)
  then show "wp (halve_bracket i) (\<lambda>_ t'. indexed L t' \<and> total_live t' \<le> total_live t) (\<lambda>e _. e \<noteq> RuntimeError) t"
    using store_live [of L s st i b] i t by (auto simp: halve_bracket_def st wp_simps wp_set_bracket h split: sum.splits)
qed

lemma bounded_ready_good [bounded_intros]: "bounded L n (ready_good i action t)"
  unfolding ready_good_def unpause_trial_def by (intro bounded_intros mild_intros) auto

text \<open>After a trial was removed, one less is live for the recursive call.\<close>

lemma bounded_remove:
  assumes "\<And>m i. n = Suc m \<Longrightarrow> i < L \<Longrightarrow> bounded L m (process i)"
  shows "bounded L n (remove_from_bracket process trial)"
  unfolding bounded_def
proof (intro allI impI)
  fix t
  assume t: "indexed L t \<and> total_live t \<le> n"
  let ?E = "\<lambda>e _. e \<noteq> RuntimeError" and ?Q = "\<lambda>_ t'. indexed L t' \<and> total_live t' \<le> total_live t"
  obtain s st where st: "t = (s, st)" by fastforce
  show "wp (remove_from_bracket process trial) ?Q ?E t"
  proof (cases "map_of (hb_trial_info s) trial")
    case None
    then show ?thesis by (simp add: remove_from_bracket_def st wp_simps dindex_def)
  next
    case (Some p)
    obtain i j where p: "p = (i, j)" by fastforce
    have i: "i < L" using t map_of_SomeD [OF Some] by (auto simp: indexed_def st p)
    let ?rest = "bindS (get_bracket i) (\<lambda>b. bindS (liftS (finished b)) (\<lambda>fin.
        if fin then retS () else bindS (process i) (\<lambda>_. retS ())))"
    have rest: "bounded L m ?rest" if "n = Suc m" for m by (intro bounded_intros mild_intros assms [OF that] i)
    have "wp (on_bracket i (cleanup_trial trial)) (\<lambda>_. wp ?rest ?Q ?E) ?E t"
    proof (cases "cleanup_trial trial (hb_brackets s ! i)")
      case (Inl e)
      then show ?thesis using mild_cleanup_trial [of trial "hb_brackets s ! i"] by (auto simp: wp_on_bracket st)
    next
      case (Inr b)
      let ?t = "(s\<lparr>hb_brackets := (hb_brackets s)[i := b]\<rparr>, st)"
      have t': "indexed L ?t" "total_live ?t < total_live t"
        using store_live [of L s st i b] i t cleanup_trial_live [OF Inr] by (auto simp: st)
      obtain m where m: "n = Suc m" using t t'(2) by (cases n) auto
      have "total_live ?t \<le> m" using t t'(2) m by simp
      then have "wp ?rest (\<lambda>_ t'. indexed L t' \<and> total_live t' \<le> total_live ?t) ?E ?t"
        using rest [OF m] t'(1) unfolding bounded_def by blast
      then have "wp ?rest ?Q ?E ?t" by (rule wp_mono) (use t'(2) in auto)
      then show ?thesis using Inr by (simp add: wp_on_bracket st)
    qed
    then show ?thesis using Some by (simp add: remove_from_bracket_def st p wp_simps)
  qed
qed

lemma bounded_process: "i < L \<Longrightarrow> bounded L n (process_bracket (Suc n) i)"
proof (induction n arbitrary: i rule: less_induct)
  case (less n)
  have rem: "bounded L n (remove_from_bracket (process_bracket n) trial)" for trial
    by (rule bounded_remove) (use less.IH in auto)
  have num: "bounded L n (modifyS (\<lambda>(s, st). (s\<lparr>hb_num_stopped := hb_num_stopped s + m\<rparr>, st)))" for m
    by (auto simp: bounded_def wp_simps indexed_def total_live_def case_prod_unfold)
  show ?case
    unfolding process_bracket.simps(2) [of n] cleanup_full_def kill_bad_def stop_idle_trial_def
    by (intro bounded_intros mild_intros rem num less.prems) auto
qed

lemma bounded_update_stats:
  assumes "i < L"
  shows "bounded L n (on_bracket i (update_trial_stats trial result))"
proof (rule bounded_on_bracket [OF assms])
  show "update_trial_stats trial result b \<noteq> Inl RuntimeError" for b
    unfolding update_trial_stats_def by (intro mild_bindE mild_intros) simp
  have "length (dset d k v) \<le> length d" if "dmem k d" for k v and d :: "(string, trial_result option) dict"
    using that dset_same_keys [of k d v] by (metis dmem_iff length_map order_refl)
  then show "length (hbr_live_trials b') \<le> length (hbr_live_trials b)" if "update_trial_stats trial result b = Inr b'" for b b'
    using that by (auto simp: update_trial_stats_def result_simps)
qed

lemma bounded_result: "bounded L n (hb_on_trial_result (Suc n) trial result)"
  unfolding bounded_def
proof (intro allI impI)
  fix t
  assume t: "indexed L t \<and> total_live t \<le> n"
  obtain s st where st: "t = (s, st)" by fastforce
  show "wp (hb_on_trial_result (Suc n) trial result) (\<lambda>_ t'. indexed L t' \<and> total_live t' \<le> total_live t) (\<lambda>e _. e \<noteq> RuntimeError) t"
  proof (cases "map_of (hb_trial_info s) trial")
    case None
    then show ?thesis by (simp add: hb_on_trial_result_def st wp_simps dindex_def)
  next
    case (Some p)
    obtain i j where p: "p = (i, j)" by fastforce
    have i: "i < L" using t map_of_SomeD [OF Some] by (auto simp: indexed_def st p)
    have "bounded L n (thenS (on_bracket i (update_trial_stats trial result)) (bindS (get_bracket i) (\<lambda>b.
        bindS (liftS (continue_trial trial b)) (\<lambda>go. if go then retS CONTINUE else process_bracket (Suc n) i))))"
      by (intro bounded_intros mild_intros bounded_update_stats bounded_process i)
    then show ?thesis using Some t unfolding bounded_def by (simp add: hb_on_trial_result_def st p wp_simps)
  qed
qed

lemma bounded_on_remove: "bounded L n (hb_on_trial_remove (Suc n) trial)"
  unfolding hb_on_trial_remove_def by (rule bounded_remove) (use bounded_process in \<open>auto simp: bounded_def\<close>)

lemma mild_total_work: "total_work_loop eta max_t c k n r work \<noteq> Inl RuntimeError"
  by (induction k arbitrary: n r work) (auto simp: next_n_def result_simps)

lemma append_to_band_indexed:
  assumes "indexed L (s, st)" and "L \<le> length bs" and "\<forall>i. b = Some i \<longrightarrow> i < length bs"
  shows "indexed (length bs) (append_to_band b (s\<lparr>hb_brackets := bs\<rparr>), st)"
proof -
  let ?bands = "hb_hyperbands s" and ?n = "hb_band_idx s"
  have old: "i < length bs" if "band \<in> set ?bands" "Some i \<in> set band" for band i
    using assms(1,2) that by (force simp: indexed_def)
  have n: "?bands ! ?n \<in> set ?bands" using assms(1) by (auto simp: indexed_def)
  have "i < length bs" if band: "band \<in> set (?bands[?n := ?bands ! ?n @ [b]])" and i: "Some i \<in> set band" for band i
  proof -
    have "band \<in> set ?bands \<or> band = ?bands ! ?n @ [b]" using band set_update_subset_insert by fast
    then show ?thesis using old [OF _ i] old [OF n] assms(3) i by auto
  qed
  then show ?thesis using assms by (force simp: append_to_band_def indexed_def)
qed

lemma loop_returns:
  assumes "indexed (length (hb_brackets s)) (s, st)"
  shows "\<exists>r s'. new_bracket_loop s = Some (r, s') \<and> indexed (length (hb_brackets s')) (s', st)
    \<and> (r = Inr () \<longrightarrow> hb_state_bracket s' \<noteq> None) \<and> r \<noteq> Inl RuntimeError"
  using assms
proof (induction "nat (hb_s_max_1 s - int (length (hb_hyperbands s ! hb_band_idx s)))" arbitrary: s rule: less_induct)
  case less
  define s1 where "s1 = (if cur_band_filled s
    then s\<lparr>hb_hyperbands := hb_hyperbands s @ [[]], hb_band_idx := hb_band_idx s + 1\<rparr> else s)"
  define k where "k = length (hb_hyperbands s1 ! hb_band_idx s1)"
  have s1: "indexed (length (hb_brackets s1)) (s1, st)" "hb_brackets s1 = hb_brackets s" "hb_s_max_1 s1 = hb_s_max_1 s"
    using less.prems by (auto simp: s1_def indexed_def)
  note step = new_bracket_loop.simps [of s, folded s1_def, unfolded Let_def, folded k_def]
  show ?case
  proof (cases "int k < hb_s_max_1 s1 \<and> get_r0 s1 k = 0")
    case True
    have "get_r0 s1 0 = hb_max_t_attr s1" using s1(1) by (simp add: get_r0_def py_int_def indexed_def)
    then have "k \<noteq> 0" using True s1(1) by (metis (no_types, lifting) case_prodD indexed_def less_irrefl)
    then have nf: "s1 = s" using less.prems by (auto simp: k_def s1_def indexed_def nth_append split: if_splits)
    let ?s2 = "append_to_band None s"
    have idx: "hb_band_idx s < length (hb_hyperbands s)" using less.prems by (simp add: indexed_def)
    have s2: "indexed (length (hb_brackets ?s2)) (?s2, st)"
      using append_to_band_indexed [OF less.prems order_refl, of None] by (simp add: append_to_band_def)
    have "nat (hb_s_max_1 ?s2 - int (length (hb_hyperbands ?s2 ! hb_band_idx ?s2)))
        < nat (hb_s_max_1 s - int (length (hb_hyperbands s ! hb_band_idx s)))"
      using True idx by (simp add: append_to_band_def nf k_def)
    from less.hyps [OF this s2] show ?thesis using step True nf by simp
  next
    case False
    show ?thesis
    proof (cases "int k < hb_s_max_1 s1")
      case True
      have mild: "create_bracket k s1 \<noteq> Inl RuntimeError"
        unfolding create_bracket_def init_hb_bracket_def by (intro mild_bindE mild_total_work) simp
      show ?thesis
      proof (cases "create_bracket k s1")
        case (Inl e)
        then show ?thesis using step False True s1(1) mild by auto
      next
        case (Inr b)
        let ?bs = "hb_brackets s1 @ [b]"
        have "indexed (length ?bs) (append_to_band (Some (length (hb_brackets s1))) (s1\<lparr>hb_brackets := ?bs\<rparr>), st)"
          by (rule append_to_band_indexed [OF s1(1)]) auto
        then show ?thesis using step False True Inr by (simp add: append_to_band_def)
      qed
    qed (use step s1(1) in auto)
  qed
qed

definition hb_ok :: "hyperband \<times> (string, trial_status) dict \<Rightarrow> bool" where
  "hb_ok t \<longleftrightarrow> indexed (length (hb_brackets (fst t))) t"

lemma enough_fuel_eq: "enough_fuel t = Suc (Suc (total_live t))"
  by (simp add: enough_fuel_def total_live_def)

lemma bounded_ok:
  assumes "bounded (length (hb_brackets (fst t))) n m" and "total_live t \<le> n" and "hb_ok t" and "m t = (Inr x, t')"
  shows "hb_ok t'"
proof -
  have "wp m (\<lambda>_ t'. indexed (length (hb_brackets (fst t))) t' \<and> total_live t' \<le> total_live t) (\<lambda>e _. e \<noteq> RuntimeError) t"
    using assms(1-3) unfolding bounded_def hb_ok_def by blast
  then have "indexed (length (hb_brackets (fst t))) t'" using assms(4) by (simp add: wp_def)
  then show ?thesis by (auto simp: hb_ok_def indexed_def)
qed

lemma hb_add_returns:
  assumes "hb_ok (s, st)"
  shows "\<exists>r s'. hb_on_trial_add trial s = Some (r, s') \<and> hb_ok (s', st)"
proof (cases "\<not> truthy (hb_metric s) \<or> hb_metric_op s = None")
  case True
  then show ?thesis using assms by (simp add: hb_on_trial_add_def)
next
  case False
  let ?loop = "if (case hb_state_bracket s of None \<Rightarrow> True | Some i \<Rightarrow> filled (hb_brackets s ! i)) then new_bracket_loop s else Some (Inr (), s)"
  have "\<exists>r s1. ?loop = Some (r, s1) \<and> hb_ok (s1, st) \<and> (r = Inr () \<longrightarrow> hb_state_bracket s1 \<noteq> None)"
    using loop_returns [of s st] assms by (auto simp: hb_ok_def split: option.splits)
  then obtain r s1 where loop: "?loop = Some (r, s1)" and ok: "hb_ok (s1, st)" and some: "r = Inr () \<longrightarrow> hb_state_bracket s1 \<noteq> None"
    by blast
  show ?thesis
  proof (cases r)
    case (Inl e)
    then show ?thesis using False loop ok by (auto simp: hb_on_trial_add_def)
  next
    case (Inr u)
    then obtain i where i: "hb_state_bracket s1 = Some i" using some by auto
    show ?thesis
    proof (cases "add_trial trial (hb_brackets s1 ! i)")
      case (Inl e)
      then show ?thesis using False loop ok \<open>r = Inr u\<close> i by (auto simp: hb_on_trial_add_def)
    next
      case (Inr b)
      have "hb_ok (s1\<lparr>hb_brackets := (hb_brackets s1)[i := b], hb_trial_info := dset (hb_trial_info s1) trial (i, hb_band_idx s1)\<rparr>, st)"
        using ok i by (auto simp: hb_ok_def indexed_def dest!: subsetD [OF set_dset_subset])
      then show ?thesis using False loop \<open>r = Inr u\<close> i Inr by (auto simp: hb_on_trial_add_def)
    qed
  qed
qed

lemma bounded_execute [bounded_intros]: "bounded L n (execute_action trial d)"
  unfolding execute_action_def by (cases d) (simp_all add: bounded_intros)

lemma hb_step_ok: "hb_step f t t' \<Longrightarrow> hb_ok t \<Longrightarrow> hb_ok t'"
proof (induction rule: hb_step.induct)
  case (hb_add trial st s s')
  then show ?case using hb_add_returns [of s st trial] by (auto simp: hb_ok_def indexed_def)
next
  case (hb_start t trial t')
  then show ?case using bounded_ok [OF bounded_set_status order_refl] by blast
next
  case (hb_report t trial result t')
  show ?case
    by (rule bounded_ok [OF bounded_bindS [OF bounded_result bounded_execute] _ hb_report.prems hb_report.hyps(2) [unfolded enough_fuel_eq]]) simp
next
  case (hb_end t trial result t')
  show ?case
    by (rule bounded_ok [OF bounded_thenS [OF bounded_on_remove bounded_set_status] _ hb_end.prems
          hb_end.hyps(2) [unfolded hb_on_trial_complete_def enough_fuel_eq]]) simp
next
  case (hb_fail t trial t')
  show ?case
    by (rule bounded_ok [OF bounded_thenS [OF bounded_on_remove bounded_set_status] _ hb_fail.prems
          hb_fail.hyps(2) [unfolded hb_on_trial_error_def enough_fuel_eq]]) simp
next
  case (hb_stop t trial t')
  show ?case
    by (rule bounded_ok [OF bounded_thenS [OF bounded_on_remove bounded_set_status] _ hb_stop.prems
          hb_stop.hyps(2) [unfolded stop_idle_trial_def enough_fuel_eq]]) simp
qed

lemma init_hb_ok: "init_hyperband l ta me mo mt rf sl = Inr s \<Longrightarrow> hb_ok (s, [])"
  by (auto simp: init_hyperband_def result_simps hb_ok_def indexed_def)

interpretation hyperband: invariant_system
  "\<lambda>t. \<exists>l ta me mo mt rf sl s. init_hyperband l ta me mo mt rf sl = Inr s \<and> t = (s, [])" "hb_step f" hb_ok for f
  by unfold_locales (auto intro: init_hb_ok hb_step_ok)

text \<open>C24: The callbacks end. In every state that can be reached, the loop of \<open>on_trial_add\<close> that
  looks for a bracket ends, and the calls between \<open>_process_bracket\<close>, \<open>stop_trial\<close> and
  \<open>on_trial_remove\<close> nest no deeper than there are live trials: with that much fuel and two more
  a report, a removal, a completion and a failure of a trial never run out of it.\<close>

theorem hyperband_callbacks_end:
  assumes init: "init_hyperband l ta me mo mt rf sl = Inr s0" and reach: "reaches (hb_step f) (s0, []) t"
  shows "(\<exists>r s'. hb_on_trial_add trial (fst t) = Some (r, s'))
    \<and> fst (hb_on_trial_result (enough_fuel t) trial result t) \<noteq> Inl RuntimeError
    \<and> fst (hb_on_trial_remove (enough_fuel t) trial t) \<noteq> Inl RuntimeError
    \<and> fst (hb_on_trial_complete (enough_fuel t) trial result t) \<noteq> Inl RuntimeError
    \<and> fst (hb_on_trial_error (enough_fuel t) trial t) \<noteq> Inl RuntimeError"
proof -
  have ok: "hb_ok t" using hyperband.reaches_invar [OF reach] init by blast
  have bounded: "fst (m t) \<noteq> Inl RuntimeError" if "bounded (length (hb_brackets (fst t))) (Suc (total_live t)) m" for m :: "'a hb_prog"
  proof -
    have "wp m (\<lambda>_ t'. indexed (length (hb_brackets (fst t))) t' \<and> total_live t' \<le> total_live t) (\<lambda>e _. e \<noteq> RuntimeError) t"
      using that ok le_SucI [OF order_refl] unfolding bounded_def hb_ok_def by blast
    then show ?thesis by (auto simp: wp_def split: prod.splits sum.splits)
  qed
  show ?thesis
    unfolding hb_on_trial_complete_def hb_on_trial_error_def enough_fuel_eq
    using hb_add_returns [of "fst t" "snd t" trial] ok bounded [OF bounded_result] bounded [OF bounded_on_remove] by auto
qed

theorem hyperband_callbacks_end_witness:
  "fst (hb_on_trial_result (enough_fuel (snd (ex_hb_run 3 9 2))) ''f'' (ex_report 3 3) (snd (ex_hb_run 3 9 2))) \<noteq> Inl RuntimeError"
proof -
  have "fst (ex_hb_run 3 9 2) = Inr ()" by code_simp
  then have run: "ex_hb_run 3 9 2 = (Inr (), snd (ex_hb_run 3 9 2))" by (metis prod.collapse)
  have init: "init_hyperband (\<lambda>max_t eta. 2) ''training_iteration'' (Some ''loss'') (Some ''max'') 9 3 True = Inr (ex_hb 3 9)" by code_simp
  show ?thesis using hyperband_callbacks_end [OF init ex_hb_run_reaches [OF run], of "''f''" "ex_report 3 3"] by blast
qed



end
