(* ===== verification/Tune_Median.thy ===== *)
theory Tune_Median
  imports Tune_Schedulers
begin

text \<open>
  \<open>median_stopping_rule.py\<close>: a trial is stopped when its best result is worse than the median of the
  running means of the other trials. A reported value is a number or
  \<open>None\<close>; a mean or median is \<open>None\<close> where it is NaN. \<open>np.mean\<close> and
  \<open>np.median\<close> are parameters; \<open>numpy_ok\<close> is what is documented of them: the mean of nothing is
  NaN, and so is a median over a NaN.
\<close>

section \<open>The rule\<close>

record median_rule =
  mr_stopped_trials :: "string list"
  mr_grace_period :: rat
  mr_min_samples_required :: int
  mr_min_time_slice :: rat
  mr_metric :: "string option"
  mr_mode :: "string option"
  mr_compare_max :: "bool option"
  mr_time_attr :: string
  mr_hard_stop :: bool
  mr_last_pause :: "(string, rat) dict"
  mr_results :: "(string, trial_result list) dict"

text \<open>\<open>_compare_op\<close> is \<open>max\<close> or \<open>min\<close>; \<open>_worst\<close> is set together with it and never read.\<close>

definition init_median_rule ::
  "string \<Rightarrow> string option \<Rightarrow> string option \<Rightarrow> rat \<Rightarrow> int \<Rightarrow> rat \<Rightarrow> bool \<Rightarrow> median_rule result" where
  "init_median_rule time_attr metric mode grace_period min_samples_required min_time_slice hard_stop =
     bindE (assertE (truthy mode \<longrightarrow> mode \<in> {Some ''min'', Some ''max''})) (\<lambda>_.
       Inr \<lparr>mr_stopped_trials = [], mr_grace_period = grace_period, mr_min_samples_required = min_samples_required,
            mr_min_time_slice = min_time_slice, mr_metric = metric, mr_mode = mode,
            mr_compare_max = (if truthy mode then Some (mode = Some ''max'') else None), mr_time_attr = time_attr,
            mr_hard_stop = hard_stop, mr_last_pause = [], mr_results = []\<rparr>)"

definition mr_set_search_properties :: "string option \<Rightarrow> string option \<Rightarrow> median_rule \<Rightarrow> bool \<times> median_rule" where
  "mr_set_search_properties metric mode s =
     (if truthy (mr_metric s) \<and> truthy metric then (False, s)
      else if truthy (mr_mode s) \<and> truthy mode then (False, s)
      else
        let s1 = s\<lparr>mr_metric := (if truthy metric then metric else mr_metric s),
                   mr_mode := (if truthy mode then mode else mr_mode s)\<rparr>;
            s2 = s1\<lparr>mr_compare_max := Some (mr_mode s1 = Some ''max'')\<rparr>
        in (True, if mr_metric s2 = None \<and> truthy (mr_mode s2)
                  then s2\<lparr>mr_metric := Some DEFAULT_METRIC\<rparr> else s2))"

definition mr_on_trial_add :: "median_rule \<Rightarrow> unit result" where
  "mr_on_trial_add s = (if \<not> truthy (mr_metric s) \<or> mr_compare_max s = None then Inl ValueError else Inr ())"

text \<open>\<open>r[self._metric]\<close> and \<open>r[self._time_attr]\<close>, as numbers.\<close>

definition attr_value :: "string \<Rightarrow> trial_result \<Rightarrow> rat result" where
  "attr_value a r = bindE (dindex r a) (\<lambda>v. case v of None \<Rightarrow> Inl TypeError | Some x \<Rightarrow> Inr x)"

fun last_time :: "string \<Rightarrow> trial_result list \<Rightarrow> rat result" where
  "last_time a [] = Inl IndexError"
| "last_time a (r # rs) = attr_value a (last (r # rs))"

definition trials_beyond_time :: "median_rule \<Rightarrow> rat \<Rightarrow> string list result" where
  "trials_beyond_time s time =
     bindE (mapE (\<lambda>(t, rs). bindE (last_time (mr_time_attr s) rs) (\<lambda>x. Inr (t, x \<ge> time))) (mr_results s)) (\<lambda>ts.
       Inr (map fst (filter snd ts)))"

definition in_scope :: "median_rule \<Rightarrow> rat \<Rightarrow> trial_result \<Rightarrow> bool result" where
  "in_scope s time r =
     bindE (attr_value (mr_time_attr s) r) (\<lambda>t. Inr (mr_grace_period s \<le> t \<and> t \<le> time))"

definition scoped_results :: "median_rule \<Rightarrow> rat \<Rightarrow> trial_result list \<Rightarrow> trial_result list result" where
  "scoped_results s time rs =
     bindE (mapE (\<lambda>r. bindE (in_scope s time r) (\<lambda>b. Inr (r, b))) rs) (\<lambda>ps. Inr (map fst (filter snd ps)))"

text \<open>The list \<open>[r[self._metric] for r in results]\<close>; taking the mean, the maximum or the minimum of
  it, or comparing that with a number, fails when it holds a \<open>None\<close>.\<close>

definition metric_values :: "string \<Rightarrow> trial_result list \<Rightarrow> rat list result" where
  "metric_values metric rs =
     bindE (mapE (\<lambda>r. dindex r metric) rs) (mapE (\<lambda>v. case v of None \<Rightarrow> Inl TypeError | Some x \<Rightarrow> Inr x))"

definition running_mean :: "(rat list \<Rightarrow> rat option) \<Rightarrow> median_rule \<Rightarrow> string \<Rightarrow> rat \<Rightarrow> string \<Rightarrow> rat option result" where
  "running_mean np_mean s metric time trial =
     bindE (scoped_results s time (dget_or (mr_results s) trial [])) (\<lambda>rs.
     bindE (metric_values metric rs) (\<lambda>xs. Inr (np_mean xs)))"

definition median_result ::
  "(rat list \<Rightarrow> rat option) \<Rightarrow> (rat option list \<Rightarrow> rat option) \<Rightarrow> median_rule \<Rightarrow> string \<Rightarrow> rat \<Rightarrow> string list \<Rightarrow> rat option result" where
  "median_result np_mean np_median s metric time trials =
     bindE (mapE (running_mean np_mean s metric time) trials) (\<lambda>ms. Inr (np_median ms))"

definition best_result :: "median_rule \<Rightarrow> string \<Rightarrow> string \<Rightarrow> rat result" where
  "best_result s metric trial =
     bindE (metric_values metric (dget_or (mr_results s) trial [])) (\<lambda>xs.
       case mr_compare_max s of
         None \<Rightarrow> Inl TypeError
       | Some compare_max \<Rightarrow>
           if xs = [] then Inl ValueError else Inr (if compare_max then Max (set xs) else Min (set xs)))"

text \<open>\<open>compare_op(median, best) != best\<close>: \<open>max(a, b)\<close> is \<open>a\<close> unless \<open>b > a\<close>, and NaN
  compares with nothing and differs from everything.\<close>

definition worse_than_median :: "bool \<Rightarrow> rat option \<Rightarrow> rat \<Rightarrow> bool" where
  "worse_than_median compare_max median best =
     (case median of
        None \<Rightarrow> True
      | Some m \<Rightarrow> (if compare_max then (if best > m then best else m) else (if best < m then best else m)) \<noteq> best)"

text \<open>\<open>live\<close> are the statuses of the live trials of the runner.\<close>

definition on_insufficient_samples :: "trial_status list \<Rightarrow> median_rule \<Rightarrow> string \<Rightarrow> rat \<Rightarrow> decision" where
  "on_insufficient_samples live s trial time =
     (let pause = (case map_of (mr_last_pause s) trial of None \<Rightarrow> True | Some t \<Rightarrow> time - t > mr_min_time_slice s)
      in if pause \<and> list_ex (\<lambda>x. x = PENDING \<or> x = PAUSED) live then PAUSE else CONTINUE)"

definition judge_trial ::
  "(rat list \<Rightarrow> rat option) \<Rightarrow> (rat option list \<Rightarrow> rat option) \<Rightarrow> string \<Rightarrow> string list \<Rightarrow> string \<Rightarrow> rat \<Rightarrow> median_rule
    \<Rightarrow> (decision \<times> median_rule) result" where
  "judge_trial np_mean np_median metric trials trial time s =
     bindE (median_result np_mean np_median s metric time trials) (\<lambda>median.
     bindE (best_result s metric trial) (\<lambda>best.
       if worse_than_median (mr_compare_max s = Some True) median best then
         Inr (if mr_hard_stop s then STOP else PAUSE, s\<lparr>mr_stopped_trials := List.insert trial (mr_stopped_trials s)\<rparr>)
       else Inr (CONTINUE, s)))"

definition compare_trial ::
  "(rat list \<Rightarrow> rat option) \<Rightarrow> (rat option list \<Rightarrow> rat option) \<Rightarrow> trial_status list \<Rightarrow> string \<Rightarrow> string \<Rightarrow> rat \<Rightarrow> median_rule
    \<Rightarrow> (decision \<times> median_rule) result" where
  "compare_trial np_mean np_median live metric trial time s =
     (if time < mr_grace_period s then Inr (CONTINUE, s)
      else
        bindE (trials_beyond_time s time) (\<lambda>beyond.
        bindE (if trial \<in> set beyond then Inr (remove1 trial beyond) else Inl ValueError) (\<lambda>trials.
        if int (length trials) < mr_min_samples_required s then
          let action = on_insufficient_samples live s trial time
          in Inr (action, if action = PAUSE then s\<lparr>mr_last_pause := dset (mr_last_pause s) trial time\<rparr> else s)
        else judge_trial np_mean np_median metric trials trial time s)))"

definition mr_on_trial_result ::
  "(rat list \<Rightarrow> rat option) \<Rightarrow> (rat option list \<Rightarrow> rat option) \<Rightarrow> trial_status list \<Rightarrow> string \<Rightarrow> trial_result \<Rightarrow> median_rule
    \<Rightarrow> (decision \<times> median_rule) result" where
  "mr_on_trial_result np_mean np_median live trial result s =
     (case mr_metric s of
        None \<Rightarrow> Inr (CONTINUE, s)
      | Some metric \<Rightarrow>
          if \<not> dmem (mr_time_attr s) result \<or> \<not> dmem metric result then Inr (CONTINUE, s)
          else if trial \<in> set (mr_stopped_trials s) then
            bindE (assertE (\<not> mr_hard_stop s)) (\<lambda>_. Inr (CONTINUE, s))
          else
            bindE (attr_value (mr_time_attr s) result) (\<lambda>time.
              compare_trial np_mean np_median live metric trial time
                (s\<lparr>mr_results := dset (mr_results s) trial (dget_or (mr_results s) trial [] @ [result])\<rparr>)))"

definition mr_on_trial_complete :: "string \<Rightarrow> trial_result \<Rightarrow> median_rule \<Rightarrow> median_rule" where
  "mr_on_trial_complete trial result s =
     s\<lparr>mr_results := dset (mr_results s) trial (dget_or (mr_results s) trial [] @ [result])\<rparr>"

section \<open>numpy\<close>

definition median_of :: "rat list \<Rightarrow> rat" where
  "median_of xs = (let ys = sort xs; n = length xs in (ys ! ((n - 1) div 2) + ys ! (n div 2)) / 2)"

definition numpy_ok :: "(rat list \<Rightarrow> rat option) \<Rightarrow> (rat option list \<Rightarrow> rat option) \<Rightarrow> bool" where
  "numpy_ok np_mean np_median \<longleftrightarrow>
     (\<forall>xs. np_mean xs = (if xs = [] then None else Some (sum_list xs / of_nat (length xs))))
     \<and> (\<forall>xs. xs \<noteq> [] \<longrightarrow> np_median (map Some xs) = Some (median_of xs)) \<and> (\<forall>xs. None \<in> set xs \<longrightarrow> np_median xs = None)"

section \<open>Trials that report numbers\<close>

abbreviation value_of :: "string \<Rightarrow> trial_result \<Rightarrow> rat" where
  "value_of a r \<equiv> the (the (map_of r a))"

definition numeric :: "median_rule \<Rightarrow> trial_result \<Rightarrow> bool" where
  "numeric s r \<longleftrightarrow> (\<exists>me t x. mr_metric s = Some me \<and> map_of r (mr_time_attr s) = Some (Some t) \<and> map_of r me = Some (Some x))"

definition median_ok :: "median_rule \<Rightarrow> bool" where
  "median_ok s \<longleftrightarrow> wf_dict (mr_results s) \<and> (\<forall>(t, rs) \<in> set (mr_results s). rs \<noteq> [] \<and> (\<forall>r \<in> set rs. numeric s r))"

abbreviation record_result :: "string \<Rightarrow> trial_result \<Rightarrow> median_rule \<Rightarrow> median_rule" where
  "record_result trial r s \<equiv> s\<lparr>mr_results := dset (mr_results s) trial (dget_or (mr_results s) trial [] @ [r])\<rparr>"

inductive median_step ::
  "(rat list \<Rightarrow> rat option) \<Rightarrow> (rat option list \<Rightarrow> rat option) \<Rightarrow> median_rule \<Rightarrow> median_rule \<Rightarrow> bool" for mean med where
  report: "numeric s r \<Longrightarrow> mr_on_trial_result mean med live trial r s = Inr (action, s') \<Longrightarrow> median_step mean med s s'"
| complete: "numeric s r \<Longrightarrow> median_step mean med s (mr_on_trial_complete trial r s)"

lemma median_ok_results:
  assumes "median_ok s" and "(t, rs) \<in> set (mr_results s)"
  shows "rs \<noteq> []" "\<forall>r \<in> set rs. numeric s r" "dget_or (mr_results s) t [] = rs"
  using assms by (auto simp: median_ok_def intro: dget_or_in)

lemma median_ok_all: "median_ok s \<Longrightarrow> r \<in> set (dget_or (mr_results s) t []) \<Longrightarrow> numeric s r"
  by (cases "map_of (mr_results s) t") (simp_all add: dget_or_def median_ok_results(2) [OF _ map_of_SomeD, rule_format])

lemma record_result_ok:
  assumes "median_ok s" and "numeric s r"
  shows "median_ok (record_result trial r s)"
proof -
  have "rs \<noteq> [] \<and> (\<forall>q \<in> set rs. numeric s q)"
    if "(t, rs) \<in> set (dset (mr_results s) trial (dget_or (mr_results s) trial [] @ [r]))" for t rs
  proof -
    have "(t, rs) = (trial, dget_or (mr_results s) trial [] @ [r]) \<or> (t, rs) \<in> set (mr_results s)"
      using that set_dset_subset by fast
    then show ?thesis using median_ok_results [OF assms(1)] median_ok_all [OF assms(1)] assms(2) by auto
  qed
  moreover have "numeric (record_result trial r s) = numeric s" by (simp add: numeric_def fun_eq_iff)
  ultimately show ?thesis using assms(1) by (auto simp: median_ok_def)
qed

text \<open>A report leaves the recorded results as they are or appends itself to them.\<close>

lemma judge_trial_keeps:
  assumes "judge_trial mean med me trials trial time s = Inr (action, s')"
  shows "mr_results s' = mr_results s \<and> mr_metric s' = mr_metric s \<and> mr_time_attr s' = mr_time_attr s"
  using assms by (auto simp: judge_trial_def result_simps split: if_splits)

lemma compare_trial_keeps:
  assumes "compare_trial mean med live me trial time s = Inr (action, s')"
  shows "mr_results s' = mr_results s \<and> mr_metric s' = mr_metric s \<and> mr_time_attr s' = mr_time_attr s"
  using assms by (auto simp: compare_trial_def Let_def bindE_eq_Inr_iff split: if_splits dest: judge_trial_keeps)

lemma report_results:
  assumes "mr_on_trial_result mean med live trial r s = Inr (action, s')"
  shows "mr_results s' \<in> {mr_results s, mr_results (record_result trial r s)} \<and> mr_metric s' = mr_metric s
    \<and> mr_time_attr s' = mr_time_attr s"
proof -
  define s1 where "s1 = record_result trial r s"
  have "s' = s \<or> (\<exists>me time. compare_trial mean med live me trial time s1 = Inr (action, s'))"
    using assms by (auto simp: mr_on_trial_result_def bindE_eq_Inr_iff simp flip: s1_def split: option.splits if_splits)
  then have "s' = s \<or> mr_results s' = mr_results s1 \<and> mr_metric s' = mr_metric s1 \<and> mr_time_attr s' = mr_time_attr s1"
    using compare_trial_keeps by blast
  moreover have "mr_metric s1 = mr_metric s" "mr_time_attr s1 = mr_time_attr s" by (simp_all add: s1_def)
  ultimately show ?thesis unfolding s1_def [symmetric] by auto
qed

lemma median_step_ok: "median_step mean med s s' \<Longrightarrow> median_ok s \<Longrightarrow> median_ok s'"
proof (induction rule: median_step.induct)
  case (report s r live trial action s')
  have "numeric s' = numeric s" "numeric (record_result trial r s) = numeric s"
    using report_results [OF report.hyps(2)] by (simp_all add: numeric_def fun_eq_iff)
  then have "mr_results s' = mr_results s \<Longrightarrow> median_ok s' = median_ok s"
    and "mr_results s' = mr_results (record_result trial r s) \<Longrightarrow> median_ok s' = median_ok (record_result trial r s)"
    by (simp_all only: median_ok_def)
  then show ?case
    using record_result_ok [OF report.prems report.hyps(1)] report.prems report_results [OF report.hyps(2)] by blast
next
  case (complete s r trial)
  then show ?case using record_result_ok by (simp add: mr_on_trial_complete_def)
qed

lemma init_median_rule_ok: "init_median_rule ta me mo g n sl h = Inr s \<Longrightarrow> median_ok s"
  by (auto simp: init_median_rule_def median_ok_def wf_dict_def result_simps)

interpretation median: invariant_system "\<lambda>s. \<exists>ta me mo g n sl h. init_median_rule ta me mo g n sl h = Inr s" "median_step mean med" median_ok
  for mean med
  by unfold_locales (auto intro: init_median_rule_ok median_step_ok)

section \<open>What a report decides\<close>

definition scope_values :: "median_rule \<Rightarrow> string \<Rightarrow> rat \<Rightarrow> string \<Rightarrow> rat list" where
  "scope_values s me time t =
     map (value_of me) (filter (\<lambda>r. mr_grace_period s \<le> value_of (mr_time_attr s) r \<and> value_of (mr_time_attr s) r \<le> time)
       (dget_or (mr_results s) t []))"

definition rivals :: "median_rule \<Rightarrow> string \<Rightarrow> rat \<Rightarrow> string list" where
  "rivals s trial time =
     map fst (filter (\<lambda>(t, rs). t \<noteq> trial \<and> time \<le> value_of (mr_time_attr s) (last rs)) (mr_results s))"

lemma mapE_Inr: "(\<And>x. x \<in> set xs \<Longrightarrow> f x = Inr (g x)) \<Longrightarrow> mapE f xs = Inr (map g xs)"
  by (induction xs) auto

lemma numeric_attr: "numeric s r \<Longrightarrow> attr_value (mr_time_attr s) r = Inr (value_of (mr_time_attr s) r)"
  by (auto simp: numeric_def attr_value_def)

lemma metric_values_numeric:
  assumes "\<forall>r \<in> set rs. numeric s r" and "mr_metric s = Some me"
  shows "metric_values me rs = Inr (map (value_of me) rs)"
proof -
  have "\<exists>x. map_of r me = Some (Some x)" if "r \<in> set rs" for r using assms that by (auto simp: numeric_def)
  then have "mapE (\<lambda>r. dindex r me) rs = Inr (map (\<lambda>r. the (map_of r me)) rs)"
    and "mapE (\<lambda>v. case v of None \<Rightarrow> Inl TypeError | Some x \<Rightarrow> Inr x) (map (\<lambda>r. the (map_of r me)) rs)
      = Inr (map the (map (\<lambda>r. the (map_of r me)) rs))"
    by (intro mapE_Inr, force)+
  then show ?thesis by (simp add: metric_values_def comp_def)
qed

lemma running_mean_numeric:
  assumes "median_ok s" and "mr_metric s = Some me"
  shows "running_mean mean s me time t = Inr (mean (scope_values s me time t))"
proof -
  let ?rs = "dget_or (mr_results s) t []"
  let ?in = "\<lambda>r. mr_grace_period s \<le> value_of (mr_time_attr s) r \<and> value_of (mr_time_attr s) r \<le> time"
  have num: "\<forall>r \<in> set ?rs. numeric s r" using median_ok_all [OF assms(1)] by blast
  have "mapE (\<lambda>r. bindE (in_scope s time r) (\<lambda>b. Inr (r, b))) ?rs = Inr (map (\<lambda>r. (r, ?in r)) ?rs)"
    by (rule mapE_Inr) (use num in \<open>simp add: in_scope_def numeric_attr\<close>)
  then have "scoped_results s time ?rs = Inr (filter ?in ?rs)"
    by (simp add: scoped_results_def filter_map comp_def)
  then show ?thesis
    using metric_values_numeric [of "filter ?in ?rs" s me] num assms(2) by (simp add: running_mean_def scope_values_def)
qed

lemma trials_beyond_numeric:
  assumes "median_ok s"
  shows "trials_beyond_time s time = Inr (map fst (filter (\<lambda>(t, rs). time \<le> value_of (mr_time_attr s) (last rs)) (mr_results s)))"
proof -
  have "last_time (mr_time_attr s) rs = Inr (value_of (mr_time_attr s) (last rs))" if "(t, rs) \<in> set (mr_results s)" for t rs
    using median_ok_results(1,2) [OF assms that] numeric_attr [of s "last rs"] by (cases rs) auto
  then have "mapE (\<lambda>(t, rs). bindE (last_time (mr_time_attr s) rs) (\<lambda>x. Inr (t, x \<ge> time))) (mr_results s)
      = Inr (map (\<lambda>(t, rs). (t, time \<le> value_of (mr_time_attr s) (last rs))) (mr_results s))"
    by (intro mapE_Inr) auto
  then show ?thesis by (simp add: trials_beyond_time_def filter_map comp_def case_prod_unfold)
qed

lemma remove1_keys:
  assumes "distinct (map fst d)"
  shows "remove1 k (map fst (filter P d)) = map fst (filter (\<lambda>p. fst p \<noteq> k \<and> P p) d)"
  using assms
proof (induction d)
  case (Cons p d)
  show ?case
  proof (cases "fst p = k")
    case True
    then have "k \<notin> set (map fst d)" using Cons.prems by auto
    then have "k \<notin> set (map fst (filter P d))" and "filter (\<lambda>p. fst p \<noteq> k \<and> P p) d = filter P d"
      by (auto intro!: filter_cong simp: image_iff)
    then show ?thesis using True by (simp add: remove1_idem)
  next
    case False
    then show ?thesis using Cons by auto
  qed
qed simp

lemma filter_dset_other: "filter (\<lambda>p. fst p \<noteq> k \<and> P p) (dset d k v) = filter (\<lambda>p. fst p \<noteq> k \<and> P p) d"
  by (induction d) auto

lemma rivals_record: "rivals (record_result trial r s) trial time = rivals s trial time"
  using filter_dset_other [of trial "\<lambda>(t, rs). time \<le> value_of (mr_time_attr s) (last rs)"]
  by (simp add: rivals_def case_prod_unfold)

text \<open>Once it is old enough and has enough rivals, a report is judged against all of them.\<close>

lemma compare_trial_judges:
  assumes ok: "median_ok s" and r: "numeric s r" and time: "time = value_of (mr_time_attr s) r" "mr_grace_period s \<le> time"
    and enough: "mr_min_samples_required s \<le> int (length (rivals s trial time))"
  shows "compare_trial mean med live me trial time (record_result trial r s)
    = judge_trial mean med me (rivals s trial time) trial time (record_result trial r s)"
proof -
  define s1 where "s1 = record_result trial r s"
  have ok1: "median_ok s1" using record_result_ok [OF ok r] by (simp add: s1_def)
  have ta: "mr_time_attr s1 = mr_time_attr s" "mr_grace_period s1 = mr_grace_period s"
    "mr_min_samples_required s1 = mr_min_samples_required s" by (simp_all add: s1_def)
  let ?late = "\<lambda>(t, rs). time \<le> value_of (mr_time_attr s1) (last rs)"
  have beyond: "trials_beyond_time s1 time = Inr (map fst (filter ?late (mr_results s1)))"
    by (rule trials_beyond_numeric [OF ok1])
  have "map_of (mr_results s1) trial = Some (dget_or (mr_results s) trial [] @ [r])" by (simp add: s1_def)
  then have "(trial, dget_or (mr_results s) trial [] @ [r]) \<in> set (filter ?late (mr_results s1))"
    using time by (auto simp: ta dest: map_of_SomeD)
  then have mem: "trial \<in> set (map fst (filter ?late (mr_results s1)))" by force
  have "distinct (map fst (mr_results s1))" using ok1 by (simp add: median_ok_def wf_dict_def)
  then have "remove1 trial (map fst (filter ?late (mr_results s1))) = rivals s1 trial time"
    using remove1_keys [of "mr_results s1" trial ?late] by (simp add: rivals_def case_prod_unfold)
  also have "rivals s1 trial time = rivals s trial time" unfolding s1_def by (rule rivals_record)
  finally show ?thesis using beyond mem time(2) enough unfolding s1_def [symmetric] by (simp add: compare_trial_def ta)
qed

abbreviation means :: "median_rule \<Rightarrow> string \<Rightarrow> rat \<Rightarrow> string list \<Rightarrow> rat list" where
  "means s me time ts \<equiv> map (\<lambda>t. let xs = scope_values s me time t in sum_list xs / of_nat (length xs)) ts"

definition best_reported :: "bool \<Rightarrow> string \<Rightarrow> trial_result list \<Rightarrow> rat" where
  "best_reported c me rs = (if c then Max (value_of me ` set rs) else Min (value_of me ` set rs))"

definition no_scope :: "median_rule \<Rightarrow> string \<Rightarrow> rat \<Rightarrow> string list \<Rightarrow> bool" where
  "no_scope s me time ts = list_ex (\<lambda>t. scope_values s me time t = []) ts"

lemma scope_values_record: "t \<noteq> trial \<Longrightarrow> scope_values (record_result trial r s) me time t = scope_values s me time t"
  by (simp add: scope_values_def)

lemma median_result_eq:
  assumes np: "numpy_ok mean med" and ok: "median_ok s" and me: "mr_metric s = Some me" and ts: "ts \<noteq> []"
  shows "median_result mean med s me time ts
    = Inr (if no_scope s me time ts then None else Some (median_of (means s me time ts)))"
proof -
  have "mapE (running_mean mean s me time) ts = Inr (map (\<lambda>t. mean (scope_values s me time t)) ts)"
    by (rule mapE_Inr) (rule running_mean_numeric [OF ok me])
  then have eq: "median_result mean med s me time ts = Inr (med (map (\<lambda>t. mean (scope_values s me time t)) ts))"
    by (simp add: median_result_def)
  have mean: "mean xs = (if xs = [] then None else Some (sum_list xs / of_nat (length xs)))" for xs
    using np by (simp add: numpy_ok_def)
  have med: "xs \<noteq> [] \<Longrightarrow> med (map Some xs) = Some (median_of xs)" for xs
    using np by (simp add: numpy_ok_def)
  show ?thesis
  proof (cases "no_scope s me time ts")
    case True
    then have "None \<in> set (map (\<lambda>t. mean (scope_values s me time t)) ts)"
      by (force simp: no_scope_def list_ex_iff mean image_iff)
    then show ?thesis using np True eq by (simp add: numpy_ok_def)
  next
    case False
    then have "map (\<lambda>t. mean (scope_values s me time t)) ts = map Some (means s me time ts)"
      by (auto simp: no_scope_def list_ex_iff mean Let_def)
    moreover have "med (map Some (means s me time ts)) = Some (median_of (means s me time ts))"
      by (rule med) (simp add: ts)
    ultimately show ?thesis using False by (simp only: eq if_False)
  qed
qed

lemma best_result_eq:
  assumes ok: "median_ok s" and me: "mr_metric s = Some me" and rs: "map_of (mr_results s) trial = Some rs"
    and c: "mr_compare_max s = Some c"
  shows "best_result s me trial = Inr (best_reported c me rs)"
proof -
  have mem: "(trial, rs) \<in> set (mr_results s)" using rs by (rule map_of_SomeD)
  have "metric_values me rs = Inr (map (value_of me) rs)"
    by (rule metric_values_numeric [OF median_ok_results(2) [OF ok mem] me])
  then show ?thesis
    using median_ok_results(1,3) [OF ok mem] c by (simp add: best_result_def best_reported_def)
qed

lemma worse_than_median_iff:
  "worse_than_median c m best \<longleftrightarrow> (case m of None \<Rightarrow> True | Some m \<Rightarrow> if c then best < m else m < best)"
  by (auto simp: worse_than_median_def split: option.splits)

lemma judged_report:
  assumes np: "numpy_ok mean med" and ok: "median_ok s" and me: "mr_metric s = Some me" and c: "mr_compare_max s = Some c"
    and r: "map_of r (mr_time_attr s) = Some (Some time)" "map_of r me = Some (Some x)" and live: "trial \<notin> set (mr_stopped_trials s)"
    and grace: "mr_grace_period s \<le> time" and enough: "mr_min_samples_required s \<le> int (length (rivals s trial time))"
    and some: "rivals s trial time \<noteq> []"
  shows "mr_on_trial_result mean med running trial r s =
    (let s1 = record_result trial r s; best = best_reported c me (dget_or (mr_results s) trial [] @ [r]);
         median = median_of (means s me time (rivals s trial time))
     in if no_scope s me time (rivals s trial time) \<or> (if c then best < median else median < best)
        then Inr (if mr_hard_stop s then STOP else PAUSE, s1\<lparr>mr_stopped_trials := List.insert trial (mr_stopped_trials s)\<rparr>)
        else Inr (CONTINUE, s1))"
proof -
  define s1 where "s1 = record_result trial r s"
  have num: "numeric s r" using me r by (simp add: numeric_def)
  have ok1: "median_ok s1" using record_result_ok [OF ok num] by (simp add: s1_def)
  have keeps: "mr_metric s1 = Some me" "mr_compare_max s1 = Some c" "mr_hard_stop s1 = mr_hard_stop s"
    "mr_stopped_trials s1 = mr_stopped_trials s" by (simp_all add: s1_def me c)
  have "mr_on_trial_result mean med running trial r s = compare_trial mean med running me trial time s1"
    using me r live by (simp add: mr_on_trial_result_def s1_def dmem_def attr_value_def)
  also have "\<dots> = judge_trial mean med me (rivals s trial time) trial time s1"
    unfolding s1_def by (rule compare_trial_judges [OF ok num _ grace enough]) (simp add: r)
  finally have judged: "mr_on_trial_result mean med running trial r s = judge_trial mean med me (rivals s trial time) trial time s1" .
  have others: "t \<noteq> trial" if "t \<in> set (rivals s trial time)" for t using that by (auto simp: rivals_def)
  have "scope_values s1 me time t = scope_values s me time t" if "t \<in> set (rivals s trial time)" for t
    unfolding s1_def by (rule scope_values_record [OF others [OF that]])
  then have same: "no_scope s1 me time (rivals s trial time) = no_scope s me time (rivals s trial time)"
    "means s1 me time (rivals s trial time) = means s me time (rivals s trial time)"
    by (auto simp: no_scope_def list_ex_iff)
  have best: "best_result s1 me trial = Inr (best_reported c me (dget_or (mr_results s) trial [] @ [r]))"
    by (rule best_result_eq [OF ok1 keeps(1) _ keeps(2)]) (simp add: s1_def)
  show ?thesis
    unfolding judged judge_trial_def median_result_eq [OF np ok1 keeps(1) some] best same s1_def [symmetric]
    by (simp add: worse_than_median_iff keeps Let_def)
qed

text \<open>
  C26: In every state reached from construction, a report of a number by a trial that has not been stopped, at a time
  not before the grace period, that has enough rivals (other trials whose last report is at least as late), is decided
  exactly by the rule when every rival has a result in scope: the report is recorded, and the trial is stopped, or
  paused without \<open>hard_stop\<close>, if and only if the best value it ever reported is strictly worse than the median of
  its rivals' means over the results between the grace period and now.
\<close>

theorem median_rule_exact:
  assumes np: "numpy_ok mean med" and init: "init_median_rule ta m0 mo g n sl h = Inr s0" and reach: "reaches (median_step mean med) s0 s"
    and me: "mr_metric s = Some me" and c: "mr_compare_max s = Some c"
    and r: "map_of r (mr_time_attr s) = Some (Some time)" "map_of r me = Some (Some x)" and live: "trial \<notin> set (mr_stopped_trials s)"
    and grace: "mr_grace_period s \<le> time" and enough: "mr_min_samples_required s \<le> int (length (rivals s trial time))"
    and rival: "rivals s trial time \<noteq> []" and scope: "\<forall>t \<in> set (rivals s trial time). scope_values s me time t \<noteq> []"
  shows "\<exists>action s'. mr_on_trial_result mean med running trial r s = Inr (action, s')
    \<and> mr_results s' = dset (mr_results s) trial (dget_or (mr_results s) trial [] @ [r])
    \<and> (let best = best_reported c me (dget_or (mr_results s) trial [] @ [r]);
           median = median_of (means s me time (rivals s trial time))
       in action = (if (if c then best < median else median < best) then (if mr_hard_stop s then STOP else PAUSE) else CONTINUE)
        \<and> set (mr_stopped_trials s') = (if action = CONTINUE then {} else {trial}) \<union> set (mr_stopped_trials s))"
proof -
  have ok: "median_ok s" using median.reaches_invar [OF reach] init by blast
  have "\<not> no_scope s me time (rivals s trial time)" using scope by (simp add: no_scope_def list_ex_iff)
  then show ?thesis
    using judged_report [OF np ok me c r live grace enough rival, of running] by (simp add: Let_def)
qed

text \<open>
  C34: One rival without a result in scope decides against the trial. A rival that is past the reported time, but has
  no result between the grace period and that time, makes the median NaN, and the trial is stopped (paused without
  \<open>hard_stop\<close>) whatever value it has reported, even one better than every other trial's.
\<close>

theorem median_nan_stops:
  assumes np: "numpy_ok mean med" and init: "init_median_rule ta m0 mo g n sl h = Inr s0" and reach: "reaches (median_step mean med) s0 s"
    and me: "mr_metric s = Some me" and c: "mr_compare_max s = Some c"
    and r: "map_of r (mr_time_attr s) = Some (Some time)" "map_of r me = Some (Some x)" and live: "trial \<notin> set (mr_stopped_trials s)"
    and grace: "mr_grace_period s \<le> time" and enough: "mr_min_samples_required s \<le> int (length (rivals s trial time))"
    and rival: "t \<in> set (rivals s trial time)" "scope_values s me time t = []"
  shows "\<exists>s'. mr_on_trial_result mean med running trial r s = Inr (if mr_hard_stop s then STOP else PAUSE, s')
    \<and> trial \<in> set (mr_stopped_trials s')"
proof -
  have ok: "median_ok s" using median.reaches_invar [OF reach] init by blast
  have "no_scope s me time (rivals s trial time)" and "rivals s trial time \<noteq> []"
    using rival by (auto simp: no_scope_def list_ex_iff)
  then show ?thesis
    using judged_report [OF np ok me c r live grace enough, of running] by (simp add: Let_def)
qed

section \<open>Example\<close>

definition ref_mean :: "rat list \<Rightarrow> rat option" where
  "ref_mean xs = (if xs = [] then None else Some (sum_list xs / of_nat (length xs)))"

definition ref_median :: "rat option list \<Rightarrow> rat option" where
  "ref_median xs = (if xs = [] \<or> None \<in> set xs then None else Some (median_of (map the xs)))"

lemma ref_numpy_ok: "numpy_ok ref_mean ref_median"
  by (auto simp: numpy_ok_def ref_mean_def ref_median_def comp_def)

definition ex_median :: median_rule where
  "ex_median = (case init_median_rule ''training_iteration'' (Some ''reward'') (Some ''max'') 10 1 0 True of Inr s \<Rightarrow> s)"

definition ex_reward :: "rat \<Rightarrow> rat \<Rightarrow> trial_result" where
  "ex_reward t x = [(''training_iteration'', Some t), (''reward'', Some x)]"

definition ex_first :: median_rule where
  "ex_first = (case mr_on_trial_result ref_mean ref_median [] ''a'' (ex_reward 12 1) ex_median of Inr (_, s) \<Rightarrow> s)"

lemma ex_median_init: "init_median_rule ''training_iteration'' (Some ''reward'') (Some ''max'') 10 1 0 True = Inr ex_median"
  by code_simp

lemma ex_median_state: "mr_metric ex_median = Some ''reward''" "mr_time_attr ex_median = ''training_iteration''"
  by code_simp+

lemma ex_first_report: "mr_on_trial_result ref_mean ref_median [] ''a'' (ex_reward 12 1) ex_median = Inr (CONTINUE, ex_first)"
  by code_simp

lemma ex_first_reached: "reaches (median_step ref_mean ref_median) ex_median ex_first"
  by (rule reaches_one, rule median_step.report [OF _ ex_first_report]) (simp add: numeric_def ex_median_state ex_reward_def)

lemma ex_first_state:
  "mr_metric ex_first = Some ''reward''" "mr_time_attr ex_first = ''training_iteration''" "mr_compare_max ex_first = Some True"
  "mr_grace_period ex_first = 10" "mr_min_samples_required ex_first = 1" "mr_hard_stop ex_first" "mr_stopped_trials ex_first = []"
  "mr_results ex_first = [(''a'', [ex_reward 12 1])]"
  by code_simp+

lemma ex_reward_attrs: "map_of (ex_reward t x) (mr_time_attr ex_first) = Some (Some t)" "map_of (ex_reward t x) ''reward'' = Some (Some x)"
  by (simp_all add: ex_reward_def ex_first_state)

lemma ex_rivals: "rivals ex_first ''b'' 12 = [''a'']" "rivals ex_first ''b'' 11 = [''a'']"
  "scope_values ex_first ''reward'' 12 ''a'' = [1]" "scope_values ex_first ''reward'' 11 ''a'' = []"
  by code_simp+

theorem median_rule_exact_witness:
  "\<exists>s'. mr_on_trial_result ref_mean ref_median [] ''b'' (ex_reward 12 0) ex_first = Inr (STOP, s')"
proof -
  have best: "best_reported True ''reward'' (dget_or [(''a'', [ex_reward 12 1])] ''b'' [] @ [ex_reward 12 0]) = 0" by code_simp
  have median: "median_of [1] = 1" by code_simp
  show ?thesis
    using median_rule_exact [where trial = "''b''" and time = 12 and x = 0 and running = "[]",
        OF ref_numpy_ok ex_median_init ex_first_reached ex_first_state(1,3) ex_reward_attrs]
    by (simp add: best median ex_first_state ex_rivals) blast
qed

theorem median_nan_stops_witness:
  "\<exists>s'. mr_on_trial_result ref_mean ref_median [] ''b'' (ex_reward 11 1000) ex_first = Inr (STOP, s') \<and> ''b'' \<in> set (mr_stopped_trials s')"
  using median_nan_stops [where trial = "''b''" and time = 11 and x = 1000 and running = "[]" and t = "''a''",
      OF ref_numpy_ok ex_median_init ex_first_reached ex_first_state(1,3) ex_reward_attrs]
  by (simp add: ex_first_state ex_rivals)

end
