(* ===== verification/Spec2Isabelle.thy ===== *)
theory Spec2Isabelle
  imports Scheduler_Guarantees Load_Metrics Replay_Buffer Actor_Pool Long_Poll Endpoint_State Deployment_Recovery
    Serve_Router Serve_Controller Autoscaler_Limits Tune_HyperBand Tune_Median
begin

text \<open>
  Verification of the control planes of Ray that are written in Python: the cluster autoscaler, Ray Serve's
  controller and router, the early-stopping schedulers of Tune, RLlib's replay buffers and the actor pool. Paths are
  relative to \<open>src/\<close>; \<open>ray/\<close> stands for \<open>python/ray/\<close>.

  \<^bold>\<open>How the code is modelled.\<close> A class is a record, its methods are functions that return the changed record. A dict is an
  association list in insertion order; an exception is a value of \<open>py_error\<close>. A method that cannot raise after a change
  returns \<open>py_error + 'a\<close>; one that can is a program of theory \<open>Stateful\<close>, which keeps what was changed before
  the exception. Floats are exact rationals; hashes are 32-bit words. Objects that are shared and mutated (goals,
  HyperBand's brackets, autoscaling policies) have an identity. Ray itself (remote calls, \<open>ray.wait\<close>, named
  actors), clouds, clocks, random numbers, pickling, numpy and stores are parameters that act on an abstract world;
  what is assumed of them is a named predicate (\<open>pickle_ok\<close>, \<open>percentile_ok\<close>, \<open>numpy_ok\<close>,
  \<open>pow_ok\<close>, \<open>finds_actors\<close>, ...) or the locale \<open>kv_store\<close>, and each has a concrete instance. A coroutine is cut at its
  \<open>await\<close>: the part up to the suspension and the part after it are two functions, so other operations can
  come between. Concurrency is a step relation, and what holds of it is proved for every reachable state by the locale
  \<open>invariant_system\<close>, which each component interprets.

  \<^bold>\<open>Shared theories.\<close> \<open>Ray_Prelude\<close>: exceptions, dicts, counters, reachability, \<open>invariant_system\<close>.
  \<open>Stateful\<close>: stateful programs and their weakest preconditions.

  \<^bold>\<open>Autoscaler\<close> (\<open>ray/autoscaler/_private\<close>). The control loop reads the load, terminates nodes that are idle,
  outdated or too many, asks the demand scheduler what to launch, and queues the launches for launcher threads.
  \<^item> \<open>Resources\<close>, \<open>Bin_Packing\<close>, \<open>Node_Selection\<close>, \<open>Demand_Scheduler\<close>:
    \<open>resource_demand_scheduler.py\<close>, from the resource dictionaries to \<open>get_nodes_to_launch\<close>.
    \<open>Launch_Limits\<close> and \<open>Scheduler_Guarantees\<close> show that a launch plan respects the limits of every node
    type and the cluster, reaches the minimums, is always returned for demands with positive quantities and without
    strictly spread groups (a strictly spread group that cannot be placed and a zero quantity each trip an assertion), and
    that bin packing refines an abstract packing.
  \<^item> \<open>Load_Metrics\<close>: \<open>load_metrics.py\<close>. \<open>Node_Tracking\<close>: \<open>ConcurrentCounter\<close>,
    \<open>node_tracker.py\<close>, \<open>event_summarizer.py\<close>.
  \<^item> \<open>Standard_Autoscaler\<close>: \<open>autoscaler.py\<close>. \<open>Autoscaler_Enforcement\<close> shows what is terminated and
    kept. \<open>Node_Launcher\<close>: \<open>node_launcher.py\<close> and the cluster as a transition system.
    \<open>Autoscaler_Limits\<close> shows that no reachable cluster exceeds the limit of a type, counting nodes, queued and running
    launches, if no launch finishes inside a round; that a round asks for the missing minimum; and that a launch
    finishing inside a round breaks the limit.

  \<^bold>\<open>Serve\<close> (\<open>ray/serve\<close>). The controller stores the target of every deployment, moves its replicas towards it in
  a loop, and tells routers and proxies about changes by long polling; clients wait for goals.
  \<^item> \<open>Serve_Common\<close>: \<open>config.py\<close>, \<open>common.py\<close>, \<open>version.py\<close> (with CRC-32).
    \<open>Serve_Storage\<close>: \<open>storage/\<close>. \<open>Async_Goals\<close>: \<open>async_goal_manager.py\<close>.
    \<open>Long_Poll\<close>: \<open>long_poll.py\<close>, host and client; a poll brings the client up to date.
    \<open>Endpoint_State\<close>: \<open>endpoint_state.py\<close>; routes stay unique and the table is recovered.
  \<^item> \<open>Replica_Actor\<close>, \<open>Deployment_State\<close>, \<open>Deployment_Manager\<close>: \<open>deployment_state.py\<close>.
    \<open>Replica_Container\<close> counts replicas, \<open>Deployment_Loops\<close>, \<open>Deployment_Rollout\<close> and
    \<open>Deployment_Rounds\<close> treat the loops, the rolling update and a round. \<open>Deployment_Guarantees\<close>: rolling updates keep
    enough replicas, scaling never exceeds the target, a client is told of success only when exactly the target runs.
    \<open>Deployment_Recovery\<close>: what is saved is recovered; deletions are not.
  \<^item> \<open>Serve_Autoscaling\<close>: \<open>autoscaling_policy.py\<close>. \<open>Serve_Metrics\<close>: \<open>autoscaling_metrics.py\<close>,
    with Python's \<open>bisect\<close>. \<open>Serve_Controller\<close>: \<open>controller.py\<close>, which composes the managers, the metrics
    and the policies; it shows what an autoscaling step does, and that it can undo a deletion.
  \<^item> \<open>Serve_Router\<close>: \<open>router.py\<close>; no replica gets more queries than it may have, and an assignment waits
    only while all replicas are busy.

  \<^bold>\<open>Tune\<close> (\<open>ray/tune\<close>). The runner reports every result of a trial to a scheduler, which continues, pauses or
  stops it.
  \<^item> \<open>Tune_Schedulers\<close>: \<open>schedulers/trial_scheduler.py\<close> and \<open>async_hyperband.py\<close>; which share of the trials a
    rung lets pass, and that the leader is never stopped early.
  \<^item> \<open>Tune_HyperBand\<close>: \<open>hyperband.py\<close> with \<open>stop_trial\<close> and \<open>_execute_action\<close> of
    \<open>trial_runner.py\<close>; a halving keeps the best, the callbacks end, references stay valid, and an experiment with
    \<open>reduction_factor = 2\<close> can come to a standstill.
  \<^item> \<open>Tune_Median\<close>: \<open>median_stopping_rule.py\<close>; the exact decision, and the NaN that stops good trials.

  \<^bold>\<open>RLlib and utilities.\<close> \<open>Segment_Tree\<close>: \<open>rllib/execution/segment_tree.py\<close>, over a locale of monoids that
  the sum and the minimum tree interpret. \<open>Replay_Buffer\<close>: \<open>rllib/execution/replay_buffer.py\<close>; prioritized sampling
  draws in proportion to the priorities. \<open>Actor_Pool\<close>: \<open>ray/util/actor_pool.py\<close>; \<open>map\<close> returns the
  results in order.

  \<^bold>\<open>Loops, bounds and fuel.\<close> Loops over collections are structural; binary search and the descents in trees have
  termination proofs. HyperBand's \<open>_process_bracket\<close> calls itself through the runner and takes fuel, two more than
  there are live trials, which \<open>hyperband_callbacks_end\<close> shows to be enough in every reachable state; the loop that
  opens a bracket is a \<open>partial_function\<close>, shown there to end. The loops of threads and of the controller are steps or
  rounds, of which there may be any number.

  \<^bold>\<open>Not modelled.\<close> The C++ core, its bindings and the worker process: they are concurrent native code, seen here only
  through the parameters. Cloud providers, updaters, HTTP proxies, replicas' user code, the dashboard, command line tools
  and syncing: I/O without decisions of their own. Population-based training, Bayesian search, RLlib's policies, Train and
  Data: they rest on numerical or third-party libraries. Of the modelled classes, log lines, debug strings, Prometheus
  counters, and the pickling of a Tune scheduler to a file are left out. Rounding of floats is not modelled.
\<close>

end
